(* ===== verification/Prelude.thy ===== *)
theory Prelude
  imports Main "HOL-Library.Word"
begin

text \<open>
  Shared vocabulary of the development: the machine integer types, byte buffers, the
  little- and big-endian encodings the firmware writes out byte by byte, bit sequences in
  transmission order, and parity.  The lemmas declared here are the ones the component
  theories rely on through the simplifier or through the collections named below.
\<close>

unbundle bit_operations_syntax

named_theorems frame_simps \<open>fields an operation leaves unchanged\<close>
named_theorems wire_simps \<open>what an operation puts on the pins\<close>

type_synonym u8 = "8 word"
type_synonym u16 = "16 word"
type_synonym u32 = "32 word"
type_synonym u64 = "64 word"

section \<open>Widths\<close>

lemma unat_bounds:
  "unat (a :: u8) < 256" "unat (b :: u16) < 65536" "unat (c :: u32) < 4294967296"
  using unsigned_less [of a, where 'a = nat] unsigned_less [of b, where 'a = nat]
    unsigned_less [of c, where 'a = nat] by simp_all

lemma unat_ucast_up:
  "LENGTH('a) \<le> LENGTH('b) \<Longrightarrow> unat (ucast (w :: 'a::len word) :: 'b::len word) = unat w"
  by (metis unsigned_less unsigned_ucast_eq take_bit_nat_eq_self_iff order_less_le_trans
      one_le_numeral power_increasing)

lemma unat_of_nat_small: "n < 2 ^ LENGTH('a) \<Longrightarrow> unat (of_nat n :: 'a::len word) = n"
  by (simp add: unsigned_of_nat take_bit_nat_eq_self)

lemma unat_ucast_small:
  "unat (w :: 'a::len word) < 2 ^ LENGTH('b) \<Longrightarrow> unat (ucast w :: 'b::len word) = unat w"
  by (simp add: unsigned_ucast_eq take_bit_nat_eq_self)

lemma ucast_of_nat_u8: "ucast (of_nat k :: u32) = (of_nat k :: u8)"
  by (rule bit_word_eqI) (simp add: bit_ucast_iff bit_of_nat_iff)

lemma unat_ucast_widths [simp]:
  "unat (ucast (a :: u8) :: u16) = unat a" "unat (ucast (a :: u8) :: u32) = unat a"
  "unat (ucast (b :: u16) :: u32) = unat b"
  by (simp_all add: unat_ucast_up)

section \<open>Byte buffers\<close>

text \<open>
  A \<open>const uint8_t *\<close> parameter is read at offsets: the memory from the pointer on, as a
  function.  C reads whatever byte is there, so reads are total; how far an operation reads
  is stated as a property (it depends on no byte beyond).
\<close>

type_synonym mem = "nat \<Rightarrow> u8"

definition mem_of :: "u8 list \<Rightarrow> mem" where
  "mem_of xs = (\<lambda>i. if i < length xs then xs ! i else 0)"

definition mem_from :: "mem \<Rightarrow> nat \<Rightarrow> mem" where
  "mem_from m p = (\<lambda>i. m (p + i))"

definition same_upto :: "nat \<Rightarrow> mem \<Rightarrow> mem \<Rightarrow> bool" where
  "same_upto n m m' \<longleftrightarrow> (\<forall>i < n. m i = m' i)"

lemma mem_from_0 [simp]: "mem_from m 0 = m"
  by (simp add: mem_from_def)

lemma mem_from_from [simp]: "mem_from (mem_from m p) q = mem_from m (p + q)"
  by (simp add: mem_from_def fun_eq_iff add.assoc)

lemma mem_from_at [simp]: "mem_from m p i = m (p + i)"
  by (simp add: mem_from_def)

lemma same_uptoD: "same_upto n m m' \<Longrightarrow> i < n \<Longrightarrow> m i = m' i"
  by (simp add: same_upto_def)

lemma same_upto_mono: "same_upto n m m' \<Longrightarrow> k \<le> n \<Longrightarrow> same_upto k m m'"
  by (simp add: same_upto_def)

section \<open>Little- and big-endian 32-bit values\<close>

definition le32_bytes :: "u32 \<Rightarrow> u8 list" where
  "le32_bytes w = [ucast w, ucast (drop_bit 8 w), ucast (drop_bit 16 w), ucast (drop_bit 24 w)]"

definition le32 :: "u8 \<Rightarrow> u8 \<Rightarrow> u8 \<Rightarrow> u8 \<Rightarrow> u32" where
  "le32 a b c d =
     ucast a OR push_bit 8 (ucast b) OR push_bit 16 (ucast c) OR push_bit 24 (ucast d)"

definition le32_at :: "mem \<Rightarrow> nat \<Rightarrow> u32" where
  "le32_at m p = le32 (m p) (m (p + 1)) (m (p + 2)) (m (p + 3))"

definition le16_at :: "mem \<Rightarrow> nat \<Rightarrow> u32" where
  "le16_at m p = ucast (m p) OR push_bit 8 (ucast (m (p + 1)))"

lemma length_le32_bytes [simp]: "length (le32_bytes w) = 4"
  by (simp add: le32_bytes_def)

lemma le32_roundtrip:
  "le32 (ucast w) (ucast (drop_bit 8 w)) (ucast (drop_bit 16 w)) (ucast (drop_bit 24 w)) = w"
proof (rule bit_word_eqI)
  fix n assume "n < LENGTH(32)"
  then consider "n < 8" | "8 \<le> n" "n < 16" | "16 \<le> n" "n < 24" | "24 \<le> n" "n < 32"
    by fastforce
  then show "bit (le32 (ucast w) (ucast (drop_bit 8 w)) (ucast (drop_bit 16 w))
      (ucast (drop_bit 24 w))) n = bit w n"
    by cases (auto simp: le32_def bit_simps)
qed

lemma le32_at_cong: "same_upto n m m' \<Longrightarrow> p + 3 < n \<Longrightarrow> le32_at m p = le32_at m' p"
  by (simp add: le32_at_def same_upto_def)

lemma le16_at_cong: "same_upto n m m' \<Longrightarrow> p + 1 < n \<Longrightarrow> le16_at m p = le16_at m' p"
  by (simp add: le16_at_def same_upto_def)

section \<open>Bit sequences, least significant bit first\<close>

definition bits_lsb :: "nat \<Rightarrow> 'a::len word \<Rightarrow> bool list" where
  "bits_lsb n w = map (bit w) [0..<n]"

lemma length_bits_lsb [simp]: "length (bits_lsb n w) = n"
  by (simp add: bits_lsb_def)

lemma bits_lsb_0 [simp]: "bits_lsb 0 w = []"
  by (simp add: bits_lsb_def)

lemma bits_lsb_Suc: "bits_lsb (Suc n) w = bit w 0 # bits_lsb n (drop_bit 1 w)"
  by (simp add: bits_lsb_def bit_drop_bit_eq upt_conv_Cons map_Suc_upt[symmetric] del: upt_Suc)

lemma bits_lsb_snoc: "bits_lsb (Suc n) w = bits_lsb n w @ [bit w n]"
  by (simp add: bits_lsb_def)

text \<open>The value of a bit sequence received least significant bit first.\<close>

definition word_of_bits :: "bool list \<Rightarrow> 'a::len word" where
  "word_of_bits bs = horner_sum of_bool 2 bs"

lemma bit_word_of_bits:
  "bit (word_of_bits bs :: 'a::len word) n \<longleftrightarrow> n < LENGTH('a) \<and> n < length bs \<and> bs ! n"
  by (auto simp: word_of_bits_def bit_horner_sum_bit_word_iff)

lemma word_of_bits_bits_lsb:
  "LENGTH('a) \<le> n \<Longrightarrow> word_of_bits (bits_lsb n w) = (w :: 'a::len word)"
  by (rule bit_word_eqI) (auto simp: bit_word_of_bits bits_lsb_def)

lemma bits_lsb_word_of_bits:
  "length bs = n \<Longrightarrow> n \<le> LENGTH('a) \<Longrightarrow> bits_lsb n (word_of_bits bs :: 'a::len word) = bs"
  by (rule nth_equalityI) (auto simp: bit_word_of_bits bits_lsb_def)

section \<open>Bit streams in byte buffers\<close>

text \<open>The first \<open>n\<close> bits of a buffer, in transmission order; and the buffer of a bit sequence,
  the last byte padded with zeros.\<close>

definition stream_bits :: "nat \<Rightarrow> mem \<Rightarrow> bool list" where
  "stream_bits n m = map (\<lambda>i. bit (m (i div 8)) (i mod 8)) [0..<n]"

function pack_bits :: "bool list \<Rightarrow> u8 list" where
  "pack_bits [] = []"
| "pack_bits (b # bs) = word_of_bits (take 8 (b # bs)) # pack_bits (drop 8 (b # bs))"
  by pat_completeness auto
termination by (relation "measure length") auto

lemma length_stream_bits [simp]: "length (stream_bits n m) = n"
  by (simp add: stream_bits_def)

lemma stream_bits_0 [simp]: "stream_bits 0 m = []"
  by (simp add: stream_bits_def)

lemma stream_bits_byte:
  "stream_bits n m = bits_lsb (min 8 n) (m 0) @ stream_bits (n - 8) (mem_from m 1)"
proof (rule nth_equalityI)
  fix i assume "i < length (stream_bits n m)"
  then show "stream_bits n m ! i =
      (bits_lsb (min 8 n) (m 0) @ stream_bits (n - 8) (mem_from m 1)) ! i"
    by (cases "i < 8")
      (auto simp: stream_bits_def bits_lsb_def nth_append not_less le_div_geq le_mod_geq)
qed simp

lemma stream_bits_cong:
  assumes "same_upto ((n + 7) div 8) m m'"
  shows "stream_bits n m = stream_bits n m'"
proof (rule nth_equalityI)
  fix i assume "i < length (stream_bits n m)"
  then have "i div 8 < (n + 7) div 8" by simp
  with assms \<open>i < length (stream_bits n m)\<close> show "stream_bits n m ! i = stream_bits n m' ! i"
    by (simp add: stream_bits_def same_upto_def)
qed simp

lemma pack_bits_byte:
  "bs \<noteq> [] \<Longrightarrow> pack_bits bs = word_of_bits (take 8 bs) # pack_bits (drop 8 bs)"
  by (cases bs) (simp_all del: take_Cons_numeral drop_Cons_numeral)

lemma length_pack_bits: "length (pack_bits bs) = (length bs + 7) div 8"
proof (induction "length bs" arbitrary: bs rule: less_induct)
  case less
  show ?case
  proof (cases "bs = []")
    case False
    then have "(length bs + 7) div 8 = Suc ((length bs - 8 + 7) div 8)"
      by (cases bs) (auto, presburger)
    with less [of "drop 8 bs"] False show ?thesis
      by (simp add: pack_bits_byte)
  qed simp
qed

lemma stream_bits_pack_bits: "stream_bits (length bs) (mem_of (pack_bits bs)) = bs"
proof (induction "length bs" arbitrary: bs rule: less_induct)
  case less
  show ?case
  proof (cases "bs = []")
    case False
    let ?m = "mem_of (pack_bits bs)"
    have tl: "mem_from ?m 1 = mem_of (pack_bits (drop 8 bs))"
      using False by (simp add: pack_bits_byte mem_of_def mem_from_def fun_eq_iff)
    have hd: "bits_lsb (min 8 (length bs)) (?m 0) = take 8 bs"
      using False by (simp add: pack_bits_byte mem_of_def min.commute
          bits_lsb_word_of_bits)
    have "stream_bits (length bs) ?m = take 8 bs @ stream_bits (length (drop 8 bs)) (mem_of (pack_bits (drop 8 bs)))"
      using stream_bits_byte [of "length bs" ?m] by (simp add: tl [simplified] hd)
    also have "\<dots> = take 8 bs @ drop 8 bs"
      using less [of "drop 8 bs"] False by simp
    finally show ?thesis by simp
  qed simp
qed

lemma bits_lsb_ucast:
  "n \<le> LENGTH('a) \<Longrightarrow> n \<le> LENGTH('b) \<Longrightarrow>
   bits_lsb n (ucast (w :: 'a::len word) :: 'b::len word) = bits_lsb n w"
  by (auto simp: bits_lsb_def bit_simps)

section \<open>Parity\<close>

definition parity_of :: "bool list \<Rightarrow> bool" where
  "parity_of bs \<longleftrightarrow> odd (length (filter id bs))"

lemma parity_of_Nil [simp]: "parity_of [] = False"
  by (simp add: parity_of_def)

lemma parity_of_Cons [simp]: "parity_of (b # bs) = (b \<noteq> parity_of bs)"
  by (auto simp: parity_of_def)

lemma parity_of_append [simp]: "parity_of (xs @ ys) = (parity_of xs \<noteq> parity_of ys)"
  by (induction xs) auto

end
