(* ===== verification/Wire.thy ===== *)
theory Wire
  imports Prelude
begin

text \<open>
  The debug port: the probe's configuration (\<open>DAP_Data\<close> of DAP.h), the pins it drives and
  samples (DAP_config.h) and the busy-wait delay (DAP.h).  Everything a function does to a
  peripheral is an event of the \<open>trace\<close>, newest first; everything it reads from one is a
  function of the events so far, held in the parameter record \<open>hw\<close>: the attached target, the
  RTC and the SPI receive registers are hardware, not code, and stay parameters.
\<close>

section \<open>Hardware\<close>

text \<open>The three chips the build supports (sdkconfig.defaults.*).\<close>

datatype chip = ESP32 | ESP32C3 | ESP32S3

datatype pin = SWCLK_TCK | SWDIO_TMS | TDI | TDO | nRESET

datatype port_op = PORT_SWD_SETUP | PORT_JTAG_SETUP | PORT_OFF

datatype spi_ctl = SPI_Init | SPI_Deinit | SPI_Enable | SPI_Disable | SPI_Release | SPI_Acquire

text \<open>The SPI peripheral's user registers, as far as spi_op.c writes them.\<close>

record spi_regs =
  usr_command :: bool
  usr_addr :: bool
  usr_mosi :: bool
  usr_miso :: bool
  sio :: bool
  command_bitlen :: u32
  command_value :: u32
  mosi_bitlen :: u32
  miso_bitlen :: u32
  data_buf :: "nat \<Rightarrow> u32"

datatype ev =
    PinOut pin bool
  | SwdioInputEnable
  | NResetFloat
  | NResetDrive
  | Busy u32
  | OsDelay u32
  | TsRead
  | Port port_op
  | SpiCtl spi_ctl
  | SpiRun spi_regs

record hw =
  hw_chip :: chip
  hw_level :: "pin \<Rightarrow> ev list \<Rightarrow> bool"
  hw_rtc :: "ev list \<Rightarrow> u32"
  hw_spi :: "ev list \<Rightarrow> nat \<Rightarrow> u32"

section \<open>The probe's state\<close>

datatype transfer_type = kTransfer_GPIO_normal | kTransfer_GPIO_fast | kTransfer_SPI

record dap =
  debug_port :: u8
  fast_clock :: u8
  clock_delay :: u32
  timestamp :: u32
  idle_cycles :: u8
  retry_count :: u16
  match_retry :: u16
  match_mask :: u32
  turnaround :: u8
  data_phase :: u8
  jtag_count :: u8
  jtag_index :: u8
  ir_length :: "u8 list"
  ir_before :: "u16 list"
  ir_after :: "u16 list"
  TransferAbort :: u8
  SWD_TransferSpeed :: transfer_type
  spi :: spi_regs
  trace :: "ev list"

definition emit :: "ev \<Rightarrow> dap \<Rightarrow> dap" where
  "emit e s = s\<lparr>trace := e # trace s\<rparr>"

text \<open>What the data pin is connected to: nothing yet, the GPIO block or the SPI peripheral.\<close>

datatype route = Unconnected | To_Gpio | To_Spi

fun route_step :: "ev \<Rightarrow> route \<Rightarrow> route" where
  "route_step (SpiCtl SPI_Init) r = To_Spi"
| "route_step (SpiCtl SPI_Deinit) r = To_Gpio"
| "route_step _ r = r"

definition data_route :: "ev list \<Rightarrow> route" where
  "data_route es = foldr route_step es Unconnected"

lemma data_route_simps [simp]: "data_route [] = Unconnected" "data_route (e # es) = route_step e (data_route es)"
  by (simp_all add: data_route_def)

text \<open>
  The frame of every wire operation: only the trace, the captured timestamp and the SPI
  registers may differ, and the data pin stays connected to what it was.
\<close>

definition wire_only :: "dap \<Rightarrow> dap \<Rightarrow> bool" where
  "wire_only s s' \<longleftrightarrow> s' = s\<lparr>timestamp := timestamp s', spi := spi s', trace := trace s'\<rparr> \<and>
     data_route (trace s') = data_route (trace s)"

lemma wire_only_route: "wire_only s s' \<Longrightarrow> data_route (trace s') = data_route (trace s)"
  by (simp add: wire_only_def)

lemma wire_only_refl [simp, intro]: "wire_only s s"
  by (simp add: wire_only_def)

lemma wire_only_trans [trans]: "wire_only s t \<Longrightarrow> wire_only t u \<Longrightarrow> wire_only s u"
  unfolding wire_only_def by (cases s; cases t; cases u) simp

lemma wire_only_emit [simp]: "(\<And>r. route_step e r = r) \<Longrightarrow> wire_only s (emit e t) = wire_only s t"
  unfolding wire_only_def emit_def by (cases s; cases t) simp

lemma wire_only_timestamp [simp]: "wire_only s (t\<lparr>timestamp := x\<rparr>) = wire_only s t"
  unfolding wire_only_def by (cases s; cases t) simp

lemma wire_only_spi [simp]: "wire_only s (t\<lparr>spi := x\<rparr>) = wire_only s t"
  unfolding wire_only_def by (cases s; cases t) simp

lemma wire_only_fields:
  assumes "wire_only s s'"
  shows "debug_port s' = debug_port s" "fast_clock s' = fast_clock s"
    "clock_delay s' = clock_delay s" "idle_cycles s' = idle_cycles s"
    "retry_count s' = retry_count s" "match_retry s' = match_retry s"
    "match_mask s' = match_mask s" "turnaround s' = turnaround s"
    "data_phase s' = data_phase s" "jtag_count s' = jtag_count s"
    "jtag_index s' = jtag_index s" "ir_length s' = ir_length s"
    "ir_before s' = ir_before s" "ir_after s' = ir_after s"
    "TransferAbort s' = TransferAbort s" "SWD_TransferSpeed s' = SWD_TransferSpeed s"
  using assms unfolding wire_only_def by (cases s; cases s'; simp)+

lemma emit_fields [simp]:
  "debug_port (emit e s) = debug_port s" "fast_clock (emit e s) = fast_clock s"
  "clock_delay (emit e s) = clock_delay s" "timestamp (emit e s) = timestamp s"
  "idle_cycles (emit e s) = idle_cycles s" "retry_count (emit e s) = retry_count s"
  "match_retry (emit e s) = match_retry s" "match_mask (emit e s) = match_mask s"
  "turnaround (emit e s) = turnaround s" "data_phase (emit e s) = data_phase s"
  "jtag_count (emit e s) = jtag_count s" "jtag_index (emit e s) = jtag_index s"
  "ir_length (emit e s) = ir_length s" "ir_before (emit e s) = ir_before s"
  "ir_after (emit e s) = ir_after s" "TransferAbort (emit e s) = TransferAbort s"
  "SWD_TransferSpeed (emit e s) = SWD_TransferSpeed s" "spi (emit e s) = spi s"
  "trace (emit e s) = e # trace s"
  by (simp_all add: emit_def)

lemma wire_only_funpow: "(\<And>t. wire_only t (f t)) \<Longrightarrow> wire_only s ((f ^^ n) s)"
  by (induction n) (auto intro: wire_only_trans)

section \<open>Pins (DAP_config.h)\<close>

definition PIN_SWCLK_TCK_SET :: "dap \<Rightarrow> dap" where
  "PIN_SWCLK_TCK_SET s = emit (PinOut SWCLK_TCK True) s"

definition PIN_SWCLK_TCK_CLR :: "dap \<Rightarrow> dap" where
  "PIN_SWCLK_TCK_CLR s = emit (PinOut SWCLK_TCK False) s"

text \<open>The clock pin's input is not wired: the source returns 0.\<close>

definition PIN_SWCLK_TCK_IN :: "hw \<Rightarrow> dap \<Rightarrow> u32" where
  "PIN_SWCLK_TCK_IN H s = 0"

definition PIN_SWDIO_TMS_SET :: "dap \<Rightarrow> dap" where
  "PIN_SWDIO_TMS_SET s = emit (PinOut SWDIO_TMS True) s"

definition PIN_SWDIO_TMS_CLR :: "dap \<Rightarrow> dap" where
  "PIN_SWDIO_TMS_CLR s = emit (PinOut SWDIO_TMS False) s"

definition PIN_SWDIO_TMS_IN :: "hw \<Rightarrow> dap \<Rightarrow> u32" where
  "PIN_SWDIO_TMS_IN H s = of_bool (hw_level H SWDIO_TMS (trace s))"

definition PIN_SWDIO_IN :: "hw \<Rightarrow> dap \<Rightarrow> u32" where
  "PIN_SWDIO_IN H s = of_bool (hw_level H SWDIO_TMS (trace s))"

definition PIN_SWDIO_OUT :: "u32 \<Rightarrow> dap \<Rightarrow> dap" where
  "PIN_SWDIO_OUT b s =
     (if b AND 1 = 1 then emit (PinOut SWDIO_TMS True) s else emit (PinOut SWDIO_TMS False) s)"

definition PIN_SWDIO_OUT_ENABLE :: "dap \<Rightarrow> dap" where
  "PIN_SWDIO_OUT_ENABLE s = s"

definition PIN_SWDIO_OUT_DISABLE :: "dap \<Rightarrow> dap" where
  "PIN_SWDIO_OUT_DISABLE s = emit (PinOut SWDIO_TMS True) (emit SwdioInputEnable s)"

definition PIN_TDI_IN :: "hw \<Rightarrow> dap \<Rightarrow> u32" where
  "PIN_TDI_IN H s = of_bool (hw_level H TDI (trace s))"

definition PIN_TDI_OUT :: "u32 \<Rightarrow> dap \<Rightarrow> dap" where
  "PIN_TDI_OUT b s =
     (if b AND 1 = 1 then emit (PinOut TDI True) s else emit (PinOut TDI False) s)"

definition PIN_TDO_IN :: "hw \<Rightarrow> dap \<Rightarrow> u32" where
  "PIN_TDO_IN H s = of_bool (hw_level H TDO (trace s))"

text \<open>nTRST is not available: its input reads 0 and its output does nothing.\<close>

definition PIN_nTRST_IN :: "hw \<Rightarrow> dap \<Rightarrow> u32" where
  "PIN_nTRST_IN H s = 0"

definition PIN_nTRST_OUT :: "u32 \<Rightarrow> dap \<Rightarrow> dap" where
  "PIN_nTRST_OUT b s = s"

definition PIN_nRESET_IN :: "hw \<Rightarrow> dap \<Rightarrow> u32" where
  "PIN_nRESET_IN H s = of_bool (hw_level H nRESET (trace s))"

text \<open>Releasing the reset sets the level and then turns the driver off; asserting it turns the
  driver on first.\<close>

definition PIN_nRESET_OUT :: "u32 \<Rightarrow> dap \<Rightarrow> dap" where
  "PIN_nRESET_OUT b s =
     (if b AND 1 = 1 then emit NResetFloat (emit (PinOut nRESET True) s)
      else emit (PinOut nRESET False) (emit NResetDrive s))"

definition TIMESTAMP_GET :: "hw \<Rightarrow> dap \<Rightarrow> u32 \<times> dap" where
  "TIMESTAMP_GET H s = (hw_rtc H (trace s), emit TsRead s)"

lemma and_1_iff_bit_0: "(b AND 1 = 1) \<longleftrightarrow> bit b 0" for b :: u32
  by (simp add: and_one_eq bit_0 flip: mod_2_eq_odd)
     (metis (no_types) odd_iff_mod_2_eq_one)

lemma PIN_SWDIO_OUT_eq: "PIN_SWDIO_OUT b s = emit (PinOut SWDIO_TMS (bit b 0)) s"
  by (simp add: PIN_SWDIO_OUT_def and_1_iff_bit_0)

lemma PIN_TDI_OUT_eq: "PIN_TDI_OUT b s = emit (PinOut TDI (bit b 0)) s"
  by (simp add: PIN_TDI_OUT_def and_1_iff_bit_0)

section \<open>The busy-wait delay (DAP.h)\<close>

text \<open>
  \<open>PIN_DELAY_SLOW\<close> decrements a register and branches back while it is not zero: the test
  comes after the decrement, so a delay of 0 wraps around.
\<close>

function delay_iterations :: "u32 \<Rightarrow> nat" where
  "delay_iterations d = (if d - 1 = 0 then 1 else Suc (delay_iterations (d - 1)))"
  by pat_completeness auto
termination
proof (relation "measure (\<lambda>d. unat (d - 1))")
  fix d :: u32
  assume nz: "d - 1 \<noteq> 0"
  have "unat (d - 1 - 1) = unat (d - 1) - 1" by (rule unat_minus_one [OF nz])
  moreover have "0 < unat (d - 1)" using nz unat_gt_0 by blast
  ultimately show "(d - 1, d) \<in> measure (\<lambda>d. unat (d - 1))"
    unfolding in_measure by linarith
qed simp

declare delay_iterations.simps [simp del]

lemma delay_iterations_minus_1: "delay_iterations (d + 1) = (if d = 0 then 1 else Suc (delay_iterations d))"
  by (subst delay_iterations.simps) (simp add: delay_iterations.simps [of 1])

lemma delay_iterations_eq: "delay_iterations (d + 1) = Suc (unat d)"
proof (induction "unat d" arbitrary: d)
  case 0
  then show ?case using delay_iterations_minus_1 [of 0] by (simp add: unat_eq_0)
next
  case (Suc n)
  then have "d \<noteq> 0" by auto
  with Suc.hyps(2) have "n = unat (d - 1)"
    by (simp add: unat_minus_one)
  with Suc.hyps(1)[of "d - 1"] have "delay_iterations d = Suc n"
    by simp
  with \<open>d \<noteq> 0\<close> Suc.hyps(2) show ?case
    by (simp add: delay_iterations_minus_1)
qed

definition PIN_DELAY_SLOW :: "u32 \<Rightarrow> dap \<Rightarrow> dap" where
  "PIN_DELAY_SLOW d s = emit (Busy d) s"

section \<open>What the target sees\<close>

text \<open>
  The target samples SWDIO (TMS, TDI) on every rising edge of the clock.  \<open>wire\<close> replays a
  trace: the clock level, the data level, and the data levels at the rising edges so far.
\<close>

fun wire_step :: "ev \<Rightarrow> bool \<times> bool \<times> bool list \<Rightarrow> bool \<times> bool \<times> bool list" where
  "wire_step (PinOut SWCLK_TCK b) (c, d, bs) = (b, d, if b \<and> \<not> c then bs @ [d] else bs)"
| "wire_step (PinOut SWDIO_TMS b) (c, d, bs) = (c, b, bs)"
| "wire_step _ w = w"

definition wire :: "dap \<Rightarrow> bool \<times> bool \<times> bool list" where
  "wire s = foldr wire_step (trace s) (True, True, [])"

definition clocked :: "dap \<Rightarrow> bool list" where
  "clocked s = snd (snd (wire s))"

definition dio :: "dap \<Rightarrow> bool" where
  "dio s = fst (snd (wire s))"

lemma wire_emit: "wire (emit e s) = wire_step e (wire s)"
  by (simp add: wire_def)

lemma wire_step_eqs:
  "wire_step (PinOut SWCLK_TCK b) w = (b, fst (snd w), if b \<and> \<not> fst w then snd (snd w) @ [fst (snd w)] else snd (snd w))"
  "wire_step (PinOut SWDIO_TMS b) w = (fst w, b, snd (snd w))"
  by (cases w; simp)+

lemma clocked_emit [wire_simps]:
  "clocked (emit (PinOut SWDIO_TMS b) s) = clocked s"
  "clocked (emit SwdioInputEnable s) = clocked s"
  "clocked (emit (Busy d) s) = clocked s"
  "clocked (emit TsRead s) = clocked s"
  "clocked (emit (PinOut SWCLK_TCK True) (emit (PinOut SWCLK_TCK False) s)) = clocked s @ [dio s]"
  by (simp_all add: clocked_def dio_def wire_emit wire_step_eqs)

lemma dio_emit [wire_simps]:
  "dio (emit (PinOut SWDIO_TMS b) s) = b"
  "dio (emit SwdioInputEnable s) = dio s"
  "dio (emit (Busy d) s) = dio s"
  "dio (emit TsRead s) = dio s"
  "dio (emit (PinOut SWCLK_TCK c) s) = dio s"
  by (simp_all add: dio_def wire_emit wire_step_eqs)

lemma clocked_edge_delay [wire_simps]:
  "clocked (emit (PinOut SWCLK_TCK True) (emit (Busy d) (emit (PinOut SWCLK_TCK False) s))) =
     clocked s @ [dio s]"
  by (simp add: clocked_def dio_def wire_emit wire_step_eqs)

lemma wire_timestamp [wire_simps]:
  "clocked (s\<lparr>timestamp := x\<rparr>) = clocked s" "dio (s\<lparr>timestamp := x\<rparr>) = dio s"
  by (simp_all add: clocked_def dio_def wire_def)

end
