(* ===== verification/Swd.thy ===== *)
theory Swd
  imports Wire
begin

text \<open>
  SW_DP.c in GPIO mode: the clocking macros, SWJ and SWD sequences and \<open>SWD_Transfer_GPIO\<close>,
  the packet transfer of the Serial Wire Debug protocol.  The lemmas say what each operation
  puts on the wire (\<open>clocked\<close>), what it makes of the sampled bits, and that it leaves the
  configuration alone (\<open>wire_only\<close>).
\<close>

section \<open>Constants of the transfer protocol (DAP.h)\<close>

definition DAP_TRANSFER_APnDP :: u32 where "DAP_TRANSFER_APnDP = 0x01"
definition DAP_TRANSFER_RnW :: u32 where "DAP_TRANSFER_RnW = 0x02"
definition DAP_TRANSFER_MATCH_VALUE :: u32 where "DAP_TRANSFER_MATCH_VALUE = 0x10"
definition DAP_TRANSFER_MATCH_MASK :: u32 where "DAP_TRANSFER_MATCH_MASK = 0x20"
definition DAP_TRANSFER_TIMESTAMP :: u32 where "DAP_TRANSFER_TIMESTAMP = 0x80"

definition DAP_TRANSFER_OK :: u8 where "DAP_TRANSFER_OK = 0x01"
definition DAP_TRANSFER_WAIT :: u8 where "DAP_TRANSFER_WAIT = 0x02"
definition DAP_TRANSFER_FAULT :: u8 where "DAP_TRANSFER_FAULT = 0x04"
definition DAP_TRANSFER_ERROR :: u8 where "DAP_TRANSFER_ERROR = 0x08"
definition DAP_TRANSFER_MISMATCH :: u8 where "DAP_TRANSFER_MISMATCH = 0x10"

lemmas transfer_consts = DAP_TRANSFER_OK_def DAP_TRANSFER_WAIT_def DAP_TRANSFER_FAULT_def
  DAP_TRANSFER_ERROR_def DAP_TRANSFER_MISMATCH_def

lemmas request_consts = DAP_TRANSFER_APnDP_def DAP_TRANSFER_RnW_def
  DAP_TRANSFER_MATCH_VALUE_def DAP_TRANSFER_MATCH_MASK_def DAP_TRANSFER_TIMESTAMP_def

definition SWD_SEQUENCE_CLK :: u32 where "SWD_SEQUENCE_CLK = 0x3F"
definition SWD_SEQUENCE_DIN :: u32 where "SWD_SEQUENCE_DIN = 0x80"

section \<open>Clocking macros\<close>

definition PIN_DELAY :: "bool \<Rightarrow> dap \<Rightarrow> dap" where
  "PIN_DELAY need_delay s = (if need_delay then PIN_DELAY_SLOW (clock_delay s) s else s)"

definition SW_CLOCK_CYCLE :: "bool \<Rightarrow> dap \<Rightarrow> dap" where
  "SW_CLOCK_CYCLE nd s =
     PIN_DELAY nd (PIN_SWCLK_TCK_SET (PIN_DELAY nd (PIN_SWCLK_TCK_CLR s)))"

definition SW_WRITE_BIT :: "bool \<Rightarrow> u32 \<Rightarrow> dap \<Rightarrow> dap" where
  "SW_WRITE_BIT nd b s =
     PIN_DELAY nd (PIN_SWCLK_TCK_SET (PIN_DELAY nd (PIN_SWCLK_TCK_CLR (PIN_SWDIO_OUT b s))))"

definition SW_READ_BIT :: "hw \<Rightarrow> bool \<Rightarrow> dap \<Rightarrow> u32 \<times> dap" where
  "SW_READ_BIT H nd s =
     (let s = PIN_DELAY nd (PIN_SWCLK_TCK_CLR s);
          b = PIN_SWDIO_IN H s
      in (b, PIN_DELAY nd (PIN_SWCLK_TCK_SET s)))"

definition clock_cycles :: "bool \<Rightarrow> nat \<Rightarrow> dap \<Rightarrow> dap" where
  "clock_cycles nd n = (SW_CLOCK_CYCLE nd ^^ n)"

lemma wire_only_pins [simp]:
  "wire_only s (PIN_DELAY nd t) = wire_only s t"
  "wire_only s (PIN_SWCLK_TCK_SET t) = wire_only s t"
  "wire_only s (PIN_SWCLK_TCK_CLR t) = wire_only s t"
  "wire_only s (PIN_SWDIO_OUT b t) = wire_only s t"
  "wire_only s (PIN_SWDIO_TMS_SET t) = wire_only s t"
  "wire_only s (PIN_SWDIO_TMS_CLR t) = wire_only s t"
  "wire_only s (PIN_TDI_OUT b t) = wire_only s t"
  "wire_only s (PIN_SWDIO_OUT_ENABLE t) = wire_only s t"
  "wire_only s (PIN_SWDIO_OUT_DISABLE t) = wire_only s t"
  "wire_only s (SW_CLOCK_CYCLE nd t) = wire_only s t"
  "wire_only s (SW_WRITE_BIT nd b t) = wire_only s t"
  "wire_only s (snd (SW_READ_BIT H nd t)) = wire_only s t"
  "wire_only s (snd (TIMESTAMP_GET H t)) = wire_only s t"
  by (simp_all add: PIN_DELAY_def PIN_DELAY_SLOW_def PIN_SWCLK_TCK_SET_def PIN_SWCLK_TCK_CLR_def
      PIN_SWDIO_OUT_def PIN_SWDIO_TMS_SET_def PIN_SWDIO_TMS_CLR_def PIN_TDI_OUT_def
      PIN_SWDIO_OUT_ENABLE_def PIN_SWDIO_OUT_DISABLE_def SW_CLOCK_CYCLE_def SW_WRITE_BIT_def
      SW_READ_BIT_def TIMESTAMP_GET_def Let_def)

lemma wire_only_clock_cycles [simp]: "wire_only s (clock_cycles nd n t) = wire_only s t"
  by (induction n arbitrary: t) (simp_all add: clock_cycles_def)

lemma SW_CLOCK_CYCLE_wire [wire_simps]:
  "clocked (SW_CLOCK_CYCLE nd s) = clocked s @ [dio s]" "dio (SW_CLOCK_CYCLE nd s) = dio s"
  by (simp_all add: SW_CLOCK_CYCLE_def PIN_DELAY_def PIN_DELAY_SLOW_def PIN_SWCLK_TCK_SET_def
      PIN_SWCLK_TCK_CLR_def wire_simps)

lemma SW_WRITE_BIT_wire [wire_simps]:
  "clocked (SW_WRITE_BIT nd b s) = clocked s @ [bit b 0]" "dio (SW_WRITE_BIT nd b s) = bit b 0"
  by (simp_all add: SW_WRITE_BIT_def PIN_DELAY_def PIN_DELAY_SLOW_def PIN_SWCLK_TCK_SET_def
      PIN_SWCLK_TCK_CLR_def PIN_SWDIO_OUT_eq wire_simps)

lemma SW_READ_BIT_wire [wire_simps]:
  "clocked (snd (SW_READ_BIT H nd s)) = clocked s @ [dio s]"
  "dio (snd (SW_READ_BIT H nd s)) = dio s"
  by (simp_all add: SW_READ_BIT_def PIN_DELAY_def PIN_DELAY_SLOW_def PIN_SWCLK_TCK_SET_def
      PIN_SWCLK_TCK_CLR_def wire_simps Let_def)

lemma PIN_SWDIO_wire [wire_simps]:
  "clocked (PIN_SWDIO_OUT b s) = clocked s" "dio (PIN_SWDIO_OUT b s) = bit b 0"
  "clocked (PIN_SWDIO_OUT_ENABLE s) = clocked s" "dio (PIN_SWDIO_OUT_ENABLE s) = dio s"
  "clocked (PIN_SWDIO_OUT_DISABLE s) = clocked s" "dio (PIN_SWDIO_OUT_DISABLE s) = True"
  by (simp_all add: PIN_SWDIO_OUT_eq PIN_SWDIO_OUT_ENABLE_def PIN_SWDIO_OUT_DISABLE_def wire_simps)

lemma clock_cycles_wire [wire_simps]:
  "clocked (clock_cycles nd n s) = clocked s @ replicate n (dio s)" (is ?A)
  "dio (clock_cycles nd n s) = dio s" (is ?B)
proof -
  have "?A \<and> ?B"
    by (induction n arbitrary: s)
      (simp_all add: clock_cycles_def wire_simps replicate_append_same flip: funpow_swap1)
  then show ?A ?B by blast+
qed

lemma SW_READ_BIT_bit: "fst (SW_READ_BIT H nd s) = 0 \<or> fst (SW_READ_BIT H nd s) = 1"
  by (simp add: SW_READ_BIT_def PIN_SWDIO_IN_def Let_def)

section \<open>Sampling and driving several bits\<close>

text \<open>Reference: the next \<open>n\<close> bits sampled from SWDIO.\<close>

primrec swd_samples :: "hw \<Rightarrow> bool \<Rightarrow> nat \<Rightarrow> dap \<Rightarrow> bool list \<times> dap" where
  "swd_samples H nd 0 s = ([], s)"
| "swd_samples H nd (Suc n) s =
     (let (b, s) = SW_READ_BIT H nd s; (bs, s) = swd_samples H nd n s in (bit b 0 # bs, s))"

lemma length_swd_samples [simp]: "length (fst (swd_samples H nd n s)) = n"
  by (induction n arbitrary: s) (simp_all add: Let_def case_prod_beta)

text \<open>The read loop: shift in from the top, count the ones.\<close>

primrec swd_read_loop :: "nat \<Rightarrow> hw \<Rightarrow> bool \<Rightarrow> u32 \<Rightarrow> u32 \<Rightarrow> dap \<Rightarrow> u32 \<times> u32 \<times> dap" where
  "swd_read_loop 0 H nd val parity s = (val, parity, s)"
| "swd_read_loop (Suc n) H nd val parity s =
     (let (b, s) = SW_READ_BIT H nd s
      in swd_read_loop n H nd (drop_bit 1 val OR push_bit 31 b) (parity + b) s)"

text \<open>The write loop: bit 0 out, shift down, add the shifted values up for their low bit.\<close>

primrec swd_write_loop :: "nat \<Rightarrow> bool \<Rightarrow> u32 \<Rightarrow> u32 \<Rightarrow> dap \<Rightarrow> u32 \<times> dap" where
  "swd_write_loop 0 nd val parity s = (parity, s)"
| "swd_write_loop (Suc n) nd val parity s =
     swd_write_loop n nd (drop_bit 1 val) (parity + val) (SW_WRITE_BIT nd val s)"

lemma wire_only_swd_samples [simp]:
  "wire_only s (snd (swd_samples H nd n t)) = wire_only s t"
  by (induction n arbitrary: t) (simp_all add: Let_def case_prod_beta)

lemma wire_only_swd_read_loop [simp]:
  "wire_only s (snd (snd (swd_read_loop n H nd v p t))) = wire_only s t"
  by (induction n arbitrary: v p t) (simp_all add: Let_def case_prod_beta)

lemma wire_only_swd_write_loop [simp]:
  "wire_only s (snd (swd_write_loop n nd v p t)) = wire_only s t"
  by (induction n arbitrary: v p t) simp_all

lemma swd_write_loop_wire [wire_simps]:
  "clocked (snd (swd_write_loop n nd v p s)) = clocked s @ bits_lsb n v"
  by (induction n arbitrary: v p s) (simp_all add: wire_simps bits_lsb_Suc bit_drop_bit_eq)

lemma bit_0_plus: "bit (a + b) 0 \<longleftrightarrow> bit a 0 \<noteq> bit b 0" for a b :: "'a::len word"
  by (simp add: bit_0)

lemma swd_write_loop_parity:
  "bit (fst (swd_write_loop n nd v p s)) 0 = (bit p 0 \<noteq> parity_of (bits_lsb n v))"
  by (induction n arbitrary: v p s) (auto simp: bits_lsb_Suc bit_0_plus)

lemma swd_read_loop_state: "snd (snd (swd_read_loop n H nd v p s)) = snd (swd_samples H nd n s)"
  by (induction n arbitrary: v p s) (simp_all add: Let_def case_prod_beta)

lemma swd_samples_wire [wire_simps]:
  "clocked (snd (swd_samples H nd n s)) = clocked s @ replicate n (dio s)" (is ?A)
  "dio (snd (swd_samples H nd n s)) = dio s" (is ?B)
proof -
  have "?A \<and> ?B"
    by (induction n arbitrary: s) (simp_all add: Let_def case_prod_beta wire_simps)
  then show ?A ?B by blast+
qed

lemma SW_READ_BIT_of_bool: "fst (SW_READ_BIT H nd s) = of_bool (bit (fst (SW_READ_BIT H nd s)) 0)"
  using SW_READ_BIT_bit [of H nd s] by auto

lemma swd_read_loop_parity:
  "bit (fst (snd (swd_read_loop n H nd v p s))) 0 =
     (bit p 0 \<noteq> parity_of (fst (swd_samples H nd n s)))"
  by (induction n arbitrary: v p s) (auto simp: Let_def case_prod_beta bit_0_plus)

lemma swd_read_loop_bit:
  assumes "n \<le> 32"
  shows "bit (fst (swd_read_loop n H nd v p s)) i \<longleftrightarrow>
    i < 32 \<and> (if i < 32 - n then bit v (i + n) else fst (swd_samples H nd n s) ! (i - (32 - n)))"
  using assms
proof (induction n arbitrary: v p s)
  case 0
  then show ?case by (auto dest: bit_imp_le_length)
next
  case (Suc n)
  obtain b where b: "fst (SW_READ_BIT H nd s) = of_bool b"
    using SW_READ_BIT_of_bool by blast
  let ?v = "drop_bit 1 v OR push_bit 31 (of_bool b :: u32)"
  have v': "bit ?v j \<longleftrightarrow> (if j < 31 then bit v (j + 1) else j = 31 \<and> b)" if "j < 32" for j
    using that bit_imp_le_length [of v "Suc j"] by (auto simp: bit_simps)
  show ?case
  proof (cases "i < 32 - n")
    case True
    then have "i + n < 32" using Suc.prems by linarith
    with True Suc v' show ?thesis
      by (auto simp: Let_def case_prod_beta b)
  next
    case False
    with Suc show ?thesis
      by (auto simp: Let_def case_prod_beta b nth_Cons' Suc_diff_le diff_diff_left)
  qed
qed

lemma swd_read_loop_word:
  "fst (swd_read_loop 32 H nd v p s) = word_of_bits (fst (swd_samples H nd 32 s))"
  by (rule bit_word_eqI) (simp add: swd_read_loop_bit bit_word_of_bits)

section \<open>SWD\_Transfer\_GPIO\<close>

text \<open>
  The function in the order of its source: packet request, turnaround, acknowledge; then one
  of the three outcomes.  The caller passes the content of \<open>*data\<close>; \<open>store\<close> says whether the
  pointer is not NULL, so that a read stores into it.
\<close>

definition swd_packet_request :: "bool \<Rightarrow> u32 \<Rightarrow> dap \<Rightarrow> dap" where
  "swd_packet_request nd req s =
     (let parity = drop_bit 0 req + drop_bit 1 req + drop_bit 2 req + drop_bit 3 req;
          s = SW_WRITE_BIT nd 1 s;
          s = SW_WRITE_BIT nd (drop_bit 0 req) s;
          s = SW_WRITE_BIT nd (drop_bit 1 req) s;
          s = SW_WRITE_BIT nd (drop_bit 2 req) s;
          s = SW_WRITE_BIT nd (drop_bit 3 req) s;
          s = SW_WRITE_BIT nd parity s;
          s = SW_WRITE_BIT nd 0 s
      in SW_WRITE_BIT nd 1 s)"

definition swd_acknowledge :: "hw \<Rightarrow> bool \<Rightarrow> dap \<Rightarrow> u32 \<times> dap" where
  "swd_acknowledge H nd s =
     (let s = clock_cycles nd (unat (turnaround s)) (PIN_SWDIO_OUT_DISABLE s);
          (b0, s) = SW_READ_BIT H nd s;
          (b1, s) = SW_READ_BIT H nd s;
          (b2, s) = SW_READ_BIT H nd s
      in (push_bit 0 b0 OR push_bit 1 b1 OR push_bit 2 b2, s))"

definition swd_data_read :: "hw \<Rightarrow> bool \<Rightarrow> bool \<Rightarrow> u32 \<Rightarrow> dap \<Rightarrow> u8 \<times> u32 \<times> dap" where
  "swd_data_read H nd store data s =
     (let (val, parity, s) = swd_read_loop 32 H nd 0 0 s;
          (b, s) = SW_READ_BIT H nd s;
          ack = (if (parity XOR b) AND 1 \<noteq> 0 then DAP_TRANSFER_ERROR else DAP_TRANSFER_OK);
          data = (if store then val else data);
          s = clock_cycles nd (unat (turnaround s)) s
      in (ack, data, PIN_SWDIO_OUT_ENABLE s))"

definition swd_data_write :: "bool \<Rightarrow> u32 \<Rightarrow> dap \<Rightarrow> dap" where
  "swd_data_write nd data s =
     (let s = PIN_SWDIO_OUT_ENABLE (clock_cycles nd (unat (turnaround s)) s);
          (parity, s) = swd_write_loop 32 nd data 0 s
      in SW_WRITE_BIT nd parity s)"

definition capture_timestamp :: "hw \<Rightarrow> u32 \<Rightarrow> dap \<Rightarrow> dap" where
  "capture_timestamp H req s =
     (if req AND DAP_TRANSFER_TIMESTAMP \<noteq> 0
      then let (t, s) = TIMESTAMP_GET H s in s\<lparr>timestamp := t\<rparr> else s)"

definition swd_idle :: "bool \<Rightarrow> dap \<Rightarrow> dap" where
  "swd_idle nd s =
     (let n = idle_cycles s;
          s = (if n \<noteq> 0 then clock_cycles nd (unat n) (PIN_SWDIO_OUT 0 s) else s)
      in PIN_SWDIO_OUT 1 s)"

definition swd_wait_fault :: "bool \<Rightarrow> u32 \<Rightarrow> dap \<Rightarrow> dap" where
  "swd_wait_fault nd req s =
     (let rd = (req AND DAP_TRANSFER_RnW \<noteq> 0);
          s = (if data_phase s \<noteq> 0 \<and> rd then clock_cycles nd 33 s else s);
          s = PIN_SWDIO_OUT_ENABLE (clock_cycles nd (unat (turnaround s)) s);
          s = (if data_phase s \<noteq> 0 \<and> \<not> rd then clock_cycles nd 33 (PIN_SWDIO_OUT 0 s) else s)
      in PIN_SWDIO_OUT 1 s)"

definition swd_protocol_error :: "bool \<Rightarrow> dap \<Rightarrow> dap" where
  "swd_protocol_error nd s =
     PIN_SWDIO_OUT 1 (PIN_SWDIO_OUT_ENABLE
       (clock_cycles nd (unat (ucast (turnaround s) + 32 + 1 :: u32)) s))"

definition SWD_Transfer_GPIO ::
  "hw \<Rightarrow> bool \<Rightarrow> u32 \<Rightarrow> bool \<Rightarrow> u32 \<Rightarrow> dap \<Rightarrow> u8 \<times> u32 \<times> dap" where
  "SWD_Transfer_GPIO H nd req store data s =
     (let s = swd_packet_request nd req s;
          (ack, s) = swd_acknowledge H nd s
      in if ack = ucast DAP_TRANSFER_OK then
           (let (ack, data, s) =
                  (if req AND DAP_TRANSFER_RnW \<noteq> 0 then swd_data_read H nd store data s
                   else (DAP_TRANSFER_OK, data, swd_data_write nd data s))
            in (ack, data, swd_idle nd (capture_timestamp H req s)))
         else if ack = ucast DAP_TRANSFER_WAIT \<or> ack = ucast DAP_TRANSFER_FAULT then
           (ucast ack, data, swd_wait_fault nd req s)
         else (ucast ack, data, swd_protocol_error nd s))"

section \<open>SWJ and SWD sequences\<close>

text \<open>The loop of \<open>SWJ_Sequence_GPIO\<close>: \<open>n\<close> bits of \<open>val\<close> are left, the next byte is at \<open>p\<close>.\<close>

primrec swj_loop :: "nat \<Rightarrow> mem \<Rightarrow> bool \<Rightarrow> nat \<Rightarrow> u32 \<Rightarrow> nat \<Rightarrow> dap \<Rightarrow> dap" where
  "swj_loop 0 data nd p val n s = s"
| "swj_loop (Suc count) data nd p val n s =
     (let (val, n, p) = (if n = 0 then (ucast (data p), 8, p + 1) else (val, n, p));
          s = (if val AND 1 \<noteq> 0 then PIN_SWDIO_TMS_SET s else PIN_SWDIO_TMS_CLR s);
          s = SW_CLOCK_CYCLE nd s
      in swj_loop count data nd p (drop_bit 1 val) (n - 1) s)"

definition SWJ_Sequence_GPIO :: "u32 \<Rightarrow> mem \<Rightarrow> bool \<Rightarrow> dap \<Rightarrow> dap" where
  "SWJ_Sequence_GPIO count data nd s = swj_loop (unat count) data nd 0 0 0 s"

text \<open>The bit loops of \<open>SWD_Sequence_GPIO\<close>, bounded by the byte (\<open>k\<close>) and the count (\<open>n\<close>).\<close>

fun swd_seq_in_byte :: "nat \<Rightarrow> nat \<Rightarrow> hw \<Rightarrow> u32 \<Rightarrow> dap \<Rightarrow> nat \<times> nat \<times> u32 \<times> dap" where
  "swd_seq_in_byte (Suc k) (Suc n) H val s =
     (let (b, s) = SW_READ_BIT H True s
      in swd_seq_in_byte k n H (drop_bit 1 val OR push_bit 7 b) s)"
| "swd_seq_in_byte k n H val s = (k, n, val, s)"

fun swd_seq_out_byte :: "nat \<Rightarrow> nat \<Rightarrow> u32 \<Rightarrow> dap \<Rightarrow> nat \<times> dap" where
  "swd_seq_out_byte (Suc k) (Suc n) val s =
     swd_seq_out_byte k n (drop_bit 1 val) (SW_WRITE_BIT True val s)"
| "swd_seq_out_byte k n val s = (n, s)"

lemma swd_seq_in_byte_left: "fst (snd (swd_seq_in_byte k n H val s)) = n - k"
  by (induction k n H val s rule: swd_seq_in_byte.induct) (simp_all add: Let_def case_prod_beta)

lemma swd_seq_out_byte_left: "fst (swd_seq_out_byte k n val s) = n - k"
  by (induction k n val s rule: swd_seq_out_byte.induct) simp_all

function swd_seq_in :: "nat \<Rightarrow> hw \<Rightarrow> dap \<Rightarrow> u8 list \<times> dap" where
  "swd_seq_in n H s =
     (if n = 0 then ([], s)
      else let (k, n', val, s) = swd_seq_in_byte 8 n H 0 s;
               (bs, s) = swd_seq_in n' H s
           in (ucast (drop_bit k val) # bs, s))"
  by pat_completeness auto
termination
  by (relation "measure fst") (auto dest: arg_cong [where f = "\<lambda>x. fst (snd x)"]
      simp: swd_seq_in_byte_left)

function swd_seq_out :: "nat \<Rightarrow> mem \<Rightarrow> nat \<Rightarrow> dap \<Rightarrow> dap" where
  "swd_seq_out n swdo p s =
     (if n = 0 then s
      else let (n', s) = swd_seq_out_byte 8 n (ucast (swdo p)) s
           in swd_seq_out n' swdo (p + 1) s)"
  by pat_completeness auto
termination
  by (relation "measure fst") (auto dest: arg_cong [where f = fst] simp: swd_seq_out_byte_left)

declare swd_seq_in.simps [simp del] swd_seq_out.simps [simp del]

definition swd_seq_count :: "u32 \<Rightarrow> nat" where
  "swd_seq_count info =
     (let n = info AND SWD_SEQUENCE_CLK in if n = 0 then 64 else unat n)"

definition SWD_Sequence_GPIO :: "hw \<Rightarrow> u32 \<Rightarrow> mem \<Rightarrow> dap \<Rightarrow> u8 list \<times> dap" where
  "SWD_Sequence_GPIO H info swdo s =
     (if info AND SWD_SEQUENCE_DIN \<noteq> 0 then swd_seq_in (swd_seq_count info) H s
      else ([], swd_seq_out (swd_seq_count info) swdo 0 s))"

lemma wire_only_swj_loop [simp]:
  "wire_only s (swj_loop c data nd p val n t) = wire_only s t"
  by (induction c arbitrary: p val n t) (simp_all add: Let_def case_prod_beta)

lemma wire_only_swd_seq_in_byte [simp]:
  "wire_only s (snd (snd (snd (swd_seq_in_byte k n H val t)))) = wire_only s t"
  by (induction k n H val t rule: swd_seq_in_byte.induct) (simp_all add: Let_def case_prod_beta)

lemma wire_only_swd_seq_out_byte [simp]:
  "wire_only s (snd (swd_seq_out_byte k n val t)) = wire_only s t"
  by (induction k n val t rule: swd_seq_out_byte.induct) simp_all

lemma wire_only_swd_seq_in [simp]: "wire_only s (snd (swd_seq_in n H t)) = wire_only s t"
proof (induction n arbitrary: t rule: less_induct)
  case (less n)
  then show ?case
    by (subst swd_seq_in.simps) (simp add: Let_def case_prod_beta swd_seq_in_byte_left)
qed

lemma wire_only_swd_seq_out [simp]: "wire_only s (swd_seq_out n m p t) = wire_only s t"
proof (induction n arbitrary: p t rule: less_induct)
  case (less n)
  then show ?case
    by (subst swd_seq_out.simps) (simp add: Let_def case_prod_beta swd_seq_out_byte_left)
qed

lemma wire_only_SWD_Sequence_GPIO [simp]:
  "wire_only s (SWJ_Sequence_GPIO c data nd t) = wire_only s t"
  "wire_only s (snd (SWD_Sequence_GPIO H info swdo t)) = wire_only s t"
  by (simp_all add: SWJ_Sequence_GPIO_def SWD_Sequence_GPIO_def)

lemma PIN_SWDIO_TMS_wire [wire_simps]:
  "clocked (PIN_SWDIO_TMS_SET s) = clocked s" "dio (PIN_SWDIO_TMS_SET s) = True"
  "clocked (PIN_SWDIO_TMS_CLR s) = clocked s" "dio (PIN_SWDIO_TMS_CLR s) = False"
  by (simp_all add: PIN_SWDIO_TMS_SET_def PIN_SWDIO_TMS_CLR_def wire_simps)

lemma and_1_nonzero: "v AND 1 \<noteq> 0 \<longleftrightarrow> bit v 0" for v :: u32
  by (simp add: and_one_eq bit_0 odd_iff_mod_2_eq_one)

lemma swj_loop_wire:
  "n \<le> 8 \<Longrightarrow> clocked (swj_loop c data nd p val n s) =
     clocked s @ bits_lsb (min c n) val @ stream_bits (c - n) (mem_from data p)"
proof (induction c arbitrary: p val n s)
  case 0
  then show ?case by simp
next
  case (Suc c)
  show ?case
  proof (cases n)
    case 0
    have "stream_bits (Suc c) (mem_from data p) =
        bits_lsb (Suc (min 7 c)) (data p) @ stream_bits (c - 7) (mem_from data (p + 1))"
      using stream_bits_byte [of "Suc c" "mem_from data p"] by (simp add: numeral_eq_Suc)
    moreover have "bits_lsb (Suc (min 7 c)) (ucast (data p) :: u32) = bits_lsb (Suc (min 7 c)) (data p)"
      by (rule bits_lsb_ucast) simp_all
    ultimately show ?thesis
      using 0 Suc.IH [of 7]
      by (simp add: Let_def and_1_nonzero wire_simps bits_lsb_Suc min.commute del: mem_from_at)
  next
    case (Suc m)
    with Suc.IH Suc.prems show ?thesis
      by (simp add: Let_def and_1_nonzero wire_simps bits_lsb_Suc)
  qed
qed

lemma swj_loop_cong:
  "same_upto m a b \<Longrightarrow> p + (c - n + 7) div 8 \<le> m \<Longrightarrow> n \<le> 8 \<Longrightarrow>
   swj_loop c a nd p val n s = swj_loop c b nd p val n s"
proof (induction c arbitrary: p val n s)
  case (Suc c)
  show ?case
  proof (cases "n = 0")
    case True
    with Suc.prems have "a p = b p" by (simp add: same_upto_def)
    moreover have "p + 1 + (c - 7 + 7) div 8 \<le> m"
      using Suc.prems(2) True by (cases "c < 7") auto
    ultimately show ?thesis
      using True Suc.IH [of "p + 1" 7] Suc.prems(1) by (simp add: Let_def)
  next
    case False
    with Suc.prems Suc.IH show ?thesis by (simp add: Let_def)
  qed
qed simp

lemma swd_samples_add:
  "swd_samples H nd (m + n) s =
     (let (xs, s) = swd_samples H nd m s; (ys, s) = swd_samples H nd n s in (xs @ ys, s))"
  by (induction m arbitrary: s) (simp_all add: Let_def case_prod_beta)

lemma swd_seq_in_byte_eq:
  "fst (swd_seq_in_byte k n H v s) = k - min k n"
  "snd (snd (snd (swd_seq_in_byte k n H v s))) = snd (swd_samples H True (min k n) s)"
  by (induction k n H v s rule: swd_seq_in_byte.induct) (simp_all add: Let_def case_prod_beta)

lemma swd_seq_in_byte_bit:
  assumes "min k n \<le> 8" "\<And>i. 8 \<le> i \<Longrightarrow> \<not> bit v i"
  shows "bit (fst (snd (snd (swd_seq_in_byte k n H v s)))) i \<longleftrightarrow>
    i < 8 \<and> (if i < 8 - min k n then bit v (i + min k n)
             else fst (swd_samples H True (min k n) s) ! (i - (8 - min k n)))"
  using assms
proof (induction k n H v s rule: swd_seq_in_byte.induct)
  case (1 k n H v s)
  obtain b where b: "fst (SW_READ_BIT H True s) = of_bool b"
    using SW_READ_BIT_of_bool by blast
  let ?v = "drop_bit 1 v OR push_bit 7 (of_bool b :: u32)"
  have v': "bit ?v j \<longleftrightarrow> (if j < 7 then bit v (j + 1) else j = 7 \<and> b)" for j
    using "1.prems"(2) [of "Suc j"] by (auto simp: bit_simps)
  define m where "m = min k n"
  let ?s = "snd (SW_READ_BIT H True s)"
  have m: "min (Suc k) (Suc n) = Suc m" "m \<le> 7"
    using "1.prems"(1) by (simp_all add: m_def)
  have IH: "bit (fst (snd (snd (swd_seq_in_byte k n H ?v ?s)))) i \<longleftrightarrow>
    i < 8 \<and> (if i < 8 - m then bit ?v (i + m)
      else fst (swd_samples H True m ?s) ! (i - (8 - m)))"
    unfolding m_def using "1.IH" [OF refl prod.collapse] "1.prems"(1) v' by (simp add: b)
  have step: "fst (snd (snd (swd_seq_in_byte (Suc k) (Suc n) H v s))) =
      fst (snd (snd (swd_seq_in_byte k n H ?v ?s)))"
    by (simp add: Let_def case_prod_beta b)
  consider "i < 8 - Suc m" | "i = 7 - m" | "8 - m \<le> i" using m(2) by linarith
  then show ?case
  proof cases
    case 1
    then show ?thesis unfolding step IH m(1) v' using m(2) by auto
  next
    case 2
    then show ?thesis unfolding step IH m(1) v' using m(2)
      by (auto simp: Let_def case_prod_beta b)
  next
    case 3
    then have "i - (8 - Suc m) = Suc (i - (8 - m))" "\<not> i < 8 - Suc m" using m(2) by auto
    then show ?thesis unfolding step IH m(1) using 3
      by (simp add: Let_def case_prod_beta)
  qed
qed auto

lemma swd_seq_in_byte_word:
  assumes "swd_seq_in_byte 8 n H 0 s = (k, n', val, s')"
  shows "ucast (drop_bit k val) = (word_of_bits (fst (swd_samples H True (min 8 n) s)) :: u8)"
proof (rule bit_word_eqI)
  fix i assume "i < LENGTH(8)"
  then show "bit (ucast (drop_bit k val) :: u8) i \<longleftrightarrow>
      bit (word_of_bits (fst (swd_samples H True (min 8 n) s)) :: u8) i"
    using swd_seq_in_byte_bit [of 8 n 0 H s "k + i"] swd_seq_in_byte_eq(1) [of 8 n H 0 s]
    by (auto simp: assms bit_simps bit_word_of_bits)
qed

lemma swd_seq_in_eq:
  "swd_seq_in n H s =
     (pack_bits (fst (swd_samples H True n s)), snd (swd_samples H True n s))"
proof (induction n arbitrary: s rule: less_induct)
  case (less n)
  show ?case
  proof (cases "n = 0")
    case True
    then show ?thesis by (simp add: swd_seq_in.simps)
  next
    case False
    obtain k n' val s' where r: "swd_seq_in_byte 8 n H 0 s = (k, n', val, s')"
      by (cases "swd_seq_in_byte 8 n H 0 s") auto
    have n': "n' = n - 8" and s': "s' = snd (swd_samples H True (min 8 n) s)"
      using swd_seq_in_byte_left [of 8 n H 0 s] swd_seq_in_byte_eq(2) [of 8 n H 0 s] r by simp_all
    have n: "min 8 n + (n - 8) = n" by simp
    let ?x = "swd_samples H True (min 8 n) s"
    have sp: "swd_samples H True n s = (fst ?x @ fst (swd_samples H True (n - 8) s'), snd (swd_samples H True (n - 8) s'))"
      using swd_samples_add [of H True "min 8 n" "n - 8" s]
      by (simp only: n s') (simp add: Let_def case_prod_beta)
    have n8: "8 \<le> n \<and> length (fst ?x) = 8 \<or>
        length (fst ?x) < 8 \<and> fst (swd_samples H True (n - 8) s') = []"
      by (cases "8 \<le> n") simp_all
    have "fst (swd_samples H True n s) \<noteq> []"
      using False length_swd_samples [of H True n s] by (metis length_0_conv)
    moreover have "take 8 (fst (swd_samples H True n s)) = fst ?x"
      "drop 8 (fst (swd_samples H True n s)) = fst (swd_samples H True (n - 8) s')"
      unfolding sp using n8 by auto
    ultimately show ?thesis
      using False less [of "n - 8" s'] swd_seq_in_byte_word [OF r]
      by (subst swd_seq_in.simps) (simp add: r n' pack_bits_byte, simp add: sp)
  qed
qed

lemma swd_seq_out_byte_wire [wire_simps]:
  "clocked (snd (swd_seq_out_byte k n v s)) = clocked s @ bits_lsb (min k n) v"
  by (induction k n v s rule: swd_seq_out_byte.induct)
    (simp_all add: wire_simps bits_lsb_Suc)

lemma swd_seq_out_wire:
  "clocked (swd_seq_out n m p s) = clocked s @ stream_bits n (mem_from m p)"
proof (induction n arbitrary: p s rule: less_induct)
  case (less n)
  have "bits_lsb (min 8 n) (ucast (m p) :: u32) = bits_lsb (min 8 n) (m p)"
    by (rule bits_lsb_ucast) simp_all
  then show ?case
    using less [of "n - 8" "p + 1"] stream_bits_byte [of n "mem_from m p"]
    by (subst swd_seq_out.simps)
      (simp add: Let_def case_prod_beta swd_seq_out_byte_left swd_seq_out_byte_wire del: mem_from_at,
       simp)
qed

section \<open>What a transfer puts on the wire\<close>

text \<open>
  Reference: the packet request as the protocol lays it out (start, APnDP, RnW, A2, A3, even
  parity, stop, park), and the decoder of a target.
\<close>

definition swd_request_frame :: "u32 \<Rightarrow> bool list" where
  "swd_request_frame req =
     [True, bit req 0, bit req 1, bit req 2, bit req 3, parity_of (bits_lsb 4 req), False, True]"

fun target_decode :: "bool list \<Rightarrow> u32 option" where
  "target_decode [start, ap, rnw, a2, a3, par, stop, park] =
     (if start \<and> \<not> stop \<and> park \<and> par = parity_of [ap, rnw, a2, a3]
      then Some (word_of_bits [ap, rnw, a2, a3]) else None)"
| "target_decode _ = None"

lemma bits_lsb_4: "bits_lsb 4 w = [bit w 0, bit w 1, bit w 2, bit w 3]"
  by (simp add: bits_lsb_def upt_conv_Cons numeral_2_eq_2 numeral_3_eq_3)

lemma target_decode_frame: "target_decode (swd_request_frame req) = Some (req AND 0xF)"
proof -
  have "word_of_bits (bits_lsb 4 req) = req AND 0xF"
  proof (rule bit_word_eqI)
    fix n assume "n < LENGTH(32)"
    have "bit (0xF :: u32) n \<longleftrightarrow> n < 4"
      using bit_mask_iff [of 4 n, where 'a = u32] \<open>n < LENGTH(32)\<close>
      by (simp add: mask_eq_exp_minus_1)
    then show "bit (word_of_bits (bits_lsb 4 req) :: u32) n = bit (req AND 0xF) n"
      using \<open>n < LENGTH(32)\<close> by (auto simp: bit_word_of_bits bit_and_iff bits_lsb_def)
  qed
  then show ?thesis by (simp add: swd_request_frame_def bits_lsb_4)
qed

lemma wire_only_transfer_parts [simp]:
  "wire_only s (swd_packet_request nd req t) = wire_only s t"
  "wire_only s (snd (swd_acknowledge H nd t)) = wire_only s t"
  "wire_only s (snd (snd (swd_data_read H nd store data t))) = wire_only s t"
  "wire_only s (swd_data_write nd data t) = wire_only s t"
  "wire_only s (capture_timestamp H req t) = wire_only s t"
  "wire_only s (swd_idle nd t) = wire_only s t"
  "wire_only s (swd_wait_fault nd req t) = wire_only s t"
  "wire_only s (swd_protocol_error nd t) = wire_only s t"
  by (simp_all add: swd_packet_request_def swd_acknowledge_def swd_data_read_def
      swd_data_write_def capture_timestamp_def swd_idle_def swd_wait_fault_def
      swd_protocol_error_def Let_def case_prod_beta)

lemma swd_packet_request_wire [wire_simps]:
  "clocked (swd_packet_request nd req s) = clocked s @ swd_request_frame req"
  "dio (swd_packet_request nd req s) = True"
  by (auto simp: swd_packet_request_def swd_request_frame_def wire_simps bit_0_plus
      bits_lsb_4 bit_drop_bit_eq)

lemma swd_acknowledge_wire [wire_simps]:
  "clocked (snd (swd_acknowledge H nd s)) =
     clocked s @ replicate (unat (turnaround s)) True @ replicate 3 True"
  "dio (snd (swd_acknowledge H nd s)) = True"
  by (simp_all add: swd_acknowledge_def wire_simps Let_def case_prod_beta numeral_3_eq_3)

lemma swd_data_write_wire [wire_simps]:
  "clocked (swd_data_write nd data s) =
     clocked s @ replicate (unat (turnaround s)) (dio s) @
     bits_lsb 32 data @ [parity_of (bits_lsb 32 data)]"
  by (simp add: swd_data_write_def wire_simps swd_write_loop_parity Let_def case_prod_beta)

lemma swd_data_read_wire [wire_simps]:
  "clocked (snd (snd (swd_data_read H nd store data s))) =
     clocked s @ replicate (33 + unat (turnaround s)) (dio s)"
proof -
  let ?r = "snd (snd (swd_read_loop 32 H nd 0 0 s))"
  have "turnaround (snd (SW_READ_BIT H nd ?r)) = turnaround s"
    by (rule wire_only_fields) simp
  note t = this [unfolded swd_read_loop_state]
  have "replicate 32 b @ b # bs = replicate 33 b @ bs" for b :: bool and bs
    by (simp add: replicate_app_Cons_same numeral_eq_Suc)
  then show ?thesis
    by (simp add: swd_data_read_def wire_simps swd_read_loop_state Let_def case_prod_beta t
        replicate_add)
qed

lemma capture_timestamp_wire [wire_simps]:
  "clocked (capture_timestamp H req s) = clocked s" "dio (capture_timestamp H req s) = dio s"
  by (simp_all add: capture_timestamp_def TIMESTAMP_GET_def wire_simps Let_def)

lemma swd_idle_wire [wire_simps]:
  "clocked (swd_idle nd s) = clocked s @ replicate (unat (idle_cycles s)) False"
  "dio (swd_idle nd s) = True"
  by (simp_all add: swd_idle_def wire_simps Let_def)

lemma swd_wait_fault_wire [wire_simps]:
  "clocked (swd_wait_fault nd req s) = clocked s @
     (if data_phase s = 0 then replicate (unat (turnaround s)) (dio s)
      else if req AND DAP_TRANSFER_RnW \<noteq> 0 then replicate (33 + unat (turnaround s)) (dio s)
      else replicate (unat (turnaround s)) (dio s) @ replicate 33 False)"
  "dio (swd_wait_fault nd req s) = True"
proof -
  have t: "turnaround (clock_cycles nd n s) = turnaround s"
    "data_phase (clock_cycles nd n s) = data_phase s"
    "data_phase (PIN_SWDIO_OUT_ENABLE (clock_cycles nd n s)) = data_phase s" for n
    by (rule wire_only_fields; simp)+
  show "dio (swd_wait_fault nd req s) = True"
    by (simp add: swd_wait_fault_def wire_simps Let_def)
  show "clocked (swd_wait_fault nd req s) = clocked s @
     (if data_phase s = 0 then replicate (unat (turnaround s)) (dio s)
      else if req AND DAP_TRANSFER_RnW \<noteq> 0 then replicate (33 + unat (turnaround s)) (dio s)
      else replicate (unat (turnaround s)) (dio s) @ replicate 33 False)"
    by (simp add: swd_wait_fault_def wire_simps Let_def t replicate_add)
qed

lemma swd_protocol_error_wire [wire_simps]:
  "clocked (swd_protocol_error nd s) =
     clocked s @ replicate (unat (turnaround s) + 33) (dio s)"
  "dio (swd_protocol_error nd s) = True"
proof -
  have "unat (ucast (turnaround s) + 33 :: u32) = unat (turnaround s) + 33"
    using unat_bounds(1) [of "turnaround s"] by (simp add: unat_word_ariths)
  then show "clocked (swd_protocol_error nd s) =
     clocked s @ replicate (unat (turnaround s) + 33) (dio s)"
    by (simp add: swd_protocol_error_def wire_simps add.commute)
qed (simp add: swd_protocol_error_def wire_simps)

lemma swd_packet_request_fields:
  "turnaround (swd_packet_request nd req s) = turnaround s"
  "turnaround (snd (swd_acknowledge H nd (swd_packet_request nd req s))) = turnaround s"
  "data_phase (snd (swd_acknowledge H nd (swd_packet_request nd req s))) = data_phase s"
  by (rule wire_only_fields; simp)+

lemma transfer_idle_fields:
  "wire_only s t \<Longrightarrow> idle_cycles (capture_timestamp H req t) = idle_cycles s"
  by (rule wire_only_fields) simp

definition swd_ack :: "hw \<Rightarrow> bool \<Rightarrow> u32 \<Rightarrow> dap \<Rightarrow> u32" where
  "swd_ack H nd req s = fst (swd_acknowledge H nd (swd_packet_request nd req s))"

definition swd_acked :: "hw \<Rightarrow> bool \<Rightarrow> u32 \<Rightarrow> dap \<Rightarrow> dap" where
  "swd_acked H nd req s = snd (swd_acknowledge H nd (swd_packet_request nd req s))"

lemma swd_acked_wire [wire_simps]:
  "clocked (swd_acked H nd req s) = clocked s @ swd_request_frame req @
     replicate (unat (turnaround s)) True @ replicate 3 True"
  "dio (swd_acked H nd req s) = True"
  by (simp_all add: swd_acked_def wire_simps swd_packet_request_fields)

lemma swd_acked_fields [simp]:
  "turnaround (swd_acked H nd req s) = turnaround s"
  "data_phase (swd_acked H nd req s) = data_phase s"
  "wire_only s (swd_acked H nd req s)"
  by (simp_all add: swd_acked_def swd_packet_request_fields)

lemma SWD_Transfer_GPIO_cases:
  "SWD_Transfer_GPIO H nd req store data s =
    (let t = swd_acked H nd req s in
     if swd_ack H nd req s = 1 then
       (if req AND DAP_TRANSFER_RnW \<noteq> 0 then
          (fst (swd_data_read H nd store data t), fst (snd (swd_data_read H nd store data t)),
           swd_idle nd (capture_timestamp H req (snd (snd (swd_data_read H nd store data t)))))
        else (DAP_TRANSFER_OK, data,
              swd_idle nd (capture_timestamp H req (swd_data_write nd data t))))
     else if swd_ack H nd req s = 2 \<or> swd_ack H nd req s = 4 then
       (ucast (swd_ack H nd req s), data, swd_wait_fault nd req t)
     else (ucast (swd_ack H nd req s), data, swd_protocol_error nd t))"
  by (simp add: SWD_Transfer_GPIO_def swd_ack_def swd_acked_def Let_def case_prod_beta
      transfer_consts)

lemma wire_only_SWD_Transfer_GPIO [simp]:
  "wire_only s (snd (snd (SWD_Transfer_GPIO H nd req store data s)))"
  by (simp add: SWD_Transfer_GPIO_cases Let_def)

lemma swd_samples_Suc: "fst (swd_samples H nd (Suc n) s) =
    fst (swd_samples H nd n s) @ [bit (fst (SW_READ_BIT H nd (snd (swd_samples H nd n s)))) 0]"
  using swd_samples_add [of H nd n 1 s] by (simp add: Let_def case_prod_beta)

lemma bit_xor_and_1: "(a XOR b) AND 1 \<noteq> 0 \<longleftrightarrow> bit a 0 \<noteq> bit b 0" for a b :: u32
  by (simp add: and_1_nonzero bit_xor_iff)

lemma swd_data_read_result:
  fixes H nd s
  defines "smp \<equiv> fst (swd_samples H nd 33 s)"
  shows "fst (swd_data_read H nd store data s) =
      (if parity_of smp then DAP_TRANSFER_ERROR else DAP_TRANSFER_OK)"
    and "fst (snd (swd_data_read H nd store data s)) =
      (if store then word_of_bits (take 32 smp) else data)"
proof -
  have smp: "smp = fst (swd_samples H nd 32 s) @
      [bit (fst (SW_READ_BIT H nd (snd (swd_samples H nd 32 s)))) 0]"
    using swd_samples_Suc [of H nd 32 s] by (simp add: smp_def)
  show "fst (swd_data_read H nd store data s) =
      (if parity_of smp then DAP_TRANSFER_ERROR else DAP_TRANSFER_OK)"
    by (simp add: swd_data_read_def Let_def case_prod_beta swd_read_loop_state
        swd_read_loop_parity bit_xor_and_1 smp)
  show "fst (snd (swd_data_read H nd store data s)) =
      (if store then word_of_bits (take 32 smp) else data)"
    by (simp add: swd_data_read_def Let_def case_prod_beta swd_read_loop_word smp)
qed

section \<open>Properties\<close>

text \<open>A probe at its power-up configuration and a target that acknowledges with OK, for the
  witnesses: the acknowledge bits are the three samples after nine clock edges.\<close>

definition rising :: "ev list \<Rightarrow> nat" where
  "rising t = length (filter (\<lambda>e. case e of PinOut SWCLK_TCK b \<Rightarrow> b | _ \<Rightarrow> False) t)"

definition spi_regs_0 :: spi_regs where
  "spi_regs_0 = \<lparr>usr_command = False, usr_addr = False, usr_mosi = False, usr_miso = False, sio = False,
     command_bitlen = 0, command_value = 0, mosi_bitlen = 0, miso_bitlen = 0,
     data_buf = (\<lambda>_. 0)\<rparr>"

definition example_dap :: dap where
  "example_dap = \<lparr>debug_port = 1, fast_clock = 1, clock_delay = 1, timestamp = 0,
     idle_cycles = 2, retry_count = 100, match_retry = 0, match_mask = 0, turnaround = 1,
     data_phase = 0, jtag_count = 1, jtag_index = 0, ir_length = replicate 8 4,
     ir_before = replicate 8 0, ir_after = replicate 8 0, TransferAbort = 0,
     SWD_TransferSpeed = kTransfer_GPIO_fast, spi = spi_regs_0, trace = [SpiCtl SPI_Deinit]\<rparr>"

definition example_hw :: "nat set \<Rightarrow> hw" where
  "example_hw highs = \<lparr>hw_chip = ESP32, hw_level = (\<lambda>p t. rising t \<in> highs),
     hw_rtc = (\<lambda>t. of_nat (length t)), hw_spi = (\<lambda>_ _. 0)\<rparr>"

text \<open>C1: A write that the target acknowledges returns OK, leaves the caller's data alone and
  clocks exactly the protocol's frame: the packet request, the turnaround and acknowledge
  phases with the line released, the turnaround back, the 32 data bits least significant first,
  their even parity, and the configured idle cycles with the line low; the line is then high.\<close>

theorem swd_write_on_wire:
  assumes "req AND DAP_TRANSFER_RnW = 0" and "swd_ack H nd req s = 1"
  shows "\<exists>s'. SWD_Transfer_GPIO H nd req store data s = (DAP_TRANSFER_OK, data, s') \<and>
    clocked s' = clocked s @ swd_request_frame req @ replicate (unat (turnaround s)) True @
      replicate 3 True @ replicate (unat (turnaround s)) True @
      bits_lsb 32 data @ [parity_of (bits_lsb 32 data)] @
      replicate (unat (idle_cycles s)) False \<and> dio s'"
  using assms
  by (simp add: SWD_Transfer_GPIO_cases Let_def wire_simps transfer_idle_fields [of s])

theorem swd_write_on_wire_witness:
  "\<exists>s'. SWD_Transfer_GPIO (example_hw {9}) False 0x8 True 0xA5 example_dap =
      (DAP_TRANSFER_OK, 0xA5, s') \<and>
    clocked s' = clocked example_dap @ swd_request_frame 0x8 @
      replicate (unat (turnaround example_dap)) True @
      replicate 3 True @ replicate (unat (turnaround example_dap)) True @
      bits_lsb 32 (0xA5 :: u32) @ [parity_of (bits_lsb 32 (0xA5 :: u32))] @
      replicate (unat (idle_cycles example_dap)) False \<and> dio s'"
  by (rule swd_write_on_wire; code_simp)

text \<open>C3: A read that the target acknowledges stores the 32 sampled bits, first bit least
  significant, and returns OK exactly when they and the sampled parity bit have even parity;
  otherwise it returns ERROR (and still stores).  The number of clock cycles does not depend on
  what was sampled.\<close>

theorem swd_read_checks_parity:
  assumes "req AND DAP_TRANSFER_RnW \<noteq> 0" and "swd_ack H nd req s = 1"
  shows "\<exists>s' smp. smp = fst (swd_samples H nd 33 (swd_acked H nd req s)) \<and>
    SWD_Transfer_GPIO H nd req store data s =
      (if parity_of smp then DAP_TRANSFER_ERROR else DAP_TRANSFER_OK,
       if store then word_of_bits (take 32 smp) else data, s') \<and>
    clocked s' = clocked s @ swd_request_frame req @ replicate (unat (turnaround s)) True @
      replicate 3 True @ replicate (33 + unat (turnaround s)) True @
      replicate (unat (idle_cycles s)) False \<and> dio s'"
  using assms
  by (simp add: SWD_Transfer_GPIO_cases Let_def wire_simps transfer_idle_fields [of s]
      swd_data_read_result)

theorem swd_read_checks_parity_witness:
  "\<exists>s' smp. smp = fst (swd_samples (example_hw {9}) True 33 (swd_acked (example_hw {9}) True 0x2 example_dap)) \<and>
    SWD_Transfer_GPIO (example_hw {9}) True 0x2 True 0 example_dap =
      (if parity_of smp then DAP_TRANSFER_ERROR else DAP_TRANSFER_OK,
       if True then word_of_bits (take 32 smp) else 0, s') \<and>
    clocked s' = clocked example_dap @ swd_request_frame 0x2 @
      replicate (unat (turnaround example_dap)) True @
      replicate 3 True @ replicate (33 + unat (turnaround example_dap)) True @
      replicate (unat (idle_cycles example_dap)) False \<and> dio s'"
  by (rule swd_read_checks_parity; code_simp)

text \<open>Any other acknowledge is passed on with the caller's data untouched.  After WAIT or
  FAULT the data phase is clocked only when the configuration asks for it (33 cycles: the line
  low for a write); after no valid acknowledge the probe backs off for turnaround plus 33
  cycles.\<close>

theorem swd_failed_transfer:
  assumes "swd_ack H nd req s \<noteq> 1"
  shows "\<exists>s'. SWD_Transfer_GPIO H nd req store data s = (ucast (swd_ack H nd req s), data, s') \<and>
    dio s' \<and> clocked s' = clocked s @ swd_request_frame req @
      replicate (unat (turnaround s)) True @ replicate 3 True @
      (if swd_ack H nd req s \<in> {2, 4} then
         (if data_phase s = 0 then replicate (unat (turnaround s)) True
          else if req AND DAP_TRANSFER_RnW \<noteq> 0 then replicate (33 + unat (turnaround s)) True
          else replicate (unat (turnaround s)) True @ replicate 33 False)
       else replicate (unat (turnaround s) + 33) True)"
  using assms
  by (cases "swd_ack H nd req s \<in> {2, 4}") (auto simp: SWD_Transfer_GPIO_cases Let_def wire_simps)

theorem swd_failed_transfer_witness:
  "\<exists>s'. SWD_Transfer_GPIO (example_hw {10}) False 0x2 True 7 example_dap =
      (ucast (swd_ack (example_hw {10}) False 0x2 example_dap), 7, s') \<and>
    dio s' \<and> clocked s' = clocked example_dap @ swd_request_frame 0x2 @
      replicate (unat (turnaround example_dap)) True @ replicate 3 True @
      (if swd_ack (example_hw {10}) False 0x2 example_dap \<in> {2, 4} then
         (if data_phase example_dap = 0 then replicate (unat (turnaround example_dap)) True
          else if (0x2 :: u32) AND DAP_TRANSFER_RnW \<noteq> 0
               then replicate (33 + unat (turnaround example_dap)) True
          else replicate (unat (turnaround example_dap)) True @ replicate 33 False)
       else replicate (unat (turnaround example_dap) + 33) True)"
  by (rule swd_failed_transfer; code_simp)

text \<open>C9: Whatever the target answers, a transfer's first eight clocked bits decode at the target
  to exactly the request's low four bits, the line is parked high, and no configuration field
  of the probe changes.\<close>

theorem swd_request_decodes:
  "\<exists>s' ack data' rest. SWD_Transfer_GPIO H nd req store data s = (ack, data', s') \<and>
    clocked s' = clocked s @ swd_request_frame req @ rest \<and>
    target_decode (swd_request_frame req) = Some (req AND 0xF) \<and> dio s' \<and> wire_only s s'"
proof -
  obtain ack data' s' where r: "SWD_Transfer_GPIO H nd req store data s = (ack, data', s')"
    by (cases "SWD_Transfer_GPIO H nd req store data s")
  have w: "wire_only s s'"
    using wire_only_SWD_Transfer_GPIO [of s H nd req store data] by (simp add: r)
  have "dio s' \<and> (\<exists>rest. clocked s' = clocked s @ swd_request_frame req @ rest)"
    using r by (auto simp: SWD_Transfer_GPIO_cases Let_def wire_simps split: if_splits)
  with r w target_decode_frame show ?thesis by blast
qed

text \<open>An SWJ sequence clocks out exactly the first \<open>count\<close> bits of the buffer, each byte
  least significant bit first, and reads no byte beyond the last one it needs.\<close>

theorem swj_sequence_on_wire:
  "clocked (SWJ_Sequence_GPIO count data nd s) = clocked s @ stream_bits (unat count) data \<and>
   SWJ_Sequence_GPIO count data nd s =
     SWJ_Sequence_GPIO count (mem_of (map data [0..<(unat count + 7) div 8])) nd s"
proof
  show "clocked (SWJ_Sequence_GPIO count data nd s) = clocked s @ stream_bits (unat count) data"
    using swj_loop_wire [of 0 "unat count" data nd 0 0 s] by (simp add: SWJ_Sequence_GPIO_def)
  have "same_upto ((unat count + 7) div 8) data (mem_of (map data [0..<(unat count + 7) div 8]))"
    by (simp add: same_upto_def mem_of_def)
  then show "SWJ_Sequence_GPIO count data nd s =
     SWJ_Sequence_GPIO count (mem_of (map data [0..<(unat count + 7) div 8])) nd s"
    unfolding SWJ_Sequence_GPIO_def by (rule swj_loop_cong) simp_all
qed

text \<open>An SWD sequence of 1 to 64 cycles either drives the first \<open>n\<close> bits of the buffer, or
  samples \<open>n\<close> bits and returns them packed least significant bit first with the last byte
  padded by zeros, so that unpacking the returned bytes gives back the samples.\<close>

theorem swd_sequence_in_out:
  "(let n = swd_seq_count info; (bytes, s') = SWD_Sequence_GPIO H info swdo s in
     1 \<le> n \<and> n \<le> 64 \<and> wire_only s s' \<and>
     (if info AND SWD_SEQUENCE_DIN \<noteq> 0
      then length bytes = (n + 7) div 8 \<and>
           stream_bits n (mem_of bytes) = fst (swd_samples H True n s) \<and>
           clocked s' = clocked s @ replicate n (dio s)
      else bytes = [] \<and> clocked s' = clocked s @ stream_bits n swdo))"
proof -
  have "unat (info AND SWD_SEQUENCE_CLK) \<le> unat SWD_SEQUENCE_CLK"
    using word_and_le1 [of info SWD_SEQUENCE_CLK] by (simp add: word_le_nat_alt and.commute)
  then have n: "1 \<le> swd_seq_count info" "swd_seq_count info \<le> 64"
    by (simp_all add: swd_seq_count_def Let_def unat_gt_0 Suc_le_eq SWD_SEQUENCE_CLK_def)
  have len: "stream_bits (swd_seq_count info)
       (mem_of (pack_bits (fst (swd_samples H True (swd_seq_count info) s)))) =
      fst (swd_samples H True (swd_seq_count info) s)"
    using stream_bits_pack_bits [of "fst (swd_samples H True (swd_seq_count info) s)"] by simp
  have "wire_only s (snd (SWD_Sequence_GPIO H info swdo s))" by simp
  with n len show ?thesis
    by (simp add: SWD_Sequence_GPIO_def Let_def swd_seq_in_eq swd_seq_out_wire length_pack_bits
        wire_simps)
qed

end
