(* ===== verification/Spi.thy ===== *)
theory Spi
  imports Swd
begin

text \<open>
  spi_op.c: the SPI peripheral used as a fast serial wire (dap_utility.[ch] computes the
  parities), the SPI variants of the operations of SW_DP.c, and the dispatch on the transfer
  speed.  What the peripheral receives is the parameter \<open>hw_spi\<close>; what it sends is read off
  the registers each \<open>SpiRun\<close> event carries.  The lemmas relate both to the bits the GPIO
  variants clock.
\<close>

section \<open>Parity (dap\_utility)\<close>

definition ParityEvenUint32 :: "u32 \<Rightarrow> u8" where
  "ParityEvenUint32 v =
     (let v = v XOR drop_bit 16 v;
          v = v XOR drop_bit 8 v;
          v = v XOR drop_bit 4 v;
          v = v AND 0xF
      in ucast (drop_bit (unat v) (0x6996 :: u32) AND 1))"

definition P2 :: "u8 \<Rightarrow> u8 list" where
  "P2 n = [n, n XOR 1, n XOR 1, n]"

definition P4 :: "u8 \<Rightarrow> u8 list" where
  "P4 n = P2 n @ P2 (n XOR 1) @ P2 (n XOR 1) @ P2 n"

definition P6 :: "u8 \<Rightarrow> u8 list" where
  "P6 n = P4 n @ P4 (n XOR 1) @ P4 (n XOR 1) @ P4 n"

definition kParityByteTable :: "u8 list" where
  "kParityByteTable = P6 0 @ P6 1 @ P6 1 @ P6 0"

definition ParityEvenUint8 :: "u8 \<Rightarrow> u8" where
  "ParityEvenUint8 v = kParityByteTable ! unat v"

section \<open>Driving the peripheral (spi\_op.c)\<close>

definition spi_upd :: "(spi_regs \<Rightarrow> spi_regs) \<Rightarrow> dap \<Rightarrow> dap" where
  "spi_upd f s = s\<lparr>spi := f (spi s)\<rparr>"

text \<open>The ESP32 has two length registers, the other chips a shared one.\<close>

definition SET_MOSI_BIT_LEN :: "hw \<Rightarrow> u32 \<Rightarrow> dap \<Rightarrow> dap" where
  "SET_MOSI_BIT_LEN H x s = spi_upd (\<lambda>r. case hw_chip H of
       ESP32 \<Rightarrow> r\<lparr>mosi_bitlen := x\<rparr>
     | _ \<Rightarrow> r\<lparr>mosi_bitlen := x, miso_bitlen := x\<rparr>) s"

definition SET_MISO_BIT_LEN :: "hw \<Rightarrow> u32 \<Rightarrow> dap \<Rightarrow> dap" where
  "SET_MISO_BIT_LEN H x s = spi_upd (\<lambda>r. case hw_chip H of
       ESP32 \<Rightarrow> r\<lparr>miso_bitlen := x\<rparr>
     | _ \<Rightarrow> r\<lparr>mosi_bitlen := x, miso_bitlen := x\<rparr>) s"

text \<open>One transaction with the registers as they are; a receiving one fills the data
  registers.\<close>

definition START_AND_WAIT :: "hw \<Rightarrow> dap \<Rightarrow> dap" where
  "START_AND_WAIT H s =
     (let s = emit (SpiRun (spi s)) s
      in if usr_miso (spi s) then spi_upd (\<lambda>r. r\<lparr>data_buf := hw_spi H (trace s)\<rparr>) s else s)"

definition DAP_SPI_Enable :: "dap \<Rightarrow> dap" where
  "DAP_SPI_Enable s = emit (SpiCtl SPI_Enable) s"

definition DAP_SPI_Disable :: "dap \<Rightarrow> dap" where
  "DAP_SPI_Disable s = emit (SpiCtl SPI_Disable) s"

definition div_round_up :: "nat \<Rightarrow> nat \<Rightarrow> nat" where
  "div_round_up A B = (A + B - 1) div B"

text \<open>
  \<open>DAP_SPI_WriteBits\<close> copies \<open>nbytes\<close> bytes over the local word array (\<open>junk\<close> is what the
  array held before) and then \<open>nbytes\<close> words of it into the data registers.
\<close>

definition byte_of :: "nat \<Rightarrow> u32 \<Rightarrow> u8" where
  "byte_of k w = ucast (drop_bit (8 * k) w)"

definition memcpy_words :: "nat \<Rightarrow> mem \<Rightarrow> (nat \<Rightarrow> u32) \<Rightarrow> nat \<Rightarrow> u32" where
  "memcpy_words nbytes buf junk i =
     (let b = (\<lambda>k. if 4 * i + k < nbytes then buf (4 * i + k) else byte_of k (junk i))
      in le32 (b 0) (b 1) (b 2) (b 3))"

definition DAP_SPI_WriteBits :: "hw \<Rightarrow> (nat \<Rightarrow> u32) \<Rightarrow> u8 \<Rightarrow> mem \<Rightarrow> dap \<Rightarrow> dap" where
  "DAP_SPI_WriteBits H junk count buf s =
     (let s = spi_upd (\<lambda>r. r\<lparr>usr_command := False, usr_addr := False,
                             usr_mosi := True, usr_miso := False\<rparr>) s;
          s = SET_MOSI_BIT_LEN H (ucast count - 1) s;
          nbytes = div_round_up (unat count) 8;
          data = memcpy_words nbytes buf junk;
          s = spi_upd (\<lambda>r. r\<lparr>data_buf := (\<lambda>i. if i < nbytes then data i else data_buf r i)\<rparr>) s
      in START_AND_WAIT H s)"

definition DAP_SPI_ReadBits :: "hw \<Rightarrow> u8 \<Rightarrow> dap \<Rightarrow> u8 list \<times> dap" where
  "DAP_SPI_ReadBits H count s =
     (let s = spi_upd (\<lambda>r. r\<lparr>usr_mosi := False, usr_miso := True, sio := True\<rparr>) s;
          s = SET_MISO_BIT_LEN H (ucast count - 1) s;
          s = START_AND_WAIT H s;
          s = spi_upd (\<lambda>r. r\<lparr>sio := False\<rparr>) s;
          pData = (\<lambda>i. byte_of (i mod 4) (data_buf (spi s) (i div 4)));
          n = div_round_up (unat count) 8;
          buf = map pData [0..<n];
          mask = drop_bit (unat count mod 8) (2 :: u32) - 1
      in (buf[n - 1 := (buf ! (n - 1)) AND ucast mask], s))"

definition DAP_SPI_Send_Header :: "hw \<Rightarrow> u8 \<Rightarrow> u32 \<Rightarrow> dap \<Rightarrow> u8 \<times> dap" where
  "DAP_SPI_Send_Header H packetHeaderData TrnAfterACK s = (case hw_chip H of
     ESP32 \<Rightarrow>
       (let s = spi_upd (\<lambda>r. r\<lparr>usr_mosi := True\<rparr>) s;
            s = SET_MOSI_BIT_LEN H (8 - 1) s;
            s = spi_upd (\<lambda>r. r\<lparr>usr_miso := True, sio := True\<rparr>) s;
            s = SET_MISO_BIT_LEN H (1 + 3 + TrnAfterACK - 1) s;
            s = spi_upd (\<lambda>r. r\<lparr>data_buf := (data_buf r)(0 := ucast packetHeaderData)\<rparr>) s;
            s = START_AND_WAIT H s;
            s = spi_upd (\<lambda>r. r\<lparr>sio := False\<rparr>) s
        in (ucast (drop_bit 1 (data_buf (spi s) 0) AND 0x7), s))
   | _ \<Rightarrow>
       (let s = spi_upd (\<lambda>r. r\<lparr>usr_mosi := False, usr_command := True, usr_miso := True,
                               command_bitlen := 8 + 1 - 1,
                               command_value := ucast packetHeaderData, sio := True\<rparr>) s;
            s = SET_MISO_BIT_LEN H (3 + TrnAfterACK - 1) s;
            s = START_AND_WAIT H s;
            s = spi_upd (\<lambda>r. r\<lparr>sio := False, usr_command := False\<rparr>) s
        in (ucast (data_buf (spi s) 0 AND 0x7), s)))"

definition DAP_SPI_Read_Data :: "hw \<Rightarrow> dap \<Rightarrow> u32 \<times> u8 \<times> dap" where
  "DAP_SPI_Read_Data H s =
     (let s = spi_upd (\<lambda>r. r\<lparr>usr_mosi := False, usr_miso := True, sio := True\<rparr>) s;
          s = SET_MISO_BIT_LEN H (1 + 32 + 1 - 1) s;
          s = START_AND_WAIT H s;
          s = spi_upd (\<lambda>r. r\<lparr>sio := False\<rparr>) s
      in (data_buf (spi s) 0, ucast (data_buf (spi s) 1 AND 1), s))"

definition DAP_SPI_Write_Data :: "hw \<Rightarrow> u32 \<Rightarrow> u8 \<Rightarrow> dap \<Rightarrow> dap" where
  "DAP_SPI_Write_Data H data parity s =
     (let s = spi_upd (\<lambda>r. r\<lparr>usr_mosi := True, usr_miso := False\<rparr>) s;
          (len, p) = (case hw_chip H of ESP32 \<Rightarrow> (32 + 1 - 1, ucast parity)
                      | _ \<Rightarrow> (32 + 1 + 1 - 1, if parity = 0 then 0 else 1));
          s = SET_MOSI_BIT_LEN H len s;
          s = spi_upd (\<lambda>r. r\<lparr>data_buf := (data_buf r)(0 := data, 1 := p)\<rparr>) s
      in START_AND_WAIT H s)"

definition DAP_SPI_Generate_Cycle :: "hw \<Rightarrow> u8 \<Rightarrow> dap \<Rightarrow> dap" where
  "DAP_SPI_Generate_Cycle H num s = (case hw_chip H of
     ESP32C3 \<Rightarrow>
       (let s = spi_upd (\<lambda>r. r\<lparr>usr_mosi := False, usr_miso := True\<rparr>) s
        in START_AND_WAIT H (SET_MISO_BIT_LEN H (ucast num - 1) s))
   | _ \<Rightarrow>
       (let s = spi_upd (\<lambda>r. r\<lparr>usr_mosi := True, usr_miso := False\<rparr>) s;
            s = SET_MOSI_BIT_LEN H (ucast num - 1) s
        in START_AND_WAIT H (spi_upd (\<lambda>r. r\<lparr>data_buf := (data_buf r)(0 := 0)\<rparr>) s)))"

definition DAP_SPI_Fast_Cycle :: "dap \<Rightarrow> dap" where
  "DAP_SPI_Fast_Cycle s = emit (SpiCtl SPI_Acquire) (emit (SpiCtl SPI_Release) s)"

definition spi_protocol_error :: "hw \<Rightarrow> u32 \<Rightarrow> dap \<Rightarrow> dap" where
  "spi_protocol_error H len s =
     (let s = spi_upd (\<lambda>r. r\<lparr>usr_mosi := True, usr_miso := False\<rparr>) s;
          s = SET_MOSI_BIT_LEN H len s
      in START_AND_WAIT H
           (spi_upd (\<lambda>r. r\<lparr>data_buf := (data_buf r)(0 := 0xFFFFFFFF, 1 := 0xFFFFFFFF)\<rparr>) s))"

definition DAP_SPI_Protocol_Error_Read :: "hw \<Rightarrow> dap \<Rightarrow> dap" where
  "DAP_SPI_Protocol_Error_Read H s = spi_protocol_error H (32 + 1 - 1) s"

definition DAP_SPI_Protocol_Error_Write :: "hw \<Rightarrow> dap \<Rightarrow> dap" where
  "DAP_SPI_Protocol_Error_Write H s = spi_protocol_error H (1 + 32 + 1 - 1) s"

section \<open>The SPI variants of SW\_DP.c\<close>

definition SWJ_Sequence_SPI :: "hw \<Rightarrow> (nat \<Rightarrow> u32) \<Rightarrow> u32 \<Rightarrow> mem \<Rightarrow> dap \<Rightarrow> dap" where
  "SWJ_Sequence_SPI H junk count data s =
     DAP_SPI_WriteBits H junk (ucast count) data (DAP_SPI_Enable s)"

definition SWD_Sequence_SPI ::
  "hw \<Rightarrow> (nat \<Rightarrow> u32) \<Rightarrow> u32 \<Rightarrow> mem \<Rightarrow> dap \<Rightarrow> u8 list \<times> dap" where
  "SWD_Sequence_SPI H junk info swdo s =
     (let n = of_nat (swd_seq_count info)
      in if info AND SWD_SEQUENCE_DIN \<noteq> 0 then DAP_SPI_ReadBits H n s
         else ([], DAP_SPI_WriteBits H junk n swdo s))"

definition spi_request_byte :: "u32 \<Rightarrow> u8" where
  "spi_request_byte request =
     0x81 OR push_bit 1 (ucast (request AND 0xF))
          OR push_bit 5 (ParityEvenUint8 (ucast (request AND 0xF)))"

text \<open>After a protocol error: off the bus, park the line, run the error cycles, off again.\<close>

definition spi_back_off :: "(dap \<Rightarrow> dap) \<Rightarrow> dap \<Rightarrow> dap" where
  "spi_back_off cycles s =
     (let s = PIN_SWDIO_TMS_SET (DAP_SPI_Disable s);
          s = cycles (DAP_SPI_Enable s)
      in PIN_SWDIO_TMS_SET (DAP_SPI_Disable s))"

definition spi_transfer_read :: "hw \<Rightarrow> u32 \<Rightarrow> bool \<Rightarrow> u32 \<Rightarrow> dap \<Rightarrow> u8 \<times> u32 \<times> dap" where
  "spi_transfer_read H request store data s =
     (let (ack, s) = DAP_SPI_Send_Header H (spi_request_byte request) 0 s
      in if ack = DAP_TRANSFER_OK then
           (let (val, parity, s) = DAP_SPI_Read_Data H s;
                computedParity = ParityEvenUint32 val;
                ack = (if (computedParity XOR parity) AND 1 \<noteq> 0 then DAP_TRANSFER_ERROR else ack);
                data = (if store then val else data)
            in (ack, data, capture_timestamp H request s))
         else if ack = DAP_TRANSFER_WAIT \<or> ack = DAP_TRANSFER_FAULT then
           (ack, data, case hw_chip H of ESP32 \<Rightarrow> DAP_SPI_Generate_Cycle H 1 s
                       | _ \<Rightarrow> DAP_SPI_Fast_Cycle s)
         else (ack, data, spi_back_off (DAP_SPI_Protocol_Error_Read H) s))"

definition spi_transfer_write :: "hw \<Rightarrow> u32 \<Rightarrow> u32 \<Rightarrow> dap \<Rightarrow> u8 \<times> u32 \<times> dap" where
  "spi_transfer_write H request data s =
     (let parity = ParityEvenUint32 data;
          (ack, s) = DAP_SPI_Send_Header H (spi_request_byte request) 1 s
      in if ack = DAP_TRANSFER_OK then
           (let s = capture_timestamp H request (DAP_SPI_Write_Data H data parity s);
                n = idle_cycles s;
                s = (if n \<noteq> 0 then DAP_SPI_Generate_Cycle H n s else s)
            in (ack, data, PIN_SWDIO_TMS_SET (DAP_SPI_Disable s)))
         else if ack = DAP_TRANSFER_WAIT \<or> ack = DAP_TRANSFER_FAULT then (ack, data, s)
         else (ack, data, spi_back_off (DAP_SPI_Protocol_Error_Write H) s))"

definition SWD_Transfer_SPI :: "hw \<Rightarrow> u32 \<Rightarrow> bool \<Rightarrow> u32 \<Rightarrow> dap \<Rightarrow> u8 \<times> u32 \<times> dap" where
  "SWD_Transfer_SPI H request store data s =
     (let s = DAP_SPI_Enable s
      in if request AND DAP_TRANSFER_RnW \<noteq> 0 then spi_transfer_read H request store data s
         else spi_transfer_write H request data s)"

section \<open>Dispatch on the transfer speed\<close>

definition SWJ_Sequence :: "hw \<Rightarrow> (nat \<Rightarrow> u32) \<Rightarrow> u32 \<Rightarrow> mem \<Rightarrow> dap \<Rightarrow> dap" where
  "SWJ_Sequence H junk count data s =
     (if SWD_TransferSpeed s = kTransfer_SPI then SWJ_Sequence_SPI H junk count data s
      else SWJ_Sequence_GPIO count data True s)"

definition SWD_Sequence :: "hw \<Rightarrow> (nat \<Rightarrow> u32) \<Rightarrow> u32 \<Rightarrow> mem \<Rightarrow> dap \<Rightarrow> u8 list \<times> dap" where
  "SWD_Sequence H junk info swdo s =
     (if SWD_TransferSpeed s = kTransfer_SPI then SWD_Sequence_SPI H junk info swdo s
      else SWD_Sequence_GPIO H info swdo s)"

definition SWD_Transfer :: "hw \<Rightarrow> u32 \<Rightarrow> bool \<Rightarrow> u32 \<Rightarrow> dap \<Rightarrow> u8 \<times> u32 \<times> dap" where
  "SWD_Transfer H request store data s = (case SWD_TransferSpeed s of
     kTransfer_SPI \<Rightarrow> SWD_Transfer_SPI H request store data s
   | kTransfer_GPIO_fast \<Rightarrow> SWD_Transfer_GPIO H False request store data s
   | kTransfer_GPIO_normal \<Rightarrow> SWD_Transfer_GPIO H True request store data s)"

section \<open>Parity lemmas\<close>

lemma bits_lsb_add: "bits_lsb (m + n) w = bits_lsb m w @ bits_lsb n (drop_bit m w)"
  by (induction m arbitrary: w) (simp_all add: bits_lsb_Suc)

lemma parity_of_xor:
  "parity_of (bits_lsb n (a XOR b)) = (parity_of (bits_lsb n a) \<noteq> parity_of (bits_lsb n b))"
  by (induction n arbitrary: a b) (auto simp: bits_lsb_Suc bit_xor_iff drop_bit_xor)

lemma parity_of_fold:
  "parity_of (bits_lsb (n + n) v) = parity_of (bits_lsb n (v XOR drop_bit n v))"
  by (simp add: bits_lsb_add parity_of_xor)

lemma nibble_parity:
  "list_all (\<lambda>n. drop_bit n (0x6996 :: u32) AND 1 =
      of_bool (parity_of (bits_lsb 4 (of_nat n :: u32)))) [0..<16]"
  by code_simp

lemma and_15: "unat (v AND 0xF) < 16" "bits_lsb 4 (v AND 0xF) = bits_lsb 4 v" for v :: u32
proof -
  have v: "v AND 0xF = take_bit 4 v" by (simp add: take_bit_eq_mask mask_eq_exp_minus_1)
  show "unat (v AND 0xF) < 16" unfolding v
    using take_bit_nat_less_exp [of 4 "unat v"] by (simp add: unsigned_take_bit_eq)
  show "bits_lsb 4 (v AND 0xF) = bits_lsb 4 v"
    unfolding v by (auto simp: bits_lsb_def bit_take_bit_iff)
qed

lemma ParityEvenUint32_eq: "ParityEvenUint32 v = of_bool (parity_of (bits_lsb 32 v))"
proof -
  define w where "w = (let v = v XOR drop_bit 16 v; v = v XOR drop_bit 8 v in v XOR drop_bit 4 v)"
  have "parity_of (bits_lsb 32 v) = parity_of (bits_lsb 4 (w AND 0xF))"
    using parity_of_fold [of 16 v] parity_of_fold [of 8 "v XOR drop_bit 16 v"]
      parity_of_fold [of 4 "let v = v XOR drop_bit 16 v in v XOR drop_bit 8 v"]
    by (simp add: w_def Let_def and_15)
  moreover have "drop_bit (unat (w AND 0xF)) (0x6996 :: u32) AND 1 =
      of_bool (parity_of (bits_lsb 4 (w AND 0xF)))"
    using nibble_parity and_15(1) [of w] by (auto simp: list_all_iff)
  ultimately show ?thesis by (simp add: ParityEvenUint32_def w_def Let_def)
qed

lemma kParityByteTable_parity:
  "list_all (\<lambda>n. kParityByteTable ! n = of_bool (parity_of (bits_lsb 8 (of_nat n :: u8)))) [0..<256]"
  by code_simp

lemma ParityEvenUint8_eq: "ParityEvenUint8 v = of_bool (parity_of (bits_lsb 8 v))"
proof -
  have "unat v \<in> set [0..<256]" using unat_bounds(1) [of v] by simp
  with kParityByteTable_parity show ?thesis
    unfolding list_all_iff ParityEvenUint8_def by fastforce
qed

lemma request_byte_frame_16:
  "list_all (\<lambda>n. bits_lsb 8 (spi_request_byte (of_nat n)) = swd_request_frame (of_nat n)) [0..<16]"
  by code_simp

lemma request_byte_frame: "bits_lsb 8 (spi_request_byte req) = swd_request_frame req"
proof -
  let ?q = "req AND 0xF"
  have "spi_request_byte req = spi_request_byte ?q"
    by (simp add: spi_request_byte_def)
  moreover have "swd_request_frame req = swd_request_frame ?q"
    using and_15(2) [of req] by (simp add: swd_request_frame_def bits_lsb_4)
  moreover have "bits_lsb 8 (spi_request_byte ?q) = swd_request_frame ?q"
    using bspec [OF request_byte_frame_16 [unfolded list_all_iff], of "unat ?q"] and_15(1) [of req]
    by simp
  ultimately show ?thesis by simp
qed

section \<open>What a transaction sends\<close>

text \<open>
  Reference: the command phase, then the data phase, each least significant bit first; the
  data registers are consecutive.
\<close>

definition spi_data_bits :: "nat \<Rightarrow> (nat \<Rightarrow> u32) \<Rightarrow> bool list" where
  "spi_data_bits n buf = map (\<lambda>i. bit (buf (i div 32)) (i mod 32)) [0..<n]"

definition spi_sent :: "spi_regs \<Rightarrow> bool list" where
  "spi_sent r =
     (if usr_command r then bits_lsb (unat (command_bitlen r) + 1) (command_value r) else []) @
     (if usr_mosi r then spi_data_bits (unat (mosi_bitlen r) + 1) (data_buf r) else [])"

fun spi_run_of :: "ev \<Rightarrow> spi_regs option" where
  "spi_run_of (SpiRun r) = Some r"
| "spi_run_of _ = None"

definition spi_runs :: "dap \<Rightarrow> spi_regs list" where
  "spi_runs s = rev (List.map_filter spi_run_of (trace s))"

lemma spi_runs_simps [wire_simps]:
  "spi_runs (emit (SpiRun r) s) = spi_runs s @ [r]"
  "spi_runs (emit (SpiCtl c) s) = spi_runs s" "spi_runs (emit TsRead s) = spi_runs s"
  "spi_runs (emit (PinOut p b) s) = spi_runs s" "spi_runs (spi_upd f s) = spi_runs s"
  "spi_runs (s\<lparr>timestamp := x\<rparr>) = spi_runs s"
  by (simp_all add: spi_runs_def spi_upd_def map_filter_simps)

lemma spi_upd_simps [simp]:
  "spi (spi_upd f s) = f (spi s)" "trace (spi_upd f s) = trace s"
  "wire_only s (spi_upd f t) = wire_only s t"
  by (simp_all add: spi_upd_def)

lemma spi_len_simps [simp]:
  "spi (SET_MOSI_BIT_LEN H x s) = (case hw_chip H of ESP32 \<Rightarrow> (spi s)\<lparr>mosi_bitlen := x\<rparr>
     | _ \<Rightarrow> (spi s)\<lparr>mosi_bitlen := x, miso_bitlen := x\<rparr>)"
  "spi (SET_MISO_BIT_LEN H x s) = (case hw_chip H of ESP32 \<Rightarrow> (spi s)\<lparr>miso_bitlen := x\<rparr>
     | _ \<Rightarrow> (spi s)\<lparr>mosi_bitlen := x, miso_bitlen := x\<rparr>)"
  "trace (SET_MOSI_BIT_LEN H x s) = trace s" "trace (SET_MISO_BIT_LEN H x s) = trace s"
  "wire_only t (SET_MOSI_BIT_LEN H x s) = wire_only t s"
  "wire_only t (SET_MISO_BIT_LEN H x s) = wire_only t s"
  by (simp_all add: SET_MOSI_BIT_LEN_def SET_MISO_BIT_LEN_def split: chip.split)

lemma spi_len_runs [wire_simps]:
  "spi_runs (SET_MOSI_BIT_LEN H x s) = spi_runs s"
  "spi_runs (SET_MISO_BIT_LEN H x s) = spi_runs s"
  by (simp_all add: SET_MOSI_BIT_LEN_def SET_MISO_BIT_LEN_def wire_simps)

lemma START_AND_WAIT_simps [simp]:
  "wire_only t (START_AND_WAIT H s) = wire_only t s"
  "trace (START_AND_WAIT H s) = SpiRun (spi s) # trace s"
  "spi (START_AND_WAIT H s) =
     (if usr_miso (spi s) then (spi s)\<lparr>data_buf := hw_spi H (SpiRun (spi s) # trace s)\<rparr>
      else spi s)"
  by (simp_all add: START_AND_WAIT_def Let_def)

lemma START_AND_WAIT_runs [wire_simps]: "spi_runs (START_AND_WAIT H s) = spi_runs s @ [spi s]"
  by (simp add: START_AND_WAIT_def Let_def wire_simps)

lemma wire_only_spi_ops [simp]:
  "wire_only s (DAP_SPI_Enable t) = wire_only s t"
  "wire_only s (DAP_SPI_Disable t) = wire_only s t"
  "wire_only s (DAP_SPI_WriteBits H junk c buf t) = wire_only s t"
  "wire_only s (snd (DAP_SPI_ReadBits H c t)) = wire_only s t"
  "wire_only s (snd (DAP_SPI_Send_Header H b n t)) = wire_only s t"
  "wire_only s (snd (snd (DAP_SPI_Read_Data H t))) = wire_only s t"
  "wire_only s (DAP_SPI_Write_Data H d p t) = wire_only s t"
  "wire_only s (DAP_SPI_Generate_Cycle H k t) = wire_only s t"
  "wire_only s (DAP_SPI_Fast_Cycle t) = wire_only s t"
  "wire_only s (DAP_SPI_Protocol_Error_Read H t) = wire_only s t"
  "wire_only s (DAP_SPI_Protocol_Error_Write H t) = wire_only s t"
  by (simp_all add: DAP_SPI_Enable_def DAP_SPI_Disable_def DAP_SPI_WriteBits_def
      DAP_SPI_ReadBits_def DAP_SPI_Send_Header_def DAP_SPI_Read_Data_def DAP_SPI_Write_Data_def
      DAP_SPI_Generate_Cycle_def DAP_SPI_Fast_Cycle_def DAP_SPI_Protocol_Error_Read_def
      DAP_SPI_Protocol_Error_Write_def spi_protocol_error_def Let_def case_prod_beta
      split: chip.split)

lemma wire_only_spi_transfer [simp]:
  "wire_only s (snd (snd (SWD_Transfer_SPI H req store data t))) = wire_only s t"
  by (simp add: SWD_Transfer_SPI_def spi_transfer_read_def spi_transfer_write_def
      spi_back_off_def Let_def case_prod_beta split: chip.split)

lemma wire_only_swd_ops [simp]:
  "wire_only s (SWJ_Sequence H junk c data s)"
  "wire_only s (snd (SWD_Sequence H junk info swdo s))"
  "wire_only s (snd (snd (SWD_Transfer H req store d s)))"
  by (simp_all add: SWJ_Sequence_def SWD_Sequence_def SWD_Transfer_def SWJ_Sequence_SPI_def
      SWD_Sequence_SPI_def Let_def split: transfer_type.split)

lemma spi_data_bits_word: "n \<le> 32 \<Longrightarrow> spi_data_bits n buf = bits_lsb n (buf 0)"
  by (simp add: spi_data_bits_def bits_lsb_def)

lemma spi_data_bits_add:
  "spi_data_bits (32 + n) buf = bits_lsb 32 (buf 0) @ spi_data_bits n (\<lambda>i. buf (Suc i))"
proof (rule nth_equalityI)
  fix i assume "i < length (spi_data_bits (32 + n) buf)"
  then show "spi_data_bits (32 + n) buf ! i =
      (bits_lsb 32 (buf 0) @ spi_data_bits n (\<lambda>i. buf (Suc i))) ! i"
    by (cases "i < 32")
      (auto simp: spi_data_bits_def bits_lsb_def nth_append not_less le_div_geq le_mod_geq)
qed (simp add: spi_data_bits_def)

lemma spi_data_bits_33:
  "spi_data_bits 33 buf = bits_lsb 32 (buf 0) @ [bit (buf 1) 0]"
  "spi_data_bits 34 buf = bits_lsb 32 (buf 0) @ [bit (buf 1) 0, bit (buf 1) 1]"
  using spi_data_bits_add [of 1 buf] spi_data_bits_add [of 2 buf]
  by (simp_all add: spi_data_bits_def numeral_2_eq_2)

lemma bit_le32:
  assumes "k < 32"
  shows "bit (le32 a b c d) k = bit ([a, b, c, d] ! (k div 8)) (k mod 8)"
proof -
  consider "k < 8" | "8 \<le> k" "k < 16" | "16 \<le> k" "k < 24" | "24 \<le> k" "k < 32"
    using assms by linarith
  then show ?thesis
    by cases (auto simp: le32_def bit_simps le_div_geq le_mod_geq dest: bit_imp_le_length)
qed

lemma bit_memcpy_words:
  assumes "k < 32" "4 * i + k div 8 < n"
  shows "bit (memcpy_words n buf junk i) k = bit (buf (4 * i + k div 8)) (k mod 8)"
proof -
  have "k div 8 \<in> {0, 1, 2, 3}" using assms(1) by auto
  with assms show ?thesis by (auto simp: memcpy_words_def Let_def bit_le32)
qed

lemma spi_data_bits_memcpy:
  assumes "nb = div_round_up n 8"
  shows "spi_data_bits n (\<lambda>i. if i < nb then memcpy_words nb buf junk i else old i) =
    stream_bits n buf"
proof (rule nth_equalityI)
  fix j assume "j < length (spi_data_bits n (\<lambda>i. if i < nb then memcpy_words nb buf junk i else old i))"
  then have j: "j < n" by (simp add: spi_data_bits_def)
  have nb: "j div 8 < nb" using j by (simp add: assms div_round_up_def)
  have "j div 8 = (j mod 32 + 8 * (4 * (j div 32))) div 8"
    by (simp add: mult.assoc [symmetric])
  then have b: "4 * (j div 32) + j mod 32 div 8 = j div 8" "j mod 32 mod 8 = j mod 8"
    using div_mult_self2 [of 8 "j mod 32" "4 * (j div 32)"] by (simp_all add: mod_mod_cancel)
  have "j div 32 \<le> j div 8" by (rule div_le_mono2) simp_all
  with nb have "j div 32 < nb" by simp
  with j nb show "spi_data_bits n (\<lambda>i. if i < nb then memcpy_words nb buf junk i else old i) ! j =
      stream_bits n buf ! j"
    by (simp add: spi_data_bits_def stream_bits_def bit_memcpy_words b)
qed (simp add: spi_data_bits_def)

lemma unat_ucast_minus_1: "(c :: u8) \<noteq> 0 \<Longrightarrow> unat (ucast c - 1 :: u32) + 1 = unat c"
proof -
  assume "c \<noteq> 0"
  then have "unat c \<noteq> 0" "(ucast c :: u32) \<noteq> 0"
    by (auto simp: unat_eq_0 simp flip: unat_eq_0 [where x = "ucast c :: u32"])
  then show ?thesis by (simp add: unat_minus_one)
qed

definition spi_ack :: "hw \<Rightarrow> u32 \<Rightarrow> u32 \<Rightarrow> dap \<Rightarrow> u8" where
  "spi_ack H trn req s = fst (DAP_SPI_Send_Header H (spi_request_byte req) trn (DAP_SPI_Enable s))"

definition spi_acked :: "hw \<Rightarrow> u32 \<Rightarrow> u32 \<Rightarrow> dap \<Rightarrow> dap" where
  "spi_acked H trn req s =
     snd (DAP_SPI_Send_Header H (spi_request_byte req) trn (DAP_SPI_Enable s))"

lemma spi_acked_sends:
  assumes "\<not> usr_command (spi s)"
  shows "\<exists>r. spi_runs (spi_acked H trn req s) = spi_runs s @ [r] \<and>
    take 8 (spi_sent r) = swd_request_frame req"
    and "\<not> usr_command (spi (spi_acked H trn req s))"
proof -
  have e: "bits_lsb 9 (ucast b :: u32) = bits_lsb 8 b @ [False]" for b :: u8
    using bits_lsb_add [of 8 1 "ucast b :: u32"] bits_lsb_ucast [of 8 b, where 'b = 32]
    by (simp add: bits_lsb_Suc bit_drop_bit_eq bit_ucast_iff) (auto dest: bit_imp_le_length)
  have e8: "bits_lsb 8 (ucast b :: u32) = bits_lsb 8 b" for b :: u8
    by (rule bits_lsb_ucast) simp_all
  have len: "length (swd_request_frame req) = 8" by (simp add: swd_request_frame_def)
  show "\<exists>r. spi_runs (spi_acked H trn req s) = spi_runs s @ [r] \<and>
      take 8 (spi_sent r) = swd_request_frame req"
    using assms
    by (cases "hw_chip H")
      (simp_all add: spi_acked_def DAP_SPI_Send_Header_def DAP_SPI_Enable_def Let_def wire_simps
        spi_sent_def spi_data_bits_word e e8 request_byte_frame len)
  show "\<not> usr_command (spi (spi_acked H trn req s))"
    using assms
    by (simp add: spi_acked_def DAP_SPI_Send_Header_def DAP_SPI_Enable_def Let_def
        split: chip.split)
qed

lemma wire_only_spi_acked [simp]: "wire_only s (spi_acked H trn req s)"
  by (simp add: spi_acked_def)

lemma capture_timestamp_spi [simp]:
  "spi (capture_timestamp H req s) = spi s"
  "spi_runs (capture_timestamp H req s) = spi_runs s"
  by (simp_all add: capture_timestamp_def TIMESTAMP_GET_def wire_simps Let_def)

lemma spi_write_data_sends:
  assumes "\<not> usr_command (spi s)"
  shows "\<exists>r. spi_runs (DAP_SPI_Write_Data H data (of_bool p) s) = spi_runs s @ [r] \<and>
    spi_sent r = bits_lsb 32 data @ [p] @ (if hw_chip H = ESP32 then [] else [False])"
  using assms
  by (cases "hw_chip H"; cases p)
    (simp_all add: DAP_SPI_Write_Data_def Let_def wire_simps spi_sent_def spi_data_bits_33)

lemma spi_generate_cycle_sends: "\<exists>r. spi_runs (DAP_SPI_Generate_Cycle H n s) = spi_runs s @ [r]"
  by (cases "hw_chip H") (simp_all add: DAP_SPI_Generate_Cycle_def Let_def wire_simps)

lemma spi_idle_sends:
  "\<exists>rest. spi_runs (PIN_SWDIO_TMS_SET (DAP_SPI_Disable
       (if n \<noteq> 0 then DAP_SPI_Generate_Cycle H n s else s))) = spi_runs s @ rest \<and>
     length rest = of_bool (n \<noteq> 0)"
  using spi_generate_cycle_sends [of H n s]
  by (auto simp: PIN_SWDIO_TMS_SET_def DAP_SPI_Disable_def wire_simps)

text \<open>A peripheral that receives the word \<open>w0\<close> and then \<open>w1\<close>, for the witnesses.\<close>

definition example_spi_hw :: "chip \<Rightarrow> u32 \<Rightarrow> u32 \<Rightarrow> hw" where
  "example_spi_hw c w0 w1 = (example_hw {})\<lparr>hw_chip := c,
     hw_spi := (\<lambda>_ i. if i = 0 then w0 else w1)\<rparr>"

section \<open>Properties\<close>



text \<open>An acknowledged read in SPI mode stores the received word and returns OK exactly when
  it and the received parity bit have even parity, ERROR otherwise, the same verdict as in GPIO
  mode.\<close>

theorem spi_read_checks_parity:
  assumes "req AND DAP_TRANSFER_RnW \<noteq> 0" and "spi_ack H 0 req s = DAP_TRANSFER_OK"
  shows "\<exists>s' val par rx.
    SWD_Transfer_SPI H req store data s =
      (if parity_of (bits_lsb 32 val @ [par]) then DAP_TRANSFER_ERROR else DAP_TRANSFER_OK,
       if store then val else data, s') \<and>
    wire_only s s' \<and> rx = last (spi_runs s') \<and>
    miso_bitlen rx = 33 \<and> usr_miso rx \<and> sio rx \<and> \<not> usr_mosi rx \<and>
    val = data_buf (spi s') 0 \<and> par = bit (data_buf (spi s') 1) 0"
proof -
  define a where "a = spi_acked H 0 req s"
  obtain val p s1 where r: "DAP_SPI_Read_Data H a = (val, p, s1)"
    by (cases "DAP_SPI_Read_Data H a")
  have s1: "val = data_buf (spi s1) 0" "p = of_bool (bit (data_buf (spi s1) 1) 0)"
      "miso_bitlen (last (spi_runs s1)) = 33 \<and> usr_miso (last (spi_runs s1)) \<and>
       sio (last (spi_runs s1)) \<and> \<not> usr_mosi (last (spi_runs s1))"
    using r by (auto simp: DAP_SPI_Read_Data_def Let_def wire_simps and_one_eq
        bit_0 mod_2_eq_odd split: chip.splits)
  have xor: "(of_bool x XOR of_bool y) AND 1 \<noteq> (0 :: u8) \<longleftrightarrow> x \<noteq> y" for x y by (cases x; cases y) simp_all
  have "SWD_Transfer_SPI H req store data s =
      (if parity_of (bits_lsb 32 val @ [bit (data_buf (spi s1) 1) 0])
       then DAP_TRANSFER_ERROR else DAP_TRANSFER_OK,
       if store then val else data, capture_timestamp H req s1)"
    using assms r
    by (simp add: SWD_Transfer_SPI_def spi_transfer_read_def spi_ack_def spi_acked_def
        Let_def case_prod_beta a_def ParityEvenUint32_eq s1(2) xor)
  moreover have "wire_only s (capture_timestamp H req s1)"
    using r wire_only_spi_ops(6) [of s H a] by (simp add: a_def)
  ultimately show ?thesis
    by - (rule exI [of _ "capture_timestamp H req s1"], rule exI [of _ val],
        rule exI [of _ "bit (data_buf (spi s1) 1) 0"], simp add: s1(1,3))
qed

theorem spi_read_checks_parity_witness:
  "\<exists>s' val par rx.
    SWD_Transfer_SPI (example_spi_hw ESP32S3 1 0) 0x2 True 0 example_dap =
      (if parity_of (bits_lsb 32 val @ [par]) then DAP_TRANSFER_ERROR else DAP_TRANSFER_OK,
       if True then val else 0, s') \<and>
    wire_only example_dap s' \<and> rx = last (spi_runs s') \<and>
    miso_bitlen rx = 33 \<and> usr_miso rx \<and> sio rx \<and> \<not> usr_mosi rx \<and>
    val = data_buf (spi s') 0 \<and> par = bit (data_buf (spi s') 1) 0"
  by (rule spi_read_checks_parity; code_simp)

text \<open>For up to 128 bits, an SWJ sequence in SPI mode sends exactly the bits the GPIO mode
  clocks: one transaction of \<open>count\<close> bits, each byte least significant bit first, whatever the
  local array held before.\<close>

theorem spi_swj_sequence_sends:
  assumes "0 < count" and "count \<le> 128" and "SWD_TransferSpeed s = kTransfer_SPI"
  shows "\<exists>r. spi_runs (SWJ_Sequence H junk count data s) = spi_runs s @ [r] \<and>
    spi_sent r = stream_bits (unat count) data \<and>
    clocked (SWJ_Sequence_GPIO count data True s) = clocked s @ spi_sent r"
proof -
  have u: "unat count \<le> 128" "unat count \<noteq> 0"
    using assms(1,2) by (simp_all add: word_le_nat_alt word_less_nat_alt)
  then have c: "unat (ucast count :: u8) = unat count"
    by (simp add: unat_ucast_small)
  with u have len: "unat (ucast (ucast count :: u8) - 1 :: u32) + 1 = unat count"
    using unat_ucast_minus_1 [of "ucast count"] by (metis unat_eq_0)
  have "\<exists>r. spi_runs (SWJ_Sequence H junk count data s) = spi_runs s @ [r] \<and>
      spi_sent r = stream_bits (unat count) data"
    using len assms(3)
    by (cases "hw_chip H")
      (simp_all add: SWJ_Sequence_def SWJ_Sequence_SPI_def DAP_SPI_WriteBits_def Let_def c
        wire_simps spi_sent_def DAP_SPI_Enable_def spi_data_bits_memcpy)
  then show ?thesis
    using swj_loop_wire [of 0 "unat count" data True 0 0 s]
    by (auto simp: SWJ_Sequence_GPIO_def)
qed

theorem spi_swj_sequence_sends_witness:
  "\<exists>r. spi_runs (SWJ_Sequence (example_spi_hw ESP32 0 0) (\<lambda>_. 7) 16 (mem_of [0x9E, 0xE7])
        (example_dap\<lparr>SWD_TransferSpeed := kTransfer_SPI\<rparr>)) =
      spi_runs (example_dap\<lparr>SWD_TransferSpeed := kTransfer_SPI\<rparr>) @ [r] \<and>
    spi_sent r = stream_bits (unat (16 :: u32)) (mem_of [0x9E, 0xE7]) \<and>
    clocked (SWJ_Sequence_GPIO 16 (mem_of [0x9E, 0xE7]) True
        (example_dap\<lparr>SWD_TransferSpeed := kTransfer_SPI\<rparr>)) =
      clocked (example_dap\<lparr>SWD_TransferSpeed := kTransfer_SPI\<rparr>) @ spi_sent r"
  by (rule spi_swj_sequence_sends) simp_all

text \<open>An SWD input sequence in SPI mode returns the received bytes in order, except for the
  last one: the mask \<open>(2 >> (count % 8)) - 1\<close> keeps only its lowest bit when the count is a
  multiple of eight, clears it when one bit was read, and masks nothing in every other case.
  The GPIO variant instead keeps exactly the sampled bits.\<close>

theorem spi_read_bits_last_byte:
  assumes "1 \<le> n" and "n \<le> 64"
  shows "\<exists>s' bytes. let w = data_buf (spi s'); raw = map (\<lambda>i. byte_of (i mod 4) (w (i div 4))) [0..<(n + 7) div 8] in
    DAP_SPI_ReadBits H (of_nat n) s = (bytes, s') \<and> wire_only s s' \<and>
    length bytes = (n + 7) div 8 \<and> butlast bytes = butlast raw \<and>
    last bytes = (if n mod 8 = 0 then last raw AND 1 else if n mod 8 = 1 then 0 else last raw)"
proof -
  define s' where "s' = snd (DAP_SPI_ReadBits H (of_nat n) s)"
  define raw where
    "raw = map (\<lambda>i. byte_of (i mod 4) (data_buf (spi s') (i div 4))) [0..<(n + 7) div 8]"
  define mask where "mask = (ucast (drop_bit (n mod 8) (2 :: u32) - 1) :: u8)"
  have n: "unat (of_nat n :: u8) = n"
    using assms by (simp add: unat_of_nat_small)
  have ne: "raw \<noteq> []" using assms by (simp add: raw_def)
  have len: "length raw = (n + 7) div 8" by (simp add: raw_def)
  have d: "n + 8 - 1 = n + 7" by simp
  have pos: "Suc ((n + 7) div 8 - Suc 0) = (n + 7) div 8" using assms by simp
  have read: "DAP_SPI_ReadBits H (of_nat n) s =
      (raw[length raw - 1 := (raw ! (length raw - 1)) AND mask], s')"
    unfolding raw_def mask_def s'_def DAP_SPI_ReadBits_def Let_def div_round_up_def n snd_conv d
      length_map length_upt diff_zero by (rule refl)
  have mask: "mask = (if n mod 8 = 0 then 1 else if n mod 8 = 1 then 0 else -1)"
  proof -
    have "n mod 8 \<in> {0, 1, 2, 3, 4, 5, 6, 7}" by auto
    moreover have "ucast (- 1 :: u32) = (- 1 :: u8)" by (rule bit_word_eqI) (simp add: bit_simps)
    ultimately show ?thesis by (auto simp: mask_def)
  qed
  have upd: "raw[length raw - 1 := x] = butlast raw @ [x]" for x
    using ne by (metis append_butlast_last_id length_butlast list_update_length)
  have "wire_only s s'" by (simp add: s'_def)
  moreover have "raw ! (length raw - 1) = last raw" using ne by (simp add: last_conv_nth)
  ultimately show ?thesis
    unfolding Let_def
    by (intro exI [of _ s']) (simp add: read upd [unfolded len One_nat_def] mask len
        pos flip: raw_def)
qed

theorem spi_read_bits_last_byte_witness:
  "\<exists>s' bytes. let w = data_buf (spi s'); raw = map (\<lambda>i. byte_of (i mod 4) (w (i div 4))) [0..<((8::nat) + 7) div 8] in
    DAP_SPI_ReadBits (example_spi_hw ESP32 0xA5 0) (of_nat 8) example_dap = (bytes, s') \<and>
    wire_only example_dap s' \<and> length bytes = ((8::nat) + 7) div 8 \<and> butlast bytes = butlast raw \<and>
    last bytes = (if (8::nat) mod 8 = 0 then last raw AND 1
                  else if (8::nat) mod 8 = 1 then 0 else last raw)"
  by (rule spi_read_bits_last_byte) simp_all

end
