(* ===== verification/Jtag.thy ===== *)
theory Jtag
  imports Spi
begin

text \<open>
  JTAG_DP.c: the clocking macros, JTAG sequences, the instruction register scan, the DPACC and
  APACC transfer, IDCODE and ABORT.  The reference is the IEEE 1149.1 TAP controller: \<open>scan\<close>
  replays the TMS and TDI levels at the rising clock edges through its sixteen states and
  collects what is shifted through the instruction and data registers.
\<close>

section \<open>Constants\<close>

definition JTAG_ABORT :: u32 where "JTAG_ABORT = 0x08"
definition JTAG_DPACC :: u32 where "JTAG_DPACC = 0x0A"
definition JTAG_APACC :: u32 where "JTAG_APACC = 0x0B"
definition JTAG_IDCODE :: u32 where "JTAG_IDCODE = 0x0E"
definition JTAG_SEQUENCE_TCK :: u32 where "JTAG_SEQUENCE_TCK = 0x3F"
definition JTAG_SEQUENCE_TMS :: u32 where "JTAG_SEQUENCE_TMS = 0x40"
definition JTAG_SEQUENCE_TDO :: u32 where "JTAG_SEQUENCE_TDO = 0x80"

section \<open>Clocking macros\<close>

text \<open>The fast variant's delay is empty (DELAY_FAST_CYCLES is 0): \<open>nd\<close> is the slow one.\<close>

definition JTAG_CYCLE_TCK :: "bool \<Rightarrow> dap \<Rightarrow> dap" where
  "JTAG_CYCLE_TCK nd s =
     PIN_DELAY nd (PIN_SWCLK_TCK_SET (PIN_DELAY nd (PIN_SWCLK_TCK_CLR s)))"

definition JTAG_CYCLE_TDI :: "bool \<Rightarrow> u32 \<Rightarrow> dap \<Rightarrow> dap" where
  "JTAG_CYCLE_TDI nd tdi s =
     PIN_DELAY nd (PIN_SWCLK_TCK_SET (PIN_DELAY nd (PIN_SWCLK_TCK_CLR (PIN_TDI_OUT tdi s))))"

definition JTAG_CYCLE_TDO :: "hw \<Rightarrow> bool \<Rightarrow> dap \<Rightarrow> u32 \<times> dap" where
  "JTAG_CYCLE_TDO H nd s =
     (let s = PIN_DELAY nd (PIN_SWCLK_TCK_CLR s)
      in (PIN_TDO_IN H s, PIN_DELAY nd (PIN_SWCLK_TCK_SET s)))"

definition JTAG_CYCLE_TDIO :: "hw \<Rightarrow> bool \<Rightarrow> u32 \<Rightarrow> dap \<Rightarrow> u32 \<times> dap" where
  "JTAG_CYCLE_TDIO H nd tdi s =
     (let s = PIN_DELAY nd (PIN_SWCLK_TCK_CLR (PIN_TDI_OUT tdi s))
      in (PIN_TDO_IN H s, PIN_DELAY nd (PIN_SWCLK_TCK_SET s)))"

definition jtag_clocks :: "bool \<Rightarrow> nat \<Rightarrow> dap \<Rightarrow> dap" where
  "jtag_clocks nd n = (JTAG_CYCLE_TCK nd ^^ n)"

text \<open>Shift out the low \<open>n\<close> bits; shift in, one place to the right of where the bit arrives.\<close>

primrec jtag_tdi_loop :: "nat \<Rightarrow> bool \<Rightarrow> u32 \<Rightarrow> dap \<Rightarrow> u32 \<times> dap" where
  "jtag_tdi_loop 0 nd val s = (val, s)"
| "jtag_tdi_loop (Suc n) nd val s = jtag_tdi_loop n nd (drop_bit 1 val) (JTAG_CYCLE_TDI nd val s)"

primrec jtag_tdo_loop :: "nat \<Rightarrow> hw \<Rightarrow> bool \<Rightarrow> u32 \<Rightarrow> dap \<Rightarrow> u32 \<times> dap" where
  "jtag_tdo_loop 0 H nd val s = (val, s)"
| "jtag_tdo_loop (Suc n) H nd val s =
     (let (b, s) = JTAG_CYCLE_TDO H nd s
      in jtag_tdo_loop n H nd (drop_bit 1 (val OR push_bit 31 b)) s)"

section \<open>JTAG\_Sequence\<close>

fun jtag_seq_byte :: "nat \<Rightarrow> nat \<Rightarrow> hw \<Rightarrow> u32 \<Rightarrow> u32 \<Rightarrow> dap \<Rightarrow> nat \<times> nat \<times> u32 \<times> dap" where
  "jtag_seq_byte (Suc k) (Suc n) H i_val o_val s =
     (let (b, s) = JTAG_CYCLE_TDIO H True i_val s
      in jtag_seq_byte k n H (drop_bit 1 i_val) (drop_bit 1 o_val OR push_bit 7 b) s)"
| "jtag_seq_byte k n H i_val o_val s = (k, n, o_val, s)"

lemma jtag_seq_byte_left: "fst (snd (jtag_seq_byte k n H i v s)) = n - k"
  by (induction k n H i v s rule: jtag_seq_byte.induct) (simp_all add: Let_def case_prod_beta)

function jtag_seq :: "nat \<Rightarrow> hw \<Rightarrow> bool \<Rightarrow> mem \<Rightarrow> nat \<Rightarrow> dap \<Rightarrow> u8 list \<times> dap" where
  "jtag_seq n H tdo tdi p s =
     (if n = 0 then ([], s)
      else let (k, n', o_val, s) = jtag_seq_byte 8 n H (ucast (tdi p)) 0 s;
               o_val = drop_bit k o_val;
               (bs, s) = jtag_seq n' H tdo tdi (p + 1) s
           in (if tdo then ucast o_val # bs else bs, s))"
  by pat_completeness auto
termination
  by (relation "measure fst") (auto dest: arg_cong [where f = "\<lambda>x. fst (snd x)"]
      simp: jtag_seq_byte_left)

declare jtag_seq.simps [simp del]

definition jtag_seq_count :: "u32 \<Rightarrow> nat" where
  "jtag_seq_count info = (let n = info AND JTAG_SEQUENCE_TCK in if n = 0 then 64 else unat n)"

definition JTAG_Sequence :: "hw \<Rightarrow> u32 \<Rightarrow> mem \<Rightarrow> dap \<Rightarrow> u8 list \<times> dap" where
  "JTAG_Sequence H info tdi s =
     (let n = jtag_seq_count info;
          s = (if info AND JTAG_SEQUENCE_TMS \<noteq> 0 then PIN_SWDIO_TMS_SET s else PIN_SWDIO_TMS_CLR s)
      in jtag_seq n H (info AND JTAG_SEQUENCE_TDO \<noteq> 0) tdi 0 s)"

section \<open>Instruction register\<close>

definition jtag_dev_after :: "dap \<Rightarrow> u32" where
  "jtag_dev_after s = ucast (jtag_count s) - ucast (jtag_index s) - 1"

definition JTAG_IR_fn :: "bool \<Rightarrow> u32 \<Rightarrow> dap \<Rightarrow> dap" where
  "JTAG_IR_fn nd ir s =
     (let s = PIN_SWDIO_TMS_SET s;
          s = JTAG_CYCLE_TCK nd s;
          s = JTAG_CYCLE_TCK nd s;
          s = PIN_SWDIO_TMS_CLR s;
          s = JTAG_CYCLE_TCK nd s;
          s = JTAG_CYCLE_TCK nd s;
          s = PIN_TDI_OUT 1 s;
          s = jtag_clocks nd (unat (ir_before s ! unat (jtag_index s))) s;
          (ir, s) = jtag_tdi_loop (unat (ucast (ir_length s ! unat (jtag_index s)) - 1 :: u32)) nd ir s;
          n = ir_after s ! unat (jtag_index s);
          s = (if n \<noteq> 0 then
                 let s = JTAG_CYCLE_TDI nd ir s;
                     s = PIN_TDI_OUT 1 s;
                     s = jtag_clocks nd (unat (n - 1)) s;
                     s = PIN_SWDIO_TMS_SET s
                 in JTAG_CYCLE_TCK nd s
               else JTAG_CYCLE_TDI nd ir (PIN_SWDIO_TMS_SET s));
          s = JTAG_CYCLE_TCK nd s;
          s = PIN_SWDIO_TMS_CLR s;
          s = JTAG_CYCLE_TCK nd s
      in PIN_TDI_OUT 1 s)"

definition JTAG_IR_Fast :: "u32 \<Rightarrow> dap \<Rightarrow> dap" where "JTAG_IR_Fast = JTAG_IR_fn False"
definition JTAG_IR_Slow :: "u32 \<Rightarrow> dap \<Rightarrow> dap" where "JTAG_IR_Slow = JTAG_IR_fn True"

definition JTAG_IR :: "u32 \<Rightarrow> dap \<Rightarrow> dap" where
  "JTAG_IR ir s = (if fast_clock s \<noteq> 0 then JTAG_IR_Fast ir s else JTAG_IR_Slow ir s)"

section \<open>Data register\<close>

text \<open>Enter Shift-DR and bypass the devices before the selected one.\<close>

definition jtag_enter_dr :: "bool \<Rightarrow> dap \<Rightarrow> dap" where
  "jtag_enter_dr nd s =
     (let s = PIN_SWDIO_TMS_SET s;
          s = JTAG_CYCLE_TCK nd s;
          s = PIN_SWDIO_TMS_CLR s;
          s = JTAG_CYCLE_TCK nd s;
          s = JTAG_CYCLE_TCK nd s
      in jtag_clocks nd (unat (jtag_index s)) s)"

text \<open>Back to Run-Test/Idle from Exit1-DR.\<close>

definition jtag_update_dr :: "bool \<Rightarrow> dap \<Rightarrow> dap" where
  "jtag_update_dr nd s = JTAG_CYCLE_TCK nd (PIN_SWDIO_TMS_CLR (JTAG_CYCLE_TCK nd s))"

text \<open>The last data bit and the bypass bits of the devices behind, leaving by Exit1-DR.\<close>

definition jtag_last_out :: "bool \<Rightarrow> u32 \<Rightarrow> dap \<Rightarrow> dap" where
  "jtag_last_out nd val s =
     (let n = jtag_dev_after s
      in if n \<noteq> 0 then
           JTAG_CYCLE_TCK nd (PIN_SWDIO_TMS_SET
             (jtag_clocks nd (unat (n - 1)) (JTAG_CYCLE_TDI nd val s)))
         else JTAG_CYCLE_TDI nd val (PIN_SWDIO_TMS_SET s))"

definition jtag_last_in :: "hw \<Rightarrow> bool \<Rightarrow> dap \<Rightarrow> u32 \<times> dap" where
  "jtag_last_in H nd s =
     (let n = jtag_dev_after s
      in if n \<noteq> 0 then
           (let (b, s) = JTAG_CYCLE_TDO H nd s
            in (b, JTAG_CYCLE_TCK nd (PIN_SWDIO_TMS_SET (jtag_clocks nd (unat (n - 1)) s))))
         else JTAG_CYCLE_TDO H nd (PIN_SWDIO_TMS_SET s))"

definition jtag_request :: "hw \<Rightarrow> bool \<Rightarrow> u32 \<Rightarrow> dap \<Rightarrow> u32 \<times> dap" where
  "jtag_request H nd request s =
     (let s = jtag_enter_dr nd s;
          (b0, s) = JTAG_CYCLE_TDIO H nd (drop_bit 1 request) s;
          (b1, s) = JTAG_CYCLE_TDIO H nd (drop_bit 2 request) s;
          (b2, s) = JTAG_CYCLE_TDIO H nd (drop_bit 3 request) s
      in (push_bit 1 b0 OR push_bit 0 b1 OR push_bit 2 b2, s))"

definition JTAG_Transfer_fn ::
  "bool \<Rightarrow> hw \<Rightarrow> u32 \<Rightarrow> bool \<Rightarrow> u32 \<Rightarrow> dap \<Rightarrow> u8 \<times> u32 \<times> dap" where
  "JTAG_Transfer_fn nd H request store data s =
     (let (ack, s) = jtag_request H nd request s;
          (data, s) =
            (if ack \<noteq> ucast DAP_TRANSFER_OK then (data, JTAG_CYCLE_TCK nd (PIN_SWDIO_TMS_SET s))
             else if request AND DAP_TRANSFER_RnW \<noteq> 0 then
               (let (val, s) = jtag_tdo_loop 31 H nd 0 s;
                    (b, s) = jtag_last_in H nd s;
                    val = val OR push_bit 31 b
                in (if store then val else data, s))
             else
               (let (val, s) = jtag_tdi_loop 31 nd data s in (data, jtag_last_out nd val s)));
          s = PIN_TDI_OUT 1 (jtag_update_dr nd s);
          s = capture_timestamp H request s
      in (ucast ack, data, jtag_clocks nd (unat (idle_cycles s)) s))"

definition JTAG_TransferFast :: "hw \<Rightarrow> u32 \<Rightarrow> bool \<Rightarrow> u32 \<Rightarrow> dap \<Rightarrow> u8 \<times> u32 \<times> dap" where
  "JTAG_TransferFast = JTAG_Transfer_fn False"
definition JTAG_TransferSlow :: "hw \<Rightarrow> u32 \<Rightarrow> bool \<Rightarrow> u32 \<Rightarrow> dap \<Rightarrow> u8 \<times> u32 \<times> dap" where
  "JTAG_TransferSlow = JTAG_Transfer_fn True"

definition JTAG_Transfer :: "hw \<Rightarrow> u32 \<Rightarrow> bool \<Rightarrow> u32 \<Rightarrow> dap \<Rightarrow> u8 \<times> u32 \<times> dap" where
  "JTAG_Transfer H request store data s =
     (if fast_clock s \<noteq> 0 then JTAG_TransferFast H request store data s
      else JTAG_TransferSlow H request store data s)"

definition JTAG_ReadIDCode :: "hw \<Rightarrow> dap \<Rightarrow> u32 \<times> dap" where
  "JTAG_ReadIDCode H s =
     (let s = jtag_enter_dr True s;
          (val, s) = jtag_tdo_loop 31 H True 0 s;
          (b, s) = JTAG_CYCLE_TDO H True (PIN_SWDIO_TMS_SET s);
          val = val OR push_bit 31 b
      in (val, jtag_update_dr True s))"

definition JTAG_WriteAbort :: "u32 \<Rightarrow> dap \<Rightarrow> dap" where
  "JTAG_WriteAbort data s =
     (let s = PIN_TDI_OUT 0 (jtag_enter_dr True s);
          s = JTAG_CYCLE_TCK True s;
          s = JTAG_CYCLE_TCK True s;
          s = JTAG_CYCLE_TCK True s;
          (data, s) = jtag_tdi_loop 31 True data s
      in PIN_TDI_OUT 1 (jtag_update_dr True (jtag_last_out True data s)))"

section \<open>The TAP controller\<close>

datatype tap = TLR | RTI | SelDR | CapDR | ShDR | Ex1DR | PauDR | Ex2DR | UpdDR
  | SelIR | CapIR | ShIR | Ex1IR | PauIR | Ex2IR | UpdIR

fun tap_next :: "bool \<Rightarrow> tap \<Rightarrow> tap" where
  "tap_next tms TLR = (if tms then TLR else RTI)"
| "tap_next tms RTI = (if tms then SelDR else RTI)"
| "tap_next tms SelDR = (if tms then SelIR else CapDR)"
| "tap_next tms CapDR = (if tms then Ex1DR else ShDR)"
| "tap_next tms ShDR = (if tms then Ex1DR else ShDR)"
| "tap_next tms Ex1DR = (if tms then UpdDR else PauDR)"
| "tap_next tms PauDR = (if tms then Ex2DR else PauDR)"
| "tap_next tms Ex2DR = (if tms then UpdDR else ShDR)"
| "tap_next tms UpdDR = (if tms then SelDR else RTI)"
| "tap_next tms SelIR = (if tms then TLR else CapIR)"
| "tap_next tms CapIR = (if tms then Ex1IR else ShIR)"
| "tap_next tms ShIR = (if tms then Ex1IR else ShIR)"
| "tap_next tms Ex1IR = (if tms then UpdIR else PauIR)"
| "tap_next tms PauIR = (if tms then Ex2IR else PauIR)"
| "tap_next tms Ex2IR = (if tms then UpdIR else ShIR)"
| "tap_next tms UpdIR = (if tms then SelDR else RTI)"

text \<open>The state after a sequence of (TMS, TDI) levels, and the bits shifted into the
  instruction and the data register on the way.\<close>

fun tap_scan :: "tap \<Rightarrow> (bool \<times> bool) list \<Rightarrow> tap \<times> bool list \<times> bool list" where
  "tap_scan t [] = (t, [], [])"
| "tap_scan t ((tms, tdi) # es) =
     (let (t', ir, dr) = tap_scan (tap_next tms t) es
      in (t', if t = ShIR then tdi # ir else ir, if t = ShDR then tdi # dr else dr))"

lemma tap_scan_append:
  "tap_scan t (xs @ ys) =
     (let (t', ir, dr) = tap_scan t xs; (t'', ir', dr') = tap_scan t' ys
      in (t'', ir @ ir', dr @ dr'))"
  by (induction t xs rule: tap_scan.induct) (simp_all add: Let_def case_prod_beta)

lemma tap_scan_shift [simp]:
  "tap_scan ShIR (map (Pair False) bs @ es) =
     (let (t, ir, dr) = tap_scan ShIR es in (t, bs @ ir, dr))"
  "tap_scan ShDR (map (Pair False) bs @ es) =
     (let (t, ir, dr) = tap_scan ShDR es in (t, ir, bs @ dr))"
  by (induction bs) (simp_all add: Let_def case_prod_beta)

lemma tap_scan_replicate [simp]:
  "tap_scan ShIR (replicate n (False, b) @ es) =
     (let (t, ir, dr) = tap_scan ShIR es in (t, replicate n b @ ir, dr))"
  "tap_scan ShDR (replicate n (False, b) @ es) =
     (let (t, ir, dr) = tap_scan ShDR es in (t, ir, replicate n b @ dr))"
  using tap_scan_shift [of "replicate n b" es] by simp_all

lemma tap_scan_idle [simp]: "tap_scan RTI (map (Pair False) bs) = (RTI, [], [])"
  by (induction bs) simp_all

lemma tap_scan_idle_replicate [simp]: "tap_scan RTI (replicate n (False, b)) = (RTI, [], [])"
  using tap_scan_idle [of "replicate n b"] by simp

text \<open>Five clocks with TMS high reset the controller from every state.\<close>

lemma tap_reset: "(tap_next True ^^ 5) t = TLR"
  by (cases t) (simp_all add: numeral_eq_Suc)

section \<open>The levels at the rising edges\<close>

fun jstep :: "ev \<Rightarrow> bool \<times> bool \<times> bool \<times> (bool \<times> bool) list \<Rightarrow> bool \<times> bool \<times> bool \<times> (bool \<times> bool) list" where
  "jstep (PinOut SWCLK_TCK b) (c, m, d, es) = (b, m, d, if b \<and> \<not> c then es @ [(m, d)] else es)"
| "jstep (PinOut SWDIO_TMS b) (c, m, d, es) = (c, b, d, es)"
| "jstep (PinOut TDI b) (c, m, d, es) = (c, m, b, es)"
| "jstep _ w = w"

definition jwire :: "dap \<Rightarrow> bool \<times> bool \<times> bool \<times> (bool \<times> bool) list" where
  "jwire s = foldr jstep (trace s) (True, True, True, [])"

definition tms :: "dap \<Rightarrow> bool" where "tms s = fst (snd (jwire s))"
definition tdi :: "dap \<Rightarrow> bool" where "tdi s = fst (snd (snd (jwire s)))"
definition edges :: "dap \<Rightarrow> (bool \<times> bool) list" where "edges s = snd (snd (snd (jwire s)))"

lemma jwire_emit: "jwire (emit e s) = jstep e (jwire s)"
  by (simp add: jwire_def)

lemma jstep_eqs:
  "jstep (PinOut SWCLK_TCK b) w = (b, fst (snd w), fst (snd (snd w)),
     if b \<and> \<not> fst w then snd (snd (snd w)) @ [(fst (snd w), fst (snd (snd w)))]
     else snd (snd (snd w)))"
  "jstep (PinOut SWDIO_TMS b) w = (fst w, b, snd (snd w))"
  "jstep (PinOut TDI b) w = (fst w, fst (snd w), b, snd (snd (snd w)))"
  by (cases w; simp)+

named_theorems jtag_simps \<open>what an operation does to TMS, TDI and the edge list\<close>

lemma edges_emit [jtag_simps]:
  "edges (emit (PinOut SWDIO_TMS b) s) = edges s" "tms (emit (PinOut SWDIO_TMS b) s) = b"
  "tdi (emit (PinOut SWDIO_TMS b) s) = tdi s"
  "edges (emit (PinOut TDI b) s) = edges s" "tms (emit (PinOut TDI b) s) = tms s"
  "tdi (emit (PinOut TDI b) s) = b"
  "edges (emit TsRead s) = edges s" "tms (emit TsRead s) = tms s" "tdi (emit TsRead s) = tdi s"
  "edges (s\<lparr>timestamp := x\<rparr>) = edges s" "tms (s\<lparr>timestamp := x\<rparr>) = tms s"
  "tdi (s\<lparr>timestamp := x\<rparr>) = tdi s"
  by (simp_all add: edges_def tms_def tdi_def jwire_emit jstep_eqs, simp_all add: jwire_def)

lemma edges_pins [jtag_simps]:
  "edges (PIN_SWDIO_TMS_SET s) = edges s" "tms (PIN_SWDIO_TMS_SET s)"
  "tdi (PIN_SWDIO_TMS_SET s) = tdi s"
  "edges (PIN_SWDIO_TMS_CLR s) = edges s" "\<not> tms (PIN_SWDIO_TMS_CLR s)"
  "tdi (PIN_SWDIO_TMS_CLR s) = tdi s"
  "edges (PIN_TDI_OUT b s) = edges s" "tms (PIN_TDI_OUT b s) = tms s"
  "tdi (PIN_TDI_OUT b s) = bit b 0"
  by (simp_all add: PIN_SWDIO_TMS_SET_def PIN_SWDIO_TMS_CLR_def PIN_TDI_OUT_eq jtag_simps)

lemma edges_pulse:
  "edges (PIN_DELAY nd (PIN_SWCLK_TCK_SET (PIN_DELAY nd (PIN_SWCLK_TCK_CLR s)))) =
     edges s @ [(tms s, tdi s)]"
  "tms (PIN_DELAY nd (PIN_SWCLK_TCK_SET (PIN_DELAY nd (PIN_SWCLK_TCK_CLR s)))) = tms s"
  "tdi (PIN_DELAY nd (PIN_SWCLK_TCK_SET (PIN_DELAY nd (PIN_SWCLK_TCK_CLR s)))) = tdi s"
  by (simp_all add: PIN_DELAY_def PIN_DELAY_SLOW_def PIN_SWCLK_TCK_SET_def PIN_SWCLK_TCK_CLR_def
      edges_def tms_def tdi_def jwire_emit jstep_eqs)

lemma edges_cycles [jtag_simps]:
  "edges (JTAG_CYCLE_TCK nd s) = edges s @ [(tms s, tdi s)]" "tms (JTAG_CYCLE_TCK nd s) = tms s"
  "tdi (JTAG_CYCLE_TCK nd s) = tdi s"
  "edges (JTAG_CYCLE_TDI nd b s) = edges s @ [(tms s, bit b 0)]"
  "tms (JTAG_CYCLE_TDI nd b s) = tms s" "tdi (JTAG_CYCLE_TDI nd b s) = bit b 0"
  "edges (snd (JTAG_CYCLE_TDO H nd s)) = edges s @ [(tms s, tdi s)]"
  "tms (snd (JTAG_CYCLE_TDO H nd s)) = tms s" "tdi (snd (JTAG_CYCLE_TDO H nd s)) = tdi s"
  "edges (snd (JTAG_CYCLE_TDIO H nd b s)) = edges s @ [(tms s, bit b 0)]"
  "tms (snd (JTAG_CYCLE_TDIO H nd b s)) = tms s" "tdi (snd (JTAG_CYCLE_TDIO H nd b s)) = bit b 0"
  by (simp_all add: JTAG_CYCLE_TCK_def JTAG_CYCLE_TDI_def JTAG_CYCLE_TDO_def JTAG_CYCLE_TDIO_def
      Let_def edges_pulse jtag_simps)

lemma edges_clocks [jtag_simps]:
  "edges (jtag_clocks nd n s) = edges s @ map (Pair (tms s)) (replicate n (tdi s))" (is ?A)
  "tms (jtag_clocks nd n s) = tms s" (is ?B)
  "tdi (jtag_clocks nd n s) = tdi s" (is ?C)
proof -
  have "?A \<and> ?B \<and> ?C"
    by (induction n arbitrary: s)
      (simp_all add: jtag_clocks_def jtag_simps replicate_append_same flip: funpow_swap1)
  then show ?A ?B ?C by blast+
qed

lemma edges_tdi_loop [jtag_simps]:
  "edges (snd (jtag_tdi_loop n nd v s)) = edges s @ map (Pair (tms s)) (bits_lsb n v)"
  "tms (snd (jtag_tdi_loop n nd v s)) = tms s"
  "fst (jtag_tdi_loop n nd v s) = drop_bit n v"
  by (induction n arbitrary: v s) (simp_all add: jtag_simps bits_lsb_Suc)

lemma edges_tdo_loop [jtag_simps]:
  "edges (snd (jtag_tdo_loop n H nd v s)) = edges s @ map (Pair (tms s)) (replicate n (tdi s))"
  "tms (snd (jtag_tdo_loop n H nd v s)) = tms s"
  "tdi (snd (jtag_tdo_loop n H nd v s)) = tdi s"
  by (induction n arbitrary: v s) (simp_all add: jtag_simps Let_def case_prod_beta)

section \<open>Frame\<close>

lemma wire_only_jtag_cycles [simp]:
  "wire_only s (JTAG_CYCLE_TCK nd t) = wire_only s t"
  "wire_only s (JTAG_CYCLE_TDI nd b t) = wire_only s t"
  "wire_only s (snd (JTAG_CYCLE_TDO H nd t)) = wire_only s t"
  "wire_only s (snd (JTAG_CYCLE_TDIO H nd b t)) = wire_only s t"
  by (simp_all add: JTAG_CYCLE_TCK_def JTAG_CYCLE_TDI_def JTAG_CYCLE_TDO_def JTAG_CYCLE_TDIO_def
      Let_def)

lemma wire_only_jtag_loops [simp]:
  "wire_only s (jtag_clocks nd n t) = wire_only s t"
  "wire_only s (snd (jtag_tdi_loop n nd v t)) = wire_only s t"
  "wire_only s (snd (jtag_tdo_loop n H nd v t)) = wire_only s t"
  by (induction n arbitrary: v t) (simp_all add: jtag_clocks_def Let_def case_prod_beta)

lemma wire_only_jtag_seq [simp]:
  "wire_only s (snd (snd (snd (jtag_seq_byte k n H i v t)))) = wire_only s t"
  "wire_only s (snd (jtag_seq m H tdo buf p t)) = wire_only s t"
proof -
  show b: "wire_only s (snd (snd (snd (jtag_seq_byte k n H i v t)))) = wire_only s t" for k n H i v t
    by (induction k n H i v t rule: jtag_seq_byte.induct) (simp_all add: Let_def case_prod_beta)
  show "wire_only s (snd (jtag_seq m H tdo buf p t)) = wire_only s t"
  proof (induction m arbitrary: p t rule: less_induct)
    case (less m)
    then show ?case
      by (subst jtag_seq.simps) (simp add: Let_def case_prod_beta jtag_seq_byte_left b)
  qed
qed

lemma wire_only_jtag_parts [simp]:
  "wire_only s (jtag_enter_dr nd t) = wire_only s t"
  "wire_only s (jtag_update_dr nd t) = wire_only s t"
  "wire_only s (jtag_last_out nd v t) = wire_only s t"
  "wire_only s (snd (jtag_last_in H nd t)) = wire_only s t"
  "wire_only s (snd (jtag_request H nd req t)) = wire_only s t"
  by (simp_all add: jtag_enter_dr_def jtag_update_dr_def jtag_last_out_def jtag_last_in_def
      jtag_request_def Let_def case_prod_beta)

lemma wire_only_jtag_ops [simp]:
  "wire_only s (snd (JTAG_Sequence H info m t)) = wire_only s t"
  "wire_only s (JTAG_IR ir t) = wire_only s t"
  "wire_only s (snd (snd (JTAG_Transfer H req store data t))) = wire_only s t"
  "wire_only s (snd (JTAG_ReadIDCode H t)) = wire_only s t"
  "wire_only s (JTAG_WriteAbort data t) = wire_only s t"
  by (simp_all add: JTAG_Sequence_def JTAG_IR_def JTAG_IR_Fast_def JTAG_IR_Slow_def
      JTAG_IR_fn_def JTAG_Transfer_def JTAG_TransferFast_def JTAG_TransferSlow_def
      JTAG_Transfer_fn_def JTAG_ReadIDCode_def JTAG_WriteAbort_def Let_def case_prod_beta)

text \<open>Fields an operation reads are those of the state it started from.\<close>

lemma wire_only_jtag_fields:
  assumes "wire_only s t"
  shows "jtag_index t = jtag_index s" "jtag_dev_after t = jtag_dev_after s"
    "ir_before t = ir_before s" "ir_after t = ir_after s" "ir_length t = ir_length s"
    "idle_cycles t = idle_cycles s"
  using wire_only_fields [OF assms] by (simp_all add: jtag_dev_after_def)

section \<open>Scans\<close>

lemma jtag_enter_dr_edges:
  "edges (jtag_enter_dr nd s) = edges s @
     [(True, tdi s), (False, tdi s), (False, tdi s)] @
     map (Pair False) (replicate (unat (jtag_index s)) (tdi s))"
  "\<not> tms (jtag_enter_dr nd s)" "tdi (jtag_enter_dr nd s) = tdi s"
proof -
  let ?t = "JTAG_CYCLE_TCK nd (JTAG_CYCLE_TCK nd
      (PIN_SWDIO_TMS_CLR (JTAG_CYCLE_TCK nd (PIN_SWDIO_TMS_SET s))))"
  have "jtag_index ?t = jtag_index s" by (rule wire_only_jtag_fields) simp
  then show "edges (jtag_enter_dr nd s) = edges s @
     [(True, tdi s), (False, tdi s), (False, tdi s)] @
     map (Pair False) (replicate (unat (jtag_index s)) (tdi s))"
    "\<not> tms (jtag_enter_dr nd s)" "tdi (jtag_enter_dr nd s) = tdi s"
    by (simp_all add: jtag_enter_dr_def Let_def jtag_simps)
qed

lemma jtag_update_dr_edges:
  "edges (jtag_update_dr nd s) = edges s @ [(tms s, tdi s), (False, tdi s)]"
  "\<not> tms (jtag_update_dr nd s)"
  by (simp_all add: jtag_update_dr_def jtag_simps)

lemma jtag_request_edges:
  "edges (snd (jtag_request H nd req s)) = edges s @
     [(True, tdi s), (False, tdi s), (False, tdi s)] @
     map (Pair False) (replicate (unat (jtag_index s)) (tdi s) @ [bit req 1, bit req 2, bit req 3])"
  "\<not> tms (snd (jtag_request H nd req s))"
  "tdi (snd (jtag_request H nd req s)) = bit req 3"
  by (simp_all add: jtag_request_def Let_def case_prod_beta jtag_simps jtag_enter_dr_edges
      bit_drop_bit_eq)

lemma jtag_last_out_edges:
  assumes "\<not> tms s"
  shows "edges (jtag_last_out nd v s) = edges s @
     map (Pair False) (replicate (unat (jtag_dev_after s)) (bit v 0)) @ [(True, bit v 0)]"
    and "tms (jtag_last_out nd v s)" "tdi (jtag_last_out nd v s) = bit v 0"
proof -
  have "unat (jtag_dev_after s) = Suc (unat (jtag_dev_after s - 1))" if "jtag_dev_after s \<noteq> 0"
    using that unat_gt_0 [of "jtag_dev_after s"] by (simp add: unat_minus_one)
  then show "edges (jtag_last_out nd v s) = edges s @
     map (Pair False) (replicate (unat (jtag_dev_after s)) (bit v 0)) @ [(True, bit v 0)]"
    using assms by (cases "jtag_dev_after s = 0") (simp_all add: jtag_last_out_def Let_def jtag_simps)
  show "tms (jtag_last_out nd v s)" "tdi (jtag_last_out nd v s) = bit v 0"
    by (simp_all add: jtag_last_out_def Let_def jtag_simps)
qed

lemma jtag_last_in_edges:
  assumes "\<not> tms s"
  shows "edges (snd (jtag_last_in H nd s)) = edges s @
     map (Pair False) (replicate (unat (jtag_dev_after s)) (tdi s)) @ [(True, tdi s)]"
    and "tms (snd (jtag_last_in H nd s))" "tdi (snd (jtag_last_in H nd s)) = tdi s"
proof -
  have "unat (jtag_dev_after s) = Suc (unat (jtag_dev_after s - 1))" if "jtag_dev_after s \<noteq> 0"
    using that unat_gt_0 [of "jtag_dev_after s"] by (simp add: unat_minus_one)
  then show "edges (snd (jtag_last_in H nd s)) = edges s @
     map (Pair False) (replicate (unat (jtag_dev_after s)) (tdi s)) @ [(True, tdi s)]"
    using assms by (cases "jtag_dev_after s = 0")
      (simp_all add: jtag_last_in_def Let_def jtag_simps case_prod_beta)
  show "tms (snd (jtag_last_in H nd s))" "tdi (snd (jtag_last_in H nd s)) = tdi s"
    by (simp_all add: jtag_last_in_def Let_def jtag_simps case_prod_beta)
qed

section \<open>Captured bits\<close>

primrec tdo_samples :: "nat \<Rightarrow> hw \<Rightarrow> bool \<Rightarrow> dap \<Rightarrow> bool list \<times> dap" where
  "tdo_samples 0 H nd s = ([], s)"
| "tdo_samples (Suc n) H nd s =
     (let (b, s) = JTAG_CYCLE_TDO H nd s; (bs, s) = tdo_samples n H nd s in (bit b 0 # bs, s))"

lemma length_tdo_samples [simp]: "length (fst (tdo_samples n H nd s)) = n"
  by (induction n arbitrary: s) (simp_all add: Let_def case_prod_beta)

lemma JTAG_CYCLE_TDO_of_bool:
  "fst (JTAG_CYCLE_TDO H nd s) = of_bool (bit (fst (JTAG_CYCLE_TDO H nd s)) 0)"
  "fst (JTAG_CYCLE_TDIO H nd v s) = of_bool (bit (fst (JTAG_CYCLE_TDIO H nd v s)) 0)"
  by (simp_all add: JTAG_CYCLE_TDO_def JTAG_CYCLE_TDIO_def PIN_TDO_IN_def Let_def)

lemma jtag_tdo_loop_state:
  "snd (jtag_tdo_loop n H nd v s) = snd (tdo_samples n H nd s)"
  by (induction n arbitrary: v s) (simp_all add: Let_def case_prod_beta)

lemma jtag_tdo_loop_bit:
  assumes "n \<le> 31" "\<And>i. 31 \<le> i \<Longrightarrow> \<not> bit v i"
  shows "bit (fst (jtag_tdo_loop n H nd v s)) i \<longleftrightarrow>
    i < 31 \<and> (if i < 31 - n then bit v (i + n) else fst (tdo_samples n H nd s) ! (i - (31 - n)))"
  using assms
proof (induction n arbitrary: v s)
  case 0
  then show ?case by (auto simp: not_less [symmetric])
next
  case (Suc n)
  obtain b where b: "fst (JTAG_CYCLE_TDO H nd s) = of_bool b"
    using JTAG_CYCLE_TDO_of_bool(1) by blast
  let ?v = "drop_bit 1 (v OR push_bit 31 (of_bool b :: u32))"
  have v': "bit ?v j \<longleftrightarrow> (if j < 30 then bit v (j + 1) else j = 30 \<and> b)" for j
    using Suc.prems(2) [of "Suc j"] by (auto simp: bit_simps)
  note IH = Suc.IH [of ?v "snd (JTAG_CYCLE_TDO H nd s)"]
  consider "i < 31 - Suc n" | "i = 30 - n" | "31 - n \<le> i" using Suc.prems(1) by linarith
  then show ?case
  proof cases
    case 1
    then have "i + n < 30" by linarith
    with 1 IH v' Suc.prems show ?thesis by (auto simp: Let_def case_prod_beta b)
  next
    case 2
    with IH v' Suc.prems show ?thesis by (auto simp: Let_def case_prod_beta b)
  next
    case 3
    then have "i - (31 - Suc n) = Suc (i - (31 - n))" "\<not> i < 31 - Suc n"
      using Suc.prems(1) by linarith+
    with 3 IH v' Suc.prems show ?thesis by (auto simp: Let_def case_prod_beta b)
  qed
qed

lemma jtag_word_in:
  "fst (jtag_tdo_loop 31 H nd 0 s) OR push_bit 31 (of_bool b :: u32) =
     word_of_bits (fst (tdo_samples 31 H nd s) @ [b])"
proof (rule bit_word_eqI)
  fix i assume "i < LENGTH(32)"
  then consider "i < 31" | "i = 31" by fastforce
  then show "bit (fst (jtag_tdo_loop 31 H nd 0 s) OR push_bit 31 (of_bool b :: u32)) i =
      bit (word_of_bits (fst (tdo_samples 31 H nd s) @ [b]) :: u32) i"
    by cases (auto simp: bit_or_iff bit_push_bit_iff jtag_tdo_loop_bit bit_word_of_bits nth_append)
qed

text \<open>Reference for sequences: drive the given bits, one sample each.\<close>

primrec jtag_shift :: "bool list \<Rightarrow> hw \<Rightarrow> dap \<Rightarrow> bool list \<times> dap" where
  "jtag_shift [] H s = ([], s)"
| "jtag_shift (i # is) H s =
     (let (b, s) = JTAG_CYCLE_TDIO H True (of_bool i) s; (bs, s) = jtag_shift is H s
      in (bit b 0 # bs, s))"

lemma length_jtag_shift [simp]: "length (fst (jtag_shift is H s)) = length is"
  by (induction "is" arbitrary: s) (simp_all add: Let_def case_prod_beta)

lemma jtag_shift_append:
  "jtag_shift (xs @ ys) H s =
     (let (as, s) = jtag_shift xs H s; (bs, s) = jtag_shift ys H s in (as @ bs, s))"
  by (induction xs arbitrary: s) (simp_all add: Let_def case_prod_beta)

lemma jtag_shift_edges:
  "edges (snd (jtag_shift is H s)) = edges s @ map (Pair (tms s)) is"
  "tms (snd (jtag_shift is H s)) = tms s"
  by (induction "is" arbitrary: s) (simp_all add: Let_def case_prod_beta jtag_simps)

lemma JTAG_CYCLE_TDIO_bit: "JTAG_CYCLE_TDIO H nd v s = JTAG_CYCLE_TDIO H nd (of_bool (bit v 0)) s"
  by (simp add: JTAG_CYCLE_TDIO_def PIN_TDI_OUT_eq)

text \<open>The byte loop shifts in from bit 7.\<close>

definition shift_in :: "bool list \<Rightarrow> u32 \<Rightarrow> u32" where
  "shift_in bs v = foldl (\<lambda>v b. drop_bit 1 v OR push_bit 7 (of_bool b)) v bs"

lemma shift_in_bit:
  assumes "length bs \<le> 8" "\<And>i. 8 \<le> i \<Longrightarrow> \<not> bit v i"
  shows "bit (shift_in bs v) i \<longleftrightarrow>
    i < 8 \<and> (if i < 8 - length bs then bit v (i + length bs) else bs ! (i - (8 - length bs)))"
  using assms
proof (induction bs arbitrary: v)
  case Nil
  then show ?case by (auto simp: shift_in_def not_less [symmetric])
next
  case (Cons b bs)
  let ?v = "drop_bit 1 v OR push_bit 7 (of_bool b :: u32)"
  have v': "bit ?v j \<longleftrightarrow> (if j < 7 then bit v (j + 1) else j = 7 \<and> b)" for j
    using Cons.prems(2) [of "Suc j"] by (auto simp: bit_simps)
  note IH = Cons.IH [of ?v, unfolded v']
  have step: "shift_in (b # bs) v = shift_in bs ?v" by (simp add: shift_in_def)
  consider "i < 8 - Suc (length bs)" | "i = 7 - length bs" | "8 - length bs \<le> i"
    using Cons.prems(1) by fastforce
  then show ?case
  proof cases
    case 3
    then have "i - (8 - Suc (length bs)) = Suc (i - (8 - length bs))"
      using Cons.prems(1) by simp
    with 3 IH Cons.prems show ?thesis unfolding step by auto
  qed (use IH Cons.prems in \<open>auto simp: step\<close>)
qed

lemma shift_in_word:
  assumes "length bs \<le> 8"
  shows "ucast (drop_bit (8 - length bs) (shift_in bs 0)) = (word_of_bits bs :: u8)"
  by (rule bit_word_eqI) (use assms in \<open>auto simp: bit_simps shift_in_bit bit_word_of_bits\<close>)

lemma jtag_seq_byte_eq:
  "jtag_seq_byte k n H i v s =
     (let (bs, t) = jtag_shift (bits_lsb (min k n) i) H s
      in (k - min k n, n - min k n, shift_in bs v, t))"
proof (induction k n H i v s rule: jtag_seq_byte.induct)
  case (1 k n H i v s)
  have b: "fst (JTAG_CYCLE_TDIO H True i s) = of_bool (bit (fst (JTAG_CYCLE_TDIO H True i s)) 0)"
    by (rule JTAG_CYCLE_TDO_of_bool)
  show ?case
    using "1.IH" [OF refl prod.collapse] JTAG_CYCLE_TDIO_bit [of H True i s] b
    by (simp add: Let_def case_prod_beta bits_lsb_Suc shift_in_def)
qed (simp_all add: shift_in_def)

lemma jtag_seq_eq:
  "jtag_seq n H tdo buf p s =
     (let (bs, t) = jtag_shift (stream_bits n (mem_from buf p)) H s
      in (if tdo then pack_bits bs else [], t))"
proof (induction n arbitrary: p s rule: less_induct)
  case (less n)
  show ?case
  proof (cases "n = 0")
    case True
    then show ?thesis by (simp add: jtag_seq.simps)
  next
    case False
    let ?is = "bits_lsb (min 8 n) (buf p)"
    have i: "bits_lsb (min 8 n) (ucast (buf p) :: u32) = ?is"
      by (rule bits_lsb_ucast) simp_all
    have split: "stream_bits n (mem_from buf p) = ?is @ stream_bits (n - 8) (mem_from buf (p + 1))"
      using stream_bits_byte [of n "mem_from buf p"] by (simp del: mem_from_at, simp)
    obtain as t where a: "jtag_shift ?is H s = (as, t)" by (cases "jtag_shift ?is H s")
    obtain bs u where b: "jtag_shift (stream_bits (n - 8) (mem_from buf (p + 1))) H t = (bs, u)"
      by (cases "jtag_shift (stream_bits (n - 8) (mem_from buf (p + 1))) H t")
    have len: "length as = min 8 n" "length bs = n - 8"
      using length_jtag_shift [of ?is H s] length_jtag_shift [of "stream_bits (n - 8) (mem_from buf (p + 1))" H t]
      unfolding a b fst_conv length_bits_lsb length_stream_bits .
    have whole: "jtag_shift (stream_bits n (mem_from buf p)) H s = (as @ bs, u)"
      unfolding split jtag_shift_append a Let_def prod.case b ..
    have byte: "jtag_seq_byte 8 n H (ucast (buf p)) 0 s =
        (8 - min 8 n, n - min 8 n, shift_in as 0, t)"
      by (simp add: jtag_seq_byte_eq i a)
    have w: "ucast (drop_bit (8 - min 8 n) (shift_in as 0)) = (word_of_bits as :: u8)"
      using shift_in_word [of as] by (simp add: len)
    have rest: "jtag_seq (n - min 8 n) H tdo buf (p + 1) t = (if tdo then pack_bits bs else [], u)"
    proof -
      have m: "n - min 8 n = n - 8" by simp
      show ?thesis
        unfolding m using less [of "n - 8" "p + 1" t] False
        unfolding b Let_def prod.case by auto
    qed
    have "jtag_seq n H tdo buf p s =
        (if tdo then word_of_bits as # pack_bits bs else [], u)"
      unfolding jtag_seq.simps [of n] byte Let_def prod.case rest
      using False by (cases tdo) (simp_all add: w)
    moreover have "pack_bits (as @ bs) = word_of_bits as # pack_bits bs"
    proof -
      have "as @ bs \<noteq> []" using False len by auto
      moreover have "take 8 (as @ bs) = as \<and> drop 8 (as @ bs) = bs"
        using len by (cases "8 \<le> n") simp_all
      ultimately show ?thesis by (simp add: pack_bits_byte)
    qed
    ultimately show ?thesis by (simp add: whole del: mem_from_at)
  qed
qed

section \<open>Transfers, part by part\<close>

text \<open>One data register scan from Run-Test/Idle, then idle cycles.\<close>

definition dr_scan :: "bool \<Rightarrow> bool list \<Rightarrow> bool \<Rightarrow> bool list \<Rightarrow> (bool \<times> bool) list" where
  "dr_scan d bs c is =
     [(True, d), (False, d), (False, d)] @ map (Pair False) (butlast bs) @
     [(True, last bs), (True, c), (False, c)] @ map (Pair False) is"

lemma tap_scan_dr_scan: "bs \<noteq> [] \<Longrightarrow> tap_scan RTI (dr_scan d bs c is) = (RTI, [], bs)"
  by (simp add: dr_scan_def)

definition jtag_finish :: "hw \<Rightarrow> bool \<Rightarrow> u32 \<Rightarrow> dap \<Rightarrow> dap" where
  "jtag_finish H nd req s =
     (let s = capture_timestamp H req (PIN_TDI_OUT 1 (jtag_update_dr nd s))
      in jtag_clocks nd (unat (idle_cycles s)) s)"

lemma capture_timestamp_jtag [jtag_simps]:
  "edges (capture_timestamp H req s) = edges s" "tms (capture_timestamp H req s) = tms s"
  "tdi (capture_timestamp H req s) = tdi s"
  by (simp_all add: capture_timestamp_def TIMESTAMP_GET_def Let_def jtag_simps)

lemma jtag_finish_edges:
  "edges (jtag_finish H nd req s) = edges s @ [(tms s, tdi s), (False, tdi s)] @
     map (Pair False) (replicate (unat (idle_cycles s)) True)"
  "tdi (jtag_finish H nd req s)" "wire_only s (jtag_finish H nd req s)"
proof -
  let ?t = "capture_timestamp H req (PIN_TDI_OUT 1 (jtag_update_dr nd s))"
  have "idle_cycles ?t = idle_cycles s" by (rule wire_only_jtag_fields) simp
  then show "edges (jtag_finish H nd req s) = edges s @ [(tms s, tdi s), (False, tdi s)] @
     map (Pair False) (replicate (unat (idle_cycles s)) True)"
    "tdi (jtag_finish H nd req s)" "wire_only s (jtag_finish H nd req s)"
    by (simp_all add: jtag_finish_def Let_def jtag_simps jtag_update_dr_edges)
qed

definition jtag_ack :: "hw \<Rightarrow> u32 \<Rightarrow> dap \<Rightarrow> u32" where
  "jtag_ack H req s = fst (jtag_request H (fast_clock s = 0) req s)"

definition jtag_acked :: "hw \<Rightarrow> u32 \<Rightarrow> dap \<Rightarrow> dap" where
  "jtag_acked H req s = snd (jtag_request H (fast_clock s = 0) req s)"

lemma JTAG_Transfer_cases:
  "JTAG_Transfer H req store data s =
    (let nd = (fast_clock s = 0); t = jtag_acked H req s
     in if jtag_ack H req s \<noteq> 1 then
          (ucast (jtag_ack H req s), data,
           jtag_finish H nd req (JTAG_CYCLE_TCK nd (PIN_SWDIO_TMS_SET t)))
        else if req AND DAP_TRANSFER_RnW \<noteq> 0 then
          (let (b, u) = jtag_last_in H nd (snd (tdo_samples 31 H nd t))
           in (DAP_TRANSFER_OK,
               if store then word_of_bits (fst (tdo_samples 31 H nd t) @ [bit b 0]) else data,
               jtag_finish H nd req u))
        else
          (DAP_TRANSFER_OK, data,
           jtag_finish H nd req (jtag_last_out nd (drop_bit 31 data) (snd (jtag_tdi_loop 31 nd data t)))))"
proof -
  have b: "fst (jtag_last_in H nd u) = of_bool (bit (fst (jtag_last_in H nd u)) 0)" for nd u
    using JTAG_CYCLE_TDO_of_bool(1) [of H nd]
    by (simp add: jtag_last_in_def Let_def case_prod_beta)
  have w: "fst (jtag_tdo_loop 31 H nd 0 t) OR push_bit 31 (fst (jtag_last_in H nd u)) =
      word_of_bits (fst (tdo_samples 31 H nd t) @ [bit (fst (jtag_last_in H nd u)) 0])" for nd t u
    by (subst b) (rule jtag_word_in)
  show ?thesis
    by (simp add: JTAG_Transfer_def JTAG_TransferFast_def JTAG_TransferSlow_def
        JTAG_Transfer_fn_def jtag_finish_def jtag_ack_def jtag_acked_def Let_def case_prod_beta
        transfer_consts jtag_tdo_loop_state jtag_simps w)
qed

lemma jtag_acked_edges:
  "edges (jtag_acked H req s) = edges s @
     [(True, tdi s), (False, tdi s), (False, tdi s)] @
     map (Pair False) (replicate (unat (jtag_index s)) (tdi s) @ [bit req 1, bit req 2, bit req 3])"
  "\<not> tms (jtag_acked H req s)" "tdi (jtag_acked H req s) = bit req 3"
  "wire_only s (jtag_acked H req s)"
  by (simp_all add: jtag_acked_def jtag_request_edges)

lemma jtag_dev_after_count:
  "jtag_index s < jtag_count s \<Longrightarrow>
   unat (jtag_dev_after s) = unat (jtag_count s) - unat (jtag_index s) - 1"
proof -
  assume "jtag_index s < jtag_count s"
  then have lt: "unat (jtag_index s) < unat (jtag_count s)" by (simp add: word_less_nat_alt)
  then have "jtag_dev_after s = of_nat (unat (jtag_count s) - unat (jtag_index s) - 1)"
    by (simp add: jtag_dev_after_def of_nat_diff)
  then show ?thesis
    using unat_bounds(1) [of "jtag_count s"] by (simp add: unat_of_nat_small)
qed

section \<open>Properties\<close>

text \<open>C35: Setting the instruction register takes the TAP controller from Run-Test/Idle back to
  Run-Test/Idle and shifts through Shift-IR exactly: ones for the devices before, the low bits
  of the instruction for the selected device, ones for the devices after; nothing goes through
  Shift-DR.  This is at either speed, for every selected device with a non-zero IR length.\<close>

theorem jtag_ir_scan:
  assumes "ir_length s ! unat (jtag_index s) \<noteq> 0"
  shows "\<exists>es. edges (JTAG_IR ir s) = edges s @ es \<and>
    tap_scan RTI es = (RTI,
      replicate (unat (ir_before s ! unat (jtag_index s))) True @
      bits_lsb (unat (ir_length s ! unat (jtag_index s))) ir @
      replicate (unat (ir_after s ! unat (jtag_index s))) True, []) \<and>
    tdi (JTAG_IR ir s) \<and> wire_only s (JTAG_IR ir s)"
proof -
  define nd where "nd = (fast_clock s = 0)"
  have nd: "JTAG_IR ir s = JTAG_IR_fn nd ir s"
    by (simp add: nd_def JTAG_IR_def JTAG_IR_Fast_def JTAG_IR_Slow_def)
  let ?i = "unat (jtag_index s)"
  define t where "t = PIN_TDI_OUT 1 (JTAG_CYCLE_TCK nd (JTAG_CYCLE_TCK nd (PIN_SWDIO_TMS_CLR
    (JTAG_CYCLE_TCK nd (JTAG_CYCLE_TCK nd (PIN_SWDIO_TMS_SET s))))))"
  define u where "u = jtag_clocks nd (unat (ir_before s ! ?i)) t"
  define L where "L = unat (ucast (ir_length s ! ?i) - 1 :: u32)"
  define v where "v = snd (jtag_tdi_loop L nd ir u)"
  have t: "edges t = edges s @ [(True, tdi s), (True, tdi s), (False, tdi s), (False, tdi s)]"
    "\<not> tms t" "tdi t" by (simp_all add: t_def jtag_simps)
  have f: "jtag_index t = jtag_index s" "ir_before t = ir_before s"
    "jtag_index u = jtag_index s" "ir_length u = ir_length s"
    "jtag_index v = jtag_index s" "ir_after v = ir_after s"
    by (rule wire_only_jtag_fields; simp add: t_def u_def v_def)+
  have L: "Suc L = unat (ir_length s ! ?i)"
    using unat_ucast_minus_1 [OF assms] by (simp add: L_def)
  have bits: "bits_lsb (unat (ir_length s ! ?i)) ir = bits_lsb L ir @ [bit ir L]"
    using bits_lsb_snoc [of L ir] by (simp add: L)
  have v: "edges v = edges t @ map (Pair False) (replicate (unat (ir_before s ! ?i)) True @ bits_lsb L ir)"
    "\<not> tms v" using t by (simp_all add: v_def u_def jtag_simps)
  have fst_v: "fst (jtag_tdi_loop L nd ir u) = drop_bit L ir" by (simp add: jtag_simps)
  have suc: "unat n = Suc (unat (n - 1))" if "n \<noteq> 0" for n :: u16
    using that unat_gt_0 [of n] by (simp add: unat_minus_one)
  have w: "wire_only s v" by (simp add: v_def u_def t_def)
  have unf: "JTAG_IR_fn nd ir s = PIN_TDI_OUT 1 (JTAG_CYCLE_TCK nd (PIN_SWDIO_TMS_CLR (JTAG_CYCLE_TCK nd
      (if ir_after s ! ?i \<noteq> 0 then
         JTAG_CYCLE_TCK nd (PIN_SWDIO_TMS_SET (jtag_clocks nd (unat (ir_after s ! ?i - 1))
           (PIN_TDI_OUT 1 (JTAG_CYCLE_TDI nd (drop_bit L ir) v))))
       else JTAG_CYCLE_TDI nd (drop_bit L ir) (PIN_SWDIO_TMS_SET v)))))"
    unfolding JTAG_IR_fn_def Let_def t_def [symmetric] case_prod_beta f u_def [symmetric]
      L_def [symmetric] v_def [symmetric] fst_v by simp
  show ?thesis
  proof (cases "ir_after s ! ?i = 0")
    case True
    with t v w bits show ?thesis
      by (simp add: nd, simp add: unf jtag_simps bit_drop_bit_eq)
  next
    case False
    with t v w bits suc [OF False] show ?thesis
      by (simp add: nd, simp add: unf jtag_simps bit_drop_bit_eq replicate_append_same)
  qed
qed

theorem jtag_ir_scan_witness:
  "\<exists>es. edges (JTAG_IR 0xE example_dap) = edges example_dap @ es \<and>
    tap_scan RTI es = (RTI,
      replicate (unat (ir_before example_dap ! unat (jtag_index example_dap))) True @
      bits_lsb (unat (ir_length example_dap ! unat (jtag_index example_dap))) (0xE :: u32) @
      replicate (unat (ir_after example_dap ! unat (jtag_index example_dap))) True, []) \<and>
    tdi (JTAG_IR 0xE example_dap) \<and> wire_only example_dap (JTAG_IR 0xE example_dap)"
  by (rule jtag_ir_scan) (simp add: example_dap_def)

text \<open>A JTAG write that is acknowledged with OK takes the TAP controller from
  Run-Test/Idle back to Run-Test/Idle with one data register scan: one bypass bit for each
  device before, RnW, A2, A3, the 32 data bits least significant first, and one bypass bit for
  each device after the selected one.\<close>

theorem jtag_write_scan:
  assumes "req AND DAP_TRANSFER_RnW = 0" and "jtag_ack H req s = 1"
    and "jtag_index s < jtag_count s"
  shows "\<exists>s' es. JTAG_Transfer H req store data s = (DAP_TRANSFER_OK, data, s') \<and>
    edges s' = edges s @ es \<and>
    tap_scan RTI es = (RTI, [], replicate (unat (jtag_index s)) (tdi s) @
      [bit req 1, bit req 2, bit req 3] @ bits_lsb 32 data @
      replicate (unat (jtag_count s) - unat (jtag_index s) - 1) (bit data 31)) \<and>
    tdi s' \<and> wire_only s s'"
proof -
  let ?nd = "fast_clock s = 0"
  define u where "u = snd (jtag_tdi_loop 31 ?nd data (jtag_acked H req s))"
  have u: "\<not> tms u" "edges u = edges (jtag_acked H req s) @ map (Pair False) (bits_lsb 31 data)"
    "wire_only s u"
    by (simp_all add: u_def jtag_simps jtag_acked_edges)
  have after: "unat (jtag_dev_after u) = unat (jtag_count s) - unat (jtag_index s) - 1"
    using wire_only_jtag_fields(2) [OF u(3)] jtag_dev_after_count [OF assms(3)] by simp
  have b32: "bits_lsb 32 data = bits_lsb 31 data @ [bit data 31]"
    using bits_lsb_snoc [of 31 data] by simp
  let ?b = "bit data 31"
  let ?n = "unat (jtag_count s) - unat (jtag_index s) - 1"
  let ?bs = "replicate (unat (jtag_index s)) (tdi s) @ [bit req 1, bit req 2, bit req 3] @
    bits_lsb 32 data @ replicate ?n ?b"
  let ?w = "jtag_last_out ?nd (drop_bit 31 data) u"
  let ?s' = "jtag_finish H ?nd req ?w"
  let ?es = "dr_scan (tdi s) ?bs ?b (replicate (unat (idle_cycles ?w)) True)"
  have r: "JTAG_Transfer H req store data s = (DAP_TRANSFER_OK, data, ?s')"
    using assms(1,2) by (simp add: JTAG_Transfer_cases Let_def u_def)
  have bs: "?bs = (replicate (unat (jtag_index s)) (tdi s) @ [bit req 1, bit req 2, bit req 3] @
      bits_lsb 31 data @ replicate ?n ?b) @ [?b]"
    by (simp add: b32 replicate_append_same)
  have e: "edges ?s' = edges s @ ?es"
    unfolding dr_scan_def bs butlast_snoc last_snoc
    by (simp add: jtag_finish_edges jtag_last_out_edges [OF u(1)] u(2) jtag_acked_edges after
        bit_drop_bit_eq)
  have f: "wire_only s ?s'"
    using jtag_finish_edges(3) by (rule wire_only_trans [rotated]) (simp add: u)
  have "tap_scan RTI ?es = (RTI, [], ?bs)" by (rule tap_scan_dr_scan) simp
  with r e f jtag_finish_edges(2) show ?thesis by blast
qed

theorem jtag_write_scan_witness:
  "\<exists>s' es. JTAG_Transfer (example_hw {4}) 0xC True 0xA5 example_dap = (DAP_TRANSFER_OK, 0xA5, s') \<and>
    edges s' = edges example_dap @ es \<and>
    tap_scan RTI es = (RTI, [], replicate (unat (jtag_index example_dap)) (tdi example_dap) @
      [bit (0xC :: u32) 1, bit (0xC :: u32) 2, bit (0xC :: u32) 3] @ bits_lsb 32 (0xA5 :: u32) @
      replicate (unat (jtag_count example_dap) - unat (jtag_index example_dap) - 1)
        (bit (0xA5 :: u32) 31)) \<and>
    tdi s' \<and> wire_only example_dap s'"
  by (rule jtag_write_scan; code_simp)

text \<open>A JTAG read that is acknowledged with OK scans a data register of the same length and
  stores the 32 bits captured after the acknowledge bits, the first one least significant.\<close>

theorem jtag_read_scan:
  assumes "req AND DAP_TRANSFER_RnW \<noteq> 0" and "jtag_ack H req s = 1"
    and "jtag_index s < jtag_count s"
  shows "\<exists>s' es smp d31.
    smp = tdo_samples 31 H (fast_clock s = 0) (jtag_acked H req s) \<and>
    d31 = bit (fst (jtag_last_in H (fast_clock s = 0) (snd smp))) 0 \<and>
    JTAG_Transfer H req store data s =
      (DAP_TRANSFER_OK, if store then word_of_bits (fst smp @ [d31]) else data, s') \<and>
    edges s' = edges s @ es \<and>
    tap_scan RTI es = (RTI, [], replicate (unat (jtag_index s)) (tdi s) @
      [bit req 1, bit req 2, bit req 3] @
      replicate (32 + (unat (jtag_count s) - unat (jtag_index s) - 1)) (bit req 3)) \<and>
    tdi s' \<and> wire_only s s'"
proof -
  let ?nd = "fast_clock s = 0"
  define smp where "smp = tdo_samples 31 H ?nd (jtag_acked H req s)"
  have u: "\<not> tms (snd smp)" "tdi (snd smp) = bit req 3"
    "edges (snd smp) = edges (jtag_acked H req s) @ map (Pair False) (replicate 31 (bit req 3))"
    "wire_only s (snd smp)"
    unfolding smp_def jtag_tdo_loop_state [of 31 H _ 0, symmetric]
    by (simp_all add: jtag_simps jtag_acked_edges)
  let ?n = "unat (jtag_count s) - unat (jtag_index s) - 1"
  have after: "unat (jtag_dev_after (snd smp)) = ?n"
    using wire_only_jtag_fields(2) [OF u(4)] jtag_dev_after_count [OF assms(3)] by simp
  let ?b = "bit req 3"
  let ?bs = "replicate (unat (jtag_index s)) (tdi s) @ [bit req 1, bit req 2, ?b] @
    replicate (32 + ?n) ?b"
  let ?w = "snd (jtag_last_in H ?nd (snd smp))"
  let ?s' = "jtag_finish H ?nd req ?w"
  let ?es = "dr_scan (tdi s) ?bs ?b (replicate (unat (idle_cycles ?w)) True)"
  have r: "JTAG_Transfer H req store data s = (DAP_TRANSFER_OK,
      if store then word_of_bits (fst smp @ [bit (fst (jtag_last_in H ?nd (snd smp))) 0]) else data, ?s')"
    using assms(1,2) by (simp add: JTAG_Transfer_cases Let_def smp_def case_prod_beta)
  have "replicate (32 + ?n) ?b = replicate 31 ?b @ replicate ?n ?b @ [?b]"
    using replicate_add [of 31 "Suc ?n" ?b] by (simp add: replicate_append_same)
  then have bs: "?bs = (replicate (unat (jtag_index s)) (tdi s) @ [bit req 1, bit req 2, ?b] @
      replicate 31 ?b @ replicate ?n ?b) @ [?b]"
    by simp
  have e: "edges ?s' = edges s @ ?es"
    unfolding dr_scan_def bs butlast_snoc last_snoc
    by (simp add: jtag_finish_edges jtag_last_in_edges [OF u(1)] u(2,3) jtag_acked_edges after)
  have f: "wire_only s ?s'"
    using jtag_finish_edges(3) by (rule wire_only_trans [rotated]) (simp add: u)
  have "tap_scan RTI ?es = (RTI, [], ?bs)" by (rule tap_scan_dr_scan) simp
  with r e f jtag_finish_edges(2) smp_def show ?thesis by blast
qed

theorem jtag_read_scan_witness:
  "\<exists>s' es smp d31.
    smp = tdo_samples 31 (example_hw {4}) (fast_clock example_dap = 0)
      (jtag_acked (example_hw {4}) 0x2 example_dap) \<and>
    d31 = bit (fst (jtag_last_in (example_hw {4}) (fast_clock example_dap = 0) (snd smp))) 0 \<and>
    JTAG_Transfer (example_hw {4}) 0x2 True 0 example_dap =
      (DAP_TRANSFER_OK, if True then word_of_bits (fst smp @ [d31]) else 0, s') \<and>
    edges s' = edges example_dap @ es \<and>
    tap_scan RTI es = (RTI, [], replicate (unat (jtag_index example_dap)) (tdi example_dap) @
      [bit (0x2 :: u32) 1, bit (0x2 :: u32) 2, bit (0x2 :: u32) 3] @
      replicate (32 + (unat (jtag_count example_dap) - unat (jtag_index example_dap) - 1))
        (bit (0x2 :: u32) 3)) \<and>
    tdi s' \<and> wire_only example_dap s'"
  by (rule jtag_read_scan; code_simp)

text \<open>A JTAG transfer with any other acknowledge leaves the data alone, passes the
  acknowledge on and ends the scan after one more bit, in Run-Test/Idle.\<close>

theorem jtag_failed_transfer:
  assumes "jtag_ack H req s \<noteq> 1"
  shows "\<exists>s' es. JTAG_Transfer H req store data s = (ucast (jtag_ack H req s), data, s') \<and>
    edges s' = edges s @ es \<and>
    tap_scan RTI es = (RTI, [], replicate (unat (jtag_index s)) (tdi s) @
      [bit req 1, bit req 2, bit req 3, bit req 3]) \<and> tdi s' \<and> wire_only s s'"
proof -
  let ?nd = "fast_clock s = 0"
  let ?w = "JTAG_CYCLE_TCK ?nd (PIN_SWDIO_TMS_SET (jtag_acked H req s))"
  let ?s' = "jtag_finish H ?nd req ?w"
  let ?b = "bit req 3"
  let ?bs = "(replicate (unat (jtag_index s)) (tdi s) @ [bit req 1, bit req 2, ?b]) @ [?b]"
  let ?es = "dr_scan (tdi s) ?bs ?b (replicate (unat (idle_cycles ?w)) True)"
  have r: "JTAG_Transfer H req store data s = (ucast (jtag_ack H req s), data, ?s')"
    using assms by (simp add: JTAG_Transfer_cases Let_def)
  have e: "edges ?s' = edges s @ ?es"
    unfolding dr_scan_def butlast_snoc last_snoc
    by (simp add: jtag_finish_edges jtag_simps jtag_acked_edges)
  have f: "wire_only s ?s'"
    using jtag_finish_edges(3) by (rule wire_only_trans [rotated]) (simp add: jtag_acked_edges)
  have "tap_scan RTI ?es = (RTI, [], ?bs)" by (rule tap_scan_dr_scan) simp
  with r e f jtag_finish_edges(2) show ?thesis by auto
qed

theorem jtag_failed_transfer_witness:
  "\<exists>s' es. JTAG_Transfer (example_hw {}) 0x2 True 9 example_dap =
      (ucast (jtag_ack (example_hw {}) 0x2 example_dap), 9, s') \<and>
    edges s' = edges example_dap @ es \<and>
    tap_scan RTI es = (RTI, [], replicate (unat (jtag_index example_dap)) (tdi example_dap) @
      [bit (0x2 :: u32) 1, bit (0x2 :: u32) 2, bit (0x2 :: u32) 3, bit (0x2 :: u32) 3]) \<and>
    tdi s' \<and> wire_only example_dap s'"
  by (rule jtag_failed_transfer; code_simp)

text \<open>Reading the IDCODE register is one data register scan back to Run-Test/Idle, one bypass
  bit for each device before and 32 bits, and returns the 32 captured bits, the first one least
  significant.\<close>

theorem jtag_idcode_scan:
  "\<exists>s' es smp d31. smp = tdo_samples 31 H True (jtag_enter_dr True s) \<and>
    d31 = bit (fst (JTAG_CYCLE_TDO H True (PIN_SWDIO_TMS_SET (snd smp)))) 0 \<and>
    JTAG_ReadIDCode H s = (word_of_bits (fst smp @ [d31]), s') \<and>
    edges s' = edges s @ es \<and>
    tap_scan RTI es = (RTI, [], replicate (unat (jtag_index s) + 32) (tdi s)) \<and> wire_only s s'"
proof -
  define smp where "smp = tdo_samples 31 H True (jtag_enter_dr True s)"
  let ?r = "JTAG_CYCLE_TDO H True (PIN_SWDIO_TMS_SET (snd smp))"
  have u: "\<not> tms (snd smp)" "tdi (snd smp) = tdi s"
    "edges (snd smp) = edges (jtag_enter_dr True s) @ map (Pair False) (replicate 31 (tdi s))"
    "wire_only s (snd smp)"
    unfolding smp_def jtag_tdo_loop_state [of 31 H _ 0, symmetric]
    by (simp_all add: jtag_simps jtag_enter_dr_edges)
  let ?s' = "jtag_update_dr True (snd ?r)"
  let ?bs = "(replicate (unat (jtag_index s)) (tdi s) @ replicate 31 (tdi s)) @ [tdi s]"
  let ?es = "dr_scan (tdi s) ?bs (tdi s) []"
  have "fst ?r = of_bool (bit (fst ?r) 0)" by (rule JTAG_CYCLE_TDO_of_bool)
  then have r: "JTAG_ReadIDCode H s = (word_of_bits (fst smp @ [bit (fst ?r) 0]), ?s')"
    using jtag_word_in [of H True "jtag_enter_dr True s" "bit (fst ?r) 0"]
    by (simp add: JTAG_ReadIDCode_def Let_def case_prod_beta smp_def jtag_tdo_loop_state)
  have e: "edges ?s' = edges s @ ?es"
    unfolding dr_scan_def butlast_snoc last_snoc
    by (simp add: jtag_update_dr_edges jtag_simps u jtag_enter_dr_edges)
  have b: "?bs = replicate (unat (jtag_index s) + 32) (tdi s)"
    using replicate_add [of 31 1 "tdi s"] by (simp add: replicate_add)
  have f: "wire_only s ?s'" using u(4) by simp
  have "tap_scan RTI ?es = (RTI, [], ?bs)" by (rule tap_scan_dr_scan) simp
  with r e f smp_def b show ?thesis by metis
qed

text \<open>Writing the ABORT register is one data register scan back to Run-Test/Idle: bypass bits,
  three zeros for RnW, A2 and A3, and the 32 data bits for the selected device.\<close>

theorem jtag_write_abort_scan:
  assumes "jtag_index s < jtag_count s"
  shows "\<exists>es. edges (JTAG_WriteAbort data s) = edges s @ es \<and>
    tap_scan RTI es = (RTI, [], replicate (unat (jtag_index s)) (tdi s) @
      [False, False, False] @ bits_lsb 32 data @
      replicate (unat (jtag_count s) - unat (jtag_index s) - 1) (bit data 31)) \<and>
    tdi (JTAG_WriteAbort data s) \<and> wire_only s (JTAG_WriteAbort data s)"
proof -
  define t where "t = JTAG_CYCLE_TCK True (JTAG_CYCLE_TCK True (JTAG_CYCLE_TCK True
    (PIN_TDI_OUT 0 (jtag_enter_dr True s))))"
  define u where "u = snd (jtag_tdi_loop 31 True data t)"
  have t: "\<not> tms t" "edges t = edges s @ [(True, tdi s), (False, tdi s), (False, tdi s)] @
      map (Pair False) (replicate (unat (jtag_index s)) (tdi s) @ [False, False, False])"
    by (simp_all add: t_def jtag_simps jtag_enter_dr_edges)
  have u: "\<not> tms u" "edges u = edges t @ map (Pair False) (bits_lsb 31 data)" "wire_only s u"
    using t(1) by (simp_all add: u_def jtag_simps) (simp add: t_def)
  let ?n = "unat (jtag_count s) - unat (jtag_index s) - 1"
  have after: "unat (jtag_dev_after u) = ?n"
    using wire_only_jtag_fields(2) [OF u(3)] jtag_dev_after_count [OF assms] by simp
  have b32: "bits_lsb 32 data = bits_lsb 31 data @ [bit data 31]"
    using bits_lsb_snoc [of 31 data] by simp
  let ?b = "bit data 31"
  let ?bs = "replicate (unat (jtag_index s)) (tdi s) @ [False, False, False] @ bits_lsb 32 data @
    replicate ?n ?b"
  let ?es = "dr_scan (tdi s) ?bs ?b []"
  have bs: "?bs = (replicate (unat (jtag_index s)) (tdi s) @ [False, False, False] @
      bits_lsb 31 data @ replicate ?n ?b) @ [?b]"
    by (simp add: b32 replicate_append_same)
  have r: "JTAG_WriteAbort data s = PIN_TDI_OUT 1 (jtag_update_dr True
      (jtag_last_out True (drop_bit 31 data) u))"
    by (simp add: JTAG_WriteAbort_def Let_def case_prod_beta t_def u_def jtag_simps)
  have e: "edges (JTAG_WriteAbort data s) = edges s @ ?es"
    unfolding dr_scan_def bs butlast_snoc last_snoc r
    by (simp add: jtag_simps jtag_update_dr_edges jtag_last_out_edges [OF u(1)] u(2) t after
        bit_drop_bit_eq)
  have "tap_scan RTI ?es = (RTI, [], ?bs)" by (rule tap_scan_dr_scan) simp
  moreover have "tdi (JTAG_WriteAbort data s)" by (simp add: r jtag_simps)
  moreover have "wire_only s (JTAG_WriteAbort data s)" by simp
  ultimately show ?thesis using e by blast
qed

theorem jtag_write_abort_scan_witness:
  "\<exists>es. edges (JTAG_WriteAbort 0x1F example_dap) = edges example_dap @ es \<and>
    tap_scan RTI es = (RTI, [], replicate (unat (jtag_index example_dap)) (tdi example_dap) @
      [False, False, False] @ bits_lsb 32 (0x1F :: u32) @
      replicate (unat (jtag_count example_dap) - unat (jtag_index example_dap) - 1)
        (bit (0x1F :: u32) 31)) \<and>
    tdi (JTAG_WriteAbort 0x1F example_dap) \<and> wire_only example_dap (JTAG_WriteAbort 0x1F example_dap)"
  by (rule jtag_write_abort_scan) (simp add: example_dap_def)

text \<open>A JTAG sequence clocks 1 to 64 cycles at a constant TMS level with the buffer's bits on
  TDI, least significant first, and, when capture is requested, returns the sampled bits packed
  the same way, the last byte padded with zeros.\<close>

theorem jtag_sequence_in_out:
  "(let n = jtag_seq_count info; (bytes, s') = JTAG_Sequence H info buf s;
        level = (info AND JTAG_SEQUENCE_TMS \<noteq> 0) in
     1 \<le> n \<and> n \<le> 64 \<and> wire_only s s' \<and>
     edges s' = edges s @ map (Pair level) (stream_bits n buf) \<and>
     (if info AND JTAG_SEQUENCE_TDO \<noteq> 0
      then \<exists>smp. length smp = n \<and> bytes = pack_bits smp \<and>
             stream_bits n (mem_of bytes) = smp
      else bytes = []))"
proof -
  let ?n = "jtag_seq_count info"
  have "unat (info AND JTAG_SEQUENCE_TCK) \<le> unat JTAG_SEQUENCE_TCK"
    using word_and_le1 [of info JTAG_SEQUENCE_TCK] by (simp add: word_le_nat_alt and.commute)
  then have n: "1 \<le> ?n" "?n \<le> 64"
    by (simp_all add: jtag_seq_count_def Let_def unat_gt_0 Suc_le_eq JTAG_SEQUENCE_TCK_def)
  let ?t = "if info AND JTAG_SEQUENCE_TMS \<noteq> 0 then PIN_SWDIO_TMS_SET s else PIN_SWDIO_TMS_CLR s"
  obtain smp s' where r: "jtag_shift (stream_bits ?n buf) H ?t = (smp, s')" by fastforce
  have S: "JTAG_Sequence H info buf s =
      (if info AND JTAG_SEQUENCE_TDO \<noteq> 0 then pack_bits smp else [], s')"
    using r by (simp add: JTAG_Sequence_def Let_def jtag_seq_eq)
  have len: "length smp = ?n"
    using length_jtag_shift [of "stream_bits ?n buf" H ?t] by (simp add: r)
  have e: "edges s' = edges s @ map (Pair (info AND JTAG_SEQUENCE_TMS \<noteq> 0)) (stream_bits ?n buf)"
    using jtag_shift_edges(1) [of "stream_bits ?n buf" H ?t] by (simp add: r jtag_simps split: if_splits)
  have "wire_only s s'" using wire_only_jtag_ops(1) [of s H info buf s] by (simp add: S)
  then show ?thesis
    using n e stream_bits_pack_bits [of smp] by (auto simp: Let_def S len)
qed

end
