(* ===== verification/DapTransfer.thy ===== *)
theory DapTransfer
  imports Jtag
begin

text \<open>
  The transfer commands of DAP.c.  Each of the C functions is cut at its branches; the pieces
  work on one record of the function's locals (\<open>xfer_state\<close>) and, because SWD and JTAG share
  the retry loop, take the packet transfer as a parameter \<open>f\<close>.  The interface they rely on is
  the locale \<open>transport\<close>, interpreted for \<open>SWD_Transfer\<close> and \<open>JTAG_Transfer\<close>.

  A response is the list of bytes written; \<open>junk\<close> is the initial content of the local \<open>data\<close>,
  which C leaves uninitialised.
\<close>

type_synonym xfer_fun = "u32 \<Rightarrow> bool \<Rightarrow> u32 \<Rightarrow> dap \<Rightarrow> u8 \<times> u32 \<times> dap"

definition DP_ABORT :: u32 where "DP_ABORT = 0x00"
definition DP_RDBUFF :: u32 where "DP_RDBUFF = 0x0C"

definition rdbuff_read :: u32 where "rdbuff_read = DP_RDBUFF OR DAP_TRANSFER_RnW"

section \<open>The retry loop\<close>

text \<open>\<open>do ... while ((ack == WAIT) && retry-- && !DAP_TransferAbort)\<close>\<close>

primrec xfer_retry :: "nat \<Rightarrow> xfer_fun \<Rightarrow> xfer_fun" where
  "xfer_retry 0 f req store data s = f req store data s"
| "xfer_retry (Suc retry) f req store data s =
     (let (ack, data, s) = f req store data s
      in if ack = DAP_TRANSFER_WAIT \<and> TransferAbort s = 0 then xfer_retry retry f req store data s
         else (ack, data, s))"

record xfer_state =
  x_pos :: nat
  x_out :: "u8 list"
  x_post :: bool
  x_check :: bool
  x_data :: u32
  x_val :: u8
  x_count :: u32
  x_ir :: u32
  x_dap :: dap

definition x_xfer :: "xfer_fun \<Rightarrow> u32 \<Rightarrow> bool \<Rightarrow> xfer_state \<Rightarrow> xfer_state" where
  "x_xfer f req store x =
     (let (ack, data, s) = xfer_retry (unat (retry_count (x_dap x))) f req store (x_data x) (x_dap x)
      in x\<lparr>x_val := ack, x_data := data, x_dap := s\<rparr>)"

definition x_emit :: "u8 list \<Rightarrow> xfer_state \<Rightarrow> xfer_state" where
  "x_emit bs x = x\<lparr>x_out := x_out x @ bs\<rparr>"

definition x_emit_data :: "xfer_state \<Rightarrow> xfer_state" where
  "x_emit_data x = x_emit (le32_bytes (x_data x)) x"

definition x_emit_stamp :: "u32 \<Rightarrow> xfer_state \<Rightarrow> xfer_state" where
  "x_emit_stamp req x =
     (if req AND DAP_TRANSFER_TIMESTAMP \<noteq> 0 then x_emit (le32_bytes (timestamp (x_dap x))) x else x)"

text \<open>Read until the value matches or the match retries are used up; a failed transfer leaves
  the loop, and the value is compared once more afterwards.\<close>

definition x_matches :: "u32 \<Rightarrow> xfer_state \<Rightarrow> bool" where
  "x_matches match_value x \<longleftrightarrow> x_data x AND match_mask (x_dap x) = match_value"

primrec x_match_loop :: "nat \<Rightarrow> xfer_fun \<Rightarrow> u32 \<Rightarrow> u32 \<Rightarrow> xfer_state \<Rightarrow> xfer_state" where
  "x_match_loop 0 f req match_value x = x_xfer f req True x"
| "x_match_loop (Suc n) f req match_value x =
     (let x = x_xfer f req True x
      in if x_val x \<noteq> DAP_TRANSFER_OK then x
         else if \<not> x_matches match_value x \<and> TransferAbort (x_dap x) = 0
              then x_match_loop n f req match_value x
         else x)"

definition x_match :: "xfer_fun \<Rightarrow> u32 \<Rightarrow> u32 \<Rightarrow> xfer_state \<Rightarrow> bool \<times> xfer_state" where
  "x_match f req match_value x =
     (let x = x_match_loop (unat (match_retry (x_dap x))) f req match_value x;
          x = (if \<not> x_matches match_value x then x\<lparr>x_val := x_val x OR DAP_TRANSFER_MISMATCH\<rparr> else x)
      in (x_val x = DAP_TRANSFER_OK, x))"

section \<open>SWD transfer\<close>

text \<open>Each piece returns whether the loop goes on.\<close>

definition swd_posted :: "xfer_fun \<Rightarrow> u32 \<Rightarrow> xfer_state \<Rightarrow> bool \<times> xfer_state" where
  "swd_posted f req x =
     (if \<not> x_post x then (True, x)
      else
        let x = (if req AND (DAP_TRANSFER_APnDP OR DAP_TRANSFER_MATCH_VALUE) = DAP_TRANSFER_APnDP
                 then x_xfer f req True x
                 else (x_xfer f rdbuff_read True x)\<lparr>x_post := False\<rparr>)
        in if x_val x \<noteq> DAP_TRANSFER_OK then (False, x)
           else let x = x_emit_data x in (True, if x_post x then x_emit_stamp req x else x))"

definition swd_read_match :: "xfer_fun \<Rightarrow> mem \<Rightarrow> u32 \<Rightarrow> xfer_state \<Rightarrow> bool \<times> xfer_state" where
  "swd_read_match f m req x =
     (let match_value = le32_at m (x_pos x);
          x = x\<lparr>x_pos := x_pos x + 4\<rparr>;
          x = (if req AND DAP_TRANSFER_APnDP \<noteq> 0 then x_xfer f req False x else x)
      in if req AND DAP_TRANSFER_APnDP \<noteq> 0 \<and> x_val x \<noteq> DAP_TRANSFER_OK then (False, x)
         else x_match f req match_value x)"

definition swd_read_normal :: "xfer_fun \<Rightarrow> u32 \<Rightarrow> xfer_state \<Rightarrow> bool \<times> xfer_state" where
  "swd_read_normal f req x =
     (if req AND DAP_TRANSFER_APnDP \<noteq> 0 then
        (if x_post x then (True, x)
         else let x = x_xfer f req False x
              in if x_val x \<noteq> DAP_TRANSFER_OK then (False, x)
                 else (True, (x_emit_stamp req x)\<lparr>x_post := True\<rparr>))
      else
        let x = x_xfer f req True x
        in if x_val x \<noteq> DAP_TRANSFER_OK then (False, x)
           else (True, x_emit_data (x_emit_stamp req x)))"

definition swd_flush :: "xfer_fun \<Rightarrow> xfer_state \<Rightarrow> bool \<times> xfer_state" where
  "swd_flush f x =
     (if \<not> x_post x then (True, x)
      else let x = x_xfer f rdbuff_read True x
           in if x_val x \<noteq> DAP_TRANSFER_OK then (False, x)
              else (True, (x_emit_data x)\<lparr>x_post := False\<rparr>))"

definition swd_write :: "xfer_fun \<Rightarrow> mem \<Rightarrow> u32 \<Rightarrow> xfer_state \<Rightarrow> bool \<times> xfer_state" where
  "swd_write f m req x =
     (let (go, x) = swd_flush f x
      in if \<not> go then (False, x)
         else
           let x = x\<lparr>x_data := le32_at m (x_pos x), x_pos := x_pos x + 4\<rparr>
           in if req AND DAP_TRANSFER_MATCH_MASK \<noteq> 0 then
                (True, x\<lparr>x_dap := (x_dap x)\<lparr>match_mask := x_data x\<rparr>, x_val := DAP_TRANSFER_OK\<rparr>)
              else
                let x = x_xfer f req True x
                in if x_val x \<noteq> DAP_TRANSFER_OK then (False, x)
                   else (True, (x_emit_stamp req x)\<lparr>x_check := True\<rparr>))"

definition swd_read :: "xfer_fun \<Rightarrow> mem \<Rightarrow> u32 \<Rightarrow> xfer_state \<Rightarrow> bool \<times> xfer_state" where
  "swd_read f m req x =
     (let (go, x) = swd_posted f req x
      in if \<not> go then (False, x)
         else
           let (go, x) = (if req AND DAP_TRANSFER_MATCH_VALUE \<noteq> 0 then swd_read_match f m req x
                          else swd_read_normal f req x)
           in if \<not> go then (False, x) else (True, x\<lparr>x_check := False\<rparr>))"

definition swd_request :: "xfer_fun \<Rightarrow> mem \<Rightarrow> xfer_state \<Rightarrow> bool \<times> xfer_state" where
  "swd_request f m x =
     (let req = ucast (m (x_pos x));
          x = x\<lparr>x_pos := x_pos x + 1\<rparr>;
          (go, x) = (if req AND DAP_TRANSFER_RnW \<noteq> 0 then swd_read f m req x else swd_write f m req x)
      in if \<not> go then (False, x)
         else
           let x = x\<lparr>x_count := x_count x + 1\<rparr>
           in (TransferAbort (x_dap x) = 0, x))"

text \<open>The \<open>for\<close> loop: a break leaves the request counter undecremented.\<close>

primrec xfer_loop ::
  "(xfer_state \<Rightarrow> bool \<times> xfer_state) \<Rightarrow> nat \<Rightarrow> xfer_state \<Rightarrow> nat \<times> xfer_state" where
  "xfer_loop step 0 x = (0, x)"
| "xfer_loop step (Suc n) x =
     (let (go, x) = step x in if go then xfer_loop step n x else (Suc n, x))"

text \<open>Skipping over cancelled requests.\<close>

definition request_size :: "u8 \<Rightarrow> nat" where
  "request_size b =
     (let req = ucast b :: u32
      in 1 + (if req AND DAP_TRANSFER_RnW \<noteq> 0
              then (if req AND DAP_TRANSFER_MATCH_VALUE \<noteq> 0 then 4 else 0) else 4))"

primrec xfer_cancel :: "nat \<Rightarrow> mem \<Rightarrow> nat \<Rightarrow> nat" where
  "xfer_cancel 0 m p = p"
| "xfer_cancel (Suc n) m p = xfer_cancel n m (p + request_size (m p))"

definition swd_tail :: "xfer_fun \<Rightarrow> xfer_state \<Rightarrow> xfer_state" where
  "swd_tail f x =
     (if x_val x = DAP_TRANSFER_OK then
        (if x_post x then
           (let x = x_xfer f rdbuff_read True x
            in if x_val x \<noteq> DAP_TRANSFER_OK then x else x_emit_data x)
         else if x_check x then x_xfer f rdbuff_read False x
         else x)
      else x)"

definition x_start :: "u32 \<Rightarrow> nat \<Rightarrow> dap \<Rightarrow> xfer_state" where
  "x_start junk pos s = \<lparr>x_pos = pos, x_out = [], x_post = False, x_check = False, x_data = junk,
     x_val = 0, x_count = 0, x_ir = 0, x_dap = s\<lparr>TransferAbort := 0\<rparr>\<rparr>"

text \<open>Lengths: the request's in the upper, the response's in the lower 16 bits.\<close>

definition pack_num :: "nat \<Rightarrow> nat \<Rightarrow> u32" where
  "pack_num req resp = push_bit 16 (of_nat req) OR of_nat resp"

definition x_response :: "xfer_state \<Rightarrow> u8 list \<times> u32 \<times> dap" where
  "x_response x =
     (ucast (x_count x) # x_val x # x_out x, pack_num (x_pos x) (length (x_out x) + 2), x_dap x)"

definition swd_transfer :: "xfer_fun \<Rightarrow> u32 \<Rightarrow> mem \<Rightarrow> dap \<Rightarrow> u8 list \<times> u32 \<times> dap" where
  "swd_transfer f junk m s =
     (let (left, x) = xfer_loop (swd_request f m) (unat (m 1)) (x_start junk 2 s);
          x = x\<lparr>x_pos := xfer_cancel left m (x_pos x)\<rparr>
      in x_response (swd_tail f x))"

definition DAP_SWD_Transfer :: "hw \<Rightarrow> u32 \<Rightarrow> mem \<Rightarrow> dap \<Rightarrow> u8 list \<times> u32 \<times> dap" where
  "DAP_SWD_Transfer H = swd_transfer (SWD_Transfer H)"

section \<open>JTAG transfer\<close>

definition x_select :: "u32 \<Rightarrow> xfer_state \<Rightarrow> xfer_state" where
  "x_select ir x = (if x_ir x \<noteq> ir then x\<lparr>x_ir := ir, x_dap := JTAG_IR ir (x_dap x)\<rparr> else x)"

definition request_ir :: "u32 \<Rightarrow> u32" where
  "request_ir req = (if req AND DAP_TRANSFER_APnDP \<noteq> 0 then JTAG_APACC else JTAG_DPACC)"

definition jtag_posted :: "xfer_fun \<Rightarrow> u32 \<Rightarrow> xfer_state \<Rightarrow> bool \<times> xfer_state" where
  "jtag_posted f req x =
     (if \<not> x_post x then (True, x)
      else
        let x = (if x_ir x = request_ir req \<and> req AND DAP_TRANSFER_MATCH_VALUE = 0
                 then x_xfer f req True x
                 else (x_xfer f rdbuff_read True (x_select JTAG_DPACC x))\<lparr>x_post := False\<rparr>)
        in if x_val x \<noteq> DAP_TRANSFER_OK then (False, x)
           else let x = x_emit_data x in (True, if x_post x then x_emit_stamp req x else x))"

definition jtag_read_match :: "xfer_fun \<Rightarrow> mem \<Rightarrow> u32 \<Rightarrow> xfer_state \<Rightarrow> bool \<times> xfer_state" where
  "jtag_read_match f m req x =
     (let match_value = le32_at m (x_pos x);
          x = x\<lparr>x_pos := x_pos x + 4\<rparr>;
          x = x_xfer f req False (x_select (request_ir req) x)
      in if x_val x \<noteq> DAP_TRANSFER_OK then (False, x) else x_match f req match_value x)"

definition jtag_read_normal :: "xfer_fun \<Rightarrow> u32 \<Rightarrow> xfer_state \<Rightarrow> bool \<times> xfer_state" where
  "jtag_read_normal f req x =
     (if x_post x then (True, x)
      else let x = x_xfer f req False (x_select (request_ir req) x)
           in if x_val x \<noteq> DAP_TRANSFER_OK then (False, x)
              else (True, (x_emit_stamp req x)\<lparr>x_post := True\<rparr>))"

definition jtag_flush :: "xfer_fun \<Rightarrow> xfer_state \<Rightarrow> bool \<times> xfer_state" where
  "jtag_flush f x =
     (if \<not> x_post x then (True, x)
      else let x = x_xfer f rdbuff_read True (x_select JTAG_DPACC x)
           in if x_val x \<noteq> DAP_TRANSFER_OK then (False, x)
              else (True, (x_emit_data x)\<lparr>x_post := False\<rparr>))"

definition jtag_write :: "xfer_fun \<Rightarrow> mem \<Rightarrow> u32 \<Rightarrow> xfer_state \<Rightarrow> bool \<times> xfer_state" where
  "jtag_write f m req x =
     (let (go, x) = jtag_flush f x
      in if \<not> go then (False, x)
         else
           let x = x\<lparr>x_data := le32_at m (x_pos x), x_pos := x_pos x + 4\<rparr>
           in if req AND DAP_TRANSFER_MATCH_MASK \<noteq> 0 then
                (True, x\<lparr>x_dap := (x_dap x)\<lparr>match_mask := x_data x\<rparr>, x_val := DAP_TRANSFER_OK\<rparr>)
              else
                let x = x_xfer f req True (x_select (request_ir req) x)
                in if x_val x \<noteq> DAP_TRANSFER_OK then (False, x) else (True, x_emit_stamp req x))"

definition jtag_request_step :: "xfer_fun \<Rightarrow> mem \<Rightarrow> xfer_state \<Rightarrow> bool \<times> xfer_state" where
  "jtag_request_step f m x =
     (let req = ucast (m (x_pos x));
          x = x\<lparr>x_pos := x_pos x + 1\<rparr>;
          (go, x) =
            (if req AND DAP_TRANSFER_RnW \<noteq> 0 then
               (let (go, x) = jtag_posted f req x
                in if \<not> go then (False, x)
                   else if req AND DAP_TRANSFER_MATCH_VALUE \<noteq> 0 then jtag_read_match f m req x
                   else jtag_read_normal f req x)
             else jtag_write f m req x)
      in if \<not> go then (False, x)
         else
           let x = x\<lparr>x_count := x_count x + 1\<rparr>
           in (TransferAbort (x_dap x) = 0, x))"

definition jtag_tail :: "xfer_fun \<Rightarrow> xfer_state \<Rightarrow> xfer_state" where
  "jtag_tail f x =
     (if x_val x = DAP_TRANSFER_OK then
        (let x = x_select JTAG_DPACC x
         in if x_post x then
              (let x = x_xfer f rdbuff_read True x
               in if x_val x \<noteq> DAP_TRANSFER_OK then x else x_emit_data x)
            else x_xfer f rdbuff_read False x)
      else x)"

definition jtag_transfer :: "xfer_fun \<Rightarrow> u32 \<Rightarrow> mem \<Rightarrow> dap \<Rightarrow> u8 list \<times> u32 \<times> dap" where
  "jtag_transfer f junk m s =
     (let s = s\<lparr>jtag_index := m 0\<rparr>
      in if jtag_index s \<ge> jtag_count s then x_response (x_start junk 1 s)
         else
           let (left, x) = xfer_loop (jtag_request_step f m) (unat (m 1)) (x_start junk 2 s);
               x = x\<lparr>x_pos := xfer_cancel left m (x_pos x)\<rparr>
           in x_response (jtag_tail f x))"

definition DAP_JTAG_Transfer :: "hw \<Rightarrow> u32 \<Rightarrow> mem \<Rightarrow> dap \<Rightarrow> u8 list \<times> u32 \<times> dap" where
  "DAP_JTAG_Transfer H = jtag_transfer (JTAG_Transfer H)"

section \<open>Dummy transfer and dispatch\<close>

definition DAP_Dummy_Transfer :: "mem \<Rightarrow> u8 list \<times> u32" where
  "DAP_Dummy_Transfer m = ([0, 0], pack_num (xfer_cancel (unat (m 1)) m 2) 2)"

definition DAP_PORT_DISABLED :: u8 where "DAP_PORT_DISABLED = 0"
definition DAP_PORT_SWD :: u8 where "DAP_PORT_SWD = 1"
definition DAP_PORT_JTAG :: u8 where "DAP_PORT_JTAG = 2"

definition DAP_Transfer :: "hw \<Rightarrow> u32 \<Rightarrow> mem \<Rightarrow> dap \<Rightarrow> u8 list \<times> u32 \<times> dap" where
  "DAP_Transfer H junk m s =
     (if debug_port s = DAP_PORT_SWD then DAP_SWD_Transfer H junk m s
      else if debug_port s = DAP_PORT_JTAG then DAP_JTAG_Transfer H junk m s
      else let (r, n) = DAP_Dummy_Transfer m in (r, n, s))"

section \<open>Block transfer\<close>

text \<open>\<open>while (request_count--)\<close>: the counter of the iteration is the decremented one.\<close>

primrec swd_block_read :: "nat \<Rightarrow> xfer_fun \<Rightarrow> u32 \<Rightarrow> xfer_state \<Rightarrow> bool \<times> xfer_state" where
  "swd_block_read 0 f req x = (True, x)"
| "swd_block_read (Suc n) f req x =
     (let req = (if n = 0 \<and> req AND DAP_TRANSFER_APnDP \<noteq> 0 then rdbuff_read else req);
          x = x_xfer f req True x
      in if x_val x \<noteq> DAP_TRANSFER_OK then (False, x)
         else swd_block_read n f req ((x_emit_data x)\<lparr>x_count := x_count x + 1\<rparr>))"

primrec block_write :: "nat \<Rightarrow> xfer_fun \<Rightarrow> mem \<Rightarrow> u32 \<Rightarrow> xfer_state \<Rightarrow> bool \<times> xfer_state" where
  "block_write 0 f m req x = (True, x)"
| "block_write (Suc n) f m req x =
     (let x = x\<lparr>x_data := le32_at m (x_pos x), x_pos := x_pos x + 4\<rparr>;
          x = x_xfer f req True x
      in if x_val x \<noteq> DAP_TRANSFER_OK then (False, x)
         else block_write n f m req (x\<lparr>x_count := x_count x + 1\<rparr>))"

definition block_response :: "xfer_state \<Rightarrow> u8 list \<times> u32 \<times> dap" where
  "block_response x =
     (ucast (x_count x) # ucast (drop_bit 8 (x_count x)) # x_val x # x_out x,
      of_nat (length (x_out x) + 3), x_dap x)"

definition swd_transfer_block :: "xfer_fun \<Rightarrow> u32 \<Rightarrow> mem \<Rightarrow> dap \<Rightarrow> u8 list \<times> u32 \<times> dap" where
  "swd_transfer_block f junk m s =
     (let x = x_start junk 4 s;
          n = unat (le16_at m 1);
          req = ucast (m 3)
      in if n = 0 then block_response x
         else if req AND DAP_TRANSFER_RnW \<noteq> 0 then
           (let x = (if req AND DAP_TRANSFER_APnDP \<noteq> 0 then x_xfer f req False x else x)
            in if req AND DAP_TRANSFER_APnDP \<noteq> 0 \<and> x_val x \<noteq> DAP_TRANSFER_OK then block_response x
               else block_response (snd (swd_block_read n f req x)))
         else
           (let (go, x) = block_write n f m req x
            in block_response (if go then x_xfer f rdbuff_read False x else x)))"

definition DAP_SWD_TransferBlock :: "hw \<Rightarrow> u32 \<Rightarrow> mem \<Rightarrow> dap \<Rightarrow> u8 list \<times> u32 \<times> dap" where
  "DAP_SWD_TransferBlock H = swd_transfer_block (SWD_Transfer H)"

text \<open>The JTAG variant keeps the selected instruction in its local \<open>ir\<close>, which it does not update
  when it selects DPACC for the last read.\<close>

primrec jtag_block_read :: "nat \<Rightarrow> xfer_fun \<Rightarrow> u32 \<Rightarrow> xfer_state \<Rightarrow> bool \<times> xfer_state" where
  "jtag_block_read 0 f req x = (True, x)"
| "jtag_block_read (Suc n) f req x =
     (let x = (if n = 0 \<and> x_ir x \<noteq> JTAG_DPACC then x\<lparr>x_dap := JTAG_IR JTAG_DPACC (x_dap x)\<rparr> else x);
          req = (if n = 0 then rdbuff_read else req);
          x = x_xfer f req True x
      in if x_val x \<noteq> DAP_TRANSFER_OK then (False, x)
         else jtag_block_read n f req ((x_emit_data x)\<lparr>x_count := x_count x + 1\<rparr>))"

definition jtag_transfer_block :: "xfer_fun \<Rightarrow> u32 \<Rightarrow> mem \<Rightarrow> dap \<Rightarrow> u8 list \<times> u32 \<times> dap" where
  "jtag_transfer_block f junk m s =
     (let s = s\<lparr>jtag_index := m 0\<rparr>;
          x = x_start junk 4 s;
          n = unat (le16_at m 1);
          req = ucast (m 3)
      in if jtag_index s \<ge> jtag_count s then block_response x
         else if n = 0 then block_response x
         else
           let x = x\<lparr>x_ir := request_ir req, x_dap := JTAG_IR (request_ir req) (x_dap x)\<rparr>
           in if req AND DAP_TRANSFER_RnW \<noteq> 0 then
                (let x = x_xfer f req False x
                 in if x_val x \<noteq> DAP_TRANSFER_OK then block_response x
                    else block_response (snd (jtag_block_read n f req x)))
              else
                (let (go, x) = block_write n f m req x
                 in if \<not> go then block_response x
                    else
                      let x = (if x_ir x \<noteq> JTAG_DPACC
                               then x\<lparr>x_dap := JTAG_IR JTAG_DPACC (x_dap x)\<rparr> else x)
                      in block_response (x_xfer f rdbuff_read False x)))"

definition DAP_JTAG_TransferBlock :: "hw \<Rightarrow> u32 \<Rightarrow> mem \<Rightarrow> dap \<Rightarrow> u8 list \<times> u32 \<times> dap" where
  "DAP_JTAG_TransferBlock H = jtag_transfer_block (JTAG_Transfer H)"

definition DAP_TransferBlock :: "hw \<Rightarrow> u32 \<Rightarrow> mem \<Rightarrow> dap \<Rightarrow> u8 list \<times> u32 \<times> dap" where
  "DAP_TransferBlock H junk m s =
     (let (resp, num, s) =
            (if debug_port s = DAP_PORT_SWD then DAP_SWD_TransferBlock H junk m s
             else if debug_port s = DAP_PORT_JTAG then DAP_JTAG_TransferBlock H junk m s
             else ([0, 0, 0], 3, s));
          req = ucast (m 3) :: u32;
          consumed = (if req AND DAP_TRANSFER_RnW \<noteq> 0 then 4 else 4 + le16_at m 1 * 4)
      in (resp, num OR push_bit 16 consumed, s))"

section \<open>What the pieces leave alone\<close>

lemma x_xfer_fields [simp]:
  "x_pos (x_xfer f r st x) = x_pos x" "x_out (x_xfer f r st x) = x_out x"
  "x_post (x_xfer f r st x) = x_post x" "x_check (x_xfer f r st x) = x_check x"
  "x_count (x_xfer f r st x) = x_count x" "x_ir (x_xfer f r st x) = x_ir x"
  by (simp_all add: x_xfer_def Let_def case_prod_beta)

lemma x_emit_fields [simp]:
  "x_pos (x_emit bs x) = x_pos x" "x_out (x_emit bs x) = x_out x @ bs"
  "x_post (x_emit bs x) = x_post x" "x_check (x_emit bs x) = x_check x"
  "x_count (x_emit bs x) = x_count x" "x_ir (x_emit bs x) = x_ir x"
  "x_val (x_emit bs x) = x_val x" "x_data (x_emit bs x) = x_data x" "x_dap (x_emit bs x) = x_dap x"
  by (simp_all add: x_emit_def)

lemma x_emit_data_fields [simp]:
  "x_pos (x_emit_data x) = x_pos x" "x_out (x_emit_data x) = x_out x @ le32_bytes (x_data x)"
  "x_post (x_emit_data x) = x_post x" "x_check (x_emit_data x) = x_check x"
  "x_count (x_emit_data x) = x_count x" "x_ir (x_emit_data x) = x_ir x"
  "x_val (x_emit_data x) = x_val x" "x_data (x_emit_data x) = x_data x"
  "x_dap (x_emit_data x) = x_dap x"
  by (simp_all add: x_emit_data_def)

lemma x_emit_stamp_fields [simp]:
  "x_pos (x_emit_stamp r x) = x_pos x" "x_post (x_emit_stamp r x) = x_post x"
  "x_check (x_emit_stamp r x) = x_check x" "x_count (x_emit_stamp r x) = x_count x"
  "x_ir (x_emit_stamp r x) = x_ir x" "x_val (x_emit_stamp r x) = x_val x"
  "x_data (x_emit_stamp r x) = x_data x" "x_dap (x_emit_stamp r x) = x_dap x"
  "x_out (x_emit_stamp r x) =
     x_out x @ (if r AND DAP_TRANSFER_TIMESTAMP \<noteq> 0 then le32_bytes (timestamp (x_dap x)) else [])"
  by (simp_all add: x_emit_stamp_def)

lemma x_select_fields [simp]:
  "x_pos (x_select i x) = x_pos x" "x_out (x_select i x) = x_out x"
  "x_post (x_select i x) = x_post x" "x_check (x_select i x) = x_check x"
  "x_count (x_select i x) = x_count x" "x_data (x_select i x) = x_data x"
  "x_val (x_select i x) = x_val x" "x_ir (x_select i x) = i"
  by (simp_all add: x_select_def)

lemma x_match_loop_fields [simp]:
  "x_pos (x_match_loop n f r v x) = x_pos x" "x_out (x_match_loop n f r v x) = x_out x"
  "x_post (x_match_loop n f r v x) = x_post x" "x_check (x_match_loop n f r v x) = x_check x"
  "x_count (x_match_loop n f r v x) = x_count x"
  by (induction n arbitrary: x) (simp_all add: Let_def)

lemma x_match_fields [simp]:
  "x_pos (snd (x_match f r v x)) = x_pos x" "x_out (snd (x_match f r v x)) = x_out x"
  "x_post (snd (x_match f r v x)) = x_post x" "x_check (snd (x_match f r v x)) = x_check x"
  "x_count (snd (x_match f r v x)) = x_count x"
  "fst (x_match f r v x) = (x_val (snd (x_match f r v x)) = DAP_TRANSFER_OK)"
  by (simp_all add: x_match_def Let_def)

text \<open>Bytes produced, with those of a posted read still to come.\<close>

definition owed :: "xfer_state \<Rightarrow> nat" where
  "owed x = length (x_out x) + (if x_post x then 4 else 0)"

lemma owed_update [simp]:
  "owed (x\<lparr>x_pos := p\<rparr>) = owed x" "owed (x\<lparr>x_check := c\<rparr>) = owed x"
  "owed (x\<lparr>x_count := k\<rparr>) = owed x"
  by (simp_all add: owed_def)

section \<open>The request loop\<close>

text \<open>
  The contract of one iteration: on success it moves past exactly the request's bytes; a break
  happens only on a response other than OK, with the operands possibly not yet consumed; it
  owes the host at most eight more bytes, and none more when it breaks.
\<close>

definition request_ok :: "mem \<Rightarrow> (xfer_state \<Rightarrow> bool \<times> xfer_state) \<Rightarrow> bool" where
  "request_ok m step \<longleftrightarrow> (\<forall>x go x'. TransferAbort (x_dap x) = 0 \<longrightarrow> step x = (go, x') \<longrightarrow>
     TransferAbort (x_dap x') = 0 \<and> (go \<longleftrightarrow> x_val x' = DAP_TRANSFER_OK) \<and>
     x_count x' = x_count x + of_bool go \<and>
     (go \<longrightarrow> x_pos x' = x_pos x + request_size (m (x_pos x))) \<and>
     x_pos x < x_pos x' \<and> x_pos x' \<le> x_pos x + 5 \<and>
     owed x' \<le> owed x + (if go then 8 else 0))"

lemma xfer_loop_ok:
  assumes "request_ok m step" "TransferAbort (x_dap x) = 0" "xfer_loop step n x = (left, x')"
  shows "left \<le> n \<and> TransferAbort (x_dap x') = 0 \<and> x_count x' = x_count x + of_nat (n - left) \<and>
    owed x' \<le> owed x + 8 * (n - left) \<and>
    (left = 0 \<longrightarrow> x_pos x' = xfer_cancel n m (x_pos x) \<and> (n \<noteq> 0 \<longrightarrow> x_val x' = DAP_TRANSFER_OK)) \<and>
    (left \<noteq> 0 \<longrightarrow> x_val x' \<noteq> DAP_TRANSFER_OK \<and>
      (\<exists>d \<in> {1..5}. x_pos x' = xfer_cancel (n - left) m (x_pos x) + d))"
  using assms(2,3)
proof (induction n arbitrary: x)
  case 0
  then show ?case by simp
next
  case (Suc n)
  obtain go y where y: "step x = (go, y)" by (cases "step x")
  have S: "TransferAbort (x_dap y) = 0" "go \<longleftrightarrow> x_val y = DAP_TRANSFER_OK"
    "x_count y = x_count x + of_bool go"
    "go \<Longrightarrow> x_pos y = x_pos x + request_size (m (x_pos x))"
    "x_pos x < x_pos y" "x_pos y \<le> x_pos x + 5" "owed y \<le> owed x + (if go then 8 else 0)"
    using assms(1) Suc.prems(1) y unfolding request_ok_def by blast+
  show ?case
  proof (cases go)
    case True
    then have l: "xfer_loop step n y = (left, x')" using Suc.prems(2) y by simp
    note IH = Suc.IH [OF S(1) l]
    have "left \<le> n" using IH by simp
    then have "of_nat (Suc n - left) = (of_nat (n - left) :: u32) + 1"
      "Suc n - left = Suc (n - left)" by (simp_all add: Suc_diff_le)
    with IH S True l \<open>left \<le> n\<close> show ?thesis
      by (cases "n = 0") (auto simp: Suc_diff_le)
  next
    case False
    then have "left = Suc n" "x' = y" using Suc.prems(2) y by simp_all
    moreover have "\<exists>d \<in> {1..5}. x_pos y = x_pos x + d"
      using S(5,6) by (intro bexI [of _ "x_pos y - x_pos x"]) auto
    ultimately show ?thesis using S False by simp
  qed
qed

section \<open>What a command may change\<close>

text \<open>Besides the wire: the match mask, the selected device and the abort flag.\<close>

definition xfer_frame :: "dap \<Rightarrow> dap \<Rightarrow> bool" where
  "xfer_frame s s' \<longleftrightarrow> s' = s\<lparr>timestamp := timestamp s', match_mask := match_mask s',
     jtag_index := jtag_index s', TransferAbort := TransferAbort s', spi := spi s',
     trace := trace s'\<rparr> \<and> data_route (trace s') = data_route (trace s)"

lemma xfer_frame_route: "xfer_frame s s' \<Longrightarrow> data_route (trace s') = data_route (trace s)"
  by (simp add: xfer_frame_def)

lemma xfer_frame_refl [simp, intro]: "xfer_frame s s"
  by (simp add: xfer_frame_def)

lemma xfer_frame_trans: "xfer_frame s t \<Longrightarrow> xfer_frame t u \<Longrightarrow> xfer_frame s u"
  unfolding xfer_frame_def by (cases s; cases t; cases u) simp

lemma xfer_frame_wire: "wire_only t u \<Longrightarrow> xfer_frame s t \<Longrightarrow> xfer_frame s u"
  unfolding xfer_frame_def wire_only_def by (cases s; cases t; cases u) simp

lemma xfer_frame_update [simp]:
  "xfer_frame s (t\<lparr>match_mask := x\<rparr>) = xfer_frame s t"
  "xfer_frame s (t\<lparr>jtag_index := i\<rparr>) = xfer_frame s t"
  "xfer_frame s (t\<lparr>TransferAbort := a\<rparr>) = xfer_frame s t"
  unfolding xfer_frame_def by (cases s; cases t; simp)+

lemma xfer_frame_select: "xfer_frame s (x_dap x) \<Longrightarrow> xfer_frame s (x_dap (x_select i x))"
  by (auto simp: x_select_def intro: xfer_frame_wire [rotated])

lemma xfer_frame_fields:
  assumes "xfer_frame s s'"
  shows "debug_port s' = debug_port s" "fast_clock s' = fast_clock s"
    "clock_delay s' = clock_delay s" "idle_cycles s' = idle_cycles s"
    "retry_count s' = retry_count s" "match_retry s' = match_retry s"
    "turnaround s' = turnaround s" "data_phase s' = data_phase s" "jtag_count s' = jtag_count s"
    "ir_length s' = ir_length s" "ir_before s' = ir_before s" "ir_after s' = ir_after s"
    "SWD_TransferSpeed s' = SWD_TransferSpeed s"
  using assms unfolding xfer_frame_def by (cases s; cases s'; simp)+

section \<open>The transport interface\<close>

text \<open>
  What the commands rely on: a packet transfer touches only the wire and the captured
  timestamp, and stores into \<open>data\<close> only on a read that asks for it.
\<close>

locale transport =
  fixes xfer :: xfer_fun
  assumes frame: "wire_only s (snd (snd (xfer req store data s)))"
    and no_store: "fst (snd (xfer req False data s)) = data"
    and write_keeps: "req AND DAP_TRANSFER_RnW = 0 \<Longrightarrow> fst (snd (xfer req store data s)) = data"

context transport
begin

lemma retry_frame: "wire_only s (snd (snd (xfer_retry n xfer req store data s)))"
proof (induction n arbitrary: data s)
  case 0
  then show ?case by (simp add: frame)
next
  case (Suc n)
  then show ?case
    using frame [of s req store data]
    by (auto simp: Let_def case_prod_beta intro: wire_only_trans)
qed

lemma retry_keeps:
  "req AND DAP_TRANSFER_RnW = 0 \<or> \<not> store \<Longrightarrow>
   fst (snd (xfer_retry n xfer req store data s)) = data"
  by (induction n arbitrary: data s) (auto simp: Let_def case_prod_beta no_store write_keeps)

lemma x_xfer_frame: "wire_only (x_dap x) (x_dap (x_xfer xfer req store x))"
  using retry_frame by (simp add: x_xfer_def Let_def case_prod_beta)

lemma x_xfer_dap [simp]:
  "TransferAbort (x_dap (x_xfer xfer req store x)) = TransferAbort (x_dap x)"
  "match_mask (x_dap (x_xfer xfer req store x)) = match_mask (x_dap x)"
  "retry_count (x_dap (x_xfer xfer req store x)) = retry_count (x_dap x)"
  "match_retry (x_dap (x_xfer xfer req store x)) = match_retry (x_dap x)"
  by (rule wire_only_fields [OF x_xfer_frame])+

lemma x_xfer_keeps:
  "req AND DAP_TRANSFER_RnW = 0 \<or> \<not> store \<Longrightarrow> x_data (x_xfer xfer req store x) = x_data x"
  by (simp add: x_xfer_def Let_def case_prod_beta retry_keeps)

lemma match_loop_frame: "wire_only (x_dap x) (x_dap (x_match_loop n xfer req v x))"
proof (induction n arbitrary: x)
  case 0
  then show ?case by (simp add: x_xfer_frame)
next
  case (Suc n)
  then show ?case
    by (auto simp: Let_def x_xfer_frame intro: wire_only_trans [OF x_xfer_frame])
qed

lemma match_frame: "wire_only (x_dap x) (x_dap (snd (x_match xfer req v x)))"
  using match_loop_frame by (simp add: x_match_def Let_def)

lemma x_match_dap [simp]:
  "TransferAbort (x_dap (snd (x_match xfer req v x))) = TransferAbort (x_dap x)"
  by (rule wire_only_fields [OF match_frame])

text \<open>The pieces of the SWD loop.  \<open>owed\<close> counts the bytes of a posted read still to come.\<close>

lemma swd_posted_step:
  assumes "TransferAbort (x_dap x) = 0" "swd_posted xfer req x = (go, x')"
  shows "TransferAbort (x_dap x') = 0" "x_count x' = x_count x" "x_pos x' = x_pos x"
    "go \<longleftrightarrow> \<not> x_post x \<or> x_val x' = DAP_TRANSFER_OK"
    "x_post x' \<Longrightarrow> go \<Longrightarrow> req AND DAP_TRANSFER_MATCH_VALUE = 0 \<and> req AND DAP_TRANSFER_APnDP \<noteq> 0
      \<and> x_val x' = DAP_TRANSFER_OK"
    "owed x' \<le> owed x + (if go \<and> x_post x' then 8 else 0)"
proof -
  have bits: "req AND DAP_TRANSFER_MATCH_VALUE = 0 \<and> req AND DAP_TRANSFER_APnDP \<noteq> 0"
    if "req AND (DAP_TRANSFER_APnDP OR DAP_TRANSFER_MATCH_VALUE) = DAP_TRANSFER_APnDP"
  proof -
    have "(req AND (DAP_TRANSFER_APnDP OR DAP_TRANSFER_MATCH_VALUE)) AND DAP_TRANSFER_MATCH_VALUE = 0"
      "(req AND (DAP_TRANSFER_APnDP OR DAP_TRANSFER_MATCH_VALUE)) AND DAP_TRANSFER_APnDP \<noteq> 0"
      unfolding that by (simp_all add: request_consts)
    then show ?thesis by (simp add: request_consts and.assoc)
  qed
  show "TransferAbort (x_dap x') = 0" "x_count x' = x_count x" "x_pos x' = x_pos x"
    "go \<longleftrightarrow> \<not> x_post x \<or> x_val x' = DAP_TRANSFER_OK"
    "x_post x' \<Longrightarrow> go \<Longrightarrow> req AND DAP_TRANSFER_MATCH_VALUE = 0 \<and> req AND DAP_TRANSFER_APnDP \<noteq> 0
      \<and> x_val x' = DAP_TRANSFER_OK"
    "owed x' \<le> owed x + (if go \<and> x_post x' then 8 else 0)"
    using assms bits by (auto simp: swd_posted_def Let_def owed_def split: if_splits)
qed

lemma swd_flush_step:
  assumes "TransferAbort (x_dap x) = 0" "swd_flush xfer x = (go, x')"
  shows "TransferAbort (x_dap x') = 0" "x_count x' = x_count x" "x_pos x' = x_pos x"
    "go \<longleftrightarrow> \<not> x_post x \<or> x_val x' = DAP_TRANSFER_OK" "go \<Longrightarrow> \<not> x_post x'" "owed x' \<le> owed x"
  using assms by (auto simp: swd_flush_def Let_def owed_def split: if_splits)

lemma swd_read_match_step:
  assumes "TransferAbort (x_dap x) = 0" "swd_read_match xfer m req x = (go, x')"
  shows "TransferAbort (x_dap x') = 0" "x_count x' = x_count x" "x_pos x' = x_pos x + 4"
    "go \<longleftrightarrow> x_val x' = DAP_TRANSFER_OK" "owed x' = owed x"
proof -
  let ?y = "x\<lparr>x_pos := x_pos x + 4\<rparr>"
  have "(go, x') = (if req AND DAP_TRANSFER_APnDP \<noteq> 0 \<and> x_val (x_xfer xfer req False ?y) \<noteq> DAP_TRANSFER_OK
      then (False, x_xfer xfer req False ?y)
      else x_match xfer req (le32_at m (x_pos x))
        (if req AND DAP_TRANSFER_APnDP \<noteq> 0 then x_xfer xfer req False ?y else ?y))"
    unfolding assms(2) [symmetric] by (simp add: swd_read_match_def Let_def)
  then show "TransferAbort (x_dap x') = 0" "x_count x' = x_count x" "x_pos x' = x_pos x + 4"
    "go \<longleftrightarrow> x_val x' = DAP_TRANSFER_OK" "owed x' = owed x"
    using assms(1) by (simp_all add: owed_def prod_eq_iff split: if_splits)
qed

lemma swd_read_normal_step:
  assumes "TransferAbort (x_dap x) = 0" "swd_read_normal xfer req x = (go, x')"
    "x_post x \<Longrightarrow> req AND DAP_TRANSFER_APnDP \<noteq> 0 \<and> x_val x = DAP_TRANSFER_OK"
  shows "TransferAbort (x_dap x') = 0" "x_count x' = x_count x" "x_pos x' = x_pos x"
    "go \<longleftrightarrow> x_val x' = DAP_TRANSFER_OK"
    "owed x' \<le> owed x + (if go \<and> \<not> x_post x then 8 else 0)" "x_post x \<Longrightarrow> go"
  using assms by (auto simp: swd_read_normal_def Let_def owed_def split: if_splits)

lemma swd_write_step:
  assumes "TransferAbort (x_dap x) = 0" "swd_write xfer m req x = (go, x')"
  shows "TransferAbort (x_dap x') = 0" "x_count x' = x_count x"
    "go \<longleftrightarrow> x_val x' = DAP_TRANSFER_OK" "go \<Longrightarrow> x_pos x' = x_pos x + 4"
    "x_pos x \<le> x_pos x'" "x_pos x' \<le> x_pos x + 4"
    "owed x' \<le> owed x + (if go then 8 else 0)"
proof -
  obtain g y where f: "swd_flush xfer x = (g, y)" by (cases "swd_flush xfer x")
  note S = swd_flush_step [OF assms(1) f]
  have g: "x_post x \<and> x_val y \<noteq> DAP_TRANSFER_OK" if "\<not> g" using S(4) that by simp
  show "TransferAbort (x_dap x') = 0" "x_count x' = x_count x"
    "go \<longleftrightarrow> x_val x' = DAP_TRANSFER_OK" "go \<Longrightarrow> x_pos x' = x_pos x + 4"
    "x_pos x \<le> x_pos x'" "x_pos x' \<le> x_pos x + 4"
    using assms(2) S(1-3) g
    by (auto simp: swd_write_def Let_def f split: if_splits)
  show "owed x' \<le> owed x + (if go then 8 else 0)"
    using assms(2) S(5,6) by (auto simp: swd_write_def Let_def f owed_def split: if_splits)
qed

lemma swd_read_step:
  assumes "TransferAbort (x_dap x) = 0" "swd_read xfer m req x = (go, x')"
  shows "TransferAbort (x_dap x') = 0" "x_count x' = x_count x"
    "go \<longleftrightarrow> x_val x' = DAP_TRANSFER_OK"
    "go \<Longrightarrow> x_pos x' = x_pos x + (if req AND DAP_TRANSFER_MATCH_VALUE \<noteq> 0 then 4 else 0)"
    "x_pos x \<le> x_pos x'" "x_pos x' \<le> x_pos x + 4"
    "owed x' \<le> owed x + (if go then 8 else 0)"
proof -
  obtain g y where p: "swd_posted xfer req x = (g, y)" by (cases "swd_posted xfer req x")
  note P = swd_posted_step [OF assms(1) p]
  obtain h z where r: "(if req AND DAP_TRANSFER_MATCH_VALUE \<noteq> 0 then swd_read_match xfer m req y
      else swd_read_normal xfer req y) = (h, z)" by fastforce
  have x': "(go, x') = (if \<not> g then (False, y) else if \<not> h then (False, z) else (True, z\<lparr>x_check := False\<rparr>))"
    unfolding assms(2) [symmetric] by (simp add: swd_read_def p r)
  have R: "TransferAbort (x_dap z) = 0 \<and> x_count z = x_count y \<and>
    (h \<longleftrightarrow> x_val z = DAP_TRANSFER_OK) \<and>
    x_pos z = x_pos y + (if req AND DAP_TRANSFER_MATCH_VALUE \<noteq> 0 then 4 else 0) \<and>
    owed z \<le> owed y + (if h \<and> \<not> x_post y then 8 else 0) \<and> (x_post y \<longrightarrow> h)" if "g"
  proof (cases "req AND DAP_TRANSFER_MATCH_VALUE = 0")
    case True
    then have "swd_read_normal xfer req y = (h, z)" using r by simp
    from swd_read_normal_step [OF P(1) this] P(5) that True show ?thesis by auto
  next
    case False
    then have "swd_read_match xfer m req y = (h, z)" using r by simp
    from swd_read_match_step [OF P(1) this] P(5) that False show ?thesis by auto
  qed
  show "TransferAbort (x_dap x') = 0" "x_count x' = x_count x"
    "go \<longleftrightarrow> x_val x' = DAP_TRANSFER_OK"
    "go \<Longrightarrow> x_pos x' = x_pos x + (if req AND DAP_TRANSFER_MATCH_VALUE \<noteq> 0 then 4 else 0)"
    "x_pos x \<le> x_pos x'" "x_pos x' \<le> x_pos x + 4"
    using x' P(1-4) R by (auto split: if_splits)
  show "owed x' \<le> owed x + (if go then 8 else 0)"
    using x' P(6) R by (cases g; cases h; cases "x_post y") auto
qed

lemma swd_request_ok: "request_ok m (swd_request xfer m)"
  unfolding request_ok_def
proof (intro allI impI)
  fix x go x'
  assume assms: "TransferAbort (x_dap x) = 0" "swd_request xfer m x = (go, x')"
  let ?req = "ucast (m (x_pos x)) :: u32"
  let ?x = "x\<lparr>x_pos := x_pos x + 1\<rparr>"
  obtain g y where r: "(if ?req AND DAP_TRANSFER_RnW \<noteq> 0 then swd_read xfer m ?req ?x
      else swd_write xfer m ?req ?x) = (g, y)" by fastforce
  have ab: "TransferAbort (x_dap ?x) = 0" using assms(1) by simp
  have S: "TransferAbort (x_dap y) = 0" "x_count y = x_count x" "g \<longleftrightarrow> x_val y = DAP_TRANSFER_OK"
    "g \<Longrightarrow> x_pos y = x_pos x + request_size (m (x_pos x))"
    "x_pos x + 1 \<le> x_pos y" "x_pos y \<le> x_pos x + 5" "owed y \<le> owed x + (if g then 8 else 0)"
  proof -
    show "TransferAbort (x_dap y) = 0" "x_count y = x_count x" "g \<longleftrightarrow> x_val y = DAP_TRANSFER_OK"
      "g \<Longrightarrow> x_pos y = x_pos x + request_size (m (x_pos x))"
      "x_pos x + 1 \<le> x_pos y" "x_pos y \<le> x_pos x + 5" "owed y \<le> owed x + (if g then 8 else 0)"
      using r swd_read_step [OF ab, of m ?req g y] swd_write_step [OF ab, of m ?req g y]
      by (auto simp: request_size_def Let_def split: if_splits)
  qed
  have x': "(go, x') = (if \<not> g then (False, y) else (TransferAbort (x_dap y) = 0, y\<lparr>x_count := x_count y + 1\<rparr>))"
    unfolding assms(2) [symmetric] swd_request_def Let_def r by simp
  then show "TransferAbort (x_dap x') = 0 \<and> (go \<longleftrightarrow> x_val x' = DAP_TRANSFER_OK) \<and>
     x_count x' = x_count x + of_bool go \<and>
     (go \<longrightarrow> x_pos x' = x_pos x + request_size (m (x_pos x))) \<and>
     x_pos x < x_pos x' \<and> x_pos x' \<le> x_pos x + 5 \<and>
     owed x' \<le> owed x + (if go then 8 else 0)"
    using S by (auto split: if_splits)
qed

text \<open>The pieces of the JTAG loop.\<close>

lemma x_select_dap [simp]:
  "TransferAbort (x_dap (x_select i x)) = TransferAbort (x_dap x)" "owed (x_select i x) = owed x"
  using wire_only_fields(15) [OF wire_only_jtag_ops(2) [THEN iffD2, OF wire_only_refl]]
  by (simp_all add: x_select_def owed_def)

lemma jtag_posted_step:
  assumes "TransferAbort (x_dap x) = 0" "jtag_posted xfer req x = (go, x')"
  shows "TransferAbort (x_dap x') = 0" "x_count x' = x_count x" "x_pos x' = x_pos x"
    "go \<longleftrightarrow> \<not> x_post x \<or> x_val x' = DAP_TRANSFER_OK"
    "x_post x' \<Longrightarrow> go \<Longrightarrow> req AND DAP_TRANSFER_MATCH_VALUE = 0 \<and> x_val x' = DAP_TRANSFER_OK"
    "owed x' \<le> owed x + (if go \<and> x_post x' then 8 else 0)"
  using assms by (auto simp: jtag_posted_def Let_def owed_def split: if_splits)

lemma jtag_read_match_step:
  assumes "TransferAbort (x_dap x) = 0" "jtag_read_match xfer m req x = (go, x')"
  shows "TransferAbort (x_dap x') = 0" "x_count x' = x_count x" "x_pos x' = x_pos x + 4"
    "go \<longleftrightarrow> x_val x' = DAP_TRANSFER_OK" "owed x' = owed x"
proof -
  let ?y = "x_xfer xfer req False (x_select (request_ir req) (x\<lparr>x_pos := x_pos x + 4\<rparr>))"
  have "(go, x') = (if x_val ?y \<noteq> DAP_TRANSFER_OK then (False, ?y)
      else x_match xfer req (le32_at m (x_pos x)) ?y)"
    unfolding assms(2) [symmetric] by (simp add: jtag_read_match_def Let_def)
  then show "TransferAbort (x_dap x') = 0" "x_count x' = x_count x" "x_pos x' = x_pos x + 4"
    "go \<longleftrightarrow> x_val x' = DAP_TRANSFER_OK" "owed x' = owed x"
    using assms(1) by (simp_all add: owed_def prod_eq_iff split: if_splits)
qed

lemma jtag_read_normal_step:
  assumes "TransferAbort (x_dap x) = 0" "jtag_read_normal xfer req x = (go, x')"
    "x_post x \<Longrightarrow> x_val x = DAP_TRANSFER_OK"
  shows "TransferAbort (x_dap x') = 0" "x_count x' = x_count x" "x_pos x' = x_pos x"
    "go \<longleftrightarrow> x_val x' = DAP_TRANSFER_OK" "x_post x \<Longrightarrow> go"
    "owed x' \<le> owed x + (if go \<and> \<not> x_post x then 8 else 0)"
  using assms by (auto simp: jtag_read_normal_def Let_def owed_def split: if_splits)

lemma jtag_flush_step:
  assumes "TransferAbort (x_dap x) = 0" "jtag_flush xfer x = (go, x')"
  shows "TransferAbort (x_dap x') = 0" "x_count x' = x_count x" "x_pos x' = x_pos x"
    "go \<longleftrightarrow> \<not> x_post x \<or> x_val x' = DAP_TRANSFER_OK" "go \<Longrightarrow> \<not> x_post x'" "owed x' \<le> owed x"
  using assms by (auto simp: jtag_flush_def Let_def owed_def split: if_splits)

lemma jtag_write_step:
  assumes "TransferAbort (x_dap x) = 0" "jtag_write xfer m req x = (go, x')"
  shows "TransferAbort (x_dap x') = 0" "x_count x' = x_count x"
    "go \<longleftrightarrow> x_val x' = DAP_TRANSFER_OK" "go \<Longrightarrow> x_pos x' = x_pos x + 4"
    "x_pos x \<le> x_pos x'" "x_pos x' \<le> x_pos x + 4"
    "owed x' \<le> owed x + (if go then 8 else 0)"
proof -
  obtain g y where f: "jtag_flush xfer x = (g, y)" by (cases "jtag_flush xfer x")
  note S = jtag_flush_step [OF assms(1) f]
  have g: "x_post x \<and> x_val y \<noteq> DAP_TRANSFER_OK" if "\<not> g" using S(4) that by simp
  show "TransferAbort (x_dap x') = 0" "x_count x' = x_count x"
    "go \<longleftrightarrow> x_val x' = DAP_TRANSFER_OK" "go \<Longrightarrow> x_pos x' = x_pos x + 4"
    "x_pos x \<le> x_pos x'" "x_pos x' \<le> x_pos x + 4"
    using assms(2) S(1-3) g
    by (auto simp: jtag_write_def Let_def f split: if_splits)
  show "owed x' \<le> owed x + (if go then 8 else 0)"
    using assms(2) S(5,6) by (auto simp: jtag_write_def Let_def f owed_def split: if_splits)
qed

lemma jtag_request_ok: "request_ok m (jtag_request_step xfer m)"
  unfolding request_ok_def
proof (intro allI impI)
  fix x go x'
  assume assms: "TransferAbort (x_dap x) = 0" "jtag_request_step xfer m x = (go, x')"
  let ?req = "ucast (m (x_pos x)) :: u32"
  let ?x = "x\<lparr>x_pos := x_pos x + 1\<rparr>"
  have ab: "TransferAbort (x_dap ?x) = 0" using assms(1) by simp
  obtain g y where p: "jtag_posted xfer ?req ?x = (g, y)" by (cases "jtag_posted xfer ?req ?x")
  note P = jtag_posted_step [OF ab p]
  define r where "r =
    (if ?req AND DAP_TRANSFER_RnW \<noteq> 0 then
       (if \<not> g then (False, y)
        else if ?req AND DAP_TRANSFER_MATCH_VALUE \<noteq> 0 then jtag_read_match xfer m ?req y
        else jtag_read_normal xfer ?req y)
     else jtag_write xfer m ?req ?x)"
  obtain h z where r': "r = (h, z)" by (cases r)
  have x': "(go, x') = (if \<not> h then (False, z)
      else (TransferAbort (x_dap z) = 0, z\<lparr>x_count := x_count z + 1\<rparr>))"
    unfolding assms(2) [symmetric] jtag_request_step_def Let_def p prod.case r_def [symmetric] r'
    by simp
  have S: "TransferAbort (x_dap z) = 0 \<and> x_count z = x_count x \<and> (h \<longleftrightarrow> x_val z = DAP_TRANSFER_OK) \<and>
    (h \<longrightarrow> x_pos z = x_pos x + request_size (m (x_pos x))) \<and>
    x_pos x + 1 \<le> x_pos z \<and> x_pos z \<le> x_pos x + 5 \<and> owed z \<le> owed x + (if h then 8 else 0)"
  proof (cases "?req AND DAP_TRANSFER_RnW = 0")
    case True
    then have "jtag_write xfer m ?req ?x = (h, z)" using r' by (simp add: r_def)
    note N = jtag_write_step [OF ab this]
    have sz: "request_size (m (x_pos x)) = 5" using True by (simp add: request_size_def Let_def)
    show ?thesis using N(1-3,5-7) N(4) unfolding sz by (cases h) simp_all
  next
    case False
    show ?thesis
    proof (cases g)
      case g: False
      then have "(h, z) = (False, y)" using r' False by (simp add: r_def)
      then show ?thesis using P(1-4,6) g by simp
    next
      case g: True
      show ?thesis
      proof (cases "?req AND DAP_TRANSFER_MATCH_VALUE = 0")
        case True
        then have "jtag_read_normal xfer ?req y = (h, z)" using r' False g by (simp add: r_def)
        note N = jtag_read_normal_step [OF P(1) this P(5) [THEN conjunct2, OF _ g]]
        have sz: "request_size (m (x_pos x)) = 1" using False True by (simp add: request_size_def Let_def)
        show ?thesis
          using N(1-4) N(5) N(6) P(2,3,6) g unfolding sz by (cases "x_post y") simp_all
      next
        case m: False
        then have "jtag_read_match xfer m ?req y = (h, z)" using r' False g by (simp add: r_def)
        note N = jtag_read_match_step [OF P(1) this]
        have sz: "request_size (m (x_pos x)) = 5" using False m by (simp add: request_size_def Let_def)
        have "\<not> x_post y" using P(5) g m by blast
        then show ?thesis
          using N P(2,3,6) g unfolding sz by simp
      qed
    qed
  qed
  show "TransferAbort (x_dap x') = 0 \<and> (go \<longleftrightarrow> x_val x' = DAP_TRANSFER_OK) \<and>
     x_count x' = x_count x + of_bool go \<and>
     (go \<longrightarrow> x_pos x' = x_pos x + request_size (m (x_pos x))) \<and>
     x_pos x < x_pos x' \<and> x_pos x' \<le> x_pos x + 5 \<and>
     owed x' \<le> owed x + (if go then 8 else 0)"
    using x' S by (auto split: if_splits)
qed

lemma tail_fields:
  "x_pos (swd_tail xfer x) = x_pos x" "x_count (swd_tail xfer x) = x_count x"
  "length (x_out (swd_tail xfer x)) \<le> owed x"
  "x_val x \<noteq> DAP_TRANSFER_OK \<Longrightarrow> swd_tail xfer x = x"
  "x_pos (jtag_tail xfer x) = x_pos x" "x_count (jtag_tail xfer x) = x_count x"
  "length (x_out (jtag_tail xfer x)) \<le> owed x"
  "x_val x \<noteq> DAP_TRANSFER_OK \<Longrightarrow> jtag_tail xfer x = x"
  by (simp_all add: swd_tail_def jtag_tail_def Let_def owed_def)

lemma x_xfer_xframe: "xfer_frame s (x_dap x) \<Longrightarrow> xfer_frame s (x_dap (x_xfer xfer r st x))"
  using x_xfer_frame by (rule xfer_frame_wire)

lemma x_match_xframe: "xfer_frame s (x_dap x) \<Longrightarrow> xfer_frame s (x_dap (snd (x_match xfer r v x)))"
  using match_frame by (rule xfer_frame_wire)

lemmas piece_frames = x_xfer_xframe x_match_xframe xfer_frame_select

lemma swd_request_frame:
  assumes "xfer_frame s (x_dap x)"
  shows "xfer_frame s (x_dap (snd (swd_request xfer m x)))"
proof -
  have posted: "xfer_frame s (x_dap (snd (swd_posted xfer req y)))"
    "xfer_frame s (x_dap (snd (swd_flush xfer y)))" if "xfer_frame s (x_dap y)" for req y
    using that by (simp_all add: swd_posted_def swd_flush_def Let_def piece_frames)
  have rest: "xfer_frame s (x_dap (snd (swd_read_match xfer m req y)))"
    "xfer_frame s (x_dap (snd (swd_read_normal xfer req y)))" if "xfer_frame s (x_dap y)" for req y
    using that by (simp_all add: swd_read_match_def swd_read_normal_def Let_def piece_frames)
  have "xfer_frame s (x_dap (snd (swd_read xfer m req y)))"
    "xfer_frame s (x_dap (snd (swd_write xfer m req y)))" if "xfer_frame s (x_dap y)" for req y
    using that by (simp_all add: swd_read_def swd_write_def Let_def case_prod_beta posted rest piece_frames)
  then show ?thesis
    using assms by (simp add: swd_request_def Let_def case_prod_beta)
qed

lemma jtag_request_frame:
  assumes "xfer_frame s (x_dap x)"
  shows "xfer_frame s (x_dap (snd (jtag_request_step xfer m x)))"
proof -
  have posted: "xfer_frame s (x_dap (snd (jtag_posted xfer req y)))"
    "xfer_frame s (x_dap (snd (jtag_flush xfer y)))" if "xfer_frame s (x_dap y)" for req y
    using that by (simp_all add: jtag_posted_def jtag_flush_def Let_def piece_frames)
  have rest: "xfer_frame s (x_dap (snd (jtag_read_match xfer m req y)))"
    "xfer_frame s (x_dap (snd (jtag_read_normal xfer req y)))"
    "xfer_frame s (x_dap (snd (jtag_write xfer m req y)))" if "xfer_frame s (x_dap y)" for req y
    using that by (simp_all add: jtag_read_match_def jtag_read_normal_def jtag_write_def Let_def
        case_prod_beta posted piece_frames)
  show ?thesis
    using assms by (simp add: jtag_request_step_def Let_def case_prod_beta posted rest)
qed

lemma tail_frames:
  assumes "xfer_frame s (x_dap x)"
  shows "xfer_frame s (x_dap (swd_tail xfer x))" "xfer_frame s (x_dap (jtag_tail xfer x))"
  using assms by (simp_all add: swd_tail_def jtag_tail_def Let_def piece_frames)

lemma xfer_loop_frame:
  assumes "\<And>x. xfer_frame s (x_dap x) \<Longrightarrow> xfer_frame s (x_dap (snd (step x)))"
  shows "xfer_frame s (x_dap x) \<Longrightarrow> xfer_frame s (x_dap (snd (xfer_loop step n x)))"
  by (induction n arbitrary: x) (simp_all add: Let_def case_prod_beta assms)

text \<open>The outcome of a whole transfer command, with the loop's \<open>tail\<close> as a parameter.\<close>

lemma transfer_outcome:
  assumes ok: "request_ok m step"
    and fr: "\<And>x. xfer_frame s (x_dap x) \<Longrightarrow> xfer_frame s (x_dap (snd (step x)))"
    and pos: "\<And>x. x_pos (tail x) = x_pos x" and cnt: "\<And>x. x_count (tail x) = x_count x"
    and len: "\<And>x. length (x_out (tail x)) \<le> owed x"
    and bad: "\<And>x. x_val x \<noteq> DAP_TRANSFER_OK \<Longrightarrow> tail x = x"
    and tfr: "\<And>x. xfer_frame s (x_dap x) \<Longrightarrow> xfer_frame s (x_dap (tail x))"
    and loop: "xfer_loop step n (x_start junk 2 s0) = (left, x)" and s0: "xfer_frame s s0"
    and r: "r = x_response (tail (x\<lparr>x_pos := xfer_cancel left m (x_pos x)\<rparr>))"
  shows "\<exists>k p v out s'. k \<le> n \<and> r = (of_nat k # v # out, pack_num p (length out + 2), s') \<and>
    length out \<le> 8 * k \<and> xfer_frame s s' \<and>
    (k = n \<longrightarrow> p = xfer_cancel n m 2) \<and>
    (k < n \<longrightarrow> v \<noteq> DAP_TRANSFER_OK \<and>
       (\<exists>d \<in> {1..5}. p = xfer_cancel (n - k) m (xfer_cancel k m 2 + d)))"
proof -
  let ?y = "x\<lparr>x_pos := xfer_cancel left m (x_pos x)\<rparr>"
  have L: "left \<le> n" "x_count x = of_nat (n - left)" "owed x \<le> 8 * (n - left)"
    "left = 0 \<Longrightarrow> x_pos x = xfer_cancel n m 2"
    "left \<noteq> 0 \<Longrightarrow> x_val x \<noteq> DAP_TRANSFER_OK \<and> (\<exists>d \<in> {1..5}. x_pos x = xfer_cancel (n - left) m 2 + d)"
    using xfer_loop_ok [OF ok _ loop] by (simp_all add: x_start_def owed_def)
  have "xfer_frame s (x_dap (x_start junk 2 s0))" using s0 by (simp add: x_start_def)
  from xfer_loop_frame [of s step, OF fr this, of n] have F: "xfer_frame s (x_dap ?y)"
    by (simp add: loop)
  have val: "x_val (tail ?y) \<noteq> DAP_TRANSFER_OK" if "left \<noteq> 0"
    using bad [of ?y] L(5) [OF that] by simp
  show ?thesis
  proof (intro exI conjI)
    show "r = (of_nat (n - left) # x_val (tail ?y) # x_out (tail ?y),
        pack_num (xfer_cancel left m (x_pos x)) (length (x_out (tail ?y)) + 2), x_dap (tail ?y))"
      using L(2) by (simp add: r x_response_def pos cnt ucast_of_nat_u8)
    show "n - left \<le> n" by simp
    show "length (x_out (tail ?y)) \<le> 8 * (n - left)" using len [of ?y] L(3) by simp
    show "xfer_frame s (x_dap (tail ?y))" by (rule tfr [OF F])
    show "n - left = n \<longrightarrow> xfer_cancel left m (x_pos x) = xfer_cancel n m 2"
    proof
      assume "n - left = n"
      with L(1) have "left = 0" by arith
      with L(4) show "xfer_cancel left m (x_pos x) = xfer_cancel n m 2" by simp
    qed
    show "n - left < n \<longrightarrow> x_val (tail ?y) \<noteq> DAP_TRANSFER_OK \<and>
        (\<exists>d\<in>{1..5}. xfer_cancel left m (x_pos x) =
          xfer_cancel (n - (n - left)) m (xfer_cancel (n - left) m 2 + d))"
    proof
      assume "n - left < n"
      then have nz: "left \<noteq> 0" by simp
      have "n - (n - left) = left" using L(1) by simp
      with L(5) [OF nz] val [OF nz] show "x_val (tail ?y) \<noteq> DAP_TRANSFER_OK \<and>
        (\<exists>d\<in>{1..5}. xfer_cancel left m (x_pos x) =
          xfer_cancel (n - (n - left)) m (xfer_cancel (n - left) m 2 + d))"
        by force
    qed
  qed
qed

end

interpretation swdp: transport "SWD_Transfer H" for H
proof (rule transport.intro)
  show "wire_only s (snd (snd (SWD_Transfer H req store data s)))" for s req store data
    by simp
  show "fst (snd (SWD_Transfer H req False data s)) = data" for req data s
    by (simp add: SWD_Transfer_def SWD_Transfer_GPIO_def swd_data_read_def SWD_Transfer_SPI_def
        spi_transfer_read_def spi_transfer_write_def Let_def case_prod_beta split: transfer_type.split)
  show "fst (snd (SWD_Transfer H req store data s)) = data"
    if "req AND DAP_TRANSFER_RnW = 0" for req store data s
    using that by (simp add: SWD_Transfer_def SWD_Transfer_GPIO_def SWD_Transfer_SPI_def
        spi_transfer_write_def Let_def case_prod_beta split: transfer_type.split)
qed

interpretation jtagp: transport "JTAG_Transfer H" for H
proof (rule transport.intro)
  show "wire_only s (snd (snd (JTAG_Transfer H req store data s)))" for s req store data
    by simp
  show "fst (snd (JTAG_Transfer H req False data s)) = data" for req data s
    by (simp add: JTAG_Transfer_cases Let_def case_prod_beta)
  show "fst (snd (JTAG_Transfer H req store data s)) = data"
    if "req AND DAP_TRANSFER_RnW = 0" for req store data s
    using that by (simp add: JTAG_Transfer_cases Let_def case_prod_beta)
qed

section \<open>The outcome of a transfer command\<close>

lemma swd_outcome:
  "\<exists>k p v out s'. k \<le> unat (m 1) \<and>
    DAP_SWD_Transfer H junk m s = (of_nat k # v # out, pack_num p (length out + 2), s') \<and>
    length out \<le> 8 * k \<and> xfer_frame s s' \<and>
    (k = unat (m 1) \<longrightarrow> p = xfer_cancel (unat (m 1)) m 2) \<and>
    (k < unat (m 1) \<longrightarrow> v \<noteq> DAP_TRANSFER_OK \<and>
       (\<exists>d \<in> {1..5}. p = xfer_cancel (unat (m 1) - k) m (xfer_cancel k m 2 + d)))"
proof -
  obtain left x where l: "xfer_loop (swd_request (SWD_Transfer H) m) (unat (m 1)) (x_start junk 2 s) = (left, x)"
    by fastforce
  show ?thesis
    by (rule swdp.transfer_outcome [where tail = "swd_tail (SWD_Transfer H)",
          OF swdp.swd_request_ok swdp.swd_request_frame _ _ _ _ swdp.tail_frames(1) l])
      (simp_all add: swdp.tail_fields DAP_SWD_Transfer_def swd_transfer_def l Let_def
        del: One_nat_def)
qed

lemma jtag_outcome:
  "if m 0 < jtag_count s then
     \<exists>k p v out s'. k \<le> unat (m 1) \<and>
       DAP_JTAG_Transfer H junk m s = (of_nat k # v # out, pack_num p (length out + 2), s') \<and>
       length out \<le> 8 * k \<and> xfer_frame s s' \<and>
       (k = unat (m 1) \<longrightarrow> p = xfer_cancel (unat (m 1)) m 2) \<and>
       (k < unat (m 1) \<longrightarrow> v \<noteq> DAP_TRANSFER_OK \<and>
          (\<exists>d \<in> {1..5}. p = xfer_cancel (unat (m 1) - k) m (xfer_cancel k m 2 + d)))
   else \<exists>s'. DAP_JTAG_Transfer H junk m s = ([0, 0], pack_num 1 2, s') \<and> xfer_frame s s' \<and>
     trace s' = trace s"
proof (cases "m 0 < jtag_count s")
  case True
  then have nle: "(jtag_count s \<le> m 0) = False" by (simp add: not_le)
  let ?s = "s\<lparr>jtag_index := m 0\<rparr>"
  obtain left x where l: "xfer_loop (jtag_request_step (JTAG_Transfer H) m) (unat (m 1)) (x_start junk 2 ?s) = (left, x)"
    by fastforce
  have "\<exists>k p v out s'. k \<le> unat (m 1) \<and>
       DAP_JTAG_Transfer H junk m s = (of_nat k # v # out, pack_num p (length out + 2), s') \<and>
       length out \<le> 8 * k \<and> xfer_frame s s' \<and>
       (k = unat (m 1) \<longrightarrow> p = xfer_cancel (unat (m 1)) m 2) \<and>
       (k < unat (m 1) \<longrightarrow> v \<noteq> DAP_TRANSFER_OK \<and>
          (\<exists>d \<in> {1..5}. p = xfer_cancel (unat (m 1) - k) m (xfer_cancel k m 2 + d)))"
    by (rule jtagp.transfer_outcome [where tail = "jtag_tail (JTAG_Transfer H)",
          OF jtagp.jtag_request_ok jtagp.jtag_request_frame _ _ _ _ jtagp.tail_frames(2) l])
      (simp_all add: jtagp.tail_fields DAP_JTAG_Transfer_def jtag_transfer_def l
         Let_def nle del: One_nat_def)
  with True show ?thesis by simp
next
  case False
  then have "(jtag_count s \<le> m 0) = True" by (simp add: not_less)
  with False show ?thesis
    by (simp add: DAP_JTAG_Transfer_def jtag_transfer_def x_response_def x_start_def Let_def
        numeral_2_eq_2)
qed

section \<open>Properties\<close>

text \<open>C10: An SWD transfer command answers with the number \<open>k\<close> of completed requests, the last
  acknowledge and at most eight bytes per completed request.  When all requests complete, it
  reports exactly the bytes the requests occupy as consumed.  When it stops early, the last
  response is not OK and the remaining requests are skipped from inside or just after the failed
  one: \<open>n - k\<close> of them, although only \<open>n - k - 1\<close> are left.  The configuration other than the
  match mask, the device index and the abort flag is unchanged.\<close>

theorem swd_transfer_outcome:
  "\<exists>k p v out s'. k \<le> unat (m 1) \<and>
    DAP_SWD_Transfer H junk m s = (of_nat k # v # out, pack_num p (length out + 2), s') \<and>
    length out \<le> 8 * k \<and> xfer_frame s s' \<and>
    (if k = unat (m 1) then p = xfer_cancel (unat (m 1)) m 2
     else v \<noteq> DAP_TRANSFER_OK \<and>
       (\<exists>d \<in> {1..5}. p = xfer_cancel (unat (m 1) - k) m (xfer_cancel k m 2 + d)))"
proof -
  obtain k p v out s' where o: "k \<le> unat (m 1)"
    "DAP_SWD_Transfer H junk m s = (of_nat k # v # out, pack_num p (length out + 2), s')"
    "length out \<le> 8 * k" "xfer_frame s s'" "k = unat (m 1) \<longrightarrow> p = xfer_cancel (unat (m 1)) m 2"
    "k < unat (m 1) \<longrightarrow> v \<noteq> DAP_TRANSFER_OK \<and>
       (\<exists>d \<in> {1..5}. p = xfer_cancel (unat (m 1) - k) m (xfer_cancel k m 2 + d))"
    using swd_outcome [of m H junk s] by blast
  then show ?thesis
    by - (rule exI [of _ k], rule exI [of _ p], rule exI [of _ v], rule exI [of _ out],
        rule exI [of _ s'], cases "k = unat (m 1)", simp_all del: One_nat_def)
qed

text \<open>The same for JTAG, when the selected device exists; when it does not, the response has
  no completed request and only the index byte is consumed.\<close>

theorem jtag_transfer_outcome:
  "if m 0 < jtag_count s then
     \<exists>k p v out s'. k \<le> unat (m 1) \<and>
       DAP_JTAG_Transfer H junk m s = (of_nat k # v # out, pack_num p (length out + 2), s') \<and>
       length out \<le> 8 * k \<and> xfer_frame s s' \<and>
       (if k = unat (m 1) then p = xfer_cancel (unat (m 1)) m 2
        else v \<noteq> DAP_TRANSFER_OK \<and>
          (\<exists>d \<in> {1..5}. p = xfer_cancel (unat (m 1) - k) m (xfer_cancel k m 2 + d)))
   else \<exists>s'. DAP_JTAG_Transfer H junk m s = ([0, 0], pack_num 1 2, s') \<and> xfer_frame s s' \<and>
     trace s' = trace s"
proof (cases "m 0 < jtag_count s")
  case True
  obtain k p v out s' where o: "k \<le> unat (m 1)"
    "DAP_JTAG_Transfer H junk m s = (of_nat k # v # out, pack_num p (length out + 2), s')"
    "length out \<le> 8 * k" "xfer_frame s s'" "k = unat (m 1) \<longrightarrow> p = xfer_cancel (unat (m 1)) m 2"
    "k < unat (m 1) \<longrightarrow> v \<noteq> DAP_TRANSFER_OK \<and>
       (\<exists>d \<in> {1..5}. p = xfer_cancel (unat (m 1) - k) m (xfer_cancel k m 2 + d))"
    using jtag_outcome [of m s H junk] unfolding if_P [OF True] by blast
  then show ?thesis
    unfolding if_P [OF True]
    by - (rule exI [of _ k], rule exI [of _ p], rule exI [of _ v], rule exI [of _ out],
        rule exI [of _ s'], cases "k = unat (m 1)", simp_all del: One_nat_def)
next
  case False
  then show ?thesis using jtag_outcome [of m s H junk] by simp
qed

text \<open>The sequence of attempts at one packet transfer.\<close>

primrec attempt :: "nat \<Rightarrow> xfer_fun \<Rightarrow> xfer_fun" where
  "attempt 0 f req store data s = f req store data s"
| "attempt (Suc k) f req store data s =
     (let (ack, data, s) = f req store data s in attempt k f req store data s)"

text \<open>The retry loop returns the outcome of the first attempt that is not answered with
  WAIT, or of attempt \<open>retry_count + 1\<close> when all are, so it makes at most \<open>retry_count + 1\<close>
  attempts; with the abort flag clear, as every command leaves it, nothing else ends it.\<close>

theorem retry_first_answer:
  assumes "\<forall>req store data s. TransferAbort (snd (snd (f req store data s))) = TransferAbort s"
    and "TransferAbort s = 0"
  shows "\<exists>k \<le> n. xfer_retry n f req store data s = attempt k f req store data s \<and>
    (k = n \<or> fst (attempt k f req store data s) \<noteq> DAP_TRANSFER_WAIT) \<and>
    (\<forall>j < k. fst (attempt j f req store data s) = DAP_TRANSFER_WAIT)"
  using assms(2)
proof (induction n arbitrary: data s)
  case 0
  then show ?case by simp
next
  case (Suc n)
  obtain ack d t where f: "f req store data s = (ack, d, t)" by (cases "f req store data s")
  have t: "TransferAbort t = 0" using assms(1) [rule_format, of req store data s] f Suc.prems by simp
  show ?case
  proof (cases "ack = DAP_TRANSFER_WAIT")
    case True
    from Suc.IH [OF t, of d] obtain k where k: "k \<le> n"
      "xfer_retry n f req store d t = attempt k f req store d t"
      "k = n \<or> fst (attempt k f req store d t) \<noteq> DAP_TRANSFER_WAIT"
      "\<forall>j < k. fst (attempt j f req store d t) = DAP_TRANSFER_WAIT" by blast
    have "fst (attempt j f req store data s) = DAP_TRANSFER_WAIT" if "j < Suc k" for j
      using k(4) that by (cases j) (simp_all add: f True)
    with k True t show ?thesis
      by (intro exI [of _ "Suc k"]) (simp add: f)
  next
    case False
    then show ?thesis by (intro exI [of _ 0]) (simp add: f)
  qed
qed

theorem retry_first_answer_witness:
  "\<exists>k \<le> 5. xfer_retry 5 (\<lambda>r st d s. (if trace s = [] then DAP_TRANSFER_WAIT else DAP_TRANSFER_OK, d, emit TsRead s))
      0x2 True 0 example_dap =
    attempt k (\<lambda>r st d s. (if trace s = [] then DAP_TRANSFER_WAIT else DAP_TRANSFER_OK, d, emit TsRead s))
      0x2 True 0 example_dap \<and>
    (k = 5 \<or> fst (attempt k (\<lambda>r st d s. (if trace s = [] then DAP_TRANSFER_WAIT else DAP_TRANSFER_OK, d, emit TsRead s))
      0x2 True 0 example_dap) \<noteq> DAP_TRANSFER_WAIT) \<and>
    (\<forall>j < k. fst (attempt j (\<lambda>r st d s. (if trace s = [] then DAP_TRANSFER_WAIT else DAP_TRANSFER_OK, d, emit TsRead s))
      0x2 True 0 example_dap) = DAP_TRANSFER_WAIT)"
  by (rule retry_first_answer) (simp_all add: example_dap_def)

text \<open>A transfer command of a single plain DP read that the target does not acknowledge
  consumes the read's three bytes and also whatever request the following byte encodes, one or
  five bytes, so a command queued behind it is parsed from the wrong place.\<close>

theorem swd_transfer_overruns_on_error:
  assumes "m 1 = 1" and "m 2 = 0x02"
    and "fst (xfer_retry (unat (retry_count s)) (SWD_Transfer H) 0x02 True junk (s\<lparr>TransferAbort := 0\<rparr>))
      \<noteq> DAP_TRANSFER_OK"
  shows "\<exists>v s'. DAP_SWD_Transfer H junk m s = ([0, v], pack_num (3 + request_size (m 3)) 2, s')"
proof -
  let ?f = "SWD_Transfer H" and ?x = "x_start junk 2 s"
  let ?y = "x_xfer ?f 0x02 True (?x\<lparr>x_pos := 3\<rparr>)"
  have bad: "x_val ?y \<noteq> DAP_TRANSFER_OK"
    using assms(3) by (simp add: x_xfer_def x_start_def Let_def case_prod_beta)
  have "swd_read_normal ?f 0x02 (?x\<lparr>x_pos := 3\<rparr>) = (False, ?y)"
    using bad by (simp add: swd_read_normal_def request_consts Let_def)
  moreover have "swd_posted ?f 0x02 (?x\<lparr>x_pos := 3\<rparr>) = (True, ?x\<lparr>x_pos := 3\<rparr>)"
    by (simp add: swd_posted_def x_start_def)
  ultimately have "swd_read ?f m 0x02 (?x\<lparr>x_pos := 3\<rparr>) = (False, ?y)"
    by (simp add: swd_read_def request_consts)
  moreover have "x_pos ?x = 2" "?x\<lparr>x_pos := 2 + 1\<rparr> = ?x\<lparr>x_pos := 3\<rparr>" by (simp_all add: x_start_def)
  ultimately have "swd_request ?f m ?x = (False, ?y)"
    using assms(2) by (simp add: swd_request_def request_consts)
  moreover have "unat (m 1) = Suc 0" using assms(1) by simp
  ultimately have loop: "xfer_loop (swd_request ?f m) (unat (m 1)) ?x = (Suc 0, ?y)"
    by simp
  have "x_pos ?y = 3" "x_count ?y = 0" "x_out ?y = []" by (simp_all add: x_start_def)
  then show ?thesis
    using bad unfolding DAP_SWD_Transfer_def swd_transfer_def loop
    by (simp add: swd_tail_def x_response_def numeral_2_eq_2)
qed

theorem swd_transfer_overruns_on_error_witness:
  "\<exists>v s'. DAP_SWD_Transfer (example_hw {}) 0 (mem_of [0, 1, 0x02, 0x00]) (example_dap\<lparr>retry_count := 0\<rparr>) =
    ([0, v], pack_num (3 + request_size (mem_of [0, 1, 0x02, 0x00] 3)) 2, s')"
proof (rule swd_transfer_overruns_on_error)
  let ?s = "example_dap\<lparr>retry_count := 0, TransferAbort := 0\<rparr>"
  have "swd_ack (example_hw {}) False 2 ?s = 0" by code_simp
  then have "fst (SWD_Transfer_GPIO (example_hw {}) False 2 True 0 ?s) = 0"
    by (simp add: SWD_Transfer_GPIO_cases Let_def)
  moreover have "SWD_TransferSpeed ?s = kTransfer_GPIO_fast" by (simp add: example_dap_def)
  ultimately show "fst (xfer_retry (unat (retry_count (example_dap\<lparr>retry_count := 0\<rparr>)))
      (SWD_Transfer (example_hw {})) 0x02 True 0 (example_dap\<lparr>retry_count := 0, TransferAbort := 0\<rparr>))
      \<noteq> DAP_TRANSFER_OK"
    by (simp add: SWD_Transfer_def transfer_consts)
qed (simp_all add: mem_of_def)

end
