(* ===== verification/DapCmd.thy ===== *)
theory DapCmd
  imports DapTransfer
begin

text \<open>
  The commands of DAP.c and their dispatchers.  Every command returns the response bytes, the
  combined length word and the new state, or a fault: \<open>JTAG_Configure\<close> writes its tables without
  checking the count, which C leaves undefined, and the pin poll of \<open>SWJ_Pins\<close> is bounded by
  fuel.  What the C code takes from outside (hardware, uninitialised locals) is the record \<open>env\<close>.
\<close>

record env =
  e_hw :: hw
  e_words :: "nat \<Rightarrow> u32"
  e_data :: u32
  e_fuel :: nat

datatype fault = OutOfBounds | OutOfFuel

type_synonym answer = "u8 list \<times> u32 \<times> dap"
type_synonym outcome = "fault + answer"

definition DAP_OK :: u8 where "DAP_OK = 0"
definition DAP_ERROR :: u8 where "DAP_ERROR = 0xFF"

section \<open>Information and delays\<close>

definition cstring :: "string \<Rightarrow> u8 list" where
  "cstring str = map (\<lambda>c. of_nat (of_char c)) str @ [0]"

definition DAP_GetVendorString :: "u8 list" where
  "DAP_GetVendorString = cstring ''windowsair''"
definition DAP_GetProductString :: "u8 list" where
  "DAP_GetProductString = cstring ''CMSIS-DAP v2''"
definition DAP_GetSerNumString :: "u8 list" where
  "DAP_GetSerNumString = cstring ''1234''"
definition DAP_GetTargetDeviceVendorString :: "u8 list" where
  "DAP_GetTargetDeviceVendorString = cstring ''''"
definition DAP_GetTargetDeviceNameString :: "u8 list" where
  "DAP_GetTargetDeviceNameString = cstring ''''"
definition DAP_GetTargetBoardVendorString :: "u8 list" where
  "DAP_GetTargetBoardVendorString = cstring ''kerms''"
definition DAP_GetTargetBoardNameString :: "u8 list" where
  "DAP_GetTargetBoardNameString = cstring ''ESP wireless tool''"
definition DAP_GetProductFirmwareVersionString :: "u8 list" where
  "DAP_GetProductFirmwareVersionString = []"

definition TIMESTAMP_CLOCK :: u32 where "TIMESTAMP_CLOCK = 5000000"
definition DAP_PACKET_SIZE :: u32 where "DAP_PACKET_SIZE = 512"

definition DAP_Info :: "u8 \<Rightarrow> u8 list" where
  "DAP_Info ident =
     (if ident = 1 then DAP_GetVendorString
      else if ident = 2 then DAP_GetProductString
      else if ident = 3 then DAP_GetSerNumString
      else if ident = 4 then cstring ''2.1.0''
      else if ident = 5 then DAP_GetTargetDeviceVendorString
      else if ident = 6 then DAP_GetTargetDeviceNameString
      else if ident = 7 then DAP_GetTargetBoardVendorString
      else if ident = 8 then DAP_GetTargetBoardNameString
      else if ident = 9 then DAP_GetProductFirmwareVersionString
      else if ident = 0xF0 then [push_bit 0 1 OR push_bit 1 1 OR push_bit 4 1 OR push_bit 5 1, 0]
      else if ident = 0xF1 then le32_bytes TIMESTAMP_CLOCK
      else if ident = 0xFF then [ucast DAP_PACKET_SIZE, ucast (drop_bit 8 DAP_PACKET_SIZE)]
      else if ident = 0xFE then [255]
      else [])"

definition CPU_CLOCK :: "chip \<Rightarrow> u32" where
  "CPU_CLOCK c = (case c of ESP32 \<Rightarrow> 240000000 | ESP32C3 \<Rightarrow> 16000000 | ESP32S3 \<Rightarrow> 240000000)"

definition IO_PORT_WRITE_CYCLES :: u32 where "IO_PORT_WRITE_CYCLES = 2"
definition DELAY_SLOW_CYCLES :: u32 where "DELAY_SLOW_CYCLES = 3"

definition CLOCK_DELAY :: "chip \<Rightarrow> u32 \<Rightarrow> u32" where
  "CLOCK_DELAY c swj_clock = (CPU_CLOCK c div 2) div swj_clock - IO_PORT_WRITE_CYCLES"

definition DAP_Delay :: "hw \<Rightarrow> mem \<Rightarrow> dap \<Rightarrow> answer" where
  "DAP_Delay H m s =
     (let delay = le16_at m 0;
          delay = delay * ((CPU_CLOCK (hw_chip H) div 1000000 + (DELAY_SLOW_CYCLES - 1)) div DELAY_SLOW_CYCLES)
      in ([DAP_OK], pack_num 2 1, PIN_DELAY_SLOW delay s))"

definition DAP_HostStatus :: "mem \<Rightarrow> dap \<Rightarrow> answer" where
  "DAP_HostStatus m s =
     ([if m 0 = 0 \<or> m 0 = 1 then DAP_OK else DAP_ERROR], pack_num 2 1, s)"

section \<open>Connection and reset\<close>

definition DAP_SPI_Init :: "dap \<Rightarrow> dap" where "DAP_SPI_Init s = emit (SpiCtl SPI_Init) s"
definition DAP_SPI_Deinit :: "dap \<Rightarrow> dap" where "DAP_SPI_Deinit s = emit (SpiCtl SPI_Deinit) s"

definition PORT_SWD_SETUP_fn :: "dap \<Rightarrow> dap" where "PORT_SWD_SETUP_fn s = DAP_SPI_Deinit s"
definition PORT_JTAG_SETUP_fn :: "dap \<Rightarrow> dap" where
  "PORT_JTAG_SETUP_fn s = emit (Port PORT_JTAG_SETUP) s"

definition PORT_OFF_fn :: "hw \<Rightarrow> dap \<Rightarrow> dap" where
  "PORT_OFF_fn H s =
     (let s = emit (Port PORT_OFF) (DAP_SPI_Disable s)
      in case hw_chip H of ESP32S3 \<Rightarrow> emit (PinOut nRESET True) s | _ \<Rightarrow> s)"

definition DAP_Connect :: "mem \<Rightarrow> dap \<Rightarrow> answer" where
  "DAP_Connect m s =
     (let port = (if m 0 = 0 then DAP_PORT_SWD else m 0)
      in if port = DAP_PORT_SWD then
           (let s = s\<lparr>debug_port := DAP_PORT_SWD\<rparr>;
                s = (if SWD_TransferSpeed s \<noteq> kTransfer_SPI then PORT_SWD_SETUP_fn s else s)
            in ([port], pack_num 1 1, s))
         else if port = DAP_PORT_JTAG then
           ([port], pack_num 1 1, PORT_JTAG_SETUP_fn (s\<lparr>debug_port := DAP_PORT_JTAG\<rparr>))
         else ([DAP_PORT_DISABLED], pack_num 1 1, s))"

definition DAP_Disconnect :: "hw \<Rightarrow> dap \<Rightarrow> answer" where
  "DAP_Disconnect H s = ([DAP_OK], 1, PORT_OFF_fn H (s\<lparr>debug_port := DAP_PORT_DISABLED\<rparr>))"

definition RESET_TARGET :: "dap \<Rightarrow> u8 \<times> dap" where
  "RESET_TARGET s =
     (let s = emit (OsDelay 2) (PIN_nRESET_OUT 0 s);
          s = emit (OsDelay 2) (PIN_nRESET_OUT 1 s)
      in (1, s))"

definition DAP_ResetTarget :: "hw \<Rightarrow> dap \<Rightarrow> answer" where
  "DAP_ResetTarget H s =
     (let s = (if debug_port s = DAP_PORT_SWD then
                 let (_, _, s) = SWD_Transfer H 0x05 True 0xE000ED0C s;
                     s = emit (OsDelay 2) s;
                     (_, _, s) = SWD_Transfer H 0x0d True (push_bit 16 0x05FA OR push_bit 2 1) s
                 in s
               else s);
          (r, s) = RESET_TARGET s
      in ([DAP_OK, r], 2, s))"

section \<open>Pins and clock\<close>

definition swj_drive :: "u32 \<Rightarrow> u32 \<Rightarrow> dap \<Rightarrow> dap" where
  "swj_drive select value s =
     (let s = (if bit select 0 then if bit value 0 then PIN_SWCLK_TCK_SET s else PIN_SWCLK_TCK_CLR s else s);
          s = (if bit select 1 then if bit value 1 then PIN_SWDIO_TMS_SET s else PIN_SWDIO_TMS_CLR s else s);
          s = (if bit select 2 then PIN_TDI_OUT (drop_bit 2 value) s else s);
          s = (if bit select 5 then PIN_nTRST_OUT (drop_bit 5 value) s else s)
      in if bit select 7 then PIN_nRESET_OUT (drop_bit 7 value) s else s)"

text \<open>The comparison in the poll is between the whole shifted value and the pin, not one bit.\<close>

definition swj_settled :: "hw \<Rightarrow> u32 \<Rightarrow> u32 \<Rightarrow> dap \<Rightarrow> bool" where
  "swj_settled H select value s \<longleftrightarrow>
     \<not> (bit select 0 \<and> drop_bit 0 value XOR PIN_SWCLK_TCK_IN H s \<noteq> 0) \<and>
     \<not> (bit select 1 \<and> drop_bit 1 value XOR PIN_SWDIO_TMS_IN H s \<noteq> 0) \<and>
     \<not> (bit select 2 \<and> drop_bit 2 value XOR PIN_TDI_IN H s \<noteq> 0) \<and>
     \<not> (bit select 5 \<and> drop_bit 5 value XOR PIN_nTRST_IN H s \<noteq> 0) \<and>
     \<not> (bit select 7 \<and> drop_bit 7 value XOR PIN_nRESET_IN H s \<noteq> 0)"

primrec swj_poll :: "nat \<Rightarrow> hw \<Rightarrow> u32 \<Rightarrow> u32 \<Rightarrow> u32 \<Rightarrow> u32 \<Rightarrow> dap \<Rightarrow> fault + dap" where
  "swj_poll 0 H select value start wait s = Inl OutOfFuel"
| "swj_poll (Suc fuel) H select value start wait s =
     (if swj_settled H select value s then Inr s
      else let (now, s) = TIMESTAMP_GET H s
           in if now - start < wait then swj_poll fuel H select value start wait s else Inr s)"

definition swj_sample :: "hw \<Rightarrow> dap \<Rightarrow> u32" where
  "swj_sample H s =
     push_bit 0 (PIN_SWCLK_TCK_IN H s) OR push_bit 1 (PIN_SWDIO_TMS_IN H s) OR
     push_bit 2 (PIN_TDI_IN H s) OR push_bit 3 (PIN_TDO_IN H s) OR
     push_bit 5 (PIN_nTRST_IN H s) OR push_bit 7 (PIN_nRESET_IN H s)"

definition DAP_SWJ_Pins :: "env \<Rightarrow> mem \<Rightarrow> dap \<Rightarrow> outcome" where
  "DAP_SWJ_Pins E m s =
     (let H = e_hw E;
          s = (if SWD_TransferSpeed s = kTransfer_SPI then DAP_SPI_Deinit s else s);
          value = ucast (m 0); select = ucast (m 1); wait = le32_at m 2;
          s = swj_drive select value s;
          polled = (if wait \<noteq> 0 then
             let wait = (if wait > 3000000 then 3000000 else wait);
                 wait = wait * (TIMESTAMP_CLOCK div 1000000);
                 (start, s) = TIMESTAMP_GET H s
             in swj_poll (e_fuel E) H select value start wait s
           else Inr s)
      in case polled of Inl e \<Rightarrow> Inl e
         | Inr s \<Rightarrow>
             (let value = swj_sample H s;
                  s = (if SWD_TransferSpeed s = kTransfer_SPI then DAP_SPI_Init s else s)
              in Inr ([ucast value], pack_num 6 1, s)))"

definition BUS_CLOCK_FIXED :: "chip \<Rightarrow> u32" where
  "BUS_CLOCK_FIXED c = (case c of ESP32C3 \<Rightarrow> 80000000 | _ \<Rightarrow> 100000000)"

definition swj_clock_delay :: "chip \<Rightarrow> u32 \<Rightarrow> u32" where
  "swj_clock_delay c clock =
     (let delay = (BUS_CLOCK_FIXED c div 2 + (clock - 1)) div clock
      in if delay > IO_PORT_WRITE_CYCLES
         then (delay - IO_PORT_WRITE_CYCLES + (DELAY_SLOW_CYCLES - 1)) div DELAY_SLOW_CYCLES
         else 1)"

definition DAP_SWJ_Clock :: "hw \<Rightarrow> mem \<Rightarrow> dap \<Rightarrow> answer" where
  "DAP_SWJ_Clock H m s =
     (let clock = le32_at m 0
      in if clock = 0 then ([DAP_ERROR], pack_num 4 1, s)
         else
           let s =
             (if clock \<ge> 10000000 then
                (if debug_port s \<noteq> DAP_PORT_JTAG
                 then (DAP_SPI_Init s)\<lparr>SWD_TransferSpeed := kTransfer_SPI\<rparr>
                 else s\<lparr>SWD_TransferSpeed := kTransfer_GPIO_fast\<rparr>)\<lparr>fast_clock := 1, clock_delay := 1\<rparr>
              else if clock \<ge> 2000000 then
                (DAP_SPI_Deinit s)\<lparr>fast_clock := 1, clock_delay := 1,
                  SWD_TransferSpeed := kTransfer_GPIO_fast\<rparr>
              else
                (DAP_SPI_Deinit s)\<lparr>fast_clock := 0, SWD_TransferSpeed := kTransfer_GPIO_normal,
                  clock_delay := swj_clock_delay (hw_chip H) clock\<rparr>)
           in ([DAP_OK], pack_num 4 1, s))"

section \<open>Sequences\<close>

definition DAP_SWJ_Sequence :: "env \<Rightarrow> mem \<Rightarrow> dap \<Rightarrow> answer" where
  "DAP_SWJ_Sequence E m s =
     (let count = (if m 0 = 0 then 256 else ucast (m 0)) :: u32;
          s = SWJ_Sequence (e_hw E) (e_words E) count (mem_from m 1) s;
          count = drop_bit 3 (count + 7)
      in ([DAP_OK], push_bit 16 (count + 1) OR 1, s))"

definition DAP_SWD_Configure :: "mem \<Rightarrow> dap \<Rightarrow> answer" where
  "DAP_SWD_Configure m s =
     ([DAP_OK], pack_num 1 1,
      s\<lparr>turnaround := (m 0 AND 0x03) + 1, data_phase := (if m 0 AND 0x04 \<noteq> 0 then 1 else 0)\<rparr>)"

definition sequence_bytes :: "nat \<Rightarrow> nat" where
  "sequence_bytes n = (n + 7) div 8"

text \<open>The loops over the sequences: \<open>p\<close> is the request position; the response and request
  counters are the C variables.\<close>

primrec swd_sequences ::
  "nat \<Rightarrow> env \<Rightarrow> mem \<Rightarrow> nat \<Rightarrow> u32 \<Rightarrow> u32 \<Rightarrow> u8 list \<Rightarrow> dap \<Rightarrow> u32 \<times> u32 \<times> u8 list \<times> dap" where
  "swd_sequences 0 E m p rq rs out s = (rq, rs, out, s)"
| "swd_sequences (Suc n) E m p rq rs out s =
     (let info = ucast (m p);
          p = p + 1;
          count = sequence_bytes (swd_seq_count info);
          (bytes, s) = SWD_Sequence (e_hw E) (e_words E) info (mem_from m p) s
      in if info AND SWD_SEQUENCE_DIN \<noteq> 0
         then swd_sequences n E m p (rq + 1) (rs + of_nat count) (out @ bytes) s
         else swd_sequences n E m (p + count) (rq + of_nat count + 1) rs out s)"

definition DAP_SWD_Sequence :: "env \<Rightarrow> mem \<Rightarrow> dap \<Rightarrow> answer" where
  "DAP_SWD_Sequence E m s =
     (let (rq, rs, out, s) = swd_sequences (unat (m 0)) E m 1 1 1 [DAP_OK] s
      in (out, push_bit 16 rq OR rs, s))"

primrec jtag_sequences ::
  "nat \<Rightarrow> env \<Rightarrow> mem \<Rightarrow> nat \<Rightarrow> u32 \<Rightarrow> u32 \<Rightarrow> u8 list \<Rightarrow> dap \<Rightarrow> u32 \<times> u32 \<times> u8 list \<times> dap" where
  "jtag_sequences 0 E m p rq rs out s = (rq, rs, out, s)"
| "jtag_sequences (Suc n) E m p rq rs out s =
     (let info = ucast (m p);
          p = p + 1;
          count = sequence_bytes (jtag_seq_count info);
          (bytes, s) = JTAG_Sequence (e_hw E) info (mem_from m p) s
      in jtag_sequences n E m (p + count) (rq + of_nat count + 1)
           (if info AND JTAG_SEQUENCE_TDO \<noteq> 0 then rs + of_nat count else rs) (out @ bytes) s)"

definition DAP_JTAG_Sequence :: "env \<Rightarrow> mem \<Rightarrow> dap \<Rightarrow> answer" where
  "DAP_JTAG_Sequence E m s =
     (let (rq, rs, out, s) = jtag_sequences (unat (m 0)) E m 1 1 1 [DAP_OK] s
      in (out, push_bit 16 rq OR rs, s))"


section \<open>JTAG configuration and identification\<close>

definition DAP_JTAG_DEV_CNT :: nat where "DAP_JTAG_DEV_CNT = 8"

text \<open>The two loops of \<open>JTAG_Configure\<close>; \<open>n\<close> is the loop variable.  A write beyond the tables is
  the fault.\<close>

primrec jtag_conf_fill :: "nat \<Rightarrow> nat \<Rightarrow> mem \<Rightarrow> u32 \<Rightarrow> dap \<Rightarrow> fault + (u32 \<times> dap)" where
  "jtag_conf_fill 0 n m bits s = Inr (bits, s)"
| "jtag_conf_fill (Suc k) n m bits s =
     (if n < DAP_JTAG_DEV_CNT then
        (let len = ucast (m (n + 1)) :: u32;
             s = s\<lparr>ir_length := (ir_length s)[n := ucast len], ir_before := (ir_before s)[n := ucast bits]\<rparr>
         in jtag_conf_fill k (n + 1) m (bits + len) s)
      else Inl OutOfBounds)"

primrec jtag_conf_after :: "nat \<Rightarrow> nat \<Rightarrow> u32 \<Rightarrow> dap \<Rightarrow> fault + dap" where
  "jtag_conf_after 0 n bits s = Inr s"
| "jtag_conf_after (Suc k) n bits s =
     (if n < DAP_JTAG_DEV_CNT then
        (let bits = bits - ucast (ir_length s ! n)
         in jtag_conf_after k (n + 1) bits (s\<lparr>ir_after := (ir_after s)[n := ucast bits]\<rparr>))
      else Inl OutOfBounds)"

definition DAP_JTAG_Configure :: "mem \<Rightarrow> dap \<Rightarrow> outcome" where
  "DAP_JTAG_Configure m s =
     (let count = unat (m 0);
          s = s\<lparr>jtag_count := m 0\<rparr>
      in case jtag_conf_fill count 0 m 0 s of Inl e \<Rightarrow> Inl e
         | Inr (bits, s) \<Rightarrow>
             (case jtag_conf_after count 0 bits s of Inl e \<Rightarrow> Inl e
              | Inr s \<Rightarrow> Inr ([DAP_OK], push_bit 16 (ucast (m 0) + 1) OR 1, s)))"

definition DAP_JTAG_IDCode :: "hw \<Rightarrow> mem \<Rightarrow> dap \<Rightarrow> answer" where
  "DAP_JTAG_IDCode H m s =
     (if debug_port s \<noteq> DAP_PORT_JTAG then ([DAP_ERROR], pack_num 1 1, s)
      else
        let s = s\<lparr>jtag_index := m 0\<rparr>
        in if jtag_index s \<ge> jtag_count s then ([DAP_ERROR], pack_num 1 1, s)
           else
             let s = JTAG_IR JTAG_IDCODE s;
                 (data, s) = JTAG_ReadIDCode H s
             in (DAP_OK # le32_bytes data, pack_num 1 5, s))"

definition DAP_TransferConfigure :: "mem \<Rightarrow> dap \<Rightarrow> answer" where
  "DAP_TransferConfigure m s =
     ([DAP_OK], pack_num 5 1,
      s\<lparr>idle_cycles := m 0,
        retry_count := ucast (m 1) OR push_bit 8 (ucast (m 2)),
        match_retry := ucast (m 3) OR push_bit 8 (ucast (m 4))\<rparr>)"

definition DAP_SWD_WriteAbort :: "hw \<Rightarrow> mem \<Rightarrow> dap \<Rightarrow> answer" where
  "DAP_SWD_WriteAbort H m s =
     (let (_, _, s) = SWD_Transfer H DP_ABORT True (le32_at m 1) s in ([DAP_OK], 1, s))"

definition DAP_JTAG_WriteAbort :: "mem \<Rightarrow> dap \<Rightarrow> answer" where
  "DAP_JTAG_WriteAbort m s =
     (let s = s\<lparr>jtag_index := m 0\<rparr>
      in if jtag_index s \<ge> jtag_count s then ([DAP_ERROR], 1, s)
         else ([DAP_OK], 1, JTAG_WriteAbort (le32_at m 1) (JTAG_IR JTAG_ABORT s)))"

definition DAP_WriteAbort :: "hw \<Rightarrow> mem \<Rightarrow> dap \<Rightarrow> answer" where
  "DAP_WriteAbort H m s =
     (let (r, num, s) =
        (if debug_port s = DAP_PORT_SWD then DAP_SWD_WriteAbort H m s
         else if debug_port s = DAP_PORT_JTAG then DAP_JTAG_WriteAbort m s
         else ([DAP_ERROR], 1, s))
      in (r, push_bit 16 5 OR num, s))"

section \<open>Dispatch\<close>

definition DAP_ProcessVendorCommand :: "mem \<Rightarrow> u8 list \<times> u32" where
  "DAP_ProcessVendorCommand m = ([m 0], pack_num 1 1)"

definition ID_DAP_Invalid :: u8 where "ID_DAP_Invalid = 0xFF"

text \<open>The switch on the command byte; \<open>None\<close> is its default branch.  The commands return what
  they consumed beside the command byte.\<close>

definition dap_command :: "env \<Rightarrow> u8 \<Rightarrow> mem \<Rightarrow> dap \<Rightarrow> outcome option" where
  "dap_command E cmd m s =
     (let H = e_hw E in
      if cmd = 0x01 then Some (Inr (DAP_HostStatus m s))
      else if cmd = 0x02 then Some (Inr (DAP_Connect m s))
      else if cmd = 0x03 then Some (Inr (DAP_Disconnect H s))
      else if cmd = 0x09 then Some (Inr (DAP_Delay H m s))
      else if cmd = 0x0A then Some (Inr (DAP_ResetTarget H s))
      else if cmd = 0x10 then Some (DAP_SWJ_Pins E m s)
      else if cmd = 0x11 then Some (Inr (DAP_SWJ_Clock H m s))
      else if cmd = 0x12 then Some (Inr (DAP_SWJ_Sequence E m s))
      else if cmd = 0x13 then Some (Inr (DAP_SWD_Configure m s))
      else if cmd = 0x1D then Some (Inr (DAP_SWD_Sequence E m s))
      else if cmd = 0x14 then Some (Inr (DAP_JTAG_Sequence E m s))
      else if cmd = 0x15 then Some (DAP_JTAG_Configure m s)
      else if cmd = 0x16 then Some (Inr (DAP_JTAG_IDCode H m s))
      else if cmd = 0x04 then Some (Inr (DAP_TransferConfigure m s))
      else if cmd = 0x05 then Some (Inr (DAP_Transfer H (e_data E) m s))
      else if cmd = 0x06 then Some (Inr (DAP_TransferBlock H (e_data E) m s))
      else if cmd = 0x08 then Some (Inr (DAP_WriteAbort H m s))
      else None)"

definition DAP_ProcessCommand :: "env \<Rightarrow> mem \<Rightarrow> dap \<Rightarrow> outcome" where
  "DAP_ProcessCommand E m s =
     (if m 0 \<ge> 0x80 \<and> m 0 \<le> 0x9F then
        (let (r, num) = DAP_ProcessVendorCommand m in Inr (r, num, s))
      else if m 0 = 0x00 then
        (let info = DAP_Info (m 1); num = ucast (of_nat (length info) :: u8)
         in Inr (m 0 # ucast num # info, push_bit 16 2 + 2 + num, s))
      else case dap_command E (m 0) (mem_from m 1) s of
        None \<Rightarrow> Inr ([ID_DAP_Invalid], pack_num 1 1, s)
      | Some (Inl e) \<Rightarrow> Inl e
      | Some (Inr (r, num, s)) \<Rightarrow> Inr (m 0 # r, push_bit 16 1 + 1 + num, s))"

text \<open>The halves of a length word, as \<open>ExecuteCommand\<close> reads them.\<close>

definition req_len :: "u32 \<Rightarrow> nat" where "req_len n = unat (ucast (drop_bit 16 n) :: u16)"
definition resp_len :: "u32 \<Rightarrow> nat" where "resp_len n = unat (ucast n :: u16)"

text \<open>
  \<open>num\<close> accumulates the length words; the request and response pointers advance by their
  halves.  \<open>out\<close> is what has been written, and the response pointer \<open>rp\<close> may lie before its end;
  what a command writes from there on hides what was there.
\<close>

primrec dap_execute ::
  "nat \<Rightarrow> (nat \<Rightarrow> env) \<Rightarrow> mem \<Rightarrow> nat \<Rightarrow> nat \<Rightarrow> u8 list \<Rightarrow> u32 \<Rightarrow> dap \<Rightarrow> outcome" where
  "dap_execute 0 E m p rp out num s = Inr (out, num, s)"
| "dap_execute (Suc cnt) E m p rp out num s =
     (case DAP_ProcessCommand (E cnt) (mem_from m p) s of Inl e \<Rightarrow> Inl e
      | Inr (r, n, s) \<Rightarrow>
          dap_execute cnt E m (p + req_len n) (rp + resp_len n)
            (take rp out @ r) (num + n) s)"

definition DAP_ExecuteCommand :: "(nat \<Rightarrow> env) \<Rightarrow> mem \<Rightarrow> dap \<Rightarrow> outcome" where
  "DAP_ExecuteCommand E m s =
     (if m 0 = 0x7F then
        dap_execute (unat (m 1)) E m 2 2 [m 0, m 1] (push_bit 16 2 OR 2) s
      else DAP_ProcessCommand (E 0) m s)"

definition DAP_Setup :: "hw \<Rightarrow> dap \<Rightarrow> dap" where
  "DAP_Setup H s =
     PORT_OFF_fn H (s\<lparr>debug_port := 0, fast_clock := 0,
       clock_delay := CLOCK_DELAY (hw_chip H) 1000000, idle_cycles := 0, retry_count := 100,
       match_retry := 0, match_mask := 0, turnaround := 1, data_phase := 0, jtag_count := 0\<rparr>)"

definition Delayms :: "hw \<Rightarrow> u32 \<Rightarrow> dap \<Rightarrow> dap" where
  "Delayms H delay s =
     PIN_DELAY_SLOW (delay * ((CPU_CLOCK (hw_chip H) div 1000 + (DELAY_SLOW_CYCLES - 1)) div DELAY_SLOW_CYCLES)) s"


section \<open>Length words\<close>

lemma push_16_or:
  assumes "b < 65536"
  shows "push_bit 16 (of_nat a) OR of_nat b = (of_nat (65536 * a + b) :: u32)"
proof -
  have "(push_bit 16 (of_nat a) :: u32) AND of_nat b = 0"
  proof (rule bit_word_eqI)
    fix n assume "n < LENGTH(32)"
    have "\<not> bit b n" if "16 \<le> n"
      using assms that by (metis bit_take_bit_iff leD take_bit_nat_eq_self_iff one_add_one
          numeral_plus_numeral power_numeral_even power2_eq_square numerals(1) not_le
          take_bit_nat_eq_self [of b 16, simplified])
    then show "bit ((push_bit 16 (of_nat a) :: u32) AND of_nat b) n = bit 0 n"
      by (auto simp: bit_simps)
  qed
  then have "push_bit 16 (of_nat a) OR of_nat b = (push_bit 16 (of_nat a) + of_nat b :: u32)"
    by (simp add: disjunctive_add_eq_or)
  also have "\<dots> = of_nat (65536 * a + b)"
    by (simp add: push_bit_eq_mult)
  finally show ?thesis .
qed

lemma len_word:
  assumes "b < 65536"
  shows "resp_len (of_nat (65536 * a + b)) = b" "req_len (of_nat (65536 * a + b)) = a mod 65536"
proof -
  let ?n = "65536 * a + b"
  have u: "unat (of_nat ?n :: u32) = ?n mod 4294967296"
    by (simp add: unsigned_of_nat take_bit_eq_mod del: of_nat_add of_nat_mult)
  have "?n mod 4294967296 mod 65536 = ?n mod 65536" by (rule mod_mod_cancel) simp
  then show "resp_len (of_nat ?n) = b"
    using assms by (simp only: resp_len_def unsigned_ucast_eq u take_bit_eq_mod) simp
  have "?n mod 4294967296 div 65536 = a mod 65536"
    using assms mod_mult2_eq [of ?n 65536 65536] by simp
  then show "req_len (of_nat ?n) = a mod 65536"
    by (simp only: req_len_def unsigned_ucast_eq unsigned_drop_bit_eq u)
      (simp add: drop_bit_eq_div take_bit_eq_mod)
qed

lemma le16_at_less: "unat (le16_at m p) < 65536"
proof -
  have "bit (le16_at m p) n \<Longrightarrow> n < 16" for n
    by (auto simp: le16_at_def bit_simps dest: bit_imp_le_length)
  then have "le16_at m p = take_bit 16 (le16_at m p)" by (intro bit_word_eqI) (auto simp: bit_simps)
  then have "unat (le16_at m p) = take_bit 16 (unat (le16_at m p))" by (metis unsigned_take_bit_eq)
  moreover have "take_bit 16 (unat (le16_at m p)) < 2 ^ 16" by (rule take_bit_nat_less_exp)
  ultimately show ?thesis by simp
qed

section \<open>The invariant of the probe\<close>

text \<open>
  What every command keeps: the JTAG tables have their eight entries and the device count does
  not exceed them, the port is one of the three, the turnaround is 1 to 4 cycles, the flags are
  0 or 1, the clock delay is never the 0 that \<open>PIN_DELAY_SLOW\<close> would count down from 2^32, and the
  data pin is connected to the engine in use: to the SPI peripheral when transfers go through it, to
  the GPIO block when the SWD port is connected and they do not.
\<close>

definition probe_ok :: "dap \<Rightarrow> bool" where
  "probe_ok s \<longleftrightarrow>
     length (ir_length s) = DAP_JTAG_DEV_CNT \<and> length (ir_before s) = DAP_JTAG_DEV_CNT \<and>
     length (ir_after s) = DAP_JTAG_DEV_CNT \<and> unat (jtag_count s) \<le> DAP_JTAG_DEV_CNT \<and>
     debug_port s \<in> {DAP_PORT_DISABLED, DAP_PORT_SWD, DAP_PORT_JTAG} \<and>
     turnaround s \<in> {1, 2, 3, 4} \<and> data_phase s \<in> {0, 1} \<and> fast_clock s \<in> {0, 1} \<and>
     clock_delay s \<noteq> 0 \<and>
     (SWD_TransferSpeed s = kTransfer_SPI \<longrightarrow> data_route (trace s) = To_Spi) \<and>
     (debug_port s = DAP_PORT_SWD \<and> SWD_TransferSpeed s \<noteq> kTransfer_SPI \<longrightarrow> data_route (trace s) = To_Gpio)"

lemma probe_ok_xfer_frame: "xfer_frame s s' \<Longrightarrow> probe_ok s' = probe_ok s"
  by (simp add: probe_ok_def xfer_frame_fields xfer_frame_route)

lemma xfer_frame_wire_only: "wire_only s s' \<Longrightarrow> xfer_frame s s'"
  by (rule xfer_frame_wire [OF _ xfer_frame_refl])

lemma probe_ok_wire_only: "wire_only s s' \<Longrightarrow> probe_ok s' = probe_ok s"
  by (rule probe_ok_xfer_frame) (rule xfer_frame_wire_only)

lemma probe_ok_emit [simp]: "(\<And>r. route_step e r = r) \<Longrightarrow> probe_ok (emit e s) = probe_ok s"
  by (rule probe_ok_wire_only) simp

context transport
begin

lemma block_read_frames:
  "xfer_frame s (x_dap x) \<Longrightarrow>
   xfer_frame s (x_dap (snd (swd_block_read n xfer req x))) \<and>
   length (x_out (snd (swd_block_read n xfer req x))) \<le> length (x_out x) + 4 * n"
proof (induction n arbitrary: req x)
  case (Suc n)
  define r where "r = (if n = 0 \<and> req AND DAP_TRANSFER_APnDP \<noteq> 0 then rdbuff_read else req)"
  define y where "y = x_xfer xfer r True x"
  have y: "xfer_frame s (x_dap y)" "x_out y = x_out x" "x_count y = x_count x"
    using x_xfer_xframe [OF Suc.prems] by (simp_all add: y_def)
  have step: "swd_block_read (Suc n) xfer req x = (if x_val y \<noteq> DAP_TRANSFER_OK then (False, y)
      else swd_block_read n xfer r ((x_emit_data y)\<lparr>x_count := x_count y + 1\<rparr>))"
    by (simp only: swd_block_read.simps Let_def r_def y_def)
  show ?case
    using y Suc.IH [of "(x_emit_data y)\<lparr>x_count := x_count y + 1\<rparr>" r] unfolding step by auto
qed simp

lemma block_write_frames:
  "xfer_frame s (x_dap x) \<Longrightarrow>
   xfer_frame s (x_dap (snd (block_write n xfer m req x))) \<and>
   x_out (snd (block_write n xfer m req x)) = x_out x"
proof (induction n arbitrary: x)
  case (Suc n)
  let ?y = "x\<lparr>x_data := le32_at m (x_pos x), x_pos := x_pos x + 4\<rparr>"
  have f: "xfer_frame s (x_dap (x_xfer xfer req True ?y))"
    by (rule x_xfer_xframe) (simp add: Suc.prems)
  then show ?case
    using Suc.IH by (simp add: Let_def)
qed simp

lemma jtag_block_read_frames:
  "xfer_frame s (x_dap x) \<Longrightarrow>
   xfer_frame s (x_dap (snd (jtag_block_read n xfer req x))) \<and>
   length (x_out (snd (jtag_block_read n xfer req x))) \<le> length (x_out x) + 4 * n"
proof (induction n arbitrary: req x)
  case (Suc n)
  define z where
    "z = (if n = 0 \<and> x_ir x \<noteq> JTAG_DPACC then x\<lparr>x_dap := JTAG_IR JTAG_DPACC (x_dap x)\<rparr> else x)"
  define r where "r = (if n = 0 then rdbuff_read else req)"
  define y where "y = x_xfer xfer r True z"
  have z: "xfer_frame s (x_dap z)" "x_out z = x_out x"
    using Suc.prems by (auto simp: z_def intro: xfer_frame_wire [rotated])
  have y: "xfer_frame s (x_dap y)" "x_out y = x_out x"
    using x_xfer_xframe [OF z(1)] z(2) by (simp_all add: y_def)
  have step: "jtag_block_read (Suc n) xfer req x = (if x_val y \<noteq> DAP_TRANSFER_OK then (False, y)
      else jtag_block_read n xfer r ((x_emit_data y)\<lparr>x_count := x_count y + 1\<rparr>))"
    by (simp only: jtag_block_read.simps Let_def r_def y_def z_def)
  show ?case
    using y Suc.IH [of "(x_emit_data y)\<lparr>x_count := x_count y + 1\<rparr>" r] unfolding step by auto
qed simp

lemma x_start_dap [simp]: "xfer_frame s (x_dap (x_start junk p t)) = xfer_frame s t"
  "x_out (x_start junk p t) = []"
  by (simp_all add: x_start_def)

lemma block_answer:
  "(r, n, s') = block_response v \<Longrightarrow> xfer_frame s (x_dap v) \<Longrightarrow> length (x_out v) \<le> c \<Longrightarrow>
   xfer_frame s s' \<and> length r \<le> 3 + c \<and> n = of_nat (length r)"
  by (auto simp: block_response_def)

lemma swd_transfer_block_frame:
  assumes "swd_transfer_block xfer junk m s = (r, n, s')"
  shows "xfer_frame s s' \<and> length r \<le> 3 + 4 * unat (le16_at m 1) \<and> n = of_nat (length r)"
proof -
  let ?x = "x_start junk 4 s"
  let ?req = "ucast (m 3) :: u32"
  define y where "y = (if ?req AND DAP_TRANSFER_APnDP \<noteq> 0 then x_xfer xfer ?req False ?x else ?x)"
  define z where "z = snd (swd_block_read (unat (le16_at m 1)) xfer ?req y)"
  define w where "w = snd (block_write (unat (le16_at m 1)) xfer m ?req ?x)"
  have x: "xfer_frame s (x_dap ?x)" "x_out ?x = []" by simp_all
  have y: "xfer_frame s (x_dap y)" "x_out y = []"
    using x_xfer_xframe [OF x(1)] by (simp_all add: y_def)
  have z: "xfer_frame s (x_dap z)" "length (x_out z) \<le> 4 * unat (le16_at m 1)"
    using block_read_frames [OF y(1)] by (auto simp: z_def y(2) intro: order_trans)
  have w: "xfer_frame s (x_dap w)" "x_out w = []"
    using block_write_frames [OF x(1)] x(2) by (auto simp: w_def)
  show ?thesis
  proof (cases "unat (le16_at m 1) = 0 \<or> ?req AND DAP_TRANSFER_RnW \<noteq> 0")
    case True
    then have "(r, n, s') \<in> {block_response ?x, block_response y, block_response z}"
      using assms by (auto simp: swd_transfer_block_def Let_def y_def z_def simp del: One_nat_def split: if_splits)
    then show ?thesis
      using block_answer [OF _ x(1)] block_answer [OF _ y(1)] block_answer [OF _ z] x(2) y(2) by auto
  next
    case False
    then have "(r, n, s') \<in> {block_response w, block_response (x_xfer xfer rdbuff_read False w)}"
      using assms by (auto simp: swd_transfer_block_def Let_def case_prod_beta w_def simp del: One_nat_def split: if_splits)
    then show ?thesis
      using block_answer [OF _ w(1)] block_answer [OF _ x_xfer_xframe [OF w(1)]] w(2) by auto
  qed
qed

lemma jtag_transfer_block_frame:
  assumes "jtag_transfer_block xfer junk m s = (r, n, s')"
  shows "xfer_frame s s' \<and> length r \<le> 3 + 4 * unat (le16_at m 1) \<and> n = of_nat (length r)"
proof -
  let ?x = "x_start junk 4 (s\<lparr>jtag_index := m 0\<rparr>)"
  let ?req = "ucast (m 3) :: u32"
  define i where "i = ?x\<lparr>x_ir := request_ir ?req, x_dap := JTAG_IR (request_ir ?req) (x_dap ?x)\<rparr>"
  define y where "y = x_xfer xfer ?req False i"
  define z where "z = snd (jtag_block_read (unat (le16_at m 1)) xfer ?req y)"
  define w where "w = snd (block_write (unat (le16_at m 1)) xfer m ?req i)"
  define u where "u = (if x_ir w \<noteq> JTAG_DPACC then w\<lparr>x_dap := JTAG_IR JTAG_DPACC (x_dap w)\<rparr> else w)"
  have x: "xfer_frame s (x_dap ?x)" "x_out ?x = []" by simp_all
  have i: "xfer_frame s (x_dap i)" "x_out i = []"
    using xfer_frame_wire [OF _ x(1)] by (simp_all add: i_def)
  have y: "xfer_frame s (x_dap y)" "x_out y = []"
    using x_xfer_xframe [OF i(1)] i(2) by (simp_all add: y_def)
  have z: "xfer_frame s (x_dap z)" "length (x_out z) \<le> 4 * unat (le16_at m 1)"
    using jtag_block_read_frames [OF y(1)] by (auto simp: z_def y(2) intro: order_trans)
  have w: "xfer_frame s (x_dap w)" "x_out w = []"
    using block_write_frames [OF i(1)] i(2) by (auto simp: w_def)
  have u: "xfer_frame s (x_dap u)" "x_out u = []"
    using w xfer_frame_wire [OF _ w(1)] by (auto simp: u_def)
  show ?thesis
  proof (cases "jtag_count s \<le> m 0 \<or> unat (le16_at m 1) = 0 \<or> ?req AND DAP_TRANSFER_RnW \<noteq> 0")
    case True
    then have "(r, n, s') \<in> {block_response ?x, block_response y, block_response z}"
      using assms by (auto simp: jtag_transfer_block_def Let_def i_def y_def z_def simp del: One_nat_def split: if_splits)
    then show ?thesis
      using block_answer [OF _ x(1)] block_answer [OF _ y(1)] block_answer [OF _ z] x(2) y(2) by auto
  next
    case False
    then have "(r, n, s') \<in> {block_response w, block_response (x_xfer xfer rdbuff_read False u)}"
      using assms by (auto simp: jtag_transfer_block_def Let_def case_prod_beta i_def w_def u_def
          simp del: One_nat_def split: if_splits)
    then show ?thesis
      using block_answer [OF _ w(1)] block_answer [OF _ x_xfer_xframe [OF u(1)]] w(2) u(2) by auto
  qed
qed

end

section \<open>Every command answers with its length\<close>

definition answer_ok :: "dap \<Rightarrow> answer \<Rightarrow> bool" where
  "answer_ok s ans \<longleftrightarrow> (case ans of (r, n, s') \<Rightarrow>
     (\<exists>a < 65500. n = of_nat (65536 * a + length r)) \<and> length r < 65500 \<and>
     (probe_ok s \<longrightarrow> probe_ok s'))"

lemma answer_pack [simp]:
  "length r < 65500 \<Longrightarrow> a < 65500 \<Longrightarrow> b = length r \<Longrightarrow>
   answer_ok s (r, pack_num a b, s') = (probe_ok s \<longrightarrow> probe_ok s')"
  by (auto simp: answer_ok_def pack_num_def push_16_or simp del: of_nat_add of_nat_mult)

lemma answer_plain [simp]:
  "answer_ok s ([x], 1, s') = (probe_ok s \<longrightarrow> probe_ok s')"
  "answer_ok s ([x, y], 2, s') = (probe_ok s \<longrightarrow> probe_ok s')"
  by (auto simp: answer_ok_def intro!: exI [of _ 0])

lemma answer_abort [simp]: "answer_ok s ([x], 327681, s') = (probe_ok s \<longrightarrow> probe_ok s')"
  by (auto simp: answer_ok_def intro!: exI [of _ 5])

lemma answer_push [simp]:
  "unat a < 65500 \<Longrightarrow> answer_ok s ([x], push_bit 16 a OR 1, s') = (probe_ok s \<longrightarrow> probe_ok s')"
  using answer_pack [of "[x]" "unat a" 1 s s'] by (simp add: pack_num_def)

lemma probe_ok_pins [simp]:
  "probe_ok (PIN_nRESET_OUT b s) = probe_ok s"
  "probe_ok (PIN_nTRST_OUT b s) = probe_ok s"
  "probe_ok (swj_drive sel v s) = probe_ok s"
  "probe_ok (snd (RESET_TARGET s)) = probe_ok s"
  "probe_ok (snd (snd (SWD_Transfer H req st d s))) = probe_ok s"
  "probe_ok (SWJ_Sequence H junk c m s) = probe_ok s"
  "probe_ok (JTAG_IR ir s) = probe_ok s"
  "probe_ok (snd (JTAG_ReadIDCode H s)) = probe_ok s"
  "probe_ok (JTAG_WriteAbort d s) = probe_ok s"
  "probe_ok (s\<lparr>jtag_index := i\<rparr>) = probe_ok s"
proof -
  show "probe_ok (s\<lparr>jtag_index := i\<rparr>) = probe_ok s" by (simp add: probe_ok_def)
qed (rule probe_ok_wire_only, simp add: swj_drive_def RESET_TARGET_def PIN_nRESET_OUT_def PIN_nTRST_OUT_def
   SWJ_Sequence_def SWJ_Sequence_SPI_def SWJ_Sequence_GPIO_def Let_def)+

lemma turnaround_range: "(w AND 3) + 1 \<in> {1, 2, 3, 4 :: u8}"
proof -
  have "w AND 3 \<le> 3" using word_and_le1 [of w 3] by (simp add: and.commute)
  then have "w AND 3 \<in> {0, 1, 2, 3 :: u8}" by (auto simp: word_le_nat_alt word_unat_eq_iff)
  then show ?thesis by auto
qed

lemma swj_request_bytes:
  "unat (drop_bit 3 ((if b = 0 then 256 else ucast (b :: u8)) + 7) + 1 :: u32)
     = ((if b = 0 then 256 else unat b) + 7) div 8 + 1"
proof -
  define k where "k = (if b = 0 then 256 else unat b)"
  have k: "k \<le> 256" using unat_bounds(1) [of b] by (auto simp: k_def)
  have "unat ((if b = 0 then 256 else ucast b) :: u32) = k" by (simp add: k_def)
  then have u: "unat ((if b = 0 then 256 else ucast b) + 7 :: u32) = k + 7"
    using k by (simp add: unat_word_ariths)
  have "unat (drop_bit 3 ((if b = 0 then 256 else ucast b) + 7) :: u32) = (k + 7) div 8"
    by (simp only: unsigned_drop_bit_eq u) (use k in \<open>simp add: drop_bit_eq_div take_bit_eq_mod\<close>)
  then show ?thesis
    using k by (simp add: unat_word_ariths k_def [symmetric] del: if_distrib)
qed

lemma answer_connect: "answer_ok s (DAP_Connect m s)"
proof -
  have "probe_ok s \<Longrightarrow> probe_ok (if SWD_TransferSpeed s \<noteq> kTransfer_SPI then PORT_SWD_SETUP_fn (s\<lparr>debug_port := DAP_PORT_SWD\<rparr>)
      else s\<lparr>debug_port := DAP_PORT_SWD\<rparr>)"
    and "probe_ok s \<Longrightarrow> probe_ok (PORT_JTAG_SETUP_fn (s\<lparr>debug_port := DAP_PORT_JTAG\<rparr>))"
    by (simp_all add: probe_ok_def PORT_SWD_SETUP_fn_def PORT_JTAG_SETUP_fn_def DAP_SPI_Deinit_def DAP_PORT_SWD_def DAP_PORT_JTAG_def)
  then show ?thesis by (simp add: DAP_Connect_def Let_def)
qed

lemma answer_disconnect: "answer_ok s (DAP_Disconnect H s)"
proof -
  have "probe_ok s \<Longrightarrow> probe_ok (s\<lparr>debug_port := DAP_PORT_DISABLED\<rparr>)"
    by (simp add: probe_ok_def DAP_PORT_SWD_def DAP_PORT_DISABLED_def)
  then show ?thesis by (simp add: DAP_Disconnect_def PORT_OFF_fn_def DAP_SPI_Disable_def Let_def split: chip.split)
qed

lemma answer_simple:
  "answer_ok s (DAP_HostStatus m s)" "answer_ok s (DAP_Connect m s)" "answer_ok s (DAP_Disconnect H s)"
  "answer_ok s (DAP_Delay H m s)" "answer_ok s (DAP_ResetTarget H s)" "answer_ok s (DAP_SWD_Configure m s)"
  "answer_ok s (DAP_JTAG_IDCode H m s)" "answer_ok s (DAP_TransferConfigure m s)"
  "answer_ok s (DAP_WriteAbort H m s)" "answer_ok s (DAP_SWJ_Sequence E m s)"
  subgoal by (simp add: DAP_HostStatus_def answer_pack)
  subgoal by (rule answer_connect)
  subgoal by (rule answer_disconnect)
  subgoal by (auto simp: DAP_Delay_def PIN_DELAY_SLOW_def Let_def)
  subgoal by (auto simp: DAP_ResetTarget_def Let_def case_prod_beta)
  subgoal
  proof -
    have "(m 0 AND 3) + 1 \<in> {1, 2, 3, 4}" by (rule turnaround_range)
    then show ?thesis by (simp add: DAP_SWD_Configure_def probe_ok_def)
  qed
  subgoal by (auto simp: DAP_JTAG_IDCode_def Let_def case_prod_beta)
  subgoal by (auto simp: DAP_TransferConfigure_def probe_ok_def)
  subgoal by (auto simp: DAP_WriteAbort_def DAP_SWD_WriteAbort_def DAP_JTAG_WriteAbort_def
     Let_def case_prod_beta)
  subgoal
  proof -
    have "unat (drop_bit 3 ((if m 0 = 0 then 256 else ucast (m 0)) + 7) + 1 :: u32) < 65500"
      using unat_bounds(1) [of "m 0"] unfolding swj_request_bytes by auto
    then show ?thesis by (simp add: DAP_SWJ_Sequence_def Let_def)
  qed
  done

lemma swj_clock_delay_nonzero: "swj_clock_delay c clock \<noteq> 0"
proof -
  define d where "d = (BUS_CLOCK_FIXED c div 2 + (clock - 1)) div clock"
  have "\<not> d div 3 = 0" if "d > 2"
  proof -
    have "3 \<le> unat d" using that by (simp add: word_less_nat_alt)
    then have "0 < unat (d div 3)" by (simp add: unat_div_distrib div_greater_zero_iff)
    then show ?thesis by auto
  qed
  then show ?thesis
    by (simp add: swj_clock_delay_def d_def [symmetric] Let_def IO_PORT_WRITE_CYCLES_def DELAY_SLOW_CYCLES_def)
qed

lemma answer_clock: "answer_ok s (DAP_SWJ_Clock H m s)"
  using swj_clock_delay_nonzero
  by (auto simp: DAP_SWJ_Clock_def Let_def DAP_SPI_Init_def DAP_SPI_Deinit_def probe_ok_def DAP_PORT_SWD_def DAP_PORT_JTAG_def)

lemma swj_poll_frame:
  "swj_poll fuel H sel v start w s = Inr s' \<Longrightarrow> wire_only s s'"
proof (induction fuel arbitrary: s)
  case (Suc fuel)
  have t: "wire_only s (snd (TIMESTAMP_GET H s))" by simp
  show ?case
  proof (cases "swj_settled H sel v s \<or> \<not> fst (TIMESTAMP_GET H s) - start < w")
    case True
    then show ?thesis using Suc.prems t by (auto simp: Let_def case_prod_beta split: if_splits)
  next
    case False
    then have "swj_poll fuel H sel v start w (snd (TIMESTAMP_GET H s)) = Inr s'"
      using Suc.prems by (simp add: Let_def case_prod_beta)
    from wire_only_trans [OF t Suc.IH [OF this]] show ?thesis .
  qed
qed simp

text \<open>The pins are read and driven with the data pin at the GPIO block; SPI mode is restored afterwards.\<close>

lemma probe_ok_restored:
  "wire_only (emit (SpiCtl SPI_Deinit) s) x \<Longrightarrow> SWD_TransferSpeed s = kTransfer_SPI \<Longrightarrow> probe_ok s \<Longrightarrow>
    probe_ok (emit (SpiCtl SPI_Init) x)"
  by (simp add: probe_ok_def wire_only_fields)

lemma answer_pins: "DAP_SWJ_Pins E m s = Inr ans \<Longrightarrow> answer_ok s ans"
proof -
  assume a: "DAP_SWJ_Pins E m s = Inr ans"
  define t where "t = (if SWD_TransferSpeed s = kTransfer_SPI then DAP_SPI_Deinit s else s)"
  define u where "u = swj_drive (ucast (m 1)) (ucast (m 0)) t"
  define g where "g = snd (TIMESTAMP_GET (e_hw E) u)"
  have u: "wire_only t u" by (simp add: u_def swj_drive_def PIN_nRESET_OUT_def PIN_nTRST_OUT_def Let_def)
  have g: "wire_only t g" using u by (simp add: g_def)
  have p: "wire_only t x" if "swj_poll fuel H sel v start w g = Inr x" for x fuel H sel v start w
    using wire_only_trans [OF g swj_poll_frame [OF that]] .
  have r: "probe_ok s \<longrightarrow> probe_ok (if SWD_TransferSpeed x = kTransfer_SPI then DAP_SPI_Init x else x)" if "wire_only t x" for x
  proof (cases "SWD_TransferSpeed s = kTransfer_SPI")
    case True
    then have w: "wire_only (emit (SpiCtl SPI_Deinit) s) x" using that by (simp add: t_def DAP_SPI_Deinit_def)
    have "SWD_TransferSpeed x = kTransfer_SPI" using wire_only_fields(16) [OF w] True by simp
    then show ?thesis using probe_ok_restored [OF w True] by (simp add: DAP_SPI_Init_def)
  next
    case False
    then have w: "wire_only s x" using that by (simp add: t_def)
    then show ?thesis using False wire_only_fields(16) [OF w] probe_ok_wire_only [OF w] by simp
  qed
  define final where "final x = (if SWD_TransferSpeed x = kTransfer_SPI then DAP_SPI_Init x else x)" for x
  have "\<exists>x v. wire_only t x \<and> ans = ([v], pack_num 6 1, final x)"
    using a u
    by (auto simp: DAP_SWJ_Pins_def Let_def case_prod_beta t_def [symmetric] u_def [symmetric]
        g_def [symmetric] final_def [symmetric] simp del: One_nat_def split: if_splits sum.splits dest: p)
  then obtain x v where x: "wire_only t x" "ans = ([v], pack_num 6 1, final x)" by blast
  then show ?thesis using r [OF x(1)] by (simp add: final_def)
qed

section \<open>What JTAG\_Configure stores\<close>

text \<open>A table with its first \<open>n\<close> entries overwritten.\<close>

definition table_upto :: "nat \<Rightarrow> (nat \<Rightarrow> 'a) \<Rightarrow> 'a list \<Rightarrow> 'a list" where
  "table_upto n f xs = map f [0..<n] @ drop n xs"

definition ir_bits :: "mem \<Rightarrow> nat \<Rightarrow> nat \<Rightarrow> nat" where
  "ir_bits m i j = (\<Sum>k \<in> {i..<j}. unat (m (k + 1)))"

lemma length_table_upto [simp]: "n \<le> length xs \<Longrightarrow> length (table_upto n f xs) = length xs"
  by (simp add: table_upto_def)

lemma table_upto_0 [simp]: "table_upto 0 f xs = xs"
  by (simp add: table_upto_def)

lemma table_upto_nth: "i < n \<Longrightarrow> table_upto n f xs ! i = f i"
  by (simp add: table_upto_def nth_append)

lemma table_upto_update: "n < length xs \<Longrightarrow> (table_upto n f xs)[n := f n] = table_upto (Suc n) f xs"
  by (simp add: table_upto_def list_update_append Cons_nth_drop_Suc [symmetric])

lemma ucast_of_nat_u16: "ucast (of_nat k :: u32) = (of_nat k :: u16)"
  by (rule bit_word_eqI) (simp add: bit_ucast_iff bit_of_nat_iff)

lemma ucast_u8_u32_u8 [simp]: "ucast (ucast (b :: u8) :: u32) = b"
  by (rule bit_word_eqI) (auto simp: bit_ucast_iff)

definition conf_state :: "mem \<Rightarrow> nat \<Rightarrow> dap \<Rightarrow> dap" where
  "conf_state m n s = s\<lparr>ir_length := table_upto n (\<lambda>i. m (i + 1)) (ir_length s),
     ir_before := table_upto n (\<lambda>i. of_nat (ir_bits m 0 i)) (ir_before s)\<rparr>"

lemma jtag_conf_fill_eq:
  assumes "length (ir_length s) = DAP_JTAG_DEV_CNT" "length (ir_before s) = DAP_JTAG_DEV_CNT"
  shows "n + k \<le> DAP_JTAG_DEV_CNT \<Longrightarrow>
    jtag_conf_fill k n m (of_nat (ir_bits m 0 n)) (conf_state m n s) =
      Inr (of_nat (ir_bits m 0 (n + k)), conf_state m (n + k) s)"
proof (induction k arbitrary: n)
  case (Suc k)
  then have n: "n < DAP_JTAG_DEV_CNT" "n + 1 + k \<le> DAP_JTAG_DEV_CNT" by simp_all
  have b: "ir_bits m 0 (n + 1) = ir_bits m 0 n + unat (m (n + 1))" by (simp add: ir_bits_def)
  have upd: "(conf_state m n s)\<lparr>ir_length := (ir_length (conf_state m n s))[n := ucast (ucast (m (n + 1)) :: u32)],
      ir_before := (ir_before (conf_state m n s))[n := ucast (of_nat (ir_bits m 0 n) :: u32)]\<rparr> =
      conf_state m (n + 1) s"
    using n assms table_upto_update [of n "ir_length s" "\<lambda>i. m (i + 1)"]
      table_upto_update [of n "ir_before s" "\<lambda>i. of_nat (ir_bits m 0 i)"]
    by (simp add: conf_state_def ucast_of_nat_u16)
  have bits: "of_nat (ir_bits m 0 n) + ucast (m (n + 1)) = (of_nat (ir_bits m 0 (n + 1)) :: u32)"
    unfolding b by simp
  have "jtag_conf_fill (Suc k) n m (of_nat (ir_bits m 0 n)) (conf_state m n s) =
      jtag_conf_fill k (n + 1) m (of_nat (ir_bits m 0 (n + 1))) (conf_state m (n + 1) s)"
    by (simp only: jtag_conf_fill.simps Let_def n(1) if_True upd bits)
  with Suc.IH [OF n(2)] show ?case by simp
qed simp

lemma jtag_conf_after_eq:
  assumes "length (ir_after s) = DAP_JTAG_DEV_CNT"
    and "\<And>i. i < c \<Longrightarrow> ir_length s ! i = m (i + 1)"
  shows "n + k = c \<Longrightarrow> c \<le> DAP_JTAG_DEV_CNT \<Longrightarrow>
    jtag_conf_after k n (of_nat (ir_bits m n c))
      (s\<lparr>ir_after := table_upto n (\<lambda>i. of_nat (ir_bits m (i + 1) c)) (ir_after s)\<rparr>) =
      Inr (s\<lparr>ir_after := table_upto c (\<lambda>i. of_nat (ir_bits m (i + 1) c)) (ir_after s)\<rparr>)"
proof (induction k arbitrary: n)
  case (Suc k)
  then have n: "n < DAP_JTAG_DEV_CNT" "n + 1 + k = c" "n < c" by simp_all
  have b: "ir_bits m n c = unat (m (n + 1)) + ir_bits m (n + 1) c"
    using n(3) by (simp add: ir_bits_def sum.atLeast_Suc_lessThan)
  have "of_nat (ir_bits m n c) - ucast (m (n + 1)) = (of_nat (ir_bits m (n + 1) c) :: u32)"
    unfolding b by simp
  then show ?case
    using n Suc.IH [OF n(2) Suc.prems(2)] assms
      table_upto_update [of n "ir_after s" "\<lambda>i. of_nat (ir_bits m (i + 1) c)"]
    by (simp add: Let_def ucast_of_nat_u16)
qed simp

lemma jtag_conf_fill_out:
  "DAP_JTAG_DEV_CNT < n + k \<Longrightarrow> 0 < k \<Longrightarrow> jtag_conf_fill k n m bits s = Inl OutOfBounds"
  by (induction k arbitrary: n bits s) (auto simp: Let_def)

definition configured :: "mem \<Rightarrow> dap \<Rightarrow> dap" where
  "configured m s = (let c = unat (m 0) in
     s\<lparr>jtag_count := m 0,
       ir_length := table_upto c (\<lambda>i. m (i + 1)) (ir_length s),
       ir_before := table_upto c (\<lambda>i. of_nat (ir_bits m 0 i)) (ir_before s),
       ir_after := table_upto c (\<lambda>i. of_nat (ir_bits m (i + 1) c)) (ir_after s)\<rparr>)"

lemma jtag_configure_cases:
  assumes "probe_ok s"
  shows "DAP_JTAG_Configure m s =
    (if unat (m 0) \<le> DAP_JTAG_DEV_CNT
     then Inr ([DAP_OK], push_bit 16 (ucast (m 0) + 1) OR 1, configured m s)
     else Inl OutOfBounds)"
proof (cases "unat (m 0) \<le> DAP_JTAG_DEV_CNT")
  case True
  let ?c = "unat (m 0)"
  let ?s = "s\<lparr>jtag_count := m 0\<rparr>"
  have len: "length (ir_length ?s) = DAP_JTAG_DEV_CNT" "length (ir_before ?s) = DAP_JTAG_DEV_CNT"
    "length (ir_after ?s) = DAP_JTAG_DEV_CNT" using assms by (simp_all add: probe_ok_def)
  have "jtag_conf_fill ?c 0 m 0 ?s = Inr (of_nat (ir_bits m 0 ?c), conf_state m ?c ?s)"
    using jtag_conf_fill_eq [OF len(1,2), of 0 ?c m] True by (simp add: ir_bits_def conf_state_def)
  moreover have "jtag_conf_after ?c 0 (of_nat (ir_bits m 0 ?c)) (conf_state m ?c ?s) = Inr (configured m s)"
    using jtag_conf_after_eq [of "conf_state m ?c ?s" ?c m 0 ?c] len True
    by (simp add: conf_state_def configured_def table_upto_nth Let_def)
  ultimately show ?thesis using True by (simp add: DAP_JTAG_Configure_def)
next
  case False
  then show ?thesis
    using jtag_conf_fill_out [of 0 "unat (m 0)" m 0] by (simp add: DAP_JTAG_Configure_def)
qed

lemma answer_jtag_configure: "probe_ok s \<Longrightarrow> DAP_JTAG_Configure m s = Inr ans \<Longrightarrow> answer_ok s ans"
proof -
  assume p: "probe_ok s" and a: "DAP_JTAG_Configure m s = Inr ans"
  then have c: "unat (m 0) \<le> DAP_JTAG_DEV_CNT"
    and ans: "ans = ([DAP_OK], push_bit 16 (ucast (m 0) + 1) OR 1, configured m s)"
    by (auto simp: jtag_configure_cases split: if_splits)
  have "probe_ok (configured m s)" using p c by (simp add: probe_ok_def configured_def Let_def)
  moreover have "unat (ucast (m 0) + 1 :: u32) < 65500"
    using c by (simp add: unat_word_ariths DAP_JTAG_DEV_CNT_def)
  ultimately show ?thesis by (simp add: ans)
qed

section \<open>Sequences and transfers\<close>

lemma seq_counts: "swd_seq_count info \<in> {1..64}" "jtag_seq_count info \<in> {1..64}"
proof -
  have "unat (info AND 63) \<le> 63" using word_and_le1 [of info 63] by (simp add: word_le_nat_alt and.commute)
  then show "swd_seq_count info \<in> {1..64}" "jtag_seq_count info \<in> {1..64}"
    by (auto simp: swd_seq_count_def jtag_seq_count_def SWD_SEQUENCE_CLK_def JTAG_SEQUENCE_TCK_def
        Let_def Suc_le_eq unat_gt_0)
qed

lemma sequence_bytes_le: "n \<in> {1..64} \<Longrightarrow> sequence_bytes n \<le> 8"
  using div_le_mono [of "n + 7" 71 8] by (simp add: sequence_bytes_def)

lemma length_SWD_Sequence:
  "info AND SWD_SEQUENCE_DIN \<noteq> 0 \<Longrightarrow>
   length (fst (SWD_Sequence H junk info m s)) = sequence_bytes (swd_seq_count info)"
  "wire_only s (snd (SWD_Sequence H junk info m s))"
proof -
  have c: "unat (of_nat (swd_seq_count info) :: u8) = swd_seq_count info"
    using seq_counts(1) [of info] by (simp add: unat_of_nat_small)
  show "wire_only s (snd (SWD_Sequence H junk info m s))"
    by (simp add: SWD_Sequence_def SWD_Sequence_SPI_def Let_def)
  assume "info AND SWD_SEQUENCE_DIN \<noteq> 0"
  then show "length (fst (SWD_Sequence H junk info m s)) = sequence_bytes (swd_seq_count info)"
    by (simp add: SWD_Sequence_def SWD_Sequence_SPI_def SWD_Sequence_GPIO_def DAP_SPI_ReadBits_def
        swd_seq_in_eq length_pack_bits sequence_bytes_def div_round_up_def Let_def c add.commute)
qed

lemma length_JTAG_Sequence:
  "length (fst (JTAG_Sequence H info m s)) =
    (if info AND JTAG_SEQUENCE_TDO \<noteq> 0 then sequence_bytes (jtag_seq_count info) else 0)"
proof -
  have "length (fst (jtag_shift (stream_bits (jtag_seq_count info) m) H t)) = jtag_seq_count info" for t
    by (simp add: length_stream_bits)
  then show ?thesis
    by (simp add: JTAG_Sequence_def jtag_seq_eq Let_def case_prod_beta length_pack_bits sequence_bytes_def)
qed

lemma swd_sequences_lengths:
  assumes "swd_sequences n E m p (of_nat q) (of_nat (length out)) out s = (rq, rs, out', s')"
  shows "\<exists>q'. rq = of_nat q' \<and> q' \<le> q + 9 * n \<and> rs = of_nat (length out') \<and>
    length out' \<le> length out + 8 * n \<and> wire_only s s'"
  using assms
proof (induction n arbitrary: p q out s)
  case (Suc n)
  let ?info = "ucast (m p) :: u32"
  let ?c = "sequence_bytes (swd_seq_count ?info)"
  obtain bytes t where b: "SWD_Sequence (e_hw E) (e_words E) ?info (mem_from m (Suc p)) s = (bytes, t)"
    by fastforce
  have w: "wire_only s t"
    using length_SWD_Sequence(2) [of s "e_hw E" "e_words E" ?info "mem_from m (Suc p)"] by (simp only: b snd_conv)
  have c: "?c \<le> 8" by (rule sequence_bytes_le [OF seq_counts(1)])
  show ?case
  proof (cases "?info AND SWD_SEQUENCE_DIN \<noteq> 0")
    case True
    then have l: "length bytes = ?c"
      using length_SWD_Sequence(1) [OF True, of "e_hw E" "e_words E" "mem_from m (Suc p)" s] by (simp only: b fst_conv)
    have "swd_sequences n E m (p + 1) (of_nat (q + 1)) (of_nat (length (out @ bytes))) (out @ bytes) t = (rq, rs, out', s')"
      using Suc.prems True by (simp add: Let_def b l add_ac del: mem_from_at)
    from Suc.IH [OF this] w c l show ?thesis by (auto intro: wire_only_trans)
  next
    case False
    then have "swd_sequences n E m (p + 1 + ?c) (of_nat (q + ?c + 1)) (of_nat (length out)) out t = (rq, rs, out', s')"
      using Suc.prems by (simp add: Let_def b add_ac del: mem_from_at)
    from Suc.IH [OF this] w c show ?thesis by (auto intro: wire_only_trans)
  qed
qed auto

lemma jtag_sequences_lengths:
  assumes "jtag_sequences n E m p (of_nat q) (of_nat (length out)) out s = (rq, rs, out', s')"
  shows "\<exists>q'. rq = of_nat q' \<and> q' \<le> q + 9 * n \<and> rs = of_nat (length out') \<and>
    length out' \<le> length out + 8 * n \<and> wire_only s s'"
  using assms
proof (induction n arbitrary: p q out s)
  case (Suc n)
  let ?info = "ucast (m p) :: u32"
  let ?c = "sequence_bytes (jtag_seq_count ?info)"
  obtain bytes t where b: "JTAG_Sequence (e_hw E) ?info (mem_from m (Suc p)) s = (bytes, t)"
    by fastforce
  have w: "wire_only s t"
    using wire_only_jtag_ops(1) [of s "e_hw E" ?info "mem_from m (Suc p)" s] by (simp only: b snd_conv) simp
  have c: "?c \<le> 8" by (rule sequence_bytes_le [OF seq_counts(2)])
  have l: "length bytes = (if ?info AND JTAG_SEQUENCE_TDO \<noteq> 0 then ?c else 0)"
    using length_JTAG_Sequence [of "e_hw E" ?info "mem_from m (Suc p)" s] by (simp only: b fst_conv)
  have "jtag_sequences n E m (p + 1 + ?c) (of_nat (q + ?c + 1)) (of_nat (length (out @ bytes))) (out @ bytes) t = (rq, rs, out', s')"
    using Suc.prems by (simp add: Let_def b l add_ac del: mem_from_at split: if_splits)
  from Suc.IH [OF this] w c l show ?case by (auto intro: wire_only_trans split: if_splits)
qed auto

lemma answer_sequences:
  "answer_ok s (DAP_SWD_Sequence E m s)" "answer_ok s (DAP_JTAG_Sequence E m s)"
proof -
  have "answer_ok s (out, push_bit 16 rq OR rs, s')"
    if "swd_sequences (unat (m 0)) E m 1 1 1 [DAP_OK] s = (rq, rs, out, s') \<or>
        jtag_sequences (unat (m 0)) E m 1 1 1 [DAP_OK] s = (rq, rs, out, s')" for rq rs out s'
  proof -
    have "\<exists>q'. rq = of_nat q' \<and> q' \<le> 1 + 9 * unat (m 0) \<and> rs = of_nat (length out) \<and>
        length out \<le> 1 + 8 * unat (m 0) \<and> wire_only s s'"
      using that
    proof
      assume "swd_sequences (unat (m 0)) E m 1 1 1 [DAP_OK] s = (rq, rs, out, s')"
      then show ?thesis
        using swd_sequences_lengths [of "unat (m 0)" E m 1 1 "[DAP_OK]" s rq rs out s'] by simp
    next
      assume "jtag_sequences (unat (m 0)) E m 1 1 1 [DAP_OK] s = (rq, rs, out, s')"
      then show ?thesis
        using jtag_sequences_lengths [of "unat (m 0)" E m 1 1 "[DAP_OK]" s rq rs out s'] by simp
    qed
    then obtain q' where "rq = of_nat q'" "q' \<le> 1 + 9 * unat (m 0)" "rs = of_nat (length out)"
      "length out \<le> 1 + 8 * unat (m 0)" "wire_only s s'" by blast
    moreover from this have "answer_ok s (out, pack_num q' (length out), s')"
      using unat_bounds(1) [of "m 0"] probe_ok_wire_only [of s s'] by (subst answer_pack) auto
    ultimately show ?thesis by (simp add: pack_num_def)
  qed
  then show "answer_ok s (DAP_SWD_Sequence E m s)" "answer_ok s (DAP_JTAG_Sequence E m s)"
    by (simp_all add: DAP_SWD_Sequence_def DAP_JTAG_Sequence_def split: prod.split)
qed

lemma xfer_cancel_le: "xfer_cancel n m p \<le> p + 5 * n"
proof (induction n arbitrary: p)
  case (Suc n)
  have "request_size (m p) \<le> 5" by (simp add: request_size_def Let_def)
  with Suc [of "p + request_size (m p)"] show ?case by simp
qed simp

lemma answer_transfer: "answer_ok s (DAP_Transfer H junk m s)"
proof -
  have n: "unat (m 1) < 256" by (rule unat_bounds)
  have fin: "answer_ok s (of_nat k # v # out, pack_num p (length out + 2), s')"
    if H: "k \<le> unat (m 1)" "length out \<le> 8 * k" "xfer_frame s s'"
      "k = unat (m 1) \<longrightarrow> p = xfer_cancel (unat (m 1)) m 2"
      "k < unat (m 1) \<longrightarrow> v \<noteq> DAP_TRANSFER_OK \<and>
       (\<exists>d \<in> {1..5}. p = xfer_cancel (unat (m 1) - k) m (xfer_cancel k m 2 + d))" for k v out p s'
  proof -
    have "p \<le> 7 + 5 * unat (m 1)"
    proof (cases "k = unat (m 1)")
      case True
      then show ?thesis using H(4) xfer_cancel_le [of "unat (m 1)" m 2] by simp
    next
      case False
      then obtain d where d: "d \<in> {1..5}" "p = xfer_cancel (unat (m 1) - k) m (xfer_cancel k m 2 + d)"
        using H(1,5) by force
      have "p \<le> xfer_cancel k m 2 + d + 5 * (unat (m 1) - k)" using d(2) xfer_cancel_le by simp
      also have "\<dots> \<le> 2 + 5 * k + 5 + 5 * (unat (m 1) - k)"
        using xfer_cancel_le [of k m 2] d(1) by simp
      finally show ?thesis using H(1) by simp
    qed
    then show ?thesis using H(1,2) n probe_ok_xfer_frame [OF H(3)] by (subst answer_pack) auto
  qed
  have swd: "answer_ok s (DAP_SWD_Transfer H junk m s)"
    using swd_outcome [of m H junk s] fin by metis
  have jtag: "answer_ok s (DAP_JTAG_Transfer H junk m s)"
  proof (cases "m 0 < jtag_count s")
    case True
    then show ?thesis using jtag_outcome [of m s H junk] fin by (metis (full_types))
  next
    case False
    then obtain s' where "DAP_JTAG_Transfer H junk m s = ([0, 0], pack_num 1 2, s')" "xfer_frame s s'"
      using jtag_outcome [of m s H junk] by auto
    then show ?thesis by (simp add: probe_ok_xfer_frame)
  qed
  have "xfer_cancel (unat (m 1)) m 2 < 65500" using xfer_cancel_le [of "unat (m 1)" m 2] n by simp
  with swd jtag show ?thesis by (simp add: DAP_Transfer_def DAP_Dummy_Transfer_def del: One_nat_def)
qed

lemma answer_block:
  assumes "unat (le16_at m 1) \<le> 16000"
  shows "answer_ok s (DAP_TransferBlock H junk m s)"
proof -
  obtain r n s' where a: "(if debug_port s = DAP_PORT_SWD then DAP_SWD_TransferBlock H junk m s
      else if debug_port s = DAP_PORT_JTAG then DAP_JTAG_TransferBlock H junk m s
      else ([0, 0, 0], 3, s)) = (r, n, s')"
    using prod_cases3 by blast
  have f: "xfer_frame s s' \<and> length r \<le> 3 + 4 * unat (le16_at m 1) \<and> n = of_nat (length r)"
    using a swdp.swd_transfer_block_frame [of H junk m s r n s'] jtagp.jtag_transfer_block_frame [of H junk m s r n s']
    by (auto simp: DAP_SWD_TransferBlock_def DAP_JTAG_TransferBlock_def split: if_splits)
  define c :: u32 where "c = (if (ucast (m 3) :: u32) AND DAP_TRANSFER_RnW \<noteq> 0 then 4 else 4 + le16_at m 1 * 4)"
  have "unat (le16_at m 1 * 4) = unat (le16_at m 1) * 4"
    using assms by (simp add: unat_word_ariths)
  then have c: "unat c < 65500"
    using assms by (simp add: c_def unat_word_ariths)
  have "answer_ok s (r, pack_num (unat c) (length r), s')"
    using f assms c probe_ok_xfer_frame [of s s'] by (subst answer_pack) auto
  then show ?thesis
    using f unfolding DAP_TransferBlock_def a by (simp add: pack_num_def c_def Let_def or.commute)
qed

lemma command_answer:
  assumes "dap_command E cmd m s = Some (Inr ans)" "probe_ok s"
    and "cmd = 6 \<Longrightarrow> unat (le16_at m 1) \<le> 16000"
  shows "answer_ok s ans"
  using assms answer_simple answer_clock answer_pins answer_jtag_configure answer_sequences
    answer_transfer answer_block
  by (auto simp: dap_command_def Let_def split: if_splits)

lemma block_keeps:
  assumes "probe_ok s"
  shows "probe_ok (snd (snd (DAP_TransferBlock H junk m s)))"
proof -
  have "xfer_frame s (snd (snd (DAP_SWD_TransferBlock H junk m s)))"
    "xfer_frame s (snd (snd (DAP_JTAG_TransferBlock H junk m s)))"
    using swdp.swd_transfer_block_frame [of H junk m s] jtagp.jtag_transfer_block_frame [of H junk m s]
    by (auto simp: DAP_SWD_TransferBlock_def DAP_JTAG_TransferBlock_def intro: prod_cases3
        [of "swd_transfer_block (SWD_Transfer H) junk m s"] prod_cases3 [of "jtag_transfer_block (JTAG_Transfer H) junk m s"])
  then show ?thesis
    using assms by (simp add: DAP_TransferBlock_def Let_def case_prod_beta probe_ok_xfer_frame)
qed

lemma command_keeps:
  assumes "dap_command E cmd m s = Some (Inr (r, n, s'))" "probe_ok s"
  shows "probe_ok s'"
proof (cases "cmd = 6")
  case True
  then have "DAP_TransferBlock (e_hw E) (e_data E) m s = (r, n, s')"
    using assms(1) by (simp add: dap_command_def)
  then show ?thesis using block_keeps [OF assms(2), of "e_hw E" "e_data E" m] by simp
next
  case False
  then show ?thesis using command_answer [OF assms] assms(2) by (auto simp: answer_ok_def)
qed

lemma info_lengths:
  "length (DAP_Info ident) \<le> 20"
  "ucast (of_nat (length (DAP_Info ident)) :: u8) = (of_nat (length (DAP_Info ident)) :: u32)"
proof -
  show l: "length (DAP_Info ident) \<le> 20"
    by (simp add: DAP_Info_def cstring_def DAP_GetVendorString_def DAP_GetProductString_def
        DAP_GetSerNumString_def DAP_GetTargetDeviceVendorString_def DAP_GetTargetDeviceNameString_def
        DAP_GetTargetBoardVendorString_def DAP_GetTargetBoardNameString_def
        DAP_GetProductFirmwareVersionString_def)
  show "ucast (of_nat (length (DAP_Info ident)) :: u8) = (of_nat (length (DAP_Info ident)) :: u32)"
    using l by (simp add: word_unat_eq_iff unat_of_nat_small)
qed

lemma process_cases:
  assumes P: "DAP_ProcessCommand E m s = Inr (r, n, s')"
  obtains (short) "r = [m 0] \<or> r = [ID_DAP_Invalid]" "n = pack_num 1 1" "s' = s"
    | (info) "r = m 0 # ucast (ucast (of_nat (length (DAP_Info (m 1))) :: u8) :: u32) # DAP_Info (m 1)"
      "n = push_bit 16 2 + 2 + ucast (of_nat (length (DAP_Info (m 1))) :: u8)" "s' = s"
    | (cmd) r' num where "r = m 0 # r'" "n = push_bit 16 1 + 1 + num"
      "dap_command E (m 0) (mem_from m 1) s = Some (Inr (r', num, s'))"
proof (cases "m 0 \<ge> 0x80 \<and> m 0 \<le> 0x9F")
  case True
  with P that(1) show ?thesis
    by (simp add: DAP_ProcessCommand_def DAP_ProcessVendorCommand_def del: One_nat_def)
next
  case v: False
  show ?thesis
  proof (cases "m 0 = 0")
    case True
    with P v that(2) show ?thesis by (simp add: DAP_ProcessCommand_def Let_def del: One_nat_def)
  next
    case False
    have D: "DAP_ProcessCommand E m s = (case dap_command E (m 0) (mem_from m 1) s of
        None \<Rightarrow> Inr ([ID_DAP_Invalid], pack_num 1 1, s) | Some (Inl e) \<Rightarrow> Inl e
      | Some (Inr (r, num, s)) \<Rightarrow> Inr (m 0 # r, push_bit 16 1 + 1 + num, s))"
      unfolding DAP_ProcessCommand_def using v False by (simp only: if_False)
    show ?thesis
    proof (cases "dap_command E (m 0) (mem_from m 1) s")
      case None
      with P D that(1) show ?thesis by simp
    next
      case (Some out)
      with P D have "out \<noteq> Inl e" for e by auto
      with Some obtain r' num t where o: "dap_command E (m 0) (mem_from m 1) s = Some (Inr (r', num, t))"
        by (cases out) auto
      with P D have "r = m 0 # r'" "n = push_bit 16 1 + 1 + num" "s' = t" by simp_all
      with o that(3) show ?thesis by simp
    qed
  qed
qed

lemma process_answer:
  assumes P: "DAP_ProcessCommand E m s = Inr (r, n, s')" and ok: "probe_ok s"
    and b: "m 0 = 6 \<Longrightarrow> unat (le16_at m 2) \<le> 16000"
  shows "\<exists>a. 1 \<le> a \<and> a < 65536 \<and> n = of_nat (65536 * a + length r) \<and> length r < 65536 \<and>
    r \<noteq> [] \<and> hd r \<in> {m 0, ID_DAP_Invalid} \<and> probe_ok s'"
proof -
  from P show ?thesis
  proof (cases rule: process_cases)
    case short
    then show ?thesis using ok by (intro exI [of _ 1]) (auto simp: pack_num_def)
  next
    case info
    then show ?thesis
      using ok info_lengths [of "m 1"] by (intro exI [of _ 2]) simp
  next
    case (cmd r' num)
    have "m 0 = 6 \<Longrightarrow> unat (le16_at (mem_from m 1) 1) \<le> 16000"
      using b by (simp add: le16_at_def numeral_2_eq_2 numeral_3_eq_3)
    from command_answer [OF cmd(3) ok this]
    obtain a where a: "a < 65500" "num = of_nat (65536 * a + length r')" "length r' < 65500"
      by (auto simp: answer_ok_def)
    have "n = of_nat (65536 * (a + 1) + length r)"
      by (simp add: cmd(1,2) a(2))
    then show ?thesis
      using a(1,3) cmd(1) command_keeps [OF cmd(3) ok] by (intro exI [of _ "a + 1"]) simp
  qed
qed

text \<open>For a block transfer of any size: as long as the response is short its length word is right.\<close>

lemma block_short:
  assumes T: "DAP_TransferBlock H junk m s = (r, n, s')" and r: "length r < 65500"
  shows "\<exists>a. n = of_nat (65536 * a + length r)"
proof -
  obtain r0 n0 s0 where a: "(if debug_port s = DAP_PORT_SWD then DAP_SWD_TransferBlock H junk m s
      else if debug_port s = DAP_PORT_JTAG then DAP_JTAG_TransferBlock H junk m s
      else ([0, 0, 0], 3, s)) = (r0, n0, s0)"
    using prod_cases3 by blast
  have f: "n0 = of_nat (length r0)"
    using a swdp.swd_transfer_block_frame [of H junk m s r0 n0 s0] jtagp.jtag_transfer_block_frame [of H junk m s r0 n0 s0]
    by (auto simp: DAP_SWD_TransferBlock_def DAP_JTAG_TransferBlock_def split: if_splits)
  define c :: u32 where "c = (if (ucast (m 3) :: u32) AND DAP_TRANSFER_RnW \<noteq> 0 then 4 else 4 + le16_at m 1 * 4)"
  have "r = r0" "n = n0 OR push_bit 16 c"
    using T unfolding DAP_TransferBlock_def a by (simp_all add: c_def Let_def)
  then have "n = push_bit 16 (of_nat (unat c)) OR of_nat (length r)"
    using f by (simp add: or.commute)
  also have "\<dots> = of_nat (65536 * unat c + length r)"
    by (rule push_16_or) (use r in simp)
  finally show ?thesis by blast
qed

lemma process_length:
  assumes P: "DAP_ProcessCommand E m s = Inr (r, n, s')" and ok: "probe_ok s" and r: "length r < 65500"
  shows "resp_len n = length r"
proof (cases "m 0 = 6")
  case False
  then show ?thesis using process_answer [OF P ok] len_word(1) by auto
next
  case True
  have D: "dap_command E 6 m' s = Some (Inr (DAP_TransferBlock (e_hw E) (e_data E) m' s))" for m'
    by (simp add: dap_command_def)
  obtain r' num t where T: "DAP_TransferBlock (e_hw E) (e_data E) (mem_from m 1) s = (r', num, t)"
    using prod_cases3 by blast
  have e: "r = 6 # r'" "n = push_bit 16 1 + 1 + num"
    using P by (simp_all add: DAP_ProcessCommand_def True D T [unfolded One_nat_def])
  obtain a where "num = of_nat (65536 * a + length r')"
    using block_short [OF T] e(1) r by auto
  then have "n = of_nat (65536 * (a + 1) + length r)" by (simp add: e)
  then show ?thesis using len_word(1) [of "length r" "a + 1"] r by simp
qed

lemma process_keeps:
  assumes "DAP_ProcessCommand E m s = Inr (r, n, s')" "probe_ok s"
  shows "probe_ok s'"
  using assms by (cases rule: process_cases) (auto intro: command_keeps)

lemma swj_poll_fault: "swj_poll fuel H sel v start w s = Inl e \<Longrightarrow> e = OutOfFuel"
  by (induction fuel arbitrary: s) (auto simp: Let_def case_prod_beta split: if_splits)

lemma pins_fault: "DAP_SWJ_Pins E m s = Inl e \<Longrightarrow> e = OutOfFuel"
  by (auto simp: DAP_SWJ_Pins_def Let_def case_prod_beta dest: swj_poll_fault split: sum.splits if_splits)

lemma process_fault:
  assumes "probe_ok s"
  shows "DAP_ProcessCommand E m s = Inl e \<longleftrightarrow>
    (m 0 = 0x15 \<and> e = OutOfBounds \<and> 8 < unat (m 1)) \<or>
    (m 0 = 0x10 \<and> DAP_SWJ_Pins E (mem_from m 1) s = Inl e)"
proof (cases "m 0 = 0x15 \<or> m 0 = 0x10")
  case True
  then show ?thesis
    using jtag_configure_cases [OF assms, of "mem_from m 1"]
    by (auto simp: DAP_ProcessCommand_def dap_command_def Let_def DAP_JTAG_DEV_CNT_def split: sum.split)
next
  case False
  then have "dap_command E (m 0) (mem_from m 1) s \<noteq> Some (Inl e)"
    by (simp add: dap_command_def Let_def)
  then have "DAP_ProcessCommand E m s \<noteq> Inl e"
    by (auto simp: DAP_ProcessCommand_def DAP_ProcessVendorCommand_def Let_def split: option.split sum.split)
  with False show ?thesis by simp
qed

section \<open>Batches\<close>

text \<open>What a batch means: its commands one after the other, each at the request bytes the
  previous ones left.\<close>

primrec run_commands ::
  "nat \<Rightarrow> (nat \<Rightarrow> env) \<Rightarrow> mem \<Rightarrow> nat \<Rightarrow> dap \<Rightarrow> fault + (u8 list list \<times> nat \<times> dap)" where
  "run_commands 0 E m p s = Inr ([], p, s)"
| "run_commands (Suc k) E m p s =
     (case DAP_ProcessCommand (E k) (mem_from m p) s of Inl e \<Rightarrow> Inl e
      | Inr (r, n, s) \<Rightarrow>
          (case run_commands k E m (p + req_len n) s of Inl e \<Rightarrow> Inl e
           | Inr (rs, q, s) \<Rightarrow> Inr (r # rs, q, s)))"

definition small_blocks :: "mem \<Rightarrow> bool" where
  "small_blocks m \<longleftrightarrow> (\<forall>p. m p = 6 \<longrightarrow> unat (le16_at m (p + 2)) \<le> 16000)"

lemma execute_eq_run:
  assumes "small_blocks m" "probe_ok s"
  shows "dap_execute k E m p (length out) out (of_nat (65536 * p + length out)) s =
    (case run_commands k E m p s of Inl e \<Rightarrow> Inl e
     | Inr (rs, q, s') \<Rightarrow>
         Inr (out @ concat rs, of_nat (65536 * q + length (out @ concat rs)), s'))"
  using assms(2)
proof (induction k arbitrary: p out s)
  case (Suc k)
  show ?case
  proof (cases "DAP_ProcessCommand (E k) (mem_from m p) s")
    case (Inr ans)
    then obtain r n t where P: "DAP_ProcessCommand (E k) (mem_from m p) s = Inr (r, n, t)"
      by (cases ans) auto
    have "mem_from m p 0 = 6 \<Longrightarrow> unat (le16_at (mem_from m p) 2) \<le> 16000"
      using assms(1) by (simp add: small_blocks_def le16_at_def add.assoc numeral_2_eq_2 numeral_3_eq_3)
    from process_answer [OF P Suc.prems this]
    obtain a where a: "a < 65536" "n = of_nat (65536 * a + length r)" "length r < 65536" "probe_ok t"
      by blast
    have l: "req_len n = a" "resp_len n = length r"
      using a(1,3) unfolding a(2) by (simp_all only: len_word) simp
    have n: "of_nat (65536 * p + length out) + n = (of_nat (65536 * (p + a) + length (out @ r)) :: u32)"
      by (simp add: a(2) distrib_left)
    have "dap_execute (Suc k) E m p (length out) out (of_nat (65536 * p + length out)) s =
        dap_execute k E m (p + a) (length (out @ r)) (out @ r) (of_nat (65536 * (p + a) + length (out @ r))) t"
      unfolding dap_execute.simps P sum.case prod.case l n by (simp only: take_all order_refl length_append)
    then show ?thesis
      unfolding Suc.IH [OF a(4)] run_commands.simps P sum.case prod.case l
      by (auto split: sum.splits)
  qed simp
qed simp

section \<open>Properties\<close>


definition example_env :: env where
  "example_env = \<lparr>e_hw = example_hw {}, e_words = (\<lambda>_. 0), e_data = 0, e_fuel = 15000000\<rparr>"

lemma example_probe_ok: "probe_ok example_dap"
  by (simp add: probe_ok_def example_dap_def DAP_JTAG_DEV_CNT_def DAP_PORT_SWD_def)

lemma example_swd_configure:
  "DAP_ProcessCommand E (mem_of [0x13, 6]) s = Inr ([0x13, 0], 0x20002, s\<lparr>turnaround := 3, data_phase := 1\<rparr>)"
  by (simp add: DAP_ProcessCommand_def mem_of_def dap_command_def DAP_SWD_Configure_def pack_num_def
      DAP_OK_def)






text \<open>The states a probe reaches by commands.\<close>

inductive dap_session :: "dap \<Rightarrow> dap \<Rightarrow> bool" for s where
  start: "dap_session s s"
| command: "dap_session s t \<Longrightarrow> DAP_ProcessCommand E m t = Inr (r, n, u) \<Longrightarrow> dap_session s u"

text \<open>Once set up, a probe whose tables have their eight entries, and whose transfers do not go
  through an SPI peripheral that is not connected, stays well-formed through any sequence of commands.\<close>

theorem session_invariant:
  assumes "dap_session (DAP_Setup H s) t" "length (ir_length s) = 8" "length (ir_before s) = 8"
    "length (ir_after s) = 8" "SWD_TransferSpeed s \<noteq> kTransfer_SPI"
  shows "probe_ok t"
  using assms(1)
proof (induction rule: dap_session.induct)
  case start
  show ?case
    using assms(2-5) by (cases "hw_chip H") (simp_all add: DAP_PORT_SWD_def DAP_Setup_def PORT_OFF_fn_def DAP_SPI_Disable_def
        probe_ok_def DAP_JTAG_DEV_CNT_def CLOCK_DELAY_def CPU_CLOCK_def IO_PORT_WRITE_CYCLES_def
        DAP_PORT_DISABLED_def Let_def)
next
  case (command t E m r n u)
  then show ?case using process_keeps by blast
qed

theorem session_invariant_witness:
  "probe_ok ((DAP_Setup (example_hw {}) example_dap)\<lparr>turnaround := 3, data_phase := 1\<rparr>)"
proof (rule session_invariant)
  show "dap_session (DAP_Setup (example_hw {}) example_dap)
      ((DAP_Setup (example_hw {}) example_dap)\<lparr>turnaround := 3, data_phase := 1\<rparr>)"
    by (rule dap_session.command [OF dap_session.start example_swd_configure [of example_env]])
qed (simp_all add: example_dap_def)

text \<open>
  The RTC, when read twice, has advanced by at least one tick and by less than half its range.
\<close>

definition rtc_advances :: "hw \<Rightarrow> bool" where
  "rtc_advances H \<longleftrightarrow> (\<forall>t. 1 \<le> unat (hw_rtc H (TsRead # t) - hw_rtc H t) \<and>
     unat (hw_rtc H (TsRead # t) - hw_rtc H t) < 2 ^ 31)"

lemma swj_poll_returns:
  assumes "rtc_advances H" "unat wait \<le> 15000000"
  shows "trace s = TsRead # t0 \<Longrightarrow> unat (hw_rtc H t0 - start) < unat wait \<Longrightarrow>
    unat wait - unat (hw_rtc H t0 - start) \<le> fuel \<Longrightarrow>
    \<exists>s'. swj_poll fuel H sel v start wait s = Inr s'"
proof (induction fuel arbitrary: s t0)
  case (Suc fuel)
  let ?now = "hw_rtc H (TsRead # t0)"
  define e where "e = unat (hw_rtc H t0 - start)"
  define d where "d = unat (?now - hw_rtc H t0)"
  have d: "1 \<le> d" "d < 2 ^ 31" using assms(1) by (simp_all add: rtc_advances_def d_def)
  have "e + d < 2 ^ 32" using d(2) Suc.prems(2) assms(2) by (simp add: e_def)
  then have "unat ((hw_rtc H t0 - start) + (?now - hw_rtc H t0)) = e + d"
    by (simp only: e_def d_def unat_word_ariths) simp
  then have now: "unat (?now - start) = e + d" by simp
  have T: "TIMESTAMP_GET H s = (?now, emit TsRead s)"
    using Suc.prems(1) by (simp add: TIMESTAMP_GET_def)
  show ?case
  proof (cases "swj_settled H sel v s \<or> \<not> ?now - start < wait")
    case True
    then show ?thesis by (auto simp: T)
  next
    case False
    then have "unat (?now - start) < unat wait" by (simp add: word_less_nat_alt)
    then have "\<exists>s'. swj_poll fuel H sel v start wait (emit TsRead s) = Inr s'"
      using Suc.prems d(1) by (intro Suc.IH [of _ "TsRead # t0"]) (simp_all add: now e_def [symmetric])
    with False show ?thesis by (simp add: T)
  qed
qed simp

text \<open>The pin poll of SWJ\_Pins ends: with an RTC that advances, 15,000,000 iterations are
  always enough (three seconds, the largest wait the command accepts, at 5 MHz), whatever the
  pins do.\<close>

theorem swj_pins_returns:
  assumes "rtc_advances (e_hw E)" "15000000 \<le> e_fuel E"
  shows "\<exists>r s'. DAP_SWJ_Pins E m s = Inr ([r], pack_num 6 1, s')"
proof -
  define w where "w = (let w = le32_at m 2; w = (if w > 3000000 then 3000000 else w) in w * (TIMESTAMP_CLOCK div 1000000))"
  have "unat (if le32_at m 2 > 3000000 then 3000000 else le32_at m 2) \<le> 3000000"
    by (auto simp: word_le_nat_alt not_less)
  then have w: "unat w \<le> 15000000"
    by (simp add: w_def Let_def TIMESTAMP_CLOCK_def unat_word_ariths del: if_distrib)
  have poll: "\<exists>s'. swj_poll (e_fuel E) (e_hw E) sel v (fst (TIMESTAMP_GET (e_hw E) u)) w (snd (TIMESTAMP_GET (e_hw E) u)) = Inr s'"
    if "w \<noteq> 0" for sel v u
    using assms w that
    by (intro swj_poll_returns [of _ _ _ "trace u"]) (simp_all add: TIMESTAMP_GET_def unat_gt_0)
  define t where "t = (if SWD_TransferSpeed s = kTransfer_SPI then DAP_SPI_Deinit s else s)"
  define u where "u = swj_drive (ucast (m 1)) (ucast (m 0)) t"
  have nz: "le32_at m 2 = 0" if "w = 0"
  proof (rule ccontr)
    assume "le32_at m 2 \<noteq> 0"
    then have "0 < unat (if le32_at m 2 > 3000000 then 3000000 else le32_at m 2)" by (simp add: unat_gt_0)
    moreover have "unat w = unat (if le32_at m 2 > 3000000 then 3000000 else le32_at m 2) * 5"
      using \<open>unat (if _ then _ else _) \<le> 3000000\<close>
      by (simp only: w_def Let_def TIMESTAMP_CLOCK_def unat_word_ariths) simp
    ultimately show False using that by simp
  qed
  show ?thesis
  proof (cases "le32_at m 2 = 0")
    case True
    then show ?thesis by (simp add: DAP_SWJ_Pins_def Let_def)
  next
    case False
    then have "w \<noteq> 0" using nz by blast
    then obtain s' where "swj_poll (e_fuel E) (e_hw E) (ucast (m 1)) (ucast (m 0))
        (fst (TIMESTAMP_GET (e_hw E) u)) w (snd (TIMESTAMP_GET (e_hw E) u)) = Inr s'"
      using poll by blast
    with False show ?thesis
      unfolding DAP_SWJ_Pins_def w_def u_def t_def Let_def case_prod_beta by simp
  qed
qed

theorem swj_pins_returns_witness:
  "\<exists>r s'. DAP_SWJ_Pins \<lparr>e_hw = example_hw {}, e_words = (\<lambda>_. 0), e_data = 0, e_fuel = 15000000\<rparr>
    (mem_of [0x83, 0x01, 0x40, 0x42, 0x0F, 0]) example_dap = Inr ([r], pack_num 6 1, s')"
  by (rule swj_pins_returns) (simp_all add: rtc_advances_def example_hw_def)

text \<open>JTAG\_Configure with up to eight devices stores the given instruction register lengths
  and, for each device, the total length of those before and of those after it.\<close>

theorem jtag_configure_tables:
  assumes "probe_ok s" "unat (m 0) \<le> 8"
  shows "\<exists>s'. DAP_JTAG_Configure m s = Inr ([DAP_OK], push_bit 16 (ucast (m 0) + 1) OR 1, s') \<and>
    jtag_count s' = m 0 \<and>
    (\<forall>i < unat (m 0). ir_length s' ! i = m (i + 1) \<and>
       unat (ir_before s' ! i) = (\<Sum>k \<in> {0..<i}. unat (m (k + 1))) \<and>
       unat (ir_after s' ! i) = (\<Sum>k \<in> {i + 1..<unat (m 0)}. unat (m (k + 1))))"
proof -
  have b: "ir_bits m a c < 65536" if "c \<le> 8" for a c
  proof -
    have "ir_bits m a c \<le> of_nat (card {a..<c}) * 255"
      unfolding ir_bits_def by (rule sum_bounded_above) (use unat_bounds(1) in \<open>simp add: less_Suc_eq_le [symmetric]\<close>)
    then show ?thesis using that by simp
  qed
  have "unat (of_nat (ir_bits m a c) :: u16) = ir_bits m a c" if "c \<le> 8" for a c
    using b [OF that] by (simp add: unat_of_nat_small)
  then show ?thesis
    using assms by (simp add: jtag_configure_cases DAP_JTAG_DEV_CNT_def configured_def Let_def
        table_upto_nth ir_bits_def)
qed

theorem jtag_configure_tables_witness:
  "\<exists>s'. DAP_JTAG_Configure (mem_of [2, 4, 5]) example_dap =
      Inr ([DAP_OK], push_bit 16 (ucast (mem_of [2, 4, 5] 0) + 1) OR 1, s') \<and>
    jtag_count s' = mem_of [2, 4, 5] 0 \<and>
    (\<forall>i < unat (mem_of [2, 4, 5] 0). ir_length s' ! i = mem_of [2, 4, 5] (i + 1) \<and>
       unat (ir_before s' ! i) = (\<Sum>k \<in> {0..<i}. unat (mem_of [2, 4, 5] (k + 1))) \<and>
       unat (ir_after s' ! i) = (\<Sum>k \<in> {i + 1..<unat (mem_of [2, 4, 5] 0)}. unat (mem_of [2, 4, 5] (k + 1))))"
  by (rule jtag_configure_tables [OF example_probe_ok]) (simp add: mem_of_def)

text \<open>SWJ\_Clock refuses a zero clock and otherwise selects the transfer engine by the
  thresholds 2 MHz and 10 MHz, never the SPI one for JTAG; the delay it sets is never zero.\<close>

theorem swj_clock_modes:
  "let clock = le32_at m 0; (r, n, s') = DAP_SWJ_Clock H m s in
   n = pack_num 4 1 \<and> debug_port s' = debug_port s \<and>
   (if clock = 0 then r = [DAP_ERROR] \<and> s' = s
    else r = [DAP_OK] \<and> clock_delay s' \<noteq> 0 \<and>
      fast_clock s' = (if clock < 2000000 then 0 else 1) \<and>
      SWD_TransferSpeed s' =
        (if clock < 2000000 then kTransfer_GPIO_normal
         else if clock < 10000000 \<or> debug_port s = DAP_PORT_JTAG then kTransfer_GPIO_fast
         else kTransfer_SPI))"
proof -
  have "\<not> (10000000 \<le> le32_at m 0 \<and> le32_at m 0 < 2000000)"
    by (auto simp: word_le_nat_alt word_less_nat_alt)
  then show ?thesis
    using swj_clock_delay_nonzero [of "hw_chip H" "le32_at m 0"]
    by (auto simp: DAP_SWJ_Clock_def Let_def DAP_SPI_Init_def DAP_SPI_Deinit_def not_le not_less)
qed

text \<open>The Delay command busy-waits in proportion to the requested microseconds (80 loop
  iterations each on the ESP32 and ESP32-S3, 6 on the ESP32-C3), except that a delay of zero
  waits for 2^32 iterations.\<close>

theorem delay_command_iterations:
  "\<exists>d. DAP_Delay H m s = ([DAP_OK], pack_num 2 1, emit (Busy d) s) \<and>
    delay_iterations d = (if le16_at m 0 = 0 then 2 ^ 32
      else unat (le16_at m 0) * (if hw_chip H = ESP32C3 then 6 else 80))"
proof -
  define k :: u32 where "k = (if hw_chip H = ESP32C3 then 6 else 80)"
  have k: "(CPU_CLOCK (hw_chip H) div 1000000 + (DELAY_SLOW_CYCLES - 1)) div DELAY_SLOW_CYCLES = k"
    by (cases "hw_chip H") (simp_all add: CPU_CLOCK_def DELAY_SLOW_CYCLES_def k_def)
  have "unat (le16_at m 0) < 65536"
    using le16_at_less by blast
  then have u: "unat (le16_at m 0 * k) = unat (le16_at m 0) * unat k"
    by (simp add: unat_word_ariths k_def)
  have "delay_iterations (d - 1 + 1) = Suc (unat (d - 1))" for d by (rule delay_iterations_eq)
  then have "delay_iterations d = (if d = 0 then 2 ^ 32 else unat d)" for d
    using unat_minus_one [of d] unat_gt_0 [of d]
    by (auto simp: Suc_pred unsigned_minus_1_eq_mask mask_eq_exp_minus_1)
  then have "delay_iterations (le16_at m 0 * k) = (if le16_at m 0 = 0 then 2 ^ 32 else unat (le16_at m 0) * unat k)"
    using u by (auto simp: k_def unat_eq_0 [symmetric] simp del: unat_eq_0)
  then show ?thesis
    by (intro exI [of _ "le16_at m 0 * k"]) (simp add: DAP_Delay_def PIN_DELAY_SLOW_def Let_def k, simp add: k_def)
qed

end
