(* ===== verification/Gpio.thy ===== *)
theory Gpio
  imports DapCmd
begin

text \<open>
  The pins at register level: the pin numbers, \<open>PORT_*\<close>, \<open>PIN_*\<close> and \<open>DAP_SETUP\<close> of
  DAP_config.h, the GPIO operations of gpio_op.h and the switching between the SPI peripheral
  and the GPIO block of spi_switch.c, for the three chips the build supports.

  A function of the source is the list of register accesses and vendor calls it makes, in
  order.  What such an access does is hardware (or ESP-IDF), hence a parameter: \<open>step\<close>, on an
  arbitrary state of the chip of which \<open>view\<close> shows the registers.  The locale \<open>gpio_block\<close>
  states the documented behaviour the source relies on, and \<open>effect\<close> is an instance.  The
  theorems connect these accesses to the events of the model of the debug port (Wire): what
  the events say of the pins is what the registers hold.
\<close>

section \<open>Accesses\<close>

datatype gpio_reg = Out_w1ts | Out_w1tc | Enable_w1ts | Enable_w1tc

text \<open>The values of a pad's function selector the source uses, by their names; \<open>Reset_function\<close>
  is what a pad has before.\<close>

datatype pad_function = PIN_FUNC_GPIO | FUNC_SPI | FUNC_MTDO_FSPID | FUNC_MTCK_FSPICLK
  | FUNC_MTCK_GPIO6 | FUNC_GPIO11_FSPID | FUNC_GPIO12_FSPICLK | FUNC_GPIO12_GPIO12
  | Reset_function

datatype in_signal = HSPID_IN_IDX | HSPICLK_IN_IDX | FSPID_IN_IDX | FSPICLK_IN_IDX

datatype dport_bit = DPORT_SPI2_CLK_EN | DPORT_SPI2_RST

text \<open>The fields of the SPI peripheral \<open>DAP_SPI\<close>, as register and field.\<close>

datatype spi_field =
    slave_slave_mode | slave_usr_conf
  | user_usr_conf_nxt | user_usr_mosi_highpart | user_usr_miso_highpart | user_cs_setup | user_cs_hold
  | user_doutdin | user_wr_byte_order | user_rd_byte_order | user_usr_dummy | user_ck_i_edge
  | user_rsck_i_edge | user_ck_out_edge | user_usr_command | user_usr_addr
  | ctrl_wr_bit_order | ctrl_rd_bit_order
  | ctrl2_miso_delay_mode | ctrl2_miso_delay_num | din_mode nat | din_num nat
  | clock_clk_equ_sysclk | clock_clkdiv_pre | clock_clkcnt_n | clock_clkcnt_h | clock_clkcnt_l
  | cs_dis nat | ck_idle_edge
  | dma_conf_dma_rx_ena | dma_conf_dma_tx_ena | dma_conf_dma_continue
  | dma_out_link_start | dma_in_link_start
  | clk_gate_clk_en | clk_gate_mst_clk_active | clk_gate_mst_clk_sel

datatype io_op =
    Write gpio_reg u32
  | Or_write gpio_reg u32
  | PIN_FUNC_SELECT nat pad_function
  | PIN_INPUT_ENABLE nat
  | Pad_driver nat bool
  | REG_CLR_FUN_PD nat
  | REG_SET_FUN_PU nat
  | Clear_USB_PAD_ENABLE
  | gpio_ll_output_enable nat
  | gpio_ll_output_disable nat
  | gpio_ll_input_enable nat
  | gpio_ll_od_enable nat
  | gpio_ll_od_disable nat
  | gpio_ll_pulldown_dis nat
  | gpio_ll_pullup_en nat
  | gpio_ll_set_level nat bool
  | gpio_ll_iomux_func_sel nat pad_function
  | gpio_ll_iomux_in nat in_signal
  | gpio_ll_iomux_out nat pad_function bool
  | Sig_in_sel in_signal bool
  | Oen_sel nat bool
  | Oen_inv_sel nat bool
  | Spi_field spi_field u32
  | Dma_conf_or_reset
  | Dma_conf_clear_reset
  | DPORT_SET_PERI_REG_MASK dport_bit
  | DPORT_CLEAR_PERI_REG_MASK dport_bit
  | DPORT_SET_DMA_CHAN_BITS u32 u32 nat
  | periph_ll_enable_clk_clear_rst

section \<open>GPIO operations (gpio\_op.h)\<close>

definition pin_bit :: "nat \<Rightarrow> u32" where "pin_bit n = push_bit n 1"

text \<open>
  On the ESP32-C3 the pin number is compared with the addresses \<open>mux 18\<close> and \<open>mux 19\<close> of
  two registers (\<open>IO_MUX_GPIO18_REG\<close>, \<open>IO_MUX_GPIO19_REG\<close>).
\<close>

definition GPIO_FUNCTION_SET :: "chip \<Rightarrow> (nat \<Rightarrow> nat) \<Rightarrow> nat \<Rightarrow> io_op list" where
  "GPIO_FUNCTION_SET c mux io_num =
     (case c of
        ESP32 \<Rightarrow> [PIN_FUNC_SELECT io_num PIN_FUNC_GPIO]
      | ESP32C3 \<Rightarrow> (if io_num = mux 18 \<or> io_num = mux 19 then [Clear_USB_PAD_ENABLE] else []) @
          [PIN_FUNC_SELECT io_num PIN_FUNC_GPIO]
      | ESP32S3 \<Rightarrow> [gpio_ll_iomux_func_sel io_num PIN_FUNC_GPIO])"

definition GPIO_SET_DIRECTION_NORMAL_OUT :: "chip \<Rightarrow> nat \<Rightarrow> io_op list" where
  "GPIO_SET_DIRECTION_NORMAL_OUT c io_num =
     (case c of
        ESP32S3 \<Rightarrow> [gpio_ll_output_enable io_num, gpio_ll_od_disable io_num]
      | _ \<Rightarrow> [Write Enable_w1ts (pin_bit io_num), Pad_driver io_num False])"

definition GPIO_SET_LEVEL_HIGH :: "chip \<Rightarrow> nat \<Rightarrow> io_op list" where
  "GPIO_SET_LEVEL_HIGH c io_num =
     (if c = ESP32 then [Or_write Out_w1ts (pin_bit io_num)] else [gpio_ll_set_level io_num True])"

definition GPIO_SET_LEVEL_LOW :: "chip \<Rightarrow> nat \<Rightarrow> io_op list" where
  "GPIO_SET_LEVEL_LOW c io_num =
     (if c = ESP32 then [Or_write Out_w1tc (pin_bit io_num)] else [gpio_ll_set_level io_num False])"

text \<open>\<open>inp\<close> is the register \<open>GPIO.in\<close> and \<open>ll_get\<close> the vendor's \<open>gpio_ll_get_level\<close>.\<close>

definition GPIO_GET_LEVEL :: "chip \<Rightarrow> (nat \<Rightarrow> u32) \<Rightarrow> u32 \<Rightarrow> nat \<Rightarrow> u32" where
  "GPIO_GET_LEVEL c ll_get inp io_num =
     (if c = ESP32 then (if drop_bit io_num inp AND 1 \<noteq> 0 then 1 else 0) else ll_get io_num)"

definition GPIO_PULL_UP_ONLY_SET :: "chip \<Rightarrow> nat \<Rightarrow> io_op list" where
  "GPIO_PULL_UP_ONLY_SET c io_num =
     (if c = ESP32S3 then [gpio_ll_pulldown_dis io_num, gpio_ll_pullup_en io_num]
      else [REG_CLR_FUN_PD io_num, REG_SET_FUN_PU io_num])"

section \<open>Pins (DAP\_config.h)\<close>

fun PIN :: "chip \<Rightarrow> pin \<Rightarrow> nat" where
  "PIN ESP32 SWDIO_TMS = 13" | "PIN ESP32 SWCLK_TCK = 14" | "PIN ESP32 TDO = 19"
| "PIN ESP32 TDI = 18" | "PIN ESP32 nRESET = 26"
| "PIN ESP32C3 SWDIO_TMS = 7" | "PIN ESP32C3 SWCLK_TCK = 6" | "PIN ESP32C3 TDO = 3"
| "PIN ESP32C3 TDI = 5" | "PIN ESP32C3 nRESET = 10"
| "PIN ESP32S3 SWDIO_TMS = 11" | "PIN ESP32S3 SWCLK_TCK = 12" | "PIN ESP32S3 TDO = 9"
| "PIN ESP32S3 TDI = 10" | "PIN ESP32S3 nRESET = 13"

definition PIN_nTRST :: "chip \<Rightarrow> nat" where
  "PIN_nTRST c = (case c of ESP32 \<Rightarrow> 25 | ESP32C3 \<Rightarrow> 4 | ESP32S3 \<Rightarrow> 14)"

definition PORT_JTAG_SETUP_ops :: "chip \<Rightarrow> io_op list" where
  "PORT_JTAG_SETUP_ops c =
     (case c of
        ESP32S3 \<Rightarrow>
          [gpio_ll_output_disable (PIN c TDO), gpio_ll_input_enable (PIN c TDO),
           gpio_ll_output_enable (PIN c TDI), gpio_ll_od_disable (PIN c TDI),
           gpio_ll_pulldown_dis (PIN c TDI),
           gpio_ll_output_enable (PIN_nTRST c), gpio_ll_od_enable (PIN_nTRST c),
           gpio_ll_output_enable (PIN c nRESET), gpio_ll_od_enable (PIN c nRESET)]
      | _ \<Rightarrow>
          [Write Enable_w1tc (pin_bit (PIN c TDO)), PIN_INPUT_ENABLE (PIN c TDO),
           Write Enable_w1ts (pin_bit (PIN c TDI)), Pad_driver (PIN c TDI) False,
           REG_CLR_FUN_PD (PIN c TDI),
           Write Enable_w1tc (pin_bit (PIN_nTRST c)), Pad_driver (PIN_nTRST c) True,
           Write Enable_w1tc (pin_bit (PIN c nRESET)), Pad_driver (PIN c nRESET) True]) @
     GPIO_PULL_UP_ONLY_SET c (PIN_nTRST c) @ GPIO_PULL_UP_ONLY_SET c (PIN c nRESET)"

text \<open>\<open>PORT_OFF\<close> without its call of \<open>DAP_SPI_Disable\<close> and, on the ESP32-S3, without the level it sets last.\<close>

definition nreset_idle_ops :: "chip \<Rightarrow> io_op list" where
  "nreset_idle_ops c =
     (if c = ESP32S3 then [gpio_ll_output_enable (PIN c nRESET), gpio_ll_od_enable (PIN c nRESET)]
      else [Write Enable_w1tc (pin_bit (PIN c nRESET)), Pad_driver (PIN c nRESET) True]) @
     GPIO_PULL_UP_ONLY_SET c (PIN c nRESET)"

definition DAP_SPI_Enable_ops :: "chip \<Rightarrow> io_op list" where "DAP_SPI_Enable_ops c = []"
definition DAP_SPI_Disable_ops :: "chip \<Rightarrow> io_op list" where "DAP_SPI_Disable_ops c = []"

definition PORT_OFF_ops :: "chip \<Rightarrow> io_op list" where
  "PORT_OFF_ops c = DAP_SPI_Disable_ops c @ nreset_idle_ops c @
     (if c = ESP32S3 then [gpio_ll_set_level (PIN c nRESET) True] else [])"

definition PIN_SWCLK_TCK_SET_ops :: "chip \<Rightarrow> io_op list" where
  "PIN_SWCLK_TCK_SET_ops c = GPIO_SET_LEVEL_HIGH c (PIN c SWCLK_TCK)"
definition PIN_SWCLK_TCK_CLR_ops :: "chip \<Rightarrow> io_op list" where
  "PIN_SWCLK_TCK_CLR_ops c = GPIO_SET_LEVEL_LOW c (PIN c SWCLK_TCK)"
definition PIN_SWDIO_TMS_SET_ops :: "chip \<Rightarrow> io_op list" where
  "PIN_SWDIO_TMS_SET_ops c = GPIO_SET_LEVEL_HIGH c (PIN c SWDIO_TMS)"
definition PIN_SWDIO_TMS_CLR_ops :: "chip \<Rightarrow> io_op list" where
  "PIN_SWDIO_TMS_CLR_ops c = GPIO_SET_LEVEL_LOW c (PIN c SWDIO_TMS)"

definition PIN_SWDIO_OUT_ops :: "chip \<Rightarrow> u32 \<Rightarrow> io_op list" where
  "PIN_SWDIO_OUT_ops c b =
     (if b AND 1 = 1 then GPIO_SET_LEVEL_HIGH c (PIN c SWDIO_TMS) else GPIO_SET_LEVEL_LOW c (PIN c SWDIO_TMS))"

definition PIN_SWDIO_OUT_DISABLE_ops :: "chip \<Rightarrow> io_op list" where
  "PIN_SWDIO_OUT_DISABLE_ops c =
     (if c = ESP32S3 then [gpio_ll_input_enable (PIN c SWDIO_TMS), gpio_ll_set_level (PIN c SWDIO_TMS) True]
      else [PIN_INPUT_ENABLE (PIN c SWDIO_TMS), Write Out_w1ts (pin_bit (PIN c SWDIO_TMS))])"

definition PIN_TDI_OUT_ops :: "chip \<Rightarrow> u32 \<Rightarrow> io_op list" where
  "PIN_TDI_OUT_ops c b =
     (if b AND 1 = 1 then GPIO_SET_LEVEL_HIGH c (PIN c TDI) else GPIO_SET_LEVEL_LOW c (PIN c TDI))"

definition nreset_off_ops :: "chip \<Rightarrow> io_op list" where
  "nreset_off_ops c = (if c = ESP32S3 then [gpio_ll_output_disable (PIN c nRESET)]
     else [Or_write Enable_w1tc (pin_bit (PIN c nRESET))])"

definition nreset_on_ops :: "chip \<Rightarrow> io_op list" where
  "nreset_on_ops c = (if c = ESP32S3 then [gpio_ll_output_enable (PIN c nRESET)]
     else [Or_write Enable_w1ts (pin_bit (PIN c nRESET))])"

definition PIN_nRESET_OUT_ops :: "chip \<Rightarrow> u32 \<Rightarrow> io_op list" where
  "PIN_nRESET_OUT_ops c b =
     (if b AND 1 = 1 then GPIO_SET_LEVEL_HIGH c (PIN c nRESET) @ nreset_off_ops c
      else nreset_on_ops c @ GPIO_SET_LEVEL_LOW c (PIN c nRESET))"

definition DAP_SETUP_ops :: "chip \<Rightarrow> (nat \<Rightarrow> nat) \<Rightarrow> io_op list" where
  "DAP_SETUP_ops c mux =
     GPIO_FUNCTION_SET c mux (PIN c TDO) @ GPIO_FUNCTION_SET c mux (PIN c TDI) @
     GPIO_FUNCTION_SET c mux (PIN_nTRST c) @ GPIO_FUNCTION_SET c mux (PIN c nRESET) @ PORT_OFF_ops c"

section \<open>Switching between the SPI peripheral and GPIO (spi\_switch.c)\<close>

definition SPI_40MHz_DIV :: u32 where "SPI_40MHz_DIV = 2"
definition SPI2_HOST :: u32 where "SPI2_HOST = 1"

text \<open>The clock divider, written alike on every chip.\<close>

definition clock_40MHz :: "io_op list" where
  "clock_40MHz =
     [Spi_field clock_clk_equ_sysclk 0, Spi_field clock_clkdiv_pre 0,
      Spi_field clock_clkcnt_n (SPI_40MHz_DIV - 1),
      Spi_field clock_clkcnt_h (SPI_40MHz_DIV div 2 - 1),
      Spi_field clock_clkcnt_l (SPI_40MHz_DIV - 1)]"

definition DAP_SPI_Init_ESP32 :: "io_op list" where
  "DAP_SPI_Init_ESP32 =
     [Write Out_w1tc (pin_bit 13), Write Out_w1tc (pin_bit 14),
      DPORT_SET_PERI_REG_MASK DPORT_SPI2_CLK_EN, DPORT_CLEAR_PERI_REG_MASK DPORT_SPI2_RST,
      Sig_in_sel HSPID_IN_IDX False, PIN_INPUT_ENABLE 13, Oen_sel 13 False, Oen_inv_sel 13 False,
      PIN_FUNC_SELECT 13 FUNC_SPI,
      Sig_in_sel HSPICLK_IN_IDX False, PIN_INPUT_ENABLE 14, Oen_sel 14 False, Oen_inv_sel 14 False,
      PIN_FUNC_SELECT 14 FUNC_SPI,
      DPORT_SET_DMA_CHAN_BITS 3 0 (unat (SPI2_HOST * 2)),
      Dma_conf_or_reset, Spi_field dma_out_link_start 0, Spi_field dma_in_link_start 0,
      Dma_conf_clear_reset, Spi_field dma_conf_dma_continue 0,
      Spi_field slave_slave_mode 0,
      Spi_field user_usr_mosi_highpart 0, Spi_field user_usr_miso_highpart 0,
      Spi_field user_cs_setup 0, Spi_field user_cs_hold 0,
      Spi_field (cs_dis 0) 1, Spi_field (cs_dis 1) 1, Spi_field (cs_dis 2) 1,
      Spi_field user_doutdin 0,
      Spi_field ctrl_wr_bit_order 1, Spi_field ctrl_rd_bit_order 1,
      Spi_field user_wr_byte_order 0, Spi_field user_rd_byte_order 0,
      Spi_field user_usr_dummy 0] @
     clock_40MHz @
     [Spi_field user_ck_i_edge 1, Spi_field ctrl2_miso_delay_mode 0, Spi_field ctrl2_miso_delay_num 0,
      Spi_field ck_idle_edge 1, Spi_field user_ck_out_edge 0,
      Spi_field user_usr_command 0, Spi_field user_usr_addr 0]"

text \<open>What the ESP32-C3 and the ESP32-S3 write to the peripheral, in the same order.\<close>

definition gpspi2_fields :: "io_op list" where
  "gpspi2_fields =
     [Spi_field user_usr_conf_nxt 0, Spi_field slave_usr_conf 0,
      Spi_field dma_conf_dma_rx_ena 0, Spi_field dma_conf_dma_tx_ena 0,
      Spi_field slave_slave_mode 0,
      Spi_field user_usr_mosi_highpart 0, Spi_field user_usr_miso_highpart 0,
      Spi_field user_cs_setup 0, Spi_field user_cs_hold 0,
      Spi_field (cs_dis 0) 1, Spi_field (cs_dis 1) 1, Spi_field (cs_dis 2) 1,
      Spi_field (cs_dis 3) 1, Spi_field (cs_dis 4) 1, Spi_field (cs_dis 5) 1,
      Spi_field user_doutdin 0,
      Spi_field ctrl_wr_bit_order 1, Spi_field ctrl_rd_bit_order 1,
      Spi_field user_usr_dummy 0] @
     clock_40MHz @
     [Spi_field user_rsck_i_edge 1,
      Spi_field (din_mode 0) 0, Spi_field (din_mode 1) 0, Spi_field (din_mode 2) 0, Spi_field (din_mode 3) 0,
      Spi_field (din_num 0) 0, Spi_field (din_num 1) 0, Spi_field (din_num 2) 0, Spi_field (din_num 3) 0,
      Spi_field ck_idle_edge 1, Spi_field user_ck_out_edge 0,
      Spi_field clk_gate_clk_en 1, Spi_field clk_gate_mst_clk_active 1, Spi_field clk_gate_mst_clk_sel 1,
      Spi_field user_usr_command 0, Spi_field user_usr_addr 0]"

definition DAP_SPI_Init_ESP32C3 :: "io_op list" where
  "DAP_SPI_Init_ESP32C3 =
     [periph_ll_enable_clk_clear_rst, Write Out_w1tc (pin_bit 6), Write Out_w1tc (pin_bit 7),
      Sig_in_sel FSPID_IN_IDX False, PIN_INPUT_ENABLE 7, Oen_sel 7 False, Oen_inv_sel 7 False,
      PIN_FUNC_SELECT 7 FUNC_MTDO_FSPID,
      Sig_in_sel FSPICLK_IN_IDX False, PIN_INPUT_ENABLE 6, Oen_sel 6 False, Oen_inv_sel 6 False,
      PIN_FUNC_SELECT 6 FUNC_MTCK_FSPICLK] @
     gpspi2_fields"

definition DAP_SPI_Init_ESP32S3 :: "io_op list" where
  "DAP_SPI_Init_ESP32S3 =
     [periph_ll_enable_clk_clear_rst,
      gpio_ll_set_level (PIN ESP32S3 SWDIO_TMS) False, gpio_ll_set_level (PIN ESP32S3 SWCLK_TCK) False,
      gpio_ll_iomux_in (PIN ESP32S3 SWCLK_TCK) FSPICLK_IN_IDX,
      gpio_ll_iomux_out (PIN ESP32S3 SWCLK_TCK) FUNC_GPIO12_FSPICLK False,
      gpio_ll_iomux_in (PIN ESP32S3 SWDIO_TMS) FSPID_IN_IDX,
      gpio_ll_iomux_out (PIN ESP32S3 SWDIO_TMS) FUNC_GPIO11_FSPID False] @
     gpspi2_fields"

definition DAP_SPI_Init_ops :: "chip \<Rightarrow> io_op list" where
  "DAP_SPI_Init_ops c =
     (case c of ESP32 \<Rightarrow> DAP_SPI_Init_ESP32 | ESP32C3 \<Rightarrow> DAP_SPI_Init_ESP32C3 | ESP32S3 \<Rightarrow> DAP_SPI_Init_ESP32S3)"

definition DAP_SPI_Deinit_ops :: "chip \<Rightarrow> io_op list" where
  "DAP_SPI_Deinit_ops c =
     (case c of
        ESP32 \<Rightarrow>
          [PIN_FUNC_SELECT 14 PIN_FUNC_GPIO, PIN_FUNC_SELECT 13 PIN_FUNC_GPIO,
           Write Enable_w1ts (pin_bit 14), Or_write Enable_w1ts (pin_bit 13), PIN_INPUT_ENABLE 13]
      | ESP32C3 \<Rightarrow>
          [PIN_FUNC_SELECT 6 PIN_FUNC_GPIO, PIN_FUNC_SELECT 7 PIN_FUNC_GPIO,
           Write Enable_w1ts (pin_bit 6), Or_write Enable_w1ts (pin_bit 7), PIN_INPUT_ENABLE 7]
      | ESP32S3 \<Rightarrow>
          [gpio_ll_iomux_func_sel (PIN c SWCLK_TCK) PIN_FUNC_GPIO,
           gpio_ll_iomux_func_sel (PIN c SWDIO_TMS) PIN_FUNC_GPIO,
           gpio_ll_output_enable (PIN c SWCLK_TCK),
           Or_write Enable_w1ts (pin_bit (PIN c SWDIO_TMS)), gpio_ll_input_enable (PIN c SWDIO_TMS)])"

definition DAP_SPI_Acquire_ops :: "chip \<Rightarrow> io_op list" where
  "DAP_SPI_Acquire_ops c =
     (case c of
        ESP32 \<Rightarrow> [PIN_FUNC_SELECT 14 FUNC_SPI]
      | ESP32C3 \<Rightarrow> [PIN_FUNC_SELECT 6 FUNC_MTCK_FSPICLK]
      | ESP32S3 \<Rightarrow> [gpio_ll_iomux_func_sel (PIN c SWCLK_TCK) FUNC_GPIO12_FSPICLK])"

definition DAP_SPI_Release_ops :: "chip \<Rightarrow> io_op list" where
  "DAP_SPI_Release_ops c =
     (case c of
        ESP32 \<Rightarrow> [PIN_FUNC_SELECT 14 PIN_FUNC_GPIO, Write Enable_w1ts (pin_bit 14)]
      | ESP32C3 \<Rightarrow> [PIN_FUNC_SELECT 6 FUNC_MTCK_GPIO6]
      | ESP32S3 \<Rightarrow> [gpio_ll_iomux_func_sel (PIN c SWCLK_TCK) FUNC_GPIO12_GPIO12])"

definition PORT_SWD_SETUP_ops :: "chip \<Rightarrow> io_op list" where
  "PORT_SWD_SETUP_ops c = DAP_SPI_Deinit_ops c"

section \<open>The registers\<close>

record block =
  out_latch :: u32
  out_enable :: u32
  pad_fn :: "nat \<Rightarrow> pad_function"
  input_on :: "nat \<Rightarrow> bool"
  open_drain :: "nat \<Rightarrow> bool"
  pull_up :: "nat \<Rightarrow> bool"
  pull_down :: "nat \<Rightarrow> bool"
  from_matrix :: "in_signal \<Rightarrow> bool"
  oen_gpio :: "nat \<Rightarrow> bool"
  oen_inverted :: "nat \<Rightarrow> bool"
  spi_field :: "spi_field \<Rightarrow> u32"
  dma_reset :: bool
  dma_channel :: u32
  spi_clock_on :: bool
  spi_in_reset :: bool
  usb_pad :: bool

fun write_reg :: "gpio_reg \<Rightarrow> u32 \<Rightarrow> block \<Rightarrow> block" where
  "write_reg Out_w1ts v b = b\<lparr>out_latch := out_latch b OR v\<rparr>"
| "write_reg Out_w1tc v b = b\<lparr>out_latch := out_latch b AND NOT v\<rparr>"
| "write_reg Enable_w1ts v b = b\<lparr>out_enable := out_enable b OR v\<rparr>"
| "write_reg Enable_w1tc v b = b\<lparr>out_enable := out_enable b AND NOT v\<rparr>"

text \<open>
  The documented effect of each access: the set and clear registers are write-only and read
  as 0, so \<open>|=\<close> is a write; the vendor's inline functions do what their header says.
\<close>

fun effect :: "io_op \<Rightarrow> block \<Rightarrow> block" where
  "effect (Write r v) b = write_reg r v b"
| "effect (Or_write r v) b = write_reg r v b"
| "effect (PIN_FUNC_SELECT n f) b = b\<lparr>pad_fn := (pad_fn b)(n := f)\<rparr>"
| "effect (PIN_INPUT_ENABLE n) b = b\<lparr>input_on := (input_on b)(n := True)\<rparr>"
| "effect (Pad_driver n v) b = b\<lparr>open_drain := (open_drain b)(n := v)\<rparr>"
| "effect (REG_CLR_FUN_PD n) b = b\<lparr>pull_down := (pull_down b)(n := False)\<rparr>"
| "effect (REG_SET_FUN_PU n) b = b\<lparr>pull_up := (pull_up b)(n := True)\<rparr>"
| "effect Clear_USB_PAD_ENABLE b = b\<lparr>usb_pad := False\<rparr>"
| "effect (gpio_ll_output_enable n) b = write_reg Enable_w1ts (pin_bit n) b"
| "effect (gpio_ll_output_disable n) b = write_reg Enable_w1tc (pin_bit n) b"
| "effect (gpio_ll_input_enable n) b = b\<lparr>input_on := (input_on b)(n := True)\<rparr>"
| "effect (gpio_ll_od_enable n) b = b\<lparr>open_drain := (open_drain b)(n := True)\<rparr>"
| "effect (gpio_ll_od_disable n) b = b\<lparr>open_drain := (open_drain b)(n := False)\<rparr>"
| "effect (gpio_ll_pulldown_dis n) b = b\<lparr>pull_down := (pull_down b)(n := False)\<rparr>"
| "effect (gpio_ll_pullup_en n) b = b\<lparr>pull_up := (pull_up b)(n := True)\<rparr>"
| "effect (gpio_ll_set_level n v) b = write_reg (if v then Out_w1ts else Out_w1tc) (pin_bit n) b"
| "effect (gpio_ll_iomux_func_sel n f) b = b\<lparr>pad_fn := (pad_fn b)(n := f)\<rparr>"
| "effect (gpio_ll_iomux_in n i) b =
     b\<lparr>from_matrix := (from_matrix b)(i := False), input_on := (input_on b)(n := True)\<rparr>"
| "effect (gpio_ll_iomux_out n f iv) b =
     b\<lparr>oen_gpio := (oen_gpio b)(n := False), oen_inverted := (oen_inverted b)(n := iv),
       pad_fn := (pad_fn b)(n := f)\<rparr>"
| "effect (Sig_in_sel i v) b = b\<lparr>from_matrix := (from_matrix b)(i := v)\<rparr>"
| "effect (Oen_sel n v) b = b\<lparr>oen_gpio := (oen_gpio b)(n := v)\<rparr>"
| "effect (Oen_inv_sel n v) b = b\<lparr>oen_inverted := (oen_inverted b)(n := v)\<rparr>"
| "effect (Spi_field f v) b = b\<lparr>spi_field := (spi_field b)(f := v)\<rparr>"
| "effect Dma_conf_or_reset b = b\<lparr>dma_reset := True\<rparr>"
| "effect Dma_conf_clear_reset b = b\<lparr>dma_reset := False\<rparr>"
| "effect (DPORT_SET_PERI_REG_MASK DPORT_SPI2_CLK_EN) b = b\<lparr>spi_clock_on := True\<rparr>"
| "effect (DPORT_SET_PERI_REG_MASK DPORT_SPI2_RST) b = b\<lparr>spi_in_reset := True\<rparr>"
| "effect (DPORT_CLEAR_PERI_REG_MASK DPORT_SPI2_CLK_EN) b = b\<lparr>spi_clock_on := False\<rparr>"
| "effect (DPORT_CLEAR_PERI_REG_MASK DPORT_SPI2_RST) b = b\<lparr>spi_in_reset := False\<rparr>"
| "effect (DPORT_SET_DMA_CHAN_BITS m v k) b =
     b\<lparr>dma_channel := (dma_channel b AND NOT (push_bit k m)) OR push_bit k (v AND m)\<rparr>"
| "effect periph_ll_enable_clk_clear_rst b = b\<lparr>spi_clock_on := True, spi_in_reset := False\<rparr>"

definition run_ops :: "(io_op \<Rightarrow> 'h \<Rightarrow> 'h) \<Rightarrow> io_op list \<Rightarrow> 'h \<Rightarrow> 'h" where
  "run_ops step ops h = fold step ops h"

lemma run_ops_simps [simp]:
  "run_ops step [] h = h"
  "run_ops step (e # es) h = run_ops step es (step e h)"
  "run_ops step (es @ fs) h = run_ops step fs (run_ops step es h)"
  by (simp_all add: run_ops_def)

locale gpio_block =
  fixes step :: "io_op \<Rightarrow> 'h \<Rightarrow> 'h" and view :: "'h \<Rightarrow> block"
  assumes step_effect: "view (step e h) = effect e (view h)"
begin

lemma view_run: "view (run_ops step es h) = run_ops effect es (view h)"
  by (induction es arbitrary: h) (simp_all add: step_effect)

end

interpretation registers: gpio_block effect "\<lambda>b. b"
  by unfold_locales simp

section \<open>What the events say of the pins\<close>

text \<open>
  The output level and the output driver of each pin, those of nTRST, and what the data and
  the clock pin are connected to.  \<open>pads\_of\<close> reads them from the registers, \<open>pads\_step\<close>
  from an event of the debug port.
\<close>

record pads =
  level :: "pin \<Rightarrow> bool"
  drives :: "pin \<Rightarrow> bool"
  trst_level :: bool
  trst_drives :: bool
  data_to :: route
  clock_to :: route

definition route_of :: "pad_function \<Rightarrow> route" where
  "route_of f =
     (if f = Reset_function then Unconnected
      else if f = PIN_FUNC_GPIO \<or> f = FUNC_MTCK_GPIO6 \<or> f = FUNC_GPIO12_GPIO12 then To_Gpio else To_Spi)"

definition pads_of :: "chip \<Rightarrow> block \<Rightarrow> pads" where
  "pads_of c b = \<lparr>level = (\<lambda>p. bit (out_latch b) (PIN c p)), drives = (\<lambda>p. bit (out_enable b) (PIN c p)),
     trst_level = bit (out_latch b) (PIN_nTRST c), trst_drives = bit (out_enable b) (PIN_nTRST c),
     data_to = route_of (pad_fn b (PIN c SWDIO_TMS)), clock_to = route_of (pad_fn b (PIN c SWCLK_TCK))\<rparr>"

fun pads_step :: "chip \<Rightarrow> ev \<Rightarrow> pads \<Rightarrow> pads" where
  "pads_step c (PinOut p v) P = P\<lparr>level := (level P)(p := v)\<rparr>"
| "pads_step c NResetFloat P = P\<lparr>drives := (drives P)(nRESET := False)\<rparr>"
| "pads_step c NResetDrive P = P\<lparr>drives := (drives P)(nRESET := True)\<rparr>"
| "pads_step c (Port PORT_JTAG_SETUP) P =
     P\<lparr>drives := (drives P)(TDO := False, TDI := True, nRESET := c = ESP32S3), trst_drives := c = ESP32S3\<rparr>"
| "pads_step c (Port PORT_OFF) P = P\<lparr>drives := (drives P)(nRESET := c = ESP32S3)\<rparr>"
| "pads_step c (SpiCtl SPI_Init) P =
     P\<lparr>level := (level P)(SWCLK_TCK := False, SWDIO_TMS := False), data_to := To_Spi, clock_to := To_Spi\<rparr>"
| "pads_step c (SpiCtl SPI_Deinit) P =
     P\<lparr>drives := (drives P)(SWCLK_TCK := True, SWDIO_TMS := True), data_to := To_Gpio, clock_to := To_Gpio\<rparr>"
| "pads_step c (SpiCtl SPI_Release) P =
     P\<lparr>clock_to := To_Gpio, drives := (if c = ESP32 then (drives P)(SWCLK_TCK := True) else drives P)\<rparr>"
| "pads_step c (SpiCtl SPI_Acquire) P = P\<lparr>clock_to := To_Spi\<rparr>"
| "pads_step c _ P = P"

definition pads_after :: "chip \<Rightarrow> ev list \<Rightarrow> pads \<Rightarrow> pads" where
  "pads_after c es P = foldr (pads_step c) es P"

text \<open>The accesses behind an event, and behind a trace (newest event first).\<close>

fun ev_io :: "chip \<Rightarrow> ev \<Rightarrow> io_op list" where
  "ev_io c (PinOut p v) = (if v then GPIO_SET_LEVEL_HIGH c (PIN c p) else GPIO_SET_LEVEL_LOW c (PIN c p))"
| "ev_io c SwdioInputEnable =
     [if c = ESP32S3 then gpio_ll_input_enable (PIN c SWDIO_TMS) else PIN_INPUT_ENABLE (PIN c SWDIO_TMS)]"
| "ev_io c NResetFloat = nreset_off_ops c"
| "ev_io c NResetDrive = nreset_on_ops c"
| "ev_io c (Port PORT_SWD_SETUP) = []"
| "ev_io c (Port PORT_JTAG_SETUP) = PORT_JTAG_SETUP_ops c"
| "ev_io c (Port PORT_OFF) = nreset_idle_ops c"
| "ev_io c (SpiCtl SPI_Init) = DAP_SPI_Init_ops c"
| "ev_io c (SpiCtl SPI_Deinit) = DAP_SPI_Deinit_ops c"
| "ev_io c (SpiCtl SPI_Enable) = DAP_SPI_Enable_ops c"
| "ev_io c (SpiCtl SPI_Disable) = DAP_SPI_Disable_ops c"
| "ev_io c (SpiCtl SPI_Release) = DAP_SPI_Release_ops c"
| "ev_io c (SpiCtl SPI_Acquire) = DAP_SPI_Acquire_ops c"
| "ev_io c _ = []"

definition accesses :: "chip \<Rightarrow> ev list \<Rightarrow> io_op list" where
  "accesses c es = concat (map (ev_io c) (rev es))"

lemma accesses_simps [simp]: "accesses c [] = []" "accesses c (e # es) = accesses c es @ ev_io c e"
  by (simp_all add: accesses_def)

lemma pads_after_simps [simp]:
  "pads_after c [] P = P" "pads_after c (e # es) P = pads_step c e (pads_after c es P)"
  "pads_after c (es @ fs) P = pads_after c es (pads_after c fs P)"
  by (simp_all add: pads_after_def)

section \<open>The registers follow the events\<close>

lemma PIN_inj [simp]: "PIN c p = PIN c q \<longleftrightarrow> p = q"
  by (cases c; cases p; cases q; simp)

lemma PIN_not_nTRST [simp]: "PIN c p \<noteq> PIN_nTRST c" "PIN_nTRST c \<noteq> PIN c p"
  by (cases c; cases p; simp add: PIN_nTRST_def)+

lemma PIN_bound [simp]: "PIN c p < 32" "PIN_nTRST c < 32"
  by (cases c; cases p; simp) (cases c; simp add: PIN_nTRST_def)

lemma PIN_numerals:
  "PIN ESP32 p = 13 \<longleftrightarrow> p = SWDIO_TMS" "PIN ESP32 p = 14 \<longleftrightarrow> p = SWCLK_TCK"
  "PIN ESP32C3 p = 7 \<longleftrightarrow> p = SWDIO_TMS" "PIN ESP32C3 p = 6 \<longleftrightarrow> p = SWCLK_TCK"
  "PIN_nTRST ESP32 = 25" "PIN_nTRST ESP32C3 = 4"
  by (cases p; simp; fail)+ (simp_all add: PIN_nTRST_def)

declare PIN.simps [simp del]

lemma bit_pin_bit [simp]: "bit (pin_bit n) m \<longleftrightarrow> m = n \<and> n < 32"
  by (auto simp: pin_bit_def bit_simps)

lemma bit_set_clear [simp]:
  "bit (x OR pin_bit n) m \<longleftrightarrow> bit x m \<or> m = n \<and> n < 32"
  "bit (x AND NOT (pin_bit n)) m \<longleftrightarrow> bit x m \<and> \<not> (m = n \<and> n < 32)" for x :: u32
  by (auto simp: bit_simps intro: bit_imp_le_length dest: bit_imp_le_length)

lemma pull_up_keeps_pads [simp]: "pads_of c (run_ops effect (GPIO_PULL_UP_ONLY_SET c' n) b) = pads_of c b"
  by (simp add: GPIO_PULL_UP_ONLY_SET_def pads_of_def)

lemma set_level_pads [simp]:
  "pads_of c (run_ops effect (GPIO_SET_LEVEL_HIGH c (PIN c p)) b) = (pads_of c b)\<lparr>level := (level (pads_of c b))(p := True)\<rparr>"
  "pads_of c (run_ops effect (GPIO_SET_LEVEL_LOW c (PIN c p)) b) = (pads_of c b)\<lparr>level := (level (pads_of c b))(p := False)\<rparr>"
  by (auto simp: GPIO_SET_LEVEL_HIGH_def GPIO_SET_LEVEL_LOW_def pads_of_def fun_eq_iff)

lemma nreset_pads [simp]:
  "pads_of c (run_ops effect (nreset_off_ops c) b) = (pads_of c b)\<lparr>drives := (drives (pads_of c b))(nRESET := False)\<rparr>"
  "pads_of c (run_ops effect (nreset_on_ops c) b) = (pads_of c b)\<lparr>drives := (drives (pads_of c b))(nRESET := True)\<rparr>"
  "pads_of c (run_ops effect (nreset_idle_ops c) b) =
     (pads_of c b)\<lparr>drives := (drives (pads_of c b))(nRESET := c = ESP32S3)\<rparr>"
  by (auto simp: nreset_off_ops_def nreset_on_ops_def nreset_idle_ops_def pads_of_def fun_eq_iff
        GPIO_PULL_UP_ONLY_SET_def)

lemma jtag_setup_pads [simp]:
  "pads_of c (run_ops effect (PORT_JTAG_SETUP_ops c) b) = pads_step c (Port PORT_JTAG_SETUP) (pads_of c b)"
  by (cases c) (auto simp: PORT_JTAG_SETUP_ops_def pads_of_def fun_eq_iff GPIO_PULL_UP_ONLY_SET_def)

lemma route_of_simps [simp]:
  "route_of PIN_FUNC_GPIO = To_Gpio" "route_of FUNC_MTCK_GPIO6 = To_Gpio" "route_of FUNC_GPIO12_GPIO12 = To_Gpio"
  "route_of FUNC_SPI = To_Spi" "route_of FUNC_MTDO_FSPID = To_Spi" "route_of FUNC_MTCK_FSPICLK = To_Spi"
  "route_of FUNC_GPIO11_FSPID = To_Spi" "route_of FUNC_GPIO12_FSPICLK = To_Spi"
  by (simp_all add: route_of_def)

lemma spi_init_pads [simp]:
  "pads_of c (run_ops effect (DAP_SPI_Init_ops c) b) = pads_step c (SpiCtl SPI_Init) (pads_of c b)"
  by (cases c) (auto simp: DAP_SPI_Init_ops_def DAP_SPI_Init_ESP32_def DAP_SPI_Init_ESP32C3_def
        DAP_SPI_Init_ESP32S3_def gpspi2_fields_def clock_40MHz_def pads_of_def fun_eq_iff PIN_numerals)

lemma spi_deinit_pads [simp]:
  "pads_of c (run_ops effect (DAP_SPI_Deinit_ops c) b) = pads_step c (SpiCtl SPI_Deinit) (pads_of c b)"
  by (cases c) (auto simp: DAP_SPI_Deinit_ops_def pads_of_def fun_eq_iff PIN_numerals)

lemma spi_clock_pads [simp]:
  "pads_of c (run_ops effect (DAP_SPI_Acquire_ops c) b) = pads_step c (SpiCtl SPI_Acquire) (pads_of c b)"
  "pads_of c (run_ops effect (DAP_SPI_Release_ops c) b) = pads_step c (SpiCtl SPI_Release) (pads_of c b)"
  by (cases c; auto simp: DAP_SPI_Acquire_ops_def DAP_SPI_Release_ops_def pads_of_def fun_eq_iff PIN_numerals)+

lemma event_pads: "pads_of c (run_ops effect (ev_io c e) b) = pads_step c e (pads_of c b)"
proof (cases e)
  case (Port p)
  then show ?thesis by (cases p) simp_all
next
  case (SpiCtl x)
  then show ?thesis by (cases x) (simp_all add: DAP_SPI_Enable_ops_def DAP_SPI_Disable_ops_def)
next
  case SwdioInputEnable
  then show ?thesis by (simp add: pads_of_def)
qed simp_all

context gpio_block
begin

lemma trace_pads: "pads_of c (view (run_ops step (accesses c es) h)) = pads_after c es (pads_of c (view h))"
  by (induction es) (simp_all add: event_pads view_run)

end

text \<open>The functions of the source, as the model of the debug port has them and as accesses.\<close>

datatype pin_call = Swclk_set | Swclk_clr | Tms_set | Tms_clr | Swdio_out u32 | Swdio_out_enable
  | Swdio_out_disable | Tdi_out u32 | Ntrst_out u32 | Nreset_out u32
  | Swd_setup | Jtag_setup | Off | Setup "nat \<Rightarrow> nat"
  | Spi_init | Spi_deinit | Spi_enable | Spi_disable | Spi_fast_cycle

fun call_dap :: "hw \<Rightarrow> pin_call \<Rightarrow> dap \<Rightarrow> dap" where
  "call_dap H Swclk_set s = PIN_SWCLK_TCK_SET s"
| "call_dap H Swclk_clr s = PIN_SWCLK_TCK_CLR s"
| "call_dap H Tms_set s = PIN_SWDIO_TMS_SET s"
| "call_dap H Tms_clr s = PIN_SWDIO_TMS_CLR s"
| "call_dap H (Swdio_out b) s = PIN_SWDIO_OUT b s"
| "call_dap H Swdio_out_enable s = PIN_SWDIO_OUT_ENABLE s"
| "call_dap H Swdio_out_disable s = PIN_SWDIO_OUT_DISABLE s"
| "call_dap H (Tdi_out b) s = PIN_TDI_OUT b s"
| "call_dap H (Ntrst_out b) s = PIN_nTRST_OUT b s"
| "call_dap H (Nreset_out b) s = PIN_nRESET_OUT b s"
| "call_dap H Swd_setup s = PORT_SWD_SETUP_fn s"
| "call_dap H Jtag_setup s = PORT_JTAG_SETUP_fn s"
| "call_dap H Off s = PORT_OFF_fn H s"
| "call_dap H (Setup mux) s = PORT_OFF_fn H s"
| "call_dap H Spi_init s = DAP_SPI_Init s"
| "call_dap H Spi_deinit s = DAP_SPI_Deinit s"
| "call_dap H Spi_enable s = DAP_SPI_Enable s"
| "call_dap H Spi_disable s = DAP_SPI_Disable s"
| "call_dap H Spi_fast_cycle s = DAP_SPI_Fast_Cycle s"

fun call_ops :: "chip \<Rightarrow> pin_call \<Rightarrow> io_op list" where
  "call_ops c Swclk_set = PIN_SWCLK_TCK_SET_ops c"
| "call_ops c Swclk_clr = PIN_SWCLK_TCK_CLR_ops c"
| "call_ops c Tms_set = PIN_SWDIO_TMS_SET_ops c"
| "call_ops c Tms_clr = PIN_SWDIO_TMS_CLR_ops c"
| "call_ops c (Swdio_out b) = PIN_SWDIO_OUT_ops c b"
| "call_ops c Swdio_out_enable = []"
| "call_ops c Swdio_out_disable = PIN_SWDIO_OUT_DISABLE_ops c"
| "call_ops c (Tdi_out b) = PIN_TDI_OUT_ops c b"
| "call_ops c (Ntrst_out b) = []"
| "call_ops c (Nreset_out b) = PIN_nRESET_OUT_ops c b"
| "call_ops c Swd_setup = PORT_SWD_SETUP_ops c"
| "call_ops c Jtag_setup = PORT_JTAG_SETUP_ops c"
| "call_ops c Off = PORT_OFF_ops c"
| "call_ops c (Setup mux) = DAP_SETUP_ops c mux"
| "call_ops c Spi_init = DAP_SPI_Init_ops c"
| "call_ops c Spi_deinit = DAP_SPI_Deinit_ops c"
| "call_ops c Spi_enable = DAP_SPI_Enable_ops c"
| "call_ops c Spi_disable = DAP_SPI_Disable_ops c"
| "call_ops c Spi_fast_cycle = DAP_SPI_Release_ops c @ DAP_SPI_Acquire_ops c"

lemmas call_defs = PIN_SWCLK_TCK_SET_def PIN_SWCLK_TCK_CLR_def PIN_SWDIO_TMS_SET_def PIN_SWDIO_TMS_CLR_def
  PIN_SWDIO_OUT_def PIN_SWDIO_OUT_ENABLE_def PIN_SWDIO_OUT_DISABLE_def PIN_TDI_OUT_def PIN_nTRST_OUT_def
  PIN_nRESET_OUT_def PORT_SWD_SETUP_fn_def PORT_JTAG_SETUP_fn_def PORT_OFF_fn_def DAP_SPI_Init_def
  DAP_SPI_Deinit_def DAP_SPI_Enable_def DAP_SPI_Disable_def DAP_SPI_Fast_Cycle_def

lemmas call_ops_defs = PIN_SWCLK_TCK_SET_ops_def PIN_SWCLK_TCK_CLR_ops_def PIN_SWDIO_TMS_SET_ops_def
  PIN_SWDIO_TMS_CLR_ops_def PIN_SWDIO_OUT_ops_def PIN_TDI_OUT_ops_def
  PIN_nRESET_OUT_ops_def PORT_SWD_SETUP_ops_def PORT_OFF_ops_def DAP_SETUP_ops_def
  DAP_SPI_Enable_ops_def DAP_SPI_Disable_ops_def

text \<open>\<open>DAP_SETUP\<close> connects four pins to the GPIO block, which is no event, and ends as \<open>PORT_OFF\<close>.
  Connecting a pin other than data and clock to the GPIO block.\<close>

lemma function_set_pads [simp]:
  "n \<noteq> PIN c SWDIO_TMS \<Longrightarrow> n \<noteq> PIN c SWCLK_TCK \<Longrightarrow>
     pads_of c (run_ops effect (GPIO_FUNCTION_SET c mux n) b) = pads_of c b"
  by (cases c) (auto simp: GPIO_FUNCTION_SET_def pads_of_def)

lemma out_disable_pads [simp]:
  "pads_of c (run_ops effect (PIN_SWDIO_OUT_DISABLE_ops c) b) =
     (pads_of c b)\<lparr>level := (level (pads_of c b))(SWDIO_TMS := True)\<rparr>"
  by (auto simp: PIN_SWDIO_OUT_DISABLE_ops_def pads_of_def fun_eq_iff)

lemma level_pads [simp]:
  "pads_of c (b\<lparr>out_latch := out_latch b OR pin_bit (PIN c p)\<rparr>) =
     (pads_of c b)\<lparr>level := (level (pads_of c b))(p := True)\<rparr>"
  by (auto simp: pads_of_def fun_eq_iff)

lemma call_pads:
  assumes "pads_of (hw_chip H) b = pads_after (hw_chip H) (trace s) P"
  shows "pads_of (hw_chip H) (run_ops effect (call_ops (hw_chip H) f) b) =
    pads_after (hw_chip H) (trace (call_dap H f s)) P"
  using assms by (cases f; cases "hw_chip H"; simp add: call_defs call_ops_defs Let_def)

lemma calls_pads:
  assumes "pads_of (hw_chip H) b = pads_after (hw_chip H) (trace s) P"
  shows "pads_of (hw_chip H) (run_ops effect (concat (map (call_ops (hw_chip H)) fs)) b) =
    pads_after (hw_chip H) (trace (fold (call_dap H) fs s)) P"
  using assms by (induction fs arbitrary: b s) (simp_all add: call_pads)

text \<open>The registers after a reset of the chip.\<close>

definition power_on :: block where
  "power_on = \<lparr>out_latch = 0, out_enable = 0, pad_fn = (\<lambda>_. Reset_function), input_on = (\<lambda>_. False),
     open_drain = (\<lambda>_. False), pull_up = (\<lambda>_. False), pull_down = (\<lambda>_. False), from_matrix = (\<lambda>_. True),
     oen_gpio = (\<lambda>_. True), oen_inverted = (\<lambda>_. False), spi_field = (\<lambda>_. 0), dma_reset = False,
     dma_channel = 0, spi_clock_on = False, spi_in_reset = True, usb_pad = True\<rparr>"

definition pads_power_on :: pads where
  "pads_power_on = \<lparr>level = (\<lambda>_. False), drives = (\<lambda>_. False), trst_level = False, trst_drives = False,
     data_to = Unconnected, clock_to = Unconnected\<rparr>"

lemma power_on_pads [simp]: "pads_of c power_on = pads_power_on"
  by (simp add: pads_of_def route_of_def power_on_def pads_power_on_def)

text \<open>C32: The pins at register level refine the events of the debug port: on each of the three
  chips, if the registers agree with the trace about the levels, the output drivers and what
  data and clock are connected to, they still do after any sequence of calls of the pin,
  port and switching functions, made as register accesses on the one side and as events on
  the other.\<close>

theorem registers_refine_events:
  assumes "gpio_block step view"
    and "pads_of (hw_chip H) (view h) = pads_after (hw_chip H) (trace s) P"
  shows "pads_of (hw_chip H) (view (run_ops step (concat (map (call_ops (hw_chip H)) fs)) h)) =
    pads_after (hw_chip H) (trace (fold (call_dap H) fs s)) P"
  using calls_pads [OF assms(2)] gpio_block.view_run [OF assms(1)] by metis

theorem registers_refine_events_witness:
  "level (pads_of ESP32 (run_ops effect (concat (map (call_ops ESP32)
      [Setup (\<lambda>_. 0), Swd_setup, Swdio_out 3, Spi_init, Spi_deinit, Swdio_out_disable])) power_on)) SWDIO_TMS \<and>
   data_to (pads_of ESP32 (run_ops effect (concat (map (call_ops ESP32)
      [Setup (\<lambda>_. 0), Swd_setup, Swdio_out 3, Spi_init, Spi_deinit, Swdio_out_disable])) power_on)) = To_Gpio"
proof -
  let ?H = "example_hw {}"
  let ?fs = "[Setup (\<lambda>_. 0), Swd_setup, Swdio_out 3, Spi_init, Spi_deinit, Swdio_out_disable]"
  have c: "hw_chip ?H = ESP32" by (simp add: example_hw_def)
  have "pads_of (hw_chip ?H) (run_ops effect (concat (map (call_ops (hw_chip ?H)) ?fs)) power_on) =
      pads_after (hw_chip ?H) (trace (fold (call_dap ?H) ?fs (example_dap\<lparr>trace := []\<rparr>))) pads_power_on"
    by (rule registers_refine_events [OF registers.gpio_block_axioms]) simp
  from this [unfolded c] show ?thesis
    by (simp only:) (simp add: call_defs Let_def c)
qed

text \<open>No event changes the level of nTRST, and only one changes its driver.\<close>

lemma trst_after:
  "trst_level (pads_after c es P) = trst_level P"
  "trst_drives (pads_after c es P) \<longleftrightarrow>
     (if Port PORT_JTAG_SETUP \<in> set es then c = ESP32S3 else trst_drives P)"
proof (induction es)
  case (Cons e es)
  have "trst_level (pads_step c e Q) = trst_level Q \<and>
      trst_drives (pads_step c e Q) = (if e = Port PORT_JTAG_SETUP then c = ESP32S3 else trst_drives Q)" for Q
    by (cases "(c, e, Q)" rule: pads_step.cases) simp_all
  with Cons show "trst_level (pads_after c (e # es) P) = trst_level P"
    and "trst_drives (pads_after c (e # es) P) \<longleftrightarrow>
      (if Port PORT_JTAG_SETUP \<in> set (e # es) then c = ESP32S3 else trst_drives P)" by auto
qed simp_all

text \<open>C33: From a chip's reset on, whatever the probe does, the output level of nTRST stays low;
  and once a host has connected for JTAG the ESP32-S3 drives it, while the ESP32 and the
  ESP32-C3 never do.  On the ESP32-S3 the target's test logic is thus held in reset from the
  first JTAG connection on: nothing the probe can do releases the line.\<close>

theorem ntrst_held_low:
  assumes "gpio_block step view" and "pads_of c (view h) = pads_power_on"
  shows "let b = view (run_ops step (accesses c (trace s)) h) in
    \<not> bit (out_latch b) (PIN_nTRST c) \<and>
    (bit (out_enable b) (PIN_nTRST c) \<longleftrightarrow> c = ESP32S3 \<and> Port PORT_JTAG_SETUP \<in> set (trace s))"
proof -
  define b where "b = view (run_ops step (accesses c (trace s)) h)"
  have P: "pads_of c b = pads_after c (trace s) pads_power_on"
    unfolding b_def using gpio_block.trace_pads [OF assms(1)] assms(2) by metis
  show ?thesis unfolding b_def [symmetric] Let_def
    using arg_cong [OF P, of trst_level] arg_cong [OF P, of trst_drives]
    by (simp add: trst_after pads_of_def pads_power_on_def)
qed

theorem ntrst_held_low_witness:
  "let s = snd (snd (DAP_Connect (\<lambda>_. 2) (example_dap\<lparr>trace := []\<rparr>)));
       b = run_ops effect (accesses ESP32S3 (trace s)) power_on
   in \<not> bit (out_latch b) 14 \<and> bit (out_enable b) 14"
proof -
  define s where "s = snd (snd (DAP_Connect (\<lambda>_. 2) (example_dap\<lparr>trace := []\<rparr>)))"
  have "Port PORT_JTAG_SETUP \<in> set (trace s)"
    by (simp add: s_def DAP_Connect_def PORT_JTAG_SETUP_fn_def DAP_PORT_SWD_def DAP_PORT_JTAG_def)
  then show ?thesis unfolding s_def [symmetric]
    using ntrst_held_low [where c = ESP32S3 and s = s, OF registers.gpio_block_axioms power_on_pads]
    by (simp add: Let_def PIN_nTRST_def)
qed

text \<open>C34: Connecting for JTAG and then choosing a clock.  Both commands answer OK.  Below 10 MHz
  the clock and the data pin are connected to the GPIO block with their drivers on; from 10 MHz
  on they stay as they were before, although the probe clocks JTAG through GPIO: undriven after
  a reset of the probe, and connected to the SPI peripheral after a session that used it.\<close>

theorem jtag_clock_pins:
  assumes "gpio_block step view" and "m 0 = 2" and "le32_at m' 0 \<noteq> 0"
  shows "let c = hw_chip H; (r, n, s1) = DAP_Connect m s; (r', n', s2) = DAP_SWJ_Clock H m' s1;
      P = pads_of c (view (run_ops step (accesses c (trace s)) h));
      Q = pads_of c (view (run_ops step (accesses c (trace s2)) h)) in
    r = [DAP_PORT_JTAG] \<and> r' = [DAP_OK] \<and> SWD_TransferSpeed s2 \<noteq> kTransfer_SPI \<and>
    (if le32_at m' 0 \<ge> 10000000
     then data_to Q = data_to P \<and> clock_to Q = clock_to P \<and>
       drives Q SWDIO_TMS = drives P SWDIO_TMS \<and> drives Q SWCLK_TCK = drives P SWCLK_TCK
     else data_to Q = To_Gpio \<and> clock_to Q = To_Gpio \<and> drives Q SWDIO_TMS \<and> drives Q SWCLK_TCK)"
  using assms(2,3)
  by (simp add: gpio_block.trace_pads [OF assms(1)] DAP_Connect_def DAP_SWJ_Clock_def Let_def
      DAP_PORT_SWD_def DAP_PORT_JTAG_def PORT_JTAG_SETUP_fn_def DAP_SPI_Deinit_def)

theorem jtag_clock_pins_witness:
  "let (r, n, s1) = DAP_Connect (\<lambda>_. 2) (DAP_Setup (example_hw {}) (example_dap\<lparr>trace := []\<rparr>));
       (r', n', s2) = DAP_SWJ_Clock (example_hw {}) (\<lambda>_. 1) s1
   in r' = [DAP_OK] \<and> \<not> drives (pads_of ESP32 (run_ops effect (accesses ESP32 (trace s2)) power_on)) SWCLK_TCK"
proof -
  have c: "hw_chip (example_hw {}) = ESP32" by (simp add: example_hw_def)
  have k: "le32_at (\<lambda>_. 1) 0 = 16843009" by (simp add: le32_at_def le32_def)
  have d: "\<not> drives (pads_of ESP32 (run_ops effect (accesses ESP32 (trace (DAP_Setup (example_hw {}) (example_dap\<lparr>trace := []\<rparr>)))) power_on)) SWCLK_TCK"
    by (subst registers.trace_pads) (simp add: DAP_Setup_def PORT_OFF_fn_def c DAP_SPI_Disable_def pads_power_on_def)
  show ?thesis
    using jtag_clock_pins [where m = "\<lambda>_. 2" and m' = "\<lambda>_. 1" and H = "example_hw {}" and h = power_on
        and s = "DAP_Setup (example_hw {}) (example_dap\<lparr>trace := []\<rparr>)", OF registers.gpio_block_axioms] d
    by (auto simp: c k Let_def split: prod.splits)
qed

section \<open>Set-up of the SPI peripheral, levels, and the USB pad\<close>

text \<open>What a list of accesses leaves in a field of the peripheral: the last value written to it.\<close>

fun field_after :: "io_op list \<Rightarrow> spi_field \<Rightarrow> u32 \<Rightarrow> u32" where
  "field_after [] f v = v"
| "field_after (Spi_field g w # es) f v = field_after es f (if g = f then w else v)"
| "field_after (e # es) f v = field_after es f v"

lemma write_reg_spi_field [simp]: "spi_field (write_reg r v b) = spi_field b"
  by (cases r) simp_all

lemma field_after_Cons: "field_after (e # es) f v = field_after es f (field_after [e] f v)"
  by (cases e) simp_all

lemma spi_field_effect: "spi_field (effect e b) f = field_after [e] f (spi_field b f)"
  by (cases "(e, b)" rule: effect.cases) auto

lemma spi_field_run: "spi_field (run_ops effect es b) f = field_after es f (spi_field b f)"
proof (induction es arbitrary: b)
  case (Cons e es)
  show ?case unfolding run_ops_simps Cons.IH spi_field_effect by (rule field_after_Cons [symmetric])
qed simp

lemmas spi_init_lists = DAP_SPI_Init_ops_def DAP_SPI_Init_ESP32_def DAP_SPI_Init_ESP32C3_def
  DAP_SPI_Init_ESP32S3_def gpspi2_fields_def clock_40MHz_def SPI_40MHz_DIV_def

text \<open>
  Whatever was configured before, \<open>DAP_SPI_Init\<close> leaves the peripheral a half-duplex master
  without chip select, command, address or dummy phase, least significant bit first, its
  clock idle high and, from the 80 MHz source, at 40 MHz with half of the counts high.
\<close>

lemma spi_init_fields:
  assumes "F = spi_field (run_ops effect (DAP_SPI_Init_ops c) b)"
  shows "F slave_slave_mode = 0" "F user_doutdin = 0" "F user_usr_command = 0" "F user_usr_addr = 0"
    "F user_usr_dummy = 0" "F user_cs_setup = 0" "F user_cs_hold = 0"
    "F (cs_dis 0) = 1" "F (cs_dis 1) = 1" "F (cs_dis 2) = 1"
    "F ctrl_wr_bit_order = 1" "F ctrl_rd_bit_order = 1" "F ck_idle_edge = 1" "F user_ck_out_edge = 0"
    "F clock_clk_equ_sysclk = 0" "F clock_clkdiv_pre = 0" "F clock_clkcnt_n = 1" "F clock_clkcnt_h = 0"
    "F clock_clkcnt_l = 1"
  unfolding assms spi_field_run by (cases c; simp add: spi_init_lists)+

lemma spi_init_clock:
  assumes "F = spi_field (run_ops effect (DAP_SPI_Init_ops c) b)"
  shows "80000000 div ((F clock_clkdiv_pre + 1) * (F clock_clkcnt_n + 1)) = 40000000"
    and "2 * (F clock_clkcnt_h + 1) = F clock_clkcnt_n + 1"
  by (simp_all add: spi_init_fields [OF assms])

text \<open>Back in GPIO mode both pins are driven, at the low level \<open>DAP_SPI_Init\<close> left, with the data
  pin's input enabled.\<close>

lemma spi_deinit_restores:
  assumes "b' = run_ops effect (DAP_SPI_Deinit_ops c) (run_ops effect (DAP_SPI_Init_ops c) b)"
    and "P = pads_of c b'"
  shows "data_to P = To_Gpio \<and> clock_to P = To_Gpio" "drives P SWCLK_TCK \<and> drives P SWDIO_TMS"
    "\<not> level P SWCLK_TCK \<and> \<not> level P SWDIO_TMS" "input_on b' (PIN c SWDIO_TMS)"
proof -
  show "data_to P = To_Gpio \<and> clock_to P = To_Gpio" "drives P SWCLK_TCK \<and> drives P SWDIO_TMS"
    "\<not> level P SWCLK_TCK \<and> \<not> level P SWDIO_TMS"
    using assms by simp_all
  show "input_on b' (PIN c SWDIO_TMS)"
    using assms(1) by (cases c; simp add: DAP_SPI_Deinit_ops_def PIN.simps)
qed

text \<open>A pin is sampled as its bit of the input register.\<close>

lemma get_level_bit:
  assumes "\<And>n. ll_get n = of_bool (bit inp n)"
  shows "GPIO_GET_LEVEL c ll_get inp n = of_bool (bit inp n)"
proof -
  have "drop_bit n inp AND 1 \<noteq> 0 \<longleftrightarrow> bit inp n"
    by (simp add: and_one_eq bit_iff_odd_drop_bit flip: odd_iff_mod_2_eq_one mod_2_eq_odd)
  then show ?thesis by (simp add: GPIO_GET_LEVEL_def assms)
qed

text \<open>
  The test for the USB pins compares a pin number with register addresses, which lie in the
  peripherals' range: selecting the GPIO function never frees pins 18 and 19 from the USB
  serial port, not even for these pins.
\<close>

lemma function_set_keeps_usb:
  assumes "\<And>i. 0x60000000 \<le> mux i" and "io_num < 32"
  shows "usb_pad (run_ops effect (GPIO_FUNCTION_SET c mux io_num) b) = usb_pad b"
proof -
  have "io_num \<noteq> mux i" for i using assms(1) [of i] assms(2) by simp
  then show ?thesis by (cases c) (simp_all add: GPIO_FUNCTION_SET_def)
qed

end
