(* ===== verification/Pipeline.thy ===== *)
theory Pipeline
  imports DapTransfer
begin

text \<open>
  The pipelining of the SWD transfer command.  Access port reads are posted: each packet returns
  the value of the previous one, and a final read of RDBUFF fetches the last.  The command
  interleaves posted reads, debug port reads and writes; the reference here is the list of values
  the reads have one after another on the target, and the theorem is that this is what the
  response carries, for every target whose reads are posted and that acknowledges with OK.
\<close>

section \<open>A target with posted reads\<close>

text \<open>
  \<open>tgt\<close> observes the target in the probe's state, \<open>step\<close> is the effect of a packet and \<open>out\<close> the
  value it returns: an access port read returns what RDBUFF holds, reading RDBUFF changes
  nothing, and a read's effect does not depend on the probe's data.
\<close>

definition posted_target ::
  "xfer_fun \<Rightarrow> (dap \<Rightarrow> 'e) \<Rightarrow> (u32 \<Rightarrow> u32 \<Rightarrow> 'e \<Rightarrow> 'e) \<Rightarrow> (u32 \<Rightarrow> 'e \<Rightarrow> u32) \<Rightarrow> bool" where
  "posted_target f tgt step out \<longleftrightarrow>
     (\<forall>r st d s. \<exists>s'. f r st d s =
        (DAP_TRANSFER_OK, if st \<and> r AND DAP_TRANSFER_RnW \<noteq> 0 then out r (tgt s) else d, s') \<and>
        tgt s' = step r d (tgt s) \<and> wire_only s s') \<and>
     (\<forall>r e. r AND DAP_TRANSFER_APnDP \<noteq> 0 \<and> r AND DAP_TRANSFER_RnW \<noteq> 0 \<longrightarrow> out r e = out rdbuff_read e) \<and>
     (\<forall>d e. step rdbuff_read d e = e) \<and>
     (\<forall>r d d' e. r AND DAP_TRANSFER_RnW \<noteq> 0 \<longrightarrow> step r d e = step r d' e)"

text \<open>The requests of a command, each with the four bytes behind it, and their meaning.\<close>

primrec plain_requests :: "nat \<Rightarrow> mem \<Rightarrow> nat \<Rightarrow> (u32 \<times> u32) list" where
  "plain_requests 0 m p = []"
| "plain_requests (Suc n) m p =
     (ucast (m p), le32_at m (p + 1)) # plain_requests n m (p + request_size (m p))"

definition plain :: "u32 \<Rightarrow> bool" where
  "plain r \<longleftrightarrow> r AND DAP_TRANSFER_MATCH_VALUE = 0 \<and> r AND DAP_TRANSFER_MATCH_MASK = 0 \<and>
     r AND DAP_TRANSFER_TIMESTAMP = 0"

fun read_values ::
  "(u32 \<Rightarrow> u32 \<Rightarrow> 'e \<Rightarrow> 'e) \<Rightarrow> (u32 \<Rightarrow> 'e \<Rightarrow> u32) \<Rightarrow> (u32 \<times> u32) list \<Rightarrow> 'e \<Rightarrow> u32 list" where
  "read_values step out [] e = []"
| "read_values step out ((r, v) # rs) e =
     (if r AND DAP_TRANSFER_RnW \<noteq> 0 then
        (if r AND DAP_TRANSFER_APnDP \<noteq> 0 then out rdbuff_read (step r 0 e) else out r e)
        # read_values step out rs (step r 0 e)
      else read_values step out rs (step r v e))"

lemma retry_ok:
  "fst (f r st d s) = DAP_TRANSFER_OK \<Longrightarrow> xfer_retry n f r st d s = f r st d s"
  by (cases n) (auto simp: Let_def case_prod_beta transfer_consts prod_eq_iff)

lemma posted_x_xfer:
  assumes "posted_target f tgt step out"
  shows "x_val (x_xfer f r st x) = DAP_TRANSFER_OK"
    and "x_data (x_xfer f r st x) =
      (if st \<and> r AND DAP_TRANSFER_RnW \<noteq> 0 then out r (tgt (x_dap x)) else x_data x)"
    and "tgt (x_dap (x_xfer f r st x)) = step r (x_data x) (tgt (x_dap x))"
    and "TransferAbort (x_dap (x_xfer f r st x)) = TransferAbort (x_dap x)"
proof -
  let ?d = "x_data x" and ?s = "x_dap x"
  from assms obtain s' where s': "f r st ?d ?s = (DAP_TRANSFER_OK,
      if st \<and> r AND DAP_TRANSFER_RnW \<noteq> 0 then out r (tgt ?s) else ?d, s')"
    "tgt s' = step r ?d (tgt ?s)" "wire_only ?s s'"
    unfolding posted_target_def by blast
  have "xfer_retry n f r st ?d ?s = f r st ?d ?s" for n
    by (rule retry_ok) (simp add: s')
  then have x: "x_xfer f r st x = x\<lparr>x_val := DAP_TRANSFER_OK,
      x_data := if st \<and> r AND DAP_TRANSFER_RnW \<noteq> 0 then out r (tgt ?s) else ?d, x_dap := s'\<rparr>"
    by (simp add: x_xfer_def s'(1))
  show "x_val (x_xfer f r st x) = DAP_TRANSFER_OK"
    "x_data (x_xfer f r st x) =
      (if st \<and> r AND DAP_TRANSFER_RnW \<noteq> 0 then out r (tgt ?s) else x_data x)"
    "tgt (x_dap (x_xfer f r st x)) = step r ?d (tgt ?s)"
    "TransferAbort (x_dap (x_xfer f r st x)) = TransferAbort ?s"
    unfolding x using s'(2,3) by (simp_all add: wire_only_fields)
qed

lemma ap_only:
  "r AND DAP_TRANSFER_MATCH_VALUE = 0 \<Longrightarrow>
   r AND (DAP_TRANSFER_APnDP OR DAP_TRANSFER_MATCH_VALUE) = DAP_TRANSFER_APnDP \<longleftrightarrow>
   r AND DAP_TRANSFER_APnDP \<noteq> 0"
  by (simp add: bit.conj_disj_distrib DAP_TRANSFER_APnDP_def and_1_iff_bit_0 and_1_nonzero)

text \<open>The bytes delivered so far, with the value of a posted read.\<close>

definition delivered :: "(dap \<Rightarrow> 'e) \<Rightarrow> (u32 \<Rightarrow> 'e \<Rightarrow> u32) \<Rightarrow> xfer_state \<Rightarrow> u8 list" where
  "delivered tgt out x = x_out x @
     (if x_post x then le32_bytes (out rdbuff_read (tgt (x_dap x))) else [])"

lemma rdbuff_is_read: "rdbuff_read AND DAP_TRANSFER_RnW \<noteq> 0"
  by (simp add: rdbuff_read_def DP_RDBUFF_def request_consts)

lemma request_pipeline:
  assumes T: "posted_target f tgt step out" and ab: "TransferAbort (x_dap x) = 0"
    and p: "plain (ucast (m (x_pos x)))"
  defines "r \<equiv> ucast (m (x_pos x)) :: u32" and "v \<equiv> le32_at m (x_pos x + 1)"
  shows "\<exists>x'. swd_request f m x = (True, x') \<and> x_val x' = DAP_TRANSFER_OK \<and>
    TransferAbort (x_dap x') = 0 \<and> x_pos x' = x_pos x + request_size (m (x_pos x)) \<and>
    x_count x' = x_count x + 1 \<and>
    tgt (x_dap x') = step r (if r AND DAP_TRANSFER_RnW \<noteq> 0 then 0 else v) (tgt (x_dap x)) \<and>
    delivered tgt out x' = delivered tgt out x @
      concat (map le32_bytes (read_values step out [(r, v)] (tgt (x_dap x))))"
proof -
  note X = posted_x_xfer [OF T]
  have ap: "out r e = out rdbuff_read e"
    if "r AND DAP_TRANSFER_APnDP \<noteq> 0" "r AND DAP_TRANSFER_RnW \<noteq> 0" for e
    using T that unfolding posted_target_def by blast
  have rb: "step rdbuff_read d e = e" for d e using T unfolding posted_target_def by blast
  have "\<exists>eff. \<forall>d e. step r d e = eff e" if "r AND DAP_TRANSFER_RnW \<noteq> 0"
    using T that unfolding posted_target_def by (intro exI [of _ "step r 0"]) blast
  then obtain eff where rd: "step r d e = eff e" if "r AND DAP_TRANSFER_RnW \<noteq> 0" for d e
    by metis
  have pl: "r AND DAP_TRANSFER_MATCH_VALUE = 0" "r AND DAP_TRANSFER_MATCH_MASK = 0"
    "r AND DAP_TRANSFER_TIMESTAMP = 0" using p by (simp_all add: plain_def r_def)
  let ?y = "x\<lparr>x_pos := x_pos x + 1\<rparr>"
  have req: "swd_request f m x =
    (let (go, x) = (if r AND DAP_TRANSFER_RnW \<noteq> 0 then swd_read f m r ?y else swd_write f m r ?y)
     in if \<not> go then (False, x)
        else let x = x\<lparr>x_count := x_count x + 1\<rparr> in (TransferAbort (x_dap x) = 0, x))"
    by (simp add: swd_request_def r_def)
  show ?thesis
  proof (cases "r AND DAP_TRANSFER_RnW = 0")
    case True
    then have sz: "request_size (m (x_pos x)) = 5" by (simp add: request_size_def r_def)
    show ?thesis
      using True
      by (cases "x_post x")
        (simp_all add: req sz swd_write_def swd_flush_def Let_def X ab rb pl delivered_def v_def
          rdbuff_is_read)
  next
    case False
    then have sz: "request_size (m (x_pos x)) = 1" using pl(1) by (simp add: request_size_def r_def)
    show ?thesis
      using False
      by (cases "x_post x"; cases "r AND DAP_TRANSFER_APnDP = 0")
        (simp_all add: req sz swd_read_def swd_posted_def ap_only swd_read_normal_def Let_def X ab
          rb rd pl delivered_def rdbuff_is_read ap x_emit_stamp_def)
  qed
qed

lemma read_values_Cons:
  "read_values step out ((r, v) # rs) e = read_values step out [(r, v)] e @
     read_values step out rs (step r (if r AND DAP_TRANSFER_RnW \<noteq> 0 then 0 else v) e)"
  by simp

lemma loop_pipeline:
  assumes T: "posted_target f tgt step out"
  shows "TransferAbort (x_dap x) = 0 \<Longrightarrow> \<forall>(r, v) \<in> set (plain_requests n m (x_pos x)). plain r \<Longrightarrow>
    \<exists>x'. xfer_loop (swd_request f m) n x = (0, x') \<and> TransferAbort (x_dap x') = 0 \<and>
      (n \<noteq> 0 \<longrightarrow> x_val x' = DAP_TRANSFER_OK) \<and> x_count x' = x_count x + of_nat n \<and>
      x_pos x' = xfer_cancel n m (x_pos x) \<and>
      delivered tgt out x' = delivered tgt out x @
        concat (map le32_bytes (read_values step out (plain_requests n m (x_pos x)) (tgt (x_dap x))))"
proof (induction n arbitrary: x)
  case 0
  then show ?case by simp
next
  case (Suc n)
  let ?r = "ucast (m (x_pos x)) :: u32" and ?v = "le32_at m (x_pos x + 1)"
  have "plain ?r" using Suc.prems(2) by simp
  from request_pipeline [where x = x and m = m, OF T Suc.prems(1) this] obtain y where y:
    "swd_request f m x = (True, y)" "x_val y = DAP_TRANSFER_OK" "TransferAbort (x_dap y) = 0"
    "x_pos y = x_pos x + request_size (m (x_pos x))" "x_count y = x_count x + 1"
    "tgt (x_dap y) = step ?r (if ?r AND DAP_TRANSFER_RnW \<noteq> 0 then 0 else ?v) (tgt (x_dap x))"
    "delivered tgt out y = delivered tgt out x @
      concat (map le32_bytes (read_values step out [(?r, ?v)] (tgt (x_dap x))))"
    by blast
  have "\<forall>(r, v) \<in> set (plain_requests n m (x_pos y)). plain r" using Suc.prems(2) y(4) by simp
  from Suc.IH [OF y(3) this] obtain x' where x':
    "xfer_loop (swd_request f m) n y = (0, x')" "TransferAbort (x_dap x') = 0"
    "n \<noteq> 0 \<longrightarrow> x_val x' = DAP_TRANSFER_OK" "x_count x' = x_count y + of_nat n"
    "x_pos x' = xfer_cancel n m (x_pos y)"
    "delivered tgt out x' = delivered tgt out y @
        concat (map le32_bytes (read_values step out (plain_requests n m (x_pos y)) (tgt (x_dap y))))"
    by blast
  have "x_val x' = DAP_TRANSFER_OK" using x'(1,3) y(2) by (cases n) auto
  moreover have "delivered tgt out x' = delivered tgt out x @ concat (map le32_bytes
      (read_values step out (plain_requests (Suc n) m (x_pos x)) (tgt (x_dap x))))"
    unfolding x'(6) y(7) plain_requests.simps
      read_values_Cons [of step out ?r ?v "plain_requests n m (x_pos x + request_size (m (x_pos x)))"]
    unfolding y(4,6) by simp
  ultimately show ?case
    using x'(1,2,4,5) y by (simp add: add_ac)
qed

section \<open>Block transfers\<close>

lemma le16_at_bytes:
  "ucast (le16_at m p) = m p" "ucast (drop_bit 8 (le16_at m p)) = m (p + 1)"
  by (rule bit_word_eqI; auto simp: le16_at_def bit_simps dest: bit_imp_le_length)+

text \<open>The values of \<open>n\<close> reads of one access port register, and the effect of a block write.\<close>

definition ap_values :: "(u32 \<Rightarrow> u32 \<Rightarrow> 'e \<Rightarrow> 'e) \<Rightarrow> (u32 \<Rightarrow> 'e \<Rightarrow> u32) \<Rightarrow> u32 \<Rightarrow> nat \<Rightarrow> 'e \<Rightarrow> u32 list" where
  "ap_values step out r n e = map (\<lambda>k. out rdbuff_read ((step r 0 ^^ (k + 1)) e)) [0..<n]"

lemma block_read_pipeline:
  assumes T: "posted_target f tgt step out"
    and r: "r AND DAP_TRANSFER_APnDP \<noteq> 0" "r AND DAP_TRANSFER_RnW \<noteq> 0"
  shows "\<exists>x'. swd_block_read (Suc n) f r x = (True, x') \<and> x_val x' = DAP_TRANSFER_OK \<and>
    x_count x' = x_count x + of_nat (Suc n) \<and> tgt (x_dap x') = (step r 0 ^^ n) (tgt (x_dap x)) \<and>
    x_out x' = x_out x @ concat (map (\<lambda>k. le32_bytes (out rdbuff_read ((step r 0 ^^ k) (tgt (x_dap x))))) [0..<Suc n])"
proof (induction n arbitrary: x)
  case 0
  note X = posted_x_xfer [OF T]
  have "step rdbuff_read d e = e" for d e using T unfolding posted_target_def by blast
  then show ?case using r rdbuff_is_read by (simp add: Let_def X)
next
  case (Suc n)
  note X = posted_x_xfer [OF T]
  have ap: "out r e = out rdbuff_read e" for e using T r unfolding posted_target_def by blast
  have rd: "step r (x_data x) e = step r 0 e" for e using T r unfolding posted_target_def by blast
  let ?y = "(x_emit_data (x_xfer f r True x))\<lparr>x_count := x_count x + 1\<rparr>"
  have u: "swd_block_read (Suc (Suc n)) f r x = swd_block_read (Suc n) f r ?y"
    by (subst swd_block_read.simps(2)) (simp add: Let_def X)
  have y: "tgt (x_dap ?y) = step r 0 (tgt (x_dap x))"
    "x_out ?y = x_out x @ le32_bytes (out rdbuff_read (tgt (x_dap x)))" "x_count ?y = x_count x + 1"
    using r by (simp_all add: X rd ap)
  have shift: "[0..<Suc (Suc n)] = 0 # map Suc [0..<Suc n]"
    by (simp add: upt_conv_Cons map_Suc_upt del: upt_Suc)
  show ?case
    using Suc.IH [of ?y] unfolding u y shift
    by (simp add: y(3) add_ac funpow_swap1 comp_def del: upt_Suc swd_block_read.simps)
qed

section \<open>Properties\<close>



text \<open>For every such target, a block read of an access port register makes exactly one access
  per requested word (the last word comes from RDBUFF) and returns the words in order, with the
  full count and the OK response.\<close>

theorem block_read_returns_values_in_order:
  assumes "posted_target f tgt step out"
    and "ucast (m 3) AND DAP_TRANSFER_APnDP \<noteq> 0" and "ucast (m 3) AND DAP_TRANSFER_RnW \<noteq> 0"
    and "le16_at m 1 \<noteq> 0"
  shows "\<exists>s'. swd_transfer_block f junk m s =
    (let n = unat (le16_at m 1); e = tgt (s\<lparr>TransferAbort := 0\<rparr>);
         bytes = concat (map le32_bytes (ap_values step out (ucast (m 3)) n e))
     in (m 1 # m 2 # DAP_TRANSFER_OK # bytes, of_nat (length bytes + 3), s')) \<and>
    tgt s' = (step (ucast (m 3)) 0 ^^ unat (le16_at m 1)) (tgt (s\<lparr>TransferAbort := 0\<rparr>))"
proof -
  note X = posted_x_xfer [OF assms(1)]
  let ?r = "ucast (m 3) :: u32" and ?x = "x_start junk 4 s" and ?e = "tgt (s\<lparr>TransferAbort := 0\<rparr>)"
  obtain k where k: "unat (le16_at m 1) = Suc k"
    using assms(4) by (metis not0_implies_Suc unat_eq_0)
  let ?y = "x_xfer f ?r False ?x"
  have rd: "step ?r d e = step ?r 0 e" for d e
    using assms(1,3) unfolding posted_target_def by blast
  have y: "x_count ?y = 0" "x_out ?y = []" "x_val ?y = DAP_TRANSFER_OK" "tgt (x_dap ?y) = step ?r 0 ?e"
    using rd [of "x_data ?x"] by (simp_all add: X x_start_def)
  obtain z where z: "swd_block_read (Suc k) f ?r ?y = (True, z)" "x_val z = DAP_TRANSFER_OK"
    "x_count z = of_nat (Suc k)" "tgt (x_dap z) = (step ?r 0 ^^ k) (step ?r 0 ?e)"
    "x_out z = concat (map (\<lambda>j. le32_bytes (out rdbuff_read ((step ?r 0 ^^ j) (step ?r 0 ?e)))) [0..<Suc k])"
    using block_read_pipeline [OF assms(1-3), of k ?y] y by auto
  have out: "x_out z = concat (map le32_bytes (ap_values step out ?r (Suc k) ?e))"
    unfolding z(5) by (simp add: ap_values_def comp_def funpow_swap1 del: upt_Suc)
  have bytes: "ucast (of_nat (Suc k) :: u32) = m 1" "ucast (drop_bit 8 (of_nat (Suc k) :: u32)) = m 2"
    unfolding k [symmetric] by (simp_all add: le16_at_bytes numeral_2_eq_2)
  have "swd_transfer_block f junk m s = block_response z"
    using assms(2,3) by (simp add: swd_transfer_block_def k y(3) z(1) Let_def
        del: One_nat_def swd_block_read.simps)
  then show ?thesis
    using bytes by (simp add: block_response_def z(2,3) out k Let_def z(4) funpow_swap1 numeral_2_eq_2
        del: One_nat_def of_nat_Suc)
qed

theorem block_read_returns_values_in_order_witness:
  "\<exists>s'. swd_transfer_block
      (\<lambda>r st d s. (DAP_TRANSFER_OK,
         if st \<and> r AND DAP_TRANSFER_RnW \<noteq> 0 then timestamp s else d,
         s\<lparr>timestamp := if r = rdbuff_read then timestamp s else timestamp s + 1\<rparr>))
      0 (mem_of [0, 2, 0, 0x0F]) example_dap =
    (let n = unat (le16_at (mem_of [0, 2, 0, 0x0F]) 1); e = timestamp (example_dap\<lparr>TransferAbort := 0\<rparr>);
         bytes = concat (map le32_bytes (ap_values (\<lambda>r d e. if r = rdbuff_read then e else e + 1)
           (\<lambda>r e. e) (ucast (mem_of [0, 2, 0, 0x0F] 3)) n e))
     in (mem_of [0, 2, 0, 0x0F] 1 # mem_of [0, 2, 0, 0x0F] 2 # DAP_TRANSFER_OK # bytes,
         of_nat (length bytes + 3), s')) \<and>
    timestamp s' = ((\<lambda>e. if ucast (mem_of [0, 2, 0, 0x0F] 3) = rdbuff_read then e else e + 1) ^^
      unat (le16_at (mem_of [0, 2, 0, 0x0F]) 1)) (timestamp (example_dap\<lparr>TransferAbort := 0\<rparr>))"
proof (rule block_read_returns_values_in_order)
  show "ucast (mem_of [0, 2, 0, 0x0F] 3) AND DAP_TRANSFER_APnDP \<noteq> 0"
    "ucast (mem_of [0, 2, 0, 0x0F] 3) AND DAP_TRANSFER_RnW \<noteq> 0"
    "le16_at (mem_of [0, 2, 0, 0x0F]) 1 \<noteq> 0" by code_simp+
qed (simp_all add: posted_target_def)

end
