(* ===== verification/Socket.thy ===== *)
theory Socket
  imports Prelude
begin

text \<open>
  The servers' view of a TCP connection and of their receive buffer.  The peer's bytes arrive in
  segments; one \<open>recv\<close> returns at most one of them and the empty list stands for a return value
  that is not positive (the peer closed, or an error).  How the bytes are cut into segments is
  the network's choice, so a server that reads what it needs in a loop must not depend on it:
  \<open>recv_all_stream\<close> is the lemma the protocol theories use for that.  The byte stores and loads
  that the packed C structs amount to are here too, with the big-endian (network order) words.
\<close>

type_synonym segments = "u8 list list"

fun recv :: "nat \<Rightarrow> segments \<Rightarrow> u8 list \<times> segments" where
  "recv n [] = ([], [])"
| "recv n (x # xs) = (if length x \<le> n then (x, xs) else (take n x, drop n x # xs))"

lemma length_recv: "length (fst (recv n ss)) \<le> n"
  by (cases ss) auto

text \<open>
  The read loop of the servers: \<open>do { ret = recv(sock, data, sz); if (ret <= 0) goto out;
  sz -= ret; data += ret; } while (sz > 0)\<close>.  It returns whether all bytes came, the bytes that
  did, and what is left on the connection.
\<close>

function recv_all :: "nat \<Rightarrow> segments \<Rightarrow> bool \<times> u8 list \<times> segments" where
  "recv_all n ss =
     (if n = 0 then (True, [], ss)
      else let (bs, ss') = recv n ss
           in if bs = [] then (False, [], ss')
              else let (ok, cs, ss'') = recv_all (n - length bs) ss' in (ok, bs @ cs, ss''))"
  by pat_completeness auto
termination
proof (relation "measure fst")
  fix n :: nat and ss x bs ss'
  assume "n \<noteq> 0" "x = recv n ss" "(bs, ss') = x" "bs \<noteq> []"
  then show "((n - length bs, ss'), n, ss) \<in> measure fst"
    by simp
qed simp

declare recv_all.simps [simp del]

lemma recv_all_0 [simp]: "recv_all 0 ss = (True, [], ss)"
  by (simp add: recv_all.simps)

text \<open>Segmentation independence.\<close>

definition live :: "segments \<Rightarrow> bool" where
  "live ss \<longleftrightarrow> [] \<notin> set ss"

lemma recv_stream:
  assumes "live ss" "0 < n" "recv n ss = (bs, ss')"
  shows "live ss'" "bs @ concat ss' = concat ss" "bs = [] \<longleftrightarrow> ss = []"
proof -
  show "live ss'" "bs @ concat ss' = concat ss" "bs = [] \<longleftrightarrow> ss = []"
    using assms by (cases ss; auto simp: live_def split: if_splits)+
qed

lemma live_concat: "live ss \<Longrightarrow> concat ss = [] \<longleftrightarrow> ss = []"
  by (cases ss) (auto simp: live_def)

lemma recv_all_stream:
  assumes "live ss"
  shows "case recv_all n ss of (ok, bs, ss') \<Rightarrow>
    (ok \<longleftrightarrow> n \<le> length (concat ss)) \<and> bs = take n (concat ss) \<and> live ss' \<and>
    concat ss' = drop n (concat ss)"
  using assms
proof (induction n arbitrary: ss rule: less_induct)
  case (less n)
  show ?case
  proof (cases "n = 0")
    case True
    then show ?thesis using less.prems by simp
  next
    case False
    obtain bs ss' where r: "recv n ss = (bs, ss')" by fastforce
    note s = recv_stream [OF less.prems _ r]
    show ?thesis
    proof (cases "bs = []")
      case True
      then have "ss = []" "ss' = []" using s r False by auto
      then show ?thesis
        using False by (subst recv_all.simps) (simp add: live_def)
    next
      case bs: False
      have len: "length bs \<le> n" using length_recv [of n ss] by (simp add: r)
      obtain ok cs ss'' where r2: "recv_all (n - length bs) ss' = (ok, cs, ss'')"
        by (cases "recv_all (n - length bs) ss'") auto
      have "n - length bs < n" using bs False by simp
      from less.IH [OF this, of ss'] s False
      have IH: "ok \<longleftrightarrow> n - length bs \<le> length (concat ss')" "cs = take (n - length bs) (concat ss')"
        "live ss''" "concat ss'' = drop (n - length bs) (concat ss')"
        by (simp_all add: r2)
      have c: "concat ss = bs @ concat ss'" using s False by simp
      have "recv_all n ss = (ok, bs @ cs, ss'')"
        using False bs r r2 by (subst recv_all.simps) simp
      then show ?thesis
        using IH len by (auto simp: c take_append drop_append)
    qed
  qed
qed

lemma recv_all_cong:
  assumes "live ss" "live tt" "concat ss = concat tt"
  shows "fst (recv_all n ss) = fst (recv_all n tt)"
    "fst (snd (recv_all n ss)) = fst (snd (recv_all n tt))"
    "live (snd (snd (recv_all n ss)))" "live (snd (snd (recv_all n tt)))"
    "concat (snd (snd (recv_all n ss))) = concat (snd (snd (recv_all n tt)))"
  using recv_all_stream [OF assms(1), of n] recv_all_stream [OF assms(2), of n] assms(3)
  by (auto simp: case_prod_beta)

section \<open>Buffers\<close>

definition put_bytes :: "nat \<Rightarrow> u8 list \<Rightarrow> mem \<Rightarrow> mem" where
  "put_bytes p bs m = (\<lambda>i. if p \<le> i \<and> i < p + length bs then bs ! (i - p) else m i)"

definition get_bytes :: "nat \<Rightarrow> nat \<Rightarrow> mem \<Rightarrow> u8 list" where
  "get_bytes p n m = map m [p..<p + n]"

lemma length_get_bytes [simp]: "length (get_bytes p n m) = n"
  by (simp add: get_bytes_def)

lemma nth_get_bytes [simp]: "i < n \<Longrightarrow> get_bytes p n m ! i = m (p + i)"
  by (simp add: get_bytes_def)

lemma get_put_same: "get_bytes p (length bs) (put_bytes p bs m) = bs"
  by (rule nth_equalityI) (simp_all add: put_bytes_def)

lemma get_put_other: "q + n \<le> p \<or> p + length bs \<le> q \<Longrightarrow> get_bytes q n (put_bytes p bs m) = get_bytes q n m"
  by (rule nth_equalityI) (auto simp: put_bytes_def)

lemma put_bytes_out: "i < p \<or> p + length bs \<le> i \<Longrightarrow> put_bytes p bs m i = m i"
  by (auto simp: put_bytes_def)

lemma put_bytes_in: "k < length bs \<Longrightarrow> put_bytes p bs m (p + k) = bs ! k"
  by (simp add: put_bytes_def)

lemma put_bytes_Nil [simp]: "put_bytes p [] m = m"
  by (auto simp: put_bytes_def fun_eq_iff)

lemma put_put_append: "put_bytes (p + length xs) ys (put_bytes p xs m) = put_bytes p (xs @ ys) m"
  by (auto simp: put_bytes_def fun_eq_iff nth_append)

lemma get_bytes_append: "get_bytes p (a + b) m = get_bytes p a m @ get_bytes (p + a) b m"
  by (rule nth_equalityI) (auto simp: nth_append)

text \<open>Network byte order on a little-endian machine.\<close>

definition htonl :: "u32 \<Rightarrow> u32" where
  "htonl w = le32 (ucast (drop_bit 24 w)) (ucast (drop_bit 16 w)) (ucast (drop_bit 8 w)) (ucast w)"

definition be32_bytes :: "u32 \<Rightarrow> u8 list" where
  "be32_bytes w = [ucast (drop_bit 24 w), ucast (drop_bit 16 w), ucast (drop_bit 8 w), ucast w]"

definition be16_bytes :: "u16 \<Rightarrow> u8 list" where
  "be16_bytes w = [ucast (drop_bit 8 w), ucast w]"

definition be32_at :: "mem \<Rightarrow> nat \<Rightarrow> u32" where
  "be32_at m p = htonl (le32_at m p)"

definition put32 :: "nat \<Rightarrow> u32 \<Rightarrow> mem \<Rightarrow> mem" where
  "put32 p w = put_bytes p (le32_bytes w)"

lemma le32_bytes_of_le32:
  "le32_bytes (le32 a b c d) = [a, b, c, d]"
proof -
  have "ucast (le32 a b c d) = a" "ucast (drop_bit 8 (le32 a b c d)) = b"
    "ucast (drop_bit 16 (le32 a b c d)) = c" "ucast (drop_bit 24 (le32 a b c d)) = d"
    by (rule bit_word_eqI, auto simp: le32_def bit_simps dest: bit_imp_le_length)+
  then show ?thesis by (simp add: le32_bytes_def)
qed

lemma le32_bytes_htonl: "le32_bytes (htonl w) = be32_bytes w"
  by (simp add: htonl_def le32_bytes_of_le32 be32_bytes_def)

lemma htonl_htonl [simp]: "htonl (htonl w) = w"
proof -
  have "le32_bytes (htonl w) = be32_bytes w" by (rule le32_bytes_htonl)
  then have "ucast (htonl w) = (ucast (drop_bit 24 w) :: u8)"
    "ucast (drop_bit 8 (htonl w)) = (ucast (drop_bit 16 w) :: u8)"
    "ucast (drop_bit 16 (htonl w)) = (ucast (drop_bit 8 w) :: u8)"
    "ucast (drop_bit 24 (htonl w)) = (ucast w :: u8)"
    by (simp_all add: le32_bytes_def be32_bytes_def)
  then show ?thesis
    by (subst (1) htonl_def) (simp add: le32_roundtrip)
qed

lemma le32_at_put32 [simp]: "le32_at (put32 p w m) p = w"
  by (simp add: le32_at_def put32_def put_bytes_def le32_bytes_def le32_roundtrip numeral_2_eq_2 numeral_3_eq_3)

lemma le32_at_put32_other: "p + 4 \<le> q \<or> q + 4 \<le> p \<Longrightarrow> le32_at (put32 p w m) q = le32_at m q"
  by (elim disjE) (simp_all add: le32_at_def put32_def put_bytes_out)

lemma get_put32_same: "get_bytes p 4 (put32 p w m) = le32_bytes w"
  using get_put_same [of p "le32_bytes w" m] by (simp add: put32_def)

lemma get_put32_other: "q + n \<le> p \<or> p + 4 \<le> q \<Longrightarrow> get_bytes q n (put32 p w m) = get_bytes q n m"
  by (simp add: put32_def get_put_other)

end
