(* ===== verification/UsbDesc.thy ===== *)
theory UsbDesc
  imports Prelude
begin

text \<open>
  The descriptors of the emulated USB device (components/USBIP/usb\_descriptor.c and
  MSOS20\_descriptor.c), as byte tables in the configuration the firmware is built with
  (USE\_WINUSB 1, USE\_USB\_3\_0 0), and the parser a host applies to them.
\<close>

definition USBShort :: "u16 \<Rightarrow> u8 list" where
  "USBShort v = [ucast (v AND 0xFF), ucast (drop_bit 8 v)]"

definition USB_DT_DEVICE :: u8 where "USB_DT_DEVICE = 1"
definition USB_DT_CONFIGURATION :: u8 where "USB_DT_CONFIGURATION = 2"
definition USB_DT_STRING :: u8 where "USB_DT_STRING = 3"
definition USB_DT_INTERFACE :: u8 where "USB_DT_INTERFACE = 4"
definition USB_DT_ENDPOINT :: u8 where "USB_DT_ENDPOINT = 5"
definition USB_ENDPOINT_ATTR_BULK :: u8 where "USB_ENDPOINT_ATTR_BULK = 2"
definition USB_ENDPOINT_SIZE :: u16 where "USB_ENDPOINT_SIZE = 512"

definition USBD0_DEV_DESC_IDVENDOR :: u16 where "USBD0_DEV_DESC_IDVENDOR = 0xC251"
definition USBD0_DEV_DESC_IDPRODUCT :: u16 where "USBD0_DEV_DESC_IDPRODUCT = 0xF00A"
definition USBD0_DEV_DESC_BCDDEVICE :: u16 where "USBD0_DEV_DESC_BCDDEVICE = 0x0100"

definition kUSBd0DeviceDescriptor :: "u8 list" where
  "kUSBd0DeviceDescriptor =
     [0x12, USB_DT_DEVICE] @ USBShort 0x210 @ [0, 0, 0, 64] @ USBShort USBD0_DEV_DESC_IDVENDOR @
     USBShort USBD0_DEV_DESC_IDPRODUCT @ USBShort USBD0_DEV_DESC_BCDDEVICE @ [1, 2, 3 * 1, 1]"

definition kUSBd0InterfaceDescriptor :: "u8 list" where
  "kUSBd0InterfaceDescriptor =
     [9, USB_DT_INTERFACE, 0, 0, 3, 0xFF, 0, 0, 2] @
     [7, USB_DT_ENDPOINT, 0x01, USB_ENDPOINT_ATTR_BULK] @ USBShort USB_ENDPOINT_SIZE @ [0] @
     [7, USB_DT_ENDPOINT, 0x81, USB_ENDPOINT_ATTR_BULK] @ USBShort USB_ENDPOINT_SIZE @ [0] @
     [7, USB_DT_ENDPOINT, 0x82, USB_ENDPOINT_ATTR_BULK] @ USBShort USB_ENDPOINT_SIZE @ [0]"

definition LENGTHOFCONFIGDESCRIPTOR :: nat where "LENGTHOFCONFIGDESCRIPTOR = 9"

definition kUSBd0ConfigDescriptor :: "u8 list" where
  "kUSBd0ConfigDescriptor =
     [9, USB_DT_CONFIGURATION] @
     USBShort (of_nat (length kUSBd0InterfaceDescriptor + LENGTHOFCONFIGDESCRIPTOR)) @
     [1, 1, 0, 0x80, 250]"

definition kLangDescriptor :: "u8 list" where
  "kLangDescriptor = [4, USB_DT_STRING] @ USBShort 0x409"

definition utf16 :: "string \<Rightarrow> u8 list" where
  "utf16 str = concat (map (\<lambda>c. [of_nat (of_char c), 0]) str)"

definition kLengthOfMsOS20 :: u16 where "kLengthOfMsOS20 = 0xA2"
definition kLengthOfBos :: u16 where "kLengthOfBos = 0x21"
definition kValueOfbMS_VendorCode :: u8 where "kValueOfbMS_VendorCode = 1"

definition msOs20DescriptorSetHeader :: "u8 list" where
  "msOs20DescriptorSetHeader =
     [0x0A, 0, 0, 0, 0, 0, 3, 6] @ USBShort kLengthOfMsOS20 @
     [0x14, 0] @ USBShort 3 @ map (\<lambda>c. of_nat (of_char c)) ''WINUSB'' @ [0, 0] @ replicate 8 0 @
     [0x84, 0] @ USBShort 4 @ [7, 0, 0x2A, 0] @ utf16 ''DeviceInterfaceGUIDs'' @ [0, 0] @
     [0x50, 0] @ utf16 ''{CDB3B5AD-293B-4663-AA36-1AAE46463776}'' @ [0, 0, 0, 0]"

definition USB_DEVICE_CAPABILITY_UUID :: "u8 list" where
  "USB_DEVICE_CAPABILITY_UUID =
     [0xDF, 0x60, 0xDD, 0xD8, 0x89, 0x45, 0xC7, 0x4C, 0x9C, 0xD2, 0x65, 0x9D, 0x9E, 0x64, 0x8A, 0x9F]"

definition bosDescriptor :: "u8 list" where
  "bosDescriptor =
     [5, 15] @ USBShort kLengthOfBos @ [1] @
     [0x1C, 16, 5, 0] @ USB_DEVICE_CAPABILITY_UUID @ [0, 0, 3, 6] @ USBShort kLengthOfMsOS20 @
     [kValueOfbMS_VendorCode, 0]"

text \<open>\<open>strings_list\<close> of usb\_handle.c; entry 0 is the null pointer.\<close>

definition strings_list :: "string option list" where
  "strings_list = [None, Some ''windowsair'', Some ''Wireless ESP CMSIS-DAP'', Some ''1234'']"

section \<open>How a host reads them\<close>

text \<open>A descriptor block is a sequence of records that start with their own length.\<close>

function split_records :: "u8 list \<Rightarrow> u8 list list option" where
  "split_records bs =
     (if bs = [] then Some []
      else let n = unat (hd bs)
           in if n < 2 \<or> length bs < n then None
              else map_option (\<lambda>rs. take n bs # rs) (split_records (drop n bs)))"
  by pat_completeness auto
termination by (relation "measure length") (auto simp: Let_def)

declare split_records.simps [simp del]

text \<open>The records of a Microsoft OS 2.0 set start with a two-byte length.\<close>

function split_ms_records :: "u8 list \<Rightarrow> u8 list list option" where
  "split_ms_records bs =
     (if bs = [] then Some []
      else let n = (if length bs < 2 then 0 else unat (hd bs) + 256 * unat (bs ! 1))
           in if n < 4 \<or> length bs < n then None
              else map_option (\<lambda>rs. take n bs # rs) (split_ms_records (drop n bs)))"
  by pat_completeness auto
termination by (relation "measure length") (auto simp: Let_def simp del: One_nat_def split: if_splits)

declare split_ms_records.simps [simp del]

definition le16_of :: "u8 list \<Rightarrow> nat \<Rightarrow> nat" where
  "le16_of bs i = unat (bs ! i) + 256 * unat (bs ! (i + 1))"

lemma length_tables:
  "length kUSBd0DeviceDescriptor = 18" "length kUSBd0InterfaceDescriptor = 30"
  "length kUSBd0ConfigDescriptor = 9" "length kLangDescriptor = 4"
  "length msOs20DescriptorSetHeader = 162" "length bosDescriptor = 33"
  by code_simp+


end
