(* ===== verification/Usbip.thy ===== *)
theory Usbip
  imports Socket UsbDesc
begin

text \<open>
  The USB/IP protocol (components/dap\_proxy/usbip\_server.c, components/USBIP/usb\_handle.c):
  the attach phase, the stage 2 header operations and the control requests of endpoint 0.  The
  state is one connection: what is still to be received, what has been passed to \<open>send\<close>, and the
  receive buffer, in which the packed C structs are overlaid and replies are built in place.
\<close>

record conn =
  c_in :: segments
  c_out :: "u8 list list"
  c_buf :: mem

definition usbip_network_send :: "u8 list \<Rightarrow> conn \<Rightarrow> conn" where
  "usbip_network_send bs c = c\<lparr>c_out := c_out c @ [bs]\<rparr>"

section \<open>Stage 1\<close>

datatype usbip_server_state_t = WAIT_DEVLIST | WAIT_IMPORT | WAIT_URB

definition USBIP_STAGE1_CMD_DEVICE_LIST :: u16 where "USBIP_STAGE1_CMD_DEVICE_LIST = 0x05"
definition USBIP_STAGE1_CMD_DEVICE_ATTACH :: u16 where "USBIP_STAGE1_CMD_DEVICE_ATTACH = 0x03"

definition read_stage1_command :: "nat \<Rightarrow> mem \<Rightarrow> u16 option" where
  "read_stage1_command len m =
     (if len < 8 then None
      else Some ((push_bit 8 (ucast (m 2)) OR ucast (m 3)) AND 0xFF))"

definition send_stage1_header :: "u16 \<Rightarrow> u32 \<Rightarrow> conn \<Rightarrow> conn" where
  "send_stage1_header command status =
     usbip_network_send (be16_bytes 273 @ be16_bytes command @ be32_bytes status)"

definition c_string :: "string \<Rightarrow> u8 list" where
  "c_string str = map (\<lambda>c. of_nat (of_char c)) str @ [0]"

text \<open>The device record is a local of the C function: what \<open>strcpy\<close> does not write is whatever
  the stack held (\<open>junk\<close>).\<close>

definition usbip_stage1_usb_device :: "mem \<Rightarrow> mem" where
  "usbip_stage1_usb_device junk =
     (let d = put_bytes 0 (c_string ''/sys/devices/pci0000:00/0000:00:01.2/usb1/1-1'') junk;
          d = put_bytes 256 (c_string ''1-1'') d;
          d = put_bytes 288 (be32_bytes 1) d;
          d = put_bytes 292 (be32_bytes 1) d;
          d = put_bytes 296 (be32_bytes 3) d;
          d = put_bytes 300 (be16_bytes USBD0_DEV_DESC_IDVENDOR) d;
          d = put_bytes 302 (be16_bytes USBD0_DEV_DESC_IDPRODUCT) d;
          d = put_bytes 304 (be16_bytes USBD0_DEV_DESC_BCDDEVICE) d
      in put_bytes 306 [0, 0, 0, 1, 1, 1] d)"

definition send_device_info :: "mem \<Rightarrow> conn \<Rightarrow> conn" where
  "send_device_info junk = usbip_network_send (get_bytes 0 312 (usbip_stage1_usb_device junk))"

definition send_interface_info :: "conn \<Rightarrow> conn" where
  "send_interface_info = usbip_network_send [0xFF, 0, 0, 0]"

definition send_device_list :: "mem \<Rightarrow> conn \<Rightarrow> conn" where
  "send_device_list junk c =
     send_interface_info (send_device_info junk (usbip_network_send (be32_bytes 1) c))"

definition handle_device_list :: "mem \<Rightarrow> conn \<Rightarrow> conn" where
  "handle_device_list junk c =
     send_device_list junk (send_stage1_header USBIP_STAGE1_CMD_DEVICE_LIST 0 c)"

text \<open>The size test compares with \<open>sizeof (USBIP_BUSID_SIZE)\<close>, the size of an int.\<close>

definition handle_device_attach :: "mem \<Rightarrow> nat \<Rightarrow> conn \<Rightarrow> conn" where
  "handle_device_attach junk len c =
     (if len < 4 then c
      else send_device_info junk (send_stage1_header USBIP_STAGE1_CMD_DEVICE_ATTACH 0 c))"

definition attach :: "mem \<Rightarrow> nat \<Rightarrow> conn \<Rightarrow> bool \<times> conn" where
  "attach junk len c = (case read_stage1_command len (c_buf c) of
       None \<Rightarrow> (False, c)
     | Some command \<Rightarrow>
         (True, if command = USBIP_STAGE1_CMD_DEVICE_LIST then handle_device_list junk c
                else if command = USBIP_STAGE1_CMD_DEVICE_ATTACH then handle_device_attach junk len c
                else c))"

text \<open>Receiving into the buffer: what has arrived is stored even when the loop gives up.\<close>

definition recv_to :: "nat \<Rightarrow> nat \<Rightarrow> conn \<Rightarrow> bool \<times> conn" where
  "recv_to p n c =
     (let (ok, bs, ss) = recv_all n (c_in c)
      in (ok, c\<lparr>c_in := ss, c_buf := put_bytes p bs (c_buf c)\<rparr>))"

text \<open>\<open>usbip_worker\<close> up to the URB loop; the caller has read four bytes.  The flag says whether
  the URB loop is reached.\<close>

definition usbip_attach_phase :: "mem \<Rightarrow> usbip_server_state_t \<Rightarrow> conn \<Rightarrow> bool \<times> usbip_server_state_t \<times> conn" where
  "usbip_attach_phase junk state c =
     (let (ok, pre_read_sz, c) =
            (if state = WAIT_DEVLIST then
               (let (ok, c) = recv_to 4 (8 - 4) c
                in if \<not> ok then (False, 4, c)
                   else let (ok, c) = attach junk 8 c in (ok, 0, c))
             else (True, 4, c))
      in if \<not> ok then (False, state, c)
         else
           let (ok, c) = recv_to pre_read_sz (40 - pre_read_sz) c
           in if \<not> ok then (False, WAIT_IMPORT, c)
              else let (ok, c) = attach junk 40 c
                   in if \<not> ok then (False, WAIT_IMPORT, c) else (True, WAIT_URB, c))"

section \<open>Stage 2 headers\<close>

text \<open>
  A stage 2 header occupies the first 48 bytes of the buffer: command, seqnum, devid, direction,
  ep at 0, 4, 8, 12, 16; then a union: the submit request's flags, length, start frame, packet
  count, interval at 20 to 36 and setup bytes at 40, or the reply's status, length and three
  zero words at 20 to 36.
\<close>

definition USBIP_STAGE2_REQ_SUBMIT :: u32 where "USBIP_STAGE2_REQ_SUBMIT = 1"
definition USBIP_STAGE2_REQ_UNLINK :: u32 where "USBIP_STAGE2_REQ_UNLINK = 2"
definition USBIP_STAGE2_RSP_SUBMIT :: u32 where "USBIP_STAGE2_RSP_SUBMIT = 3"
definition USBIP_STAGE2_RSP_UNLINK :: u32 where "USBIP_STAGE2_RSP_UNLINK = 4"
definition USBIP_DIR_OUT :: u32 where "USBIP_DIR_OUT = 0"
definition USBIP_DIR_IN :: u32 where "USBIP_DIR_IN = 1"

text \<open>The loop of \<open>pack\<close>, from word \<open>i\<close> on; \<open>unpack\<close> is the same with \<open>ntohl\<close>.\<close>

primrec swap_loop :: "nat \<Rightarrow> nat \<Rightarrow> mem \<Rightarrow> mem" where
  "swap_loop 0 i m = m"
| "swap_loop (Suc k) i m = swap_loop k (i + 1) (put32 (4 * i) (htonl (le32_at m (4 * i))) m)"

definition pack :: "nat \<Rightarrow> mem \<Rightarrow> mem" where
  "pack sz m = swap_loop (sz div 4 - 2) 0 m"

definition unpack :: "nat \<Rightarrow> mem \<Rightarrow> mem" where
  "unpack sz m = swap_loop (sz div 4 - 2) 0 m"

definition c_not :: "u32 \<Rightarrow> u32" where
  "c_not w = (if w = 0 then 1 else 0)"

definition send_stage2_submit :: "u32 \<Rightarrow> u32 \<Rightarrow> conn \<Rightarrow> conn" where
  "send_stage2_submit status data_length c =
     (let m = put32 0 USBIP_STAGE2_RSP_SUBMIT (c_buf c);
          m = put32 12 (c_not (le32_at m 12)) m;
          m = put_bytes 20 (replicate 20 0) m;
          m = put32 20 status m;
          m = put32 24 data_length m;
          m = pack 48 m
      in usbip_network_send (get_bytes 0 48 m) (c\<lparr>c_buf := m\<rparr>))"

definition send_stage2_submit_data :: "u32 \<Rightarrow> u8 list \<Rightarrow> nat \<Rightarrow> conn \<Rightarrow> conn" where
  "send_stage2_submit_data status data data_length c =
     (let c = send_stage2_submit status (of_nat data_length) c
      in if data_length \<noteq> 0 then usbip_network_send (take data_length data) c else c)"

definition send_stage2_submit_data_fast :: "u8 list option \<Rightarrow> nat \<Rightarrow> conn \<Rightarrow> conn" where
  "send_stage2_submit_data_fast data data_length c =
     (let m = put32 0 (htonl USBIP_STAGE2_RSP_SUBMIT) (c_buf c);
          m = put32 12 (htonl (c_not (le32_at m 12))) m;
          m = put_bytes 20 (replicate 20 0) m;
          m = put32 24 (htonl (of_nat data_length)) m;
          m = (case data of Some d \<Rightarrow> put_bytes 48 (take data_length d) m | None \<Rightarrow> m)
      in usbip_network_send (get_bytes 0 (48 + data_length) m) (c\<lparr>c_buf := m\<rparr>))"

definition send_stage2_unlink :: "conn \<Rightarrow> conn" where
  "send_stage2_unlink c =
     (let m = put32 0 USBIP_STAGE2_RSP_UNLINK (c_buf c);
          m = put32 12 USBIP_DIR_OUT m;
          m = put_bytes 20 (replicate 28 0) m;
          m = put32 20 (- 1) m;
          m = pack 48 m
      in usbip_network_send (get_bytes 0 48 m) (c\<lparr>c_buf := m\<rparr>))"

section \<open>Control requests (usb\_handle.c)\<close>

definition bmRequestType :: "conn \<Rightarrow> u8" where "bmRequestType c = c_buf c 40"
definition bRequest :: "conn \<Rightarrow> u8" where "bRequest c = c_buf c 41"
definition wValue_lo :: "conn \<Rightarrow> u8" where "wValue_lo c = c_buf c 42"
definition wValue_hi :: "conn \<Rightarrow> u8" where "wValue_hi c = c_buf c 43"
definition wIndex :: "conn \<Rightarrow> u32" where "wIndex c = le16_at (c_buf c) 44"
definition wLength :: "conn \<Rightarrow> u32" where "wLength c = le16_at (c_buf c) 46"

text \<open>The string branch reads \<open>strings_list\<close> at the requested index without a bound: \<open>None\<close> is
  the access outside the table.\<close>

definition string_descriptor :: "u8 \<Rightarrow> u8 list option" where
  "string_descriptor i =
     (if unat i < length strings_list then
        map_option (\<lambda>str. [of_nat (2 + 2 * length str), USB_DT_STRING] @ utf16 str) (strings_list ! unat i)
      else None)"

definition handleGetDescriptor :: "conn \<Rightarrow> conn option" where
  "handleGetDescriptor c =
     (let t = wValue_hi c in
      if t = 1 then Some (send_stage2_submit_data 0 kUSBd0DeviceDescriptor (length kUSBd0DeviceDescriptor) c)
      else if t = 2 then
        (let len = le32_at (c_buf c) 24
         in if len = 9
            then Some (usbip_network_send kUSBd0ConfigDescriptor (send_stage2_submit 0 len c))
            else Some (usbip_network_send kUSBd0InterfaceDescriptor
                   (usbip_network_send kUSBd0ConfigDescriptor
                     (send_stage2_submit 0
                       (of_nat (length kUSBd0ConfigDescriptor + length kUSBd0InterfaceDescriptor)) c))))
      else if t = 3 then
        (let i = wValue_lo c in
         if i = 0 then Some (send_stage2_submit_data 0 kLangDescriptor (length kLangDescriptor) c)
         else if i \<noteq> 0xEE then
           map_option (\<lambda>d. send_stage2_submit_data 0 d (length d) c) (string_descriptor i)
         else Some (send_stage2_submit 0 0 c))
      else if t = 4 \<or> t = 5 then Some (send_stage2_submit 0 0 c)
      else if t = 6 then Some (send_stage2_submit_data 0 (replicate 10 0) 10 c)
      else if t = 7 \<or> t = 8 then Some (send_stage2_submit 0 0 c)
      else if t = 15 then
        (let bos_len = unat (wLength c);
             bos_len = (if length bosDescriptor < bos_len then length bosDescriptor else bos_len)
         in Some (send_stage2_submit_data 0 bosDescriptor bos_len c))
      else Some c)"

definition handleUSBControlRequest :: "conn \<Rightarrow> conn option" where
  "handleUSBControlRequest c =
     (let t = bmRequestType c; r = bRequest c; ack = send_stage2_submit_data 0 [] 0 in
      if t = 0x00 then Some (if r \<in> {1, 3, 5, 7, 9} then ack c else c)
      else if t = 0x01 then Some (if r \<in> {1, 3, 11} then ack c else c)
      else if t = 0x02 then Some (if r \<in> {1, 3} then ack c else c)
      else if t = 0x80 then
        (if r = 8 then Some (ack c)
         else if r = 6 then handleGetDescriptor c
         else if r = 0 then Some (ack c)
         else Some c)
      else if t = 0x81 then Some (if r \<in> {10, 12, 0} then ack c else c)
      else if t = 0x82 then Some (if r = 0 then ack c else c)
      else if t = 0xC0 then
        (if wIndex c = 7
         then Some (send_stage2_submit_data 0 msOs20DescriptorSetHeader (length msOs20DescriptorSetHeader) c)
         else Some c)
      else if t = 0x21 then Some (if r = 10 then send_stage2_submit 0 0 c else c)
      else Some c)"

section \<open>Byte order of the header\<close>

text \<open>What the swapping loops do, byte for byte: word \<open>i\<close> of the first \<open>k\<close> is reversed.\<close>

definition mirror :: "nat \<Rightarrow> nat" where
  "mirror p = 4 * (p div 4) + (3 - p mod 4)"

definition rev_words :: "nat \<Rightarrow> nat \<Rightarrow> mem \<Rightarrow> mem" where
  "rev_words i k m = (\<lambda>p. if i \<le> p div 4 \<and> p div 4 < i + k then m (mirror p) else m p)"

lemma mirror_at: "j < 4 \<Longrightarrow> mirror (4 * i + j) = 4 * i + (3 - j)"
  by (simp add: mirror_def)

lemma word_byte:
  fixes p :: nat
  obtains i j where "p = 4 * i + j" "j < 4"
  by (metis mult_div_mod_eq mod_less_divisor zero_less_numeral)

lemma mirror_div [simp]: "mirror p div 4 = p div 4"
  by (simp add: mirror_def)

lemma mirror_mirror [simp]: "mirror (mirror p) = p"
proof -
  obtain i j where "p = 4 * i + j" "j < 4" by (rule word_byte)
  then show ?thesis using mirror_at [of j i] mirror_at [of "3 - j" i] by simp
qed

lemma le32_bytes_htonl_at:
  "le32_bytes (htonl (le32_at m p)) = [m (p + 3), m (p + 2), m (p + 1), m p]"
  using le32_bytes_of_le32 [of "m p" "m (p + 1)" "m (p + 2)" "m (p + 3)"]
  unfolding le32_bytes_htonl be32_bytes_def le32_at_def by (simp add: le32_bytes_def)

lemma le32_bytes_at: "le32_bytes (le32_at m p) = get_bytes p 4 m"
  by (simp add: le32_at_def le32_bytes_of_le32 get_bytes_def upt_rec numeral_2_eq_2 numeral_3_eq_3)

lemma be32_bytes_be32_at: "be32_bytes (be32_at m p) = get_bytes p 4 m"
  by (metis be32_at_def htonl_htonl le32_bytes_at le32_bytes_htonl)

lemma swap_word: "put32 (4 * i) (htonl (le32_at m (4 * i))) m = rev_words i 1 m"
proof
  fix p
  show "put32 (4 * i) (htonl (le32_at m (4 * i))) m p = rev_words i 1 m p"
  proof (cases "p div 4 = i")
    case True
    define j where "j = p mod 4"
    have p: "p = 4 * i + j" "j = 0 \<or> j = 1 \<or> j = 2 \<or> j = 3" using True by (auto simp: j_def)
    then show ?thesis
      using True mirror_at [of j i] unfolding put32_def le32_bytes_htonl_at rev_words_def put_bytes_def
      by (elim disjE) (simp_all add: add.commute)
  next
    case False
    then have "p < 4 * i \<or> 4 * i + 4 \<le> p" by presburger
    then show ?thesis using False by (auto simp: put32_def put_bytes_def rev_words_def)
  qed
qed

lemma rev_words_add: "rev_words (i + a) b (rev_words i a m) = rev_words i (a + b) m"
  by (auto simp: rev_words_def fun_eq_iff)

lemma swap_loop_eq: "swap_loop k i m = rev_words i k m"
proof (induction k arbitrary: i m)
  case 0
  then show ?case by (auto simp: rev_words_def fun_eq_iff)
next
  case (Suc k)
  then show ?case using rev_words_add [of i 1 k m] by (simp add: swap_word)
qed

lemma rev_words_twice [simp]: "rev_words i k (rev_words i k m) = m"
  by (auto simp: rev_words_def fun_eq_iff)

lemma pack_48: "pack 48 m = rev_words 0 10 m" "unpack 48 m = rev_words 0 10 m"
  by (simp_all add: pack_def unpack_def swap_loop_eq)

lemma le32_bytes_inj:
  assumes "le32_bytes v = le32_bytes w"
  shows "v = w"
proof -
  have "le32 (ucast v) (ucast (drop_bit 8 v)) (ucast (drop_bit 16 v)) (ucast (drop_bit 24 v)) =
    le32 (ucast w) (ucast (drop_bit 8 w)) (ucast (drop_bit 16 w)) (ucast (drop_bit 24 w))"
    using assms by (simp only: le32_bytes_def list.inject)
  then show ?thesis by (simp only: le32_roundtrip)
qed

lemma rev_words_above: "4 * k \<le> p \<Longrightarrow> rev_words 0 k m p = m p"
proof -
  assume "4 * k \<le> p"
  then have "k \<le> p div 4" by simp
  then show "rev_words 0 k m p = m p" by (simp add: rev_words_def)
qed

lemma rev_words_bytes:
  assumes "i < k"
  shows "get_bytes (4 * i) 4 (rev_words 0 k m) = be32_bytes (le32_at m (4 * i))"
proof -
  have "rev_words 0 k m (4 * i + j) = m (4 * i + (3 - j))" if "j < 4" for j
    using that assms by (simp add: rev_words_def mirror_at)
  from this [of 0] this [of 1] this [of 2] this [of 3]
  have "get_bytes (4 * i) 4 (rev_words 0 k m) = [m (4 * i + 3), m (4 * i + 2), m (4 * i + 1), m (4 * i)]"
    by (simp add: get_bytes_def upt_rec numeral_2_eq_2 numeral_3_eq_3)
  also have "\<dots> = be32_bytes (le32_at m (4 * i))"
    by (simp only: le32_bytes_htonl_at [symmetric] le32_bytes_htonl)
  finally show ?thesis .
qed

lemma rev_words_word:
  assumes "i < k"
  shows "le32_at (rev_words 0 k m) (4 * i) = be32_at m (4 * i)"
proof (rule le32_bytes_inj)
  show "le32_bytes (le32_at (rev_words 0 k m) (4 * i)) = le32_bytes (be32_at m (4 * i))"
    using rev_words_bytes [OF assms, of m] by (simp only: le32_bytes_at be32_at_def le32_bytes_htonl)
qed

lemma get_48:
  "get_bytes 0 48 n = get_bytes 0 4 n @ get_bytes 4 4 n @ get_bytes 8 4 n @
    get_bytes 12 4 n @ get_bytes 16 4 n @ get_bytes 20 4 n @ get_bytes 24 4 n @ get_bytes 28 4 n @
    get_bytes 32 4 n @ get_bytes 36 4 n @ get_bytes 40 8 n"
  using get_bytes_append [of 0 4 44 n] get_bytes_append [of 4 4 40 n] get_bytes_append [of 8 4 36 n]
      get_bytes_append [of 12 4 32 n] get_bytes_append [of 16 4 28 n] get_bytes_append [of 20 4 24 n]
      get_bytes_append [of 24 4 20 n] get_bytes_append [of 28 4 16 n] get_bytes_append [of 32 4 12 n]
      get_bytes_append [of 36 4 8 n] by simp

lemma packed_header:
  "get_bytes 0 48 (pack 48 m) =
     be32_bytes (le32_at m 0) @ be32_bytes (le32_at m 4) @ be32_bytes (le32_at m 8) @
     be32_bytes (le32_at m 12) @ be32_bytes (le32_at m 16) @ be32_bytes (le32_at m 20) @
     be32_bytes (le32_at m 24) @ be32_bytes (le32_at m 28) @ be32_bytes (le32_at m 32) @
     be32_bytes (le32_at m 36) @ get_bytes 40 8 m"
proof -
  have w: "get_bytes (4 * i) 4 (pack 48 m) = be32_bytes (le32_at m (4 * i))" if "i < 10" for i
    using that by (simp add: pack_48 rev_words_bytes)
  have tl: "get_bytes 40 8 (pack 48 m) = get_bytes 40 8 m"
    by (rule nth_equalityI) (simp_all add: pack_48 rev_words_above)
  show ?thesis
    unfolding get_48 [of "pack 48 m"] tl using w [of 0] w [of 1] w [of 2] w [of 3] w [of 4] w [of 5] w [of 6]
      w [of 7] w [of 8] w [of 9] by simp
qed

text \<open>The reply the protocol prescribes for the request with wire image \<open>w\<close>.\<close>

definition ret_submit :: "mem \<Rightarrow> u32 \<Rightarrow> u32 \<Rightarrow> u8 list" where
  "ret_submit w status n =
     be32_bytes USBIP_STAGE2_RSP_SUBMIT @ get_bytes 4 8 w @ be32_bytes (c_not (be32_at w 12)) @
     get_bytes 16 4 w @ be32_bytes status @ be32_bytes n @ replicate 12 0 @ get_bytes 40 8 w"

definition ret_unlink :: "mem \<Rightarrow> u8 list" where
  "ret_unlink w =
     be32_bytes USBIP_STAGE2_RSP_UNLINK @ get_bytes 4 8 w @ be32_bytes USBIP_DIR_OUT @
     get_bytes 16 4 w @ be32_bytes (- 1) @ replicate 24 0"

lemma le32_at_zeros:
  "p \<le> q \<Longrightarrow> q + 4 \<le> p + n \<Longrightarrow> le32_at (put_bytes p (replicate n 0) m) q = 0"
  by (simp add: le32_at_def put_bytes_def le32_def)

lemma get_zeros:
  "p \<le> q \<Longrightarrow> q + k \<le> p + n \<Longrightarrow> get_bytes q k (put_bytes p (replicate n 0) m) = replicate k 0"
  by (rule nth_equalityI) (simp_all add: put_bytes_def)

lemma le32_at_put_bytes_other:
  "p + length bs \<le> q \<or> q + 4 \<le> p \<Longrightarrow> le32_at (put_bytes p bs m) q = le32_at m q"
  by (elim disjE) (simp_all add: le32_at_def put_bytes_out)

lemma get_bytes_split: "get_bytes 4 8 w = get_bytes 4 4 w @ get_bytes 8 4 w"
  using get_bytes_append [of 4 4 4 w] by simp

lemma be32_bytes_0: "be32_bytes 0 = replicate 4 0"
  by (simp add: be32_bytes_def numeral_eq_Suc)

lemma unpack_word:
  "le32_at (unpack 48 w) 4 = be32_at w 4" "le32_at (unpack 48 w) 8 = be32_at w 8"
  "le32_at (unpack 48 w) 12 = be32_at w 12" "le32_at (unpack 48 w) 16 = be32_at w 16"
  "le32_at (unpack 48 w) 24 = be32_at w 24" "get_bytes 40 8 (unpack 48 w) = get_bytes 40 8 w"
proof -
  show "le32_at (unpack 48 w) 4 = be32_at w 4" "le32_at (unpack 48 w) 8 = be32_at w 8"
    "le32_at (unpack 48 w) 12 = be32_at w 12" "le32_at (unpack 48 w) 16 = be32_at w 16"
    "le32_at (unpack 48 w) 24 = be32_at w 24"
    using rev_words_word [of 1 10 w] rev_words_word [of 2 10 w] rev_words_word [of 3 10 w]
      rev_words_word [of 4 10 w] rev_words_word [of 6 10 w] by (simp_all add: pack_48)
  show "get_bytes 40 8 (unpack 48 w) = get_bytes 40 8 w"
    by (rule nth_equalityI) (simp_all add: pack_48 rev_words_above)
qed

lemma submit_out:
  assumes "c_buf c = unpack 48 w"
  shows "c_out (send_stage2_submit status n c) = c_out c @ [ret_submit w status n]"
    "c_in (send_stage2_submit status n c) = c_in c"
  by (simp_all add: send_stage2_submit_def Let_def usbip_network_send_def packed_header assms
      le32_at_put32_other le32_at_put_bytes_other le32_at_zeros get_put32_other get_put_other
      unpack_word ret_submit_def be32_bytes_be32_at get_bytes_split be32_bytes_0 get_zeros replicate_add [symmetric])

lemma submit_data_out:
  assumes "c_buf c = unpack 48 w" "n \<le> length data"
  shows "concat (c_out (send_stage2_submit_data status data n c)) =
      concat (c_out c) @ ret_submit w status (of_nat n) @ take n data"
    "c_in (send_stage2_submit_data status data n c) = c_in c"
  using submit_out [OF assms(1)]
  by (simp_all add: send_stage2_submit_data_def Let_def usbip_network_send_def)

lemma unlink_out:
  assumes "c_buf c = unpack 48 w"
  shows "c_out (send_stage2_unlink c) = c_out c @ [ret_unlink w]"
    "c_in (send_stage2_unlink c) = c_in c"
  by (simp_all add: send_stage2_unlink_def Let_def usbip_network_send_def packed_header assms
      le32_at_put32_other le32_at_put_bytes_other le32_at_zeros get_put32_other get_put_other
      unpack_word ret_unlink_def be32_bytes_be32_at get_bytes_split be32_bytes_0 get_zeros replicate_add [symmetric])

lemma htonl_0_iff [simp]: "htonl v = 0 \<longleftrightarrow> v = 0"
proof -
  have "htonl 0 = 0" by (simp add: htonl_def le32_def)
  then show ?thesis by (metis htonl_htonl)
qed

lemma get_put32_be: "get_bytes p 4 (put32 p (htonl v) m) = be32_bytes v"
  by (simp add: get_put32_same le32_bytes_htonl)

lemma data_fast_out:
  assumes "d = Some bs \<or> d = None \<and> n = 0 \<and> bs = []" "n \<le> length bs"
  shows "c_out (send_stage2_submit_data_fast d n c) =
      c_out c @ [ret_submit (c_buf c) 0 (of_nat n) @ take n bs]"
    "c_in (send_stage2_submit_data_fast d n c) = c_in c"
proof -
  let ?w = "c_buf c"
  define m where "m = put32 24 (htonl (of_nat n)) (put_bytes 20 (replicate 20 0)
    (put32 12 (htonl (c_not (le32_at ?w 12))) (put32 0 (htonl USBIP_STAGE2_RSP_SUBMIT) ?w)))"
  have n: "c_not (le32_at ?w 12) = c_not (be32_at ?w 12)" by (simp add: c_not_def be32_at_def)
  have hd: "get_bytes 0 48 m = ret_submit ?w 0 (of_nat n)"
    unfolding get_48 [of m] unfolding m_def
    by (simp add: get_put32_be get_put32_other get_put_other get_zeros n ret_submit_def
        get_bytes_split be32_bytes_0 replicate_add [symmetric])
  have dir: "le32_at (put32 0 v ?w) 12 = le32_at ?w 12" for v by (simp add: le32_at_put32_other)
  have dat: "(case d of Some d \<Rightarrow> put_bytes 48 (take n d) m | None \<Rightarrow> m) = put_bytes 48 (take n bs) m"
    using assms(1) by auto
  have all: "get_bytes 0 (48 + n) (put_bytes 48 (take n bs) m) = get_bytes 0 48 m @ take n bs"
    using get_put_same [of 48 "take n bs" m] assms(2)
    by (simp add: get_bytes_append get_put_other min_absorb2)
  have "send_stage2_submit_data_fast d n c =
    usbip_network_send (ret_submit ?w 0 (of_nat n) @ take n bs) (c\<lparr>c_buf := put_bytes 48 (take n bs) m\<rparr>)"
    unfolding send_stage2_submit_data_fast_def Let_def dir m_def [symmetric] dat all hd ..
  then show "c_out (send_stage2_submit_data_fast d n c) =
      c_out c @ [ret_submit ?w 0 (of_nat n) @ take n bs]"
    "c_in (send_stage2_submit_data_fast d n c) = c_in c"
    by (simp_all add: usbip_network_send_def)
qed

section \<open>Control requests: exactly one reply\<close>

lemma unpack_setup:
  assumes "c_buf c = unpack 48 w"
  shows "bmRequestType c = w 40" "bRequest c = w 41" "wValue_lo c = w 42" "wValue_hi c = w 43"
    "wIndex c = le16_at w 44" "wLength c = le16_at w 46" "le32_at (c_buf c) 24 = be32_at w 24"
  using unpack_word(5) [of w]
  by (simp_all add: assms bmRequestType_def bRequest_def wValue_lo_def wValue_hi_def wIndex_def
      wLength_def le16_at_def pack_48 rev_words_above)

text \<open>Which requests are answered, by type, request and descriptor type; and with what data.\<close>

definition control_answered :: "mem \<Rightarrow> bool" where
  "control_answered w \<longleftrightarrow>
     (w 40, w 41) \<in> {(0x00, 1), (0x00, 3), (0x00, 5), (0x00, 7), (0x00, 9), (0x01, 1), (0x01, 3),
       (0x01, 11), (0x02, 1), (0x02, 3), (0x80, 8), (0x80, 0), (0x81, 10), (0x81, 12), (0x81, 0),
       (0x82, 0), (0x21, 10)} \<or>
     (w 40, w 41) = (0x80, 6) \<and> w 43 \<in> {1, 2, 3, 4, 5, 6, 7, 8, 15} \<or>
     w 40 = 0xC0 \<and> le16_at w 44 = 7"

definition control_data :: "mem \<Rightarrow> u8 list" where
  "control_data w =
     (if w 40 = 0xC0 then msOs20DescriptorSetHeader
      else if (w 40, w 41) \<noteq> (0x80, 6) then []
      else if w 43 = 1 then kUSBd0DeviceDescriptor
      else if w 43 = 2 then
        (if be32_at w 24 = 9 then kUSBd0ConfigDescriptor
         else kUSBd0ConfigDescriptor @ kUSBd0InterfaceDescriptor)
      else if w 43 = 3 then
        (if w 42 = 0 then kLangDescriptor
         else if w 42 = 0xEE then []
         else [of_nat (2 + 2 * length (the (strings_list ! unat (w 42)))), USB_DT_STRING] @
              utf16 (the (strings_list ! unat (w 42))))
      else if w 43 = 6 then replicate 10 0
      else if w 43 = 15 then take (unat (le16_at w 46)) bosDescriptor
      else [])"

definition reply :: "conn \<Rightarrow> mem \<Rightarrow> u8 list \<Rightarrow> conn \<Rightarrow> bool" where
  "reply c w bs c' \<longleftrightarrow> c_in c' = c_in c \<and>
     concat (c_out c') = concat (c_out c) @ ret_submit w 0 (of_nat (length bs)) @ bs"

lemma reply_data:
  "c_buf c = unpack 48 w \<Longrightarrow> n \<le> length bs \<Longrightarrow> reply c w (take n bs) (send_stage2_submit_data 0 bs n c)"
  by (simp add: reply_def submit_data_out min_absorb2)

lemma reply_all:
  "c_buf c = unpack 48 w \<Longrightarrow> reply c w bs (send_stage2_submit_data 0 bs (length bs) c)"
  using reply_data [of c w "length bs" bs] by simp

lemma reply_empty:
  "c_buf c = unpack 48 w \<Longrightarrow> reply c w [] (send_stage2_submit_data 0 [] 0 c)"
  "c_buf c = unpack 48 w \<Longrightarrow> reply c w [] (send_stage2_submit 0 0 c)"
  using submit_out [of c w 0 0] by (simp_all add: reply_def submit_data_out)

lemma reply_get_descriptor:
  assumes buf: "c_buf c = unpack 48 w" and req: "w 40 = 0x80" "w 41 = 6"
  shows "case handleGetDescriptor c of
      None \<Rightarrow> w 43 = 3 \<and> 4 \<le> w 42 \<and> w 42 \<noteq> 0xEE
    | Some c' \<Rightarrow> if w 43 \<in> {1, 2, 3, 4, 5, 6, 7, 8, 15} then reply c w (control_data w) c' else c' = c"
proof -
  note r = reply_all [OF buf] reply_empty [OF buf]
  consider "w 43 = 3" | "w 43 = 2" | "w 43 = 15" | "w 43 \<notin> {3, 2, 15}" by blast
  then show ?thesis
  proof cases
    case 1
    have "4 \<le> w 42 \<longleftrightarrow> \<not> unat (w 42) < length strings_list"
      by (auto simp: strings_list_def word_le_nat_alt)
    moreover have "\<exists>str. strings_list ! unat (w 42) = Some str" if "unat (w 42) < length strings_list" "w 42 \<noteq> 0"
    proof -
      have "unat (w 42) \<in> {1, 2, 3}" using that by (auto simp: strings_list_def word_unat_eq_iff)
      then show ?thesis by (auto simp: strings_list_def)
    qed
    moreover have "reply c w (x # y # bs) (send_stage2_submit_data 0 (x # y # bs) (Suc (Suc (length bs))) c)"
      for x y bs using reply_all [OF buf, of "x # y # bs"] by simp
    ultimately show ?thesis
      using 1 r req
      by (cases "unat (w 42) < length strings_list")
        (auto simp: handleGetDescriptor_def unpack_setup [OF buf] Let_def control_data_def string_descriptor_def)
  next
    case 2
    have "concat (c_out (usbip_network_send kUSBd0ConfigDescriptor (send_stage2_submit 0 9 c))) =
      concat (c_out c) @ ret_submit w 0 (of_nat (length kUSBd0ConfigDescriptor)) @ kUSBd0ConfigDescriptor"
      using submit_out [OF buf] by (simp add: usbip_network_send_def length_tables)
    then show ?thesis
      using 2 req submit_out [OF buf]
      by (simp add: handleGetDescriptor_def unpack_setup [OF buf] Let_def control_data_def reply_def
          usbip_network_send_def)
  next
    case 3
    let ?n = "min (length bosDescriptor) (unat (le16_at w 46))"
    have "reply c w (take (unat (le16_at w 46)) bosDescriptor) (send_stage2_submit_data 0 bosDescriptor ?n c)"
      using reply_data [OF buf, of "unat (le16_at w 46)" bosDescriptor] reply_all [OF buf, of bosDescriptor]
      by (simp add: min_def)
    then show ?thesis
      using 3 req
      by (auto simp: handleGetDescriptor_def unpack_setup [OF buf] Let_def control_data_def min_def
          split: if_splits)
  next
    case 4
    then show ?thesis
      using r req reply_all [OF buf, of "replicate 10 0"]
      by (simp add: handleGetDescriptor_def unpack_setup [OF buf] Let_def control_data_def)
  qed
qed

lemma reply_control:
  assumes buf: "c_buf c = unpack 48 w"
  shows "case handleUSBControlRequest c of
      None \<Rightarrow> (w 40, w 41, w 43) = (0x80, 6, 3) \<and> 4 \<le> w 42 \<and> w 42 \<noteq> 0xEE
    | Some c' \<Rightarrow> if control_answered w then reply c w (control_data w) c' else c' = c"
proof (cases "(w 40, w 41) = (0x80, 6)")
  case True
  then show ?thesis
    using reply_get_descriptor [OF buf]
    by (simp add: handleUSBControlRequest_def Let_def unpack_setup [OF buf] control_answered_def
        split: option.splits if_splits)
next
  case False
  note r = reply_all [OF buf, of msOs20DescriptorSetHeader] reply_empty [OF buf]
  have plain: "control_data w = (if w 40 = 0xC0 then msOs20DescriptorSetHeader else [])"
    using False by (simp add: control_data_def)
  consider "w 40 = 0" | "w 40 = 1" | "w 40 = 2" | "w 40 = 0x80" | "w 40 = 0x81" | "w 40 = 0x82"
    | "w 40 = 0xC0" | "w 40 = 0x21" | "w 40 \<notin> {0, 1, 2, 0x80, 0x81, 0x82, 0xC0, 0x21}" by blast
  then show ?thesis
    using r False by cases
      (simp_all add: handleUSBControlRequest_def Let_def unpack_setup [OF buf] control_answered_def plain)
qed

text \<open>C8: Every control request on endpoint 0 is either left without any reply, or answered by
  exactly one RET\_SUBMIT message, the header the protocol prescribes with the request's seqnum,
  devid and endpoint, whose length word is the number of descriptor bytes that follow it; which
  requests are answered, and with which descriptor, is the table above.  The one fault is a
  string request whose index lies outside the table of strings.\<close>

theorem control_request_reply:
  assumes "c_buf c = unpack 48 w"
  shows "case handleUSBControlRequest c of
      None \<Rightarrow> (w 40, w 41, w 43) = (0x80, 6, 3) \<and> 4 \<le> w 42 \<and> w 42 \<noteq> 0xEE
    | Some c' \<Rightarrow> c_in c' = c_in c \<and> concat (c_out c') = concat (c_out c) @
        (if control_answered w then ret_submit w 0 (of_nat (length (control_data w))) @ control_data w
         else [])"
  using reply_control [OF assms] by (simp add: reply_def split: option.splits if_splits)

text \<open>A GET\_DESCRIPTOR request for the device descriptor, as Linux sends it.\<close>

definition example_get_device :: mem where
  "example_get_device = mem_of
     ([0, 0, 0, 1,  0, 0, 0, 7,  0, 1, 0, 1,  0, 0, 0, 1,  0, 0, 0, 0] @
      [0, 0, 2, 0,  0, 0, 0, 64] @ replicate 12 0 @ [0x80, 6, 0, 1, 0, 0, 64, 0])"

theorem control_request_reply_witness:
  "case handleUSBControlRequest \<lparr>c_in = [], c_out = [], c_buf = unpack 48 example_get_device\<rparr> of
     None \<Rightarrow> False
   | Some c' \<Rightarrow> concat (c_out c') = ret_submit example_get_device 0 18 @ kUSBd0DeviceDescriptor"
proof -
  let ?c = "\<lparr>c_in = [], c_out = [], c_buf = unpack 48 example_get_device\<rparr>"
  have w: "example_get_device 40 = 0x80" "example_get_device 41 = 6" "example_get_device 43 = 1"
    by code_simp+
  show ?thesis
    using control_request_reply [of ?c example_get_device]
    by (simp add: control_answered_def control_data_def w length_tables split: option.splits)
qed

end
