(* ===== verification/Processor.thy ===== *)
theory Processor
  imports DapCmd Socket
begin

text \<open>
  What the proxies rely on: a command processor reads a request, writes a response into a
  buffer it is given and returns a length word, and the proxy sends as many bytes of that
  buffer as the low half of the word says.  The contract is a locale; \<open>DAP_ProcessCommand\<close> (used
  by the USB/IP task) and \<open>DAP_ExecuteCommand\<close> (used by elaphureLink and WebSocket) both meet it.
\<close>

definition response_bytes :: "u8 list \<Rightarrow> u32 \<Rightarrow> mem \<Rightarrow> u8 list" where
  "response_bytes r n buf = get_bytes 0 (resp_len n) (put_bytes 0 r buf)"

locale command_processor =
  fixes exec :: "'e \<Rightarrow> mem \<Rightarrow> dap \<Rightarrow> outcome"
    and sound :: "mem \<Rightarrow> bool"
  assumes keeps: "exec E m s = Inr (r, n, s') \<Longrightarrow> probe_ok s \<Longrightarrow> probe_ok s'"
    and length_law: "exec E m s = Inr (r, n, s') \<Longrightarrow> probe_ok s \<Longrightarrow> sound m \<Longrightarrow> length r < 65500 \<Longrightarrow>
      resp_len n = length r"
begin

lemma sends_response:
  assumes "exec E m s = Inr (r, n, s')" "probe_ok s" "sound m" "length r < 65500"
  shows "response_bytes r n buf = r"
  using length_law [OF assms] get_put_same [of 0 r buf] by (simp add: response_bytes_def)

primrec session :: "(nat \<Rightarrow> 'e) \<Rightarrow> nat \<Rightarrow> mem list \<Rightarrow> dap \<Rightarrow> fault + (u8 list list \<times> dap)" where
  "session Es i [] s = Inr ([], s)"
| "session Es i (m # ms) s = (case exec (Es i) m s of Inl e \<Rightarrow> Inl e
     | Inr (r, n, s) \<Rightarrow> map_sum (\<lambda>e. e) (\<lambda>(rs, s). (r # rs, s)) (session Es (Suc i) ms s))"

lemma session_keeps:
  "session Es i ms s = Inr (rs, s') \<Longrightarrow> probe_ok s \<Longrightarrow> probe_ok s' \<and> length rs = length ms"
proof (induction ms arbitrary: i s rs)
  case (Cons m ms)
  obtain r n t where e: "exec (Es i) m s = Inr (r, n, t)"
    using Cons.prems(1) by (auto split: sum.splits)
  then obtain rs' where "session Es (Suc i) ms t = Inr (rs', s')" "rs = r # rs'"
    using Cons.prems(1) by (cases "session Es (Suc i) ms t") auto
  then show ?case using Cons.IH keeps [OF e Cons.prems(2)] by simp
qed simp

end

interpretation proc: command_processor DAP_ProcessCommand "\<lambda>_. True"
  by unfold_locales (auto intro: process_keeps process_length)

lemma dap_execute_keeps:
  "dap_execute k E m p rp out num s = Inr (r, n, s') \<Longrightarrow> probe_ok s \<Longrightarrow> probe_ok s'"
proof (induction k arbitrary: p rp out num s)
  case (Suc k)
  then show ?case by (auto split: sum.splits dest: process_keeps)
qed simp

lemma execute_keeps: "DAP_ExecuteCommand E m s = Inr (r, n, s') \<Longrightarrow> probe_ok s \<Longrightarrow> probe_ok s'"
  by (auto simp: DAP_ExecuteCommand_def intro: dap_execute_keeps process_keeps split: if_splits)

lemma execute_length:
  assumes x: "DAP_ExecuteCommand E m s = Inr (r, n, s')" and ok: "probe_ok s" and b: "small_blocks m"
    and r: "length r < 65500"
  shows "resp_len n = length r"
proof (cases "m 0 = 0x7F")
  case False
  then show ?thesis using x process_length [OF _ ok r] by (simp add: DAP_ExecuteCommand_def)
next
  case True
  have w: "push_bit 16 2 OR 2 = (131074 :: u32)" by code_simp
  have "DAP_ExecuteCommand E m s = dap_execute (unat (m 1)) E m 2 (length [m 0, m 1]) [m 0, m 1]
      (of_nat (65536 * 2 + length [m 0, m 1])) s"
    unfolding DAP_ExecuteCommand_def w using True by (simp add: numeral_2_eq_2)
  also note execute_eq_run [OF b ok]
  finally obtain q where "n = of_nat (65536 * q + length r)"
    using x by (auto split: sum.splits)
  then show ?thesis using r by (simp add: len_word del: of_nat_add of_nat_mult)
qed

lemma execute_unknown: "m 0 = 0xA0 \<Longrightarrow> DAP_ExecuteCommand E m d = Inr ([0xFF], pack_num 1 1, d)"
  by (simp add: DAP_ExecuteCommand_def DAP_ProcessCommand_def dap_command_def ID_DAP_Invalid_def)

interpretation exe: command_processor DAP_ExecuteCommand small_blocks
  by unfold_locales (auto intro: execute_keeps execute_length)

end
