(* ===== verification/DapTask.thy ===== *)
theory DapTask
  imports Usbip Processor
begin

text \<open>
  The two tasks behind the USB/IP server: \<open>usbip_urb_process\<close> (usbip\_server.c), which handles
  the URBs of the connection one after another, and \<open>DAP_Thread\<close> (DAP\_handle.c), which runs the
  command packets.  They share two ring buffers of ten packets each, a notification count and
  the counter \<open>dap_respond\<close>.  Each task is a step function whose value \<open>None\<close> means that the
  FreeRTOS call it has reached is blocking; the system interleaves their steps.

  The ring buffers belong to ESP-IDF: a record of their operations is a parameter, and
  \<open>byte_ring\<close> is what the documentation of RINGBUF\_TYPE\_BYTEBUF promises.
\<close>

section \<open>Byte ring buffers\<close>

record 'r ring_api =
  ring_new :: 'r
  ring_send :: "u8 list \<Rightarrow> 'r \<Rightarrow> 'r option"
  ring_recv :: "nat \<Rightarrow> 'r \<Rightarrow> u8 list"
  ring_return :: "nat \<Rightarrow> 'r \<Rightarrow> 'r"

text \<open>
  The contents of a buffer of \<open>cap\<close> bytes are the read offset and the bytes stored.  A send of
  more bytes than there is room for blocks; a receive of up to \<open>n\<close> bytes yields at most the
  contiguous bytes up to the end of the storage, so it may cut a packet in two; returning the
  item frees its bytes.
\<close>

definition byte_ring :: "'r ring_api \<Rightarrow> nat \<Rightarrow> ('r \<Rightarrow> nat \<times> u8 list) \<Rightarrow> bool" where
  "byte_ring R cap \<alpha> \<longleftrightarrow>
     \<alpha> (ring_new R) = (0, []) \<and>
     (\<forall>x r. case ring_send R x r of
         None \<Rightarrow> cap < length (snd (\<alpha> r)) + length x
       | Some r' \<Rightarrow> length (snd (\<alpha> r)) + length x \<le> cap \<and> \<alpha> r' = (fst (\<alpha> r), snd (\<alpha> r) @ x)) \<and>
     (\<forall>n r. ring_recv R n r = take (min n (cap - fst (\<alpha> r))) (snd (\<alpha> r))) \<and>
     (\<forall>k r. if k \<le> length (snd (\<alpha> r))
        then \<alpha> (ring_return R k r) = ((fst (\<alpha> r) + k) mod cap, drop k (snd (\<alpha> r))) else True)"

definition DAP_BUFFER_NUM :: nat where "DAP_BUFFER_NUM = 10"
definition DAP_HANDLE_SIZE :: nat where "DAP_HANDLE_SIZE = 4 + 512"
definition ring_size :: nat where "ring_size = DAP_HANDLE_SIZE * DAP_BUFFER_NUM"

section \<open>The shared state\<close>

datatype server_pc = S_Read | S_Enqueue "u8 list" | S_Await | S_Closed
datatype task_pc = T_Top | T_Wait | T_Send "u8 list" | T_Respond
datatype restart_signal = NO_SIGNAL | RESET_HANDLE | DELETE_HANDLE

datatype system_fault = Rx_Overflow | String_Index | Null_Ring | Processed_Overflow | Probe_Fault fault

text \<open>Where the server waits inside a blocking call is part of its state: for room in the request
  ring with the packet it sends, or for a response.  \<open>rings\<close> is the pair of handles, \<open>None\<close> when
  they are null.\<close>

record 'r sys =
  s_pc :: server_pc
  s_conn :: conn
  dap_req_num :: nat
  rings :: "('r \<times> 'r) option"
  dap_respond :: int
  notify :: nat
  kRestartDAPHandle :: restart_signal
  t_pc :: task_pc
  DAPDataProcessed :: mem
  probe :: dap

text \<open>What a step does that the other side can observe: a command packet was taken from the
  host, a command was run with its response, a response was sent, an IN request was answered
  with no data, a response was thrown away by an unlink.\<close>

datatype event =
  Request "u8 list" | Processed "u8 list" "u8 list" | Replied "u8 list" | Empty_Reply
| Unlinked "u8 list" | Internal

section \<open>The server\<close>

definition handle_dap_data_request :: "'r sys \<Rightarrow> event \<times> 'r sys" where
  "handle_dap_data_request s =
     (let c = send_stage2_submit_data_fast None 0 (s_conn s)
      in (Request (get_bytes 48 512 (c_buf c)),
          s\<lparr>s_conn := c, s_pc := S_Enqueue (get_bytes (48 - 4) DAP_HANDLE_SIZE (c_buf c))\<rparr>))"

text \<open>\<open>fast_reply\<close> without an outstanding request rewrites the header in place; only the
  status, length and error count of the union are cleared.\<close>

definition fast_reply_empty :: "conn \<Rightarrow> conn" where
  "fast_reply_empty c =
     (let m = put32 0 (htonl USBIP_STAGE2_RSP_SUBMIT) (c_buf c);
          m = put32 12 (htonl USBIP_DIR_OUT) m;
          m = put32 20 0 m;
          m = put32 24 0 m;
          m = put32 36 0 m
      in usbip_network_send (get_bytes 0 48 m) (c\<lparr>c_buf := m\<rparr>))"

definition item_length :: "u8 list \<Rightarrow> nat" where
  "item_length item = unat (le32_at (mem_of item) 0)"

definition item_payload :: "u8 list \<Rightarrow> u8 list" where
  "item_payload item = take (item_length item) (drop 4 item)"

text \<open>\<open>fast_reply\<close> once the response ring has data; a short item is neither sent nor returned.\<close>

definition fast_reply :: "'r ring_api \<Rightarrow> 'r sys \<Rightarrow> (system_fault + event \<times> 'r sys) option" where
  "fast_reply R s =
     (case rings s of None \<Rightarrow> Some (Inl Null_Ring)
      | Some (rin, rout) \<Rightarrow>
          (let item = ring_recv R DAP_HANDLE_SIZE rout in
           if item = [] then None
           else if length item = DAP_HANDLE_SIZE then
             Some (Inr (Replied (item_payload item),
               s\<lparr>s_conn := send_stage2_submit_data_fast (Some (drop 4 item))
                             (item_length item) (s_conn s),
                 dap_respond := dap_respond s - 1,
                 rings := Some (rin, ring_return R (length item) rout),
                 dap_req_num := dap_req_num s - 1, s_pc := S_Read\<rparr>))
           else Some (Inr (Internal, s\<lparr>dap_req_num := dap_req_num s - 1, s_pc := S_Read\<rparr>))))"

definition handle_dap_unlink :: "'r ring_api \<Rightarrow> 'r sys \<Rightarrow> system_fault + event \<times> 'r sys" where
  "handle_dap_unlink R s =
     (if 0 < dap_respond s then
        (case rings s of None \<Rightarrow> Inl Null_Ring
         | Some (rin, rout) \<Rightarrow>
             (let item = ring_recv R DAP_HANDLE_SIZE rout in
              if length item = DAP_HANDLE_SIZE then
                Inr (Unlinked (item_payload item),
                  s\<lparr>dap_respond := dap_respond s - 1,
                    rings := Some (rin, ring_return R (length item) rout)\<rparr>)
              else Inr (Internal, s)))
      else Inr (Internal, s))"

definition on_conn :: "(conn \<Rightarrow> conn) \<Rightarrow> 'r sys \<Rightarrow> 'r sys" where
  "on_conn f s = s\<lparr>s_conn := f (s_conn s)\<rparr>"

definition handle_unlink :: "'r ring_api \<Rightarrow> 'r sys \<Rightarrow> system_fault + event \<times> 'r sys" where
  "handle_unlink R s =
     (case handle_dap_unlink R s of Inl e \<Rightarrow> Inl e
      | Inr (ev, s) \<Rightarrow> Inr (ev, on_conn send_stage2_unlink s))"

definition unpacked :: "conn \<Rightarrow> conn" where
  "unpacked c = c\<lparr>c_buf := unpack 48 (c_buf c)\<rparr>"

text \<open>The body of the loop of \<open>usbip_urb_process\<close>: the dispatch of a complete URB.\<close>

definition urb_dispatch :: "'r ring_api \<Rightarrow> 'r sys \<Rightarrow> system_fault + event \<times> 'r sys" where
  "urb_dispatch R s =
     (let m = c_buf (s_conn s); command = be32_at m 0; dir = be32_at m 12; ep = be32_at m 16 in
      if command = USBIP_STAGE2_REQ_SUBMIT then
        (if ep = 1 \<and> dir = USBIP_DIR_IN then
           (if dap_req_num s > 0 then Inr (Internal, s\<lparr>s_pc := S_Await\<rparr>)
            else Inr (Empty_Reply, on_conn fast_reply_empty s))
         else if ep = 1 \<and> dir = USBIP_DIR_OUT then
           Inr (handle_dap_data_request (s\<lparr>dap_req_num := dap_req_num s + 1\<rparr>))
         else if ep = 0 then
           (case handleUSBControlRequest (unpacked (s_conn s)) of
              None \<Rightarrow> Inl String_Index
            | Some c \<Rightarrow> Inr (Internal, s\<lparr>s_conn := c\<rparr>))
         else Inr (Internal, on_conn (send_stage2_submit 0 0) s))
      else if command = USBIP_STAGE2_REQ_UNLINK then handle_unlink R (on_conn unpacked s)
      else Inr (Internal, s\<lparr>s_pc := S_Closed\<rparr>))"

text \<open>Reading a URB.  The receive buffer has 1500 bytes; a length that asks \<open>recv\<close> for more is a
  fault.\<close>

definition rx_size :: nat where "rx_size = 1500"

definition usbip_urb_process :: "'r ring_api \<Rightarrow> 'r sys \<Rightarrow> system_fault + event \<times> 'r sys" where
  "usbip_urb_process R s =
     (let (ok, c) = recv_to 0 48 (s_conn s) in
      if \<not> ok then Inr (Internal, s\<lparr>s_conn := c, s_pc := S_Closed\<rparr>)
      else
        let may_has_data = (be32_at (c_buf c) 0 = USBIP_STAGE2_REQ_SUBMIT \<and>
                            be32_at (c_buf c) 12 = USBIP_DIR_OUT);
            sz = (if may_has_data then unat (be32_at (c_buf c) 24) else 0)
        in if rx_size < 48 + sz then Inl Rx_Overflow
           else let (ok, c) = recv_to 48 sz c in
             if \<not> ok then Inr (Internal, s\<lparr>s_conn := c, s_pc := S_Closed\<rparr>)
             else urb_dispatch R (s\<lparr>s_conn := c\<rparr>))"

definition server_step :: "'r ring_api \<Rightarrow> 'r sys \<Rightarrow> (system_fault + event \<times> 'r sys) option" where
  "server_step R s =
     (case s_pc s of
        S_Read \<Rightarrow> Some (usbip_urb_process R s)
      | S_Enqueue item \<Rightarrow>
          (case rings s of None \<Rightarrow> Some (Inl Null_Ring)
           | Some (rin, rout) \<Rightarrow>
               map_option (\<lambda>rin. Inr (Internal,
                 s\<lparr>rings := Some (rin, rout), notify := notify s + 1, s_pc := S_Read\<rparr>))
                 (ring_send R item rin))
      | S_Await \<Rightarrow> fast_reply R s
      | S_Closed \<Rightarrow> None)"

section \<open>The DAP task\<close>

text \<open>\<open>QueueCommands\<close> is turned into \<open>ExecuteCommands\<close> in place.\<close>

definition queue_to_execute :: "u8 list \<Rightarrow> u8 list" where
  "queue_to_execute item = (if item ! 4 = 0x7E then item[4 := 0x7F] else item)"

text \<open>Running a received item.  What \<open>DAP_ProcessCommand\<close> may read beyond the item is whatever
  follows it in memory (\<open>beyond\<close>); the response is built in the 512 bytes of
  \<open>DAPDataProcessed\<close>, all of which are sent on, after the length word.\<close>

definition process_item :: "env \<Rightarrow> mem \<Rightarrow> u8 list \<Rightarrow> 'r sys \<Rightarrow> system_fault + event \<times> 'r sys" where
  "process_item E beyond item s =
     (let command = drop 4 (queue_to_execute item) in
      case DAP_ProcessCommand E (put_bytes 0 command beyond) (probe s) of
        Inl e \<Rightarrow> Inl (Probe_Fault e)
      | Inr (r, num, d) \<Rightarrow>
          if 512 < length r then Inl Processed_Overflow
          else
            let buf = put_bytes 0 r (DAPDataProcessed s);
                res = num AND 0xFFFF
            in Inr (Processed (drop 4 item) r,
                 s\<lparr>probe := d, DAPDataProcessed := buf,
                   t_pc := T_Send (le32_bytes res @ get_bytes 0 512 buf)\<rparr>))"

definition task_step :: "'r ring_api \<Rightarrow> env \<Rightarrow> mem \<Rightarrow> 'r sys \<Rightarrow> (system_fault + event \<times> 'r sys) option" where
  "task_step R E beyond s =
     (case t_pc s of
        T_Top \<Rightarrow>
          Some (Inr (Internal, s\<lparr>t_pc := T_Wait, kRestartDAPHandle := NO_SIGNAL,
            rings := (case kRestartDAPHandle s of NO_SIGNAL \<Rightarrow> rings s
                      | RESET_HANDLE \<Rightarrow> Some (ring_new R, ring_new R) | DELETE_HANDLE \<Rightarrow> None)\<rparr>))
      | T_Wait \<Rightarrow>
          (if notify s = 0 then None
           else let s = s\<lparr>notify := notify s - 1\<rparr> in
             case rings s of None \<Rightarrow> Some (Inr (Internal, s\<lparr>t_pc := T_Top\<rparr>))
             | Some (rin, rout) \<Rightarrow>
                 let item = ring_recv R DAP_HANDLE_SIZE rin;
                     s' = s\<lparr>rings := Some (ring_return R (length item) rin, rout)\<rparr>
                 in if item = [] then Some (Inr (Internal, s\<lparr>t_pc := T_Top\<rparr>))
                    else if length item < DAP_HANDLE_SIZE then
                      Some (Inr (Internal, s'\<lparr>t_pc := T_Top\<rparr>))
                    else Some (process_item E beyond item s'))
      | T_Send item \<Rightarrow>
          (case rings s of None \<Rightarrow> Some (Inl Null_Ring)
           | Some (rin, rout) \<Rightarrow>
               map_option (\<lambda>rout. Inr (Internal, s\<lparr>rings := Some (rin, rout), t_pc := T_Respond\<rparr>))
                 (ring_send R item rout))
      | T_Respond \<Rightarrow>
          Some (Inr (Internal, s\<lparr>dap_respond := dap_respond s + 1, t_pc := T_Top\<rparr>)))"

section \<open>The system\<close>

text \<open>One connection: the tasks interleave, what the environment supplies to a command is
  arbitrary.\<close>

inductive step :: "'r ring_api \<Rightarrow> 'r sys \<Rightarrow> event \<Rightarrow> 'r sys \<Rightarrow> bool" for R where
  server: "server_step R s = Some (Inr (ev, s')) \<Longrightarrow> step R s ev s'"
| task: "task_step R E beyond s = Some (Inr (ev, s')) \<Longrightarrow> step R s ev s'"

inductive_cases stepE: "step R s ev s'"

inductive run :: "'r ring_api \<Rightarrow> 'r sys \<Rightarrow> event list \<Rightarrow> 'r sys \<Rightarrow> bool" for R s where
  start: "run R s [] s"
| more: "run R s es t \<Longrightarrow> step R t ev u \<Longrightarrow> run R s (es @ [ev]) u"

text \<open>A connection begins with empty rings and no signal pending; the probe and the bytes the
  host will send are arbitrary.\<close>

definition session_start :: "'r ring_api \<Rightarrow> dap \<Rightarrow> conn \<Rightarrow> mem \<Rightarrow> 'r sys" where
  "session_start R d c junk =
     \<lparr>s_pc = S_Read, s_conn = c, dap_req_num = 0, rings = Some (ring_new R, ring_new R),
      dap_respond = 0, notify = 0, kRestartDAPHandle = NO_SIGNAL, t_pc = T_Top,
      DAPDataProcessed = junk, probe = d\<rparr>"

section \<open>Packets are never split\<close>

text \<open>The buffer holds whole packets when its read offset is on a packet boundary.\<close>

definition holds :: "('r \<Rightarrow> nat \<times> u8 list) \<Rightarrow> 'r \<Rightarrow> u8 list list \<Rightarrow> bool" where
  "holds \<alpha> r P \<longleftrightarrow>
     snd (\<alpha> r) = concat P \<and> (\<forall>p \<in> set P. length p = DAP_HANDLE_SIZE) \<and>
     fst (\<alpha> r) mod DAP_HANDLE_SIZE = 0 \<and> fst (\<alpha> r) < ring_size"

lemmas ring_sizes = DAP_HANDLE_SIZE_def ring_size_def DAP_BUFFER_NUM_def

lemma length_concat_packets: "(\<forall>p \<in> set P. length p = n) \<Longrightarrow> length (concat P) = n * length P"
  by (induction P) auto

lemma byte_ringD:
  assumes "byte_ring R cap \<alpha>"
  shows "\<alpha> (ring_new R) = (0, [])"
    "ring_send R x r = None \<Longrightarrow> cap < length (snd (\<alpha> r)) + length x"
    "ring_send R x r = Some r' \<Longrightarrow> length (snd (\<alpha> r)) + length x \<le> cap"
    "ring_send R x r = Some r' \<Longrightarrow> \<alpha> r' = (fst (\<alpha> r), snd (\<alpha> r) @ x)"
    "ring_recv R n r = take (min n (cap - fst (\<alpha> r))) (snd (\<alpha> r))"
    "k \<le> length (snd (\<alpha> r)) \<Longrightarrow> \<alpha> (ring_return R k r) = ((fst (\<alpha> r) + k) mod cap, drop k (snd (\<alpha> r)))"
proof -
  note b = assms [unfolded byte_ring_def]
  have snd: "case ring_send R x r of None \<Rightarrow> cap < length (snd (\<alpha> r)) + length x
    | Some r' \<Rightarrow> length (snd (\<alpha> r)) + length x \<le> cap \<and> \<alpha> r' = (fst (\<alpha> r), snd (\<alpha> r) @ x)"
    using b by blast
  then show "ring_send R x r = None \<Longrightarrow> cap < length (snd (\<alpha> r)) + length x"
    "ring_send R x r = Some r' \<Longrightarrow> length (snd (\<alpha> r)) + length x \<le> cap"
    "ring_send R x r = Some r' \<Longrightarrow> \<alpha> r' = (fst (\<alpha> r), snd (\<alpha> r) @ x)"
    by simp_all
  show "\<alpha> (ring_new R) = (0, [])"
    "ring_recv R n r = take (min n (cap - fst (\<alpha> r))) (snd (\<alpha> r))" using b by blast+
  have "if k \<le> length (snd (\<alpha> r))
     then \<alpha> (ring_return R k r) = ((fst (\<alpha> r) + k) mod cap, drop k (snd (\<alpha> r))) else True" using b by blast
  then show "k \<le> length (snd (\<alpha> r)) \<Longrightarrow>
    \<alpha> (ring_return R k r) = ((fst (\<alpha> r) + k) mod cap, drop k (snd (\<alpha> r)))" by simp
qed

lemma holds_new: "byte_ring R ring_size \<alpha> \<Longrightarrow> holds \<alpha> (ring_new R) []"
  by (simp add: holds_def byte_ringD ring_sizes)

lemma holds_send:
  assumes "byte_ring R ring_size \<alpha>" "holds \<alpha> r P" "length x = DAP_HANDLE_SIZE" "ring_send R x r = Some r'"
  shows "holds \<alpha> r' (P @ [x])"
  using assms byte_ringD(4) [OF assms(1,4)] by (auto simp: holds_def)

lemma holds_full:
  assumes "byte_ring R ring_size \<alpha>" "holds \<alpha> r P" "length x = DAP_HANDLE_SIZE" "ring_send R x r = None"
  shows "DAP_BUFFER_NUM \<le> length P"
  using byte_ringD(2) [OF assms(1,4)] assms(2,3) length_concat_packets [of P DAP_HANDLE_SIZE]
  by (simp add: holds_def ring_sizes)

lemma holds_recv:
  assumes "byte_ring R ring_size \<alpha>" "holds \<alpha> r P"
  shows "ring_recv R DAP_HANDLE_SIZE r = (case P of [] \<Rightarrow> [] | p # _ \<Rightarrow> p)"
proof -
  obtain k where k: "fst (\<alpha> r) = DAP_HANDLE_SIZE * k"
    using assms(2) by (auto simp: holds_def)
  then have "DAP_HANDLE_SIZE * k < DAP_HANDLE_SIZE * DAP_BUFFER_NUM"
    using assms(2) by (simp add: holds_def ring_size_def)
  then have "k < DAP_BUFFER_NUM" by simp
  then have "min DAP_HANDLE_SIZE (ring_size - fst (\<alpha> r)) = DAP_HANDLE_SIZE"
    by (simp add: k ring_sizes)
  then show ?thesis
    using assms by (cases P) (simp_all add: byte_ringD holds_def)
qed

lemma holds_return:
  assumes "byte_ring R ring_size \<alpha>" "holds \<alpha> r (p # P)"
  shows "holds \<alpha> (ring_return R DAP_HANDLE_SIZE r) P"
proof -
  have "(fst (\<alpha> r) + DAP_HANDLE_SIZE) mod ring_size mod DAP_HANDLE_SIZE = 0"
    using assms(2) by (simp add: holds_def ring_size_def mod_mod_cancel mod_simps)
  moreover have "(fst (\<alpha> r) + DAP_HANDLE_SIZE) mod ring_size < ring_size" by (simp add: ring_sizes)
  ultimately show ?thesis
    using assms by (simp add: byte_ringD holds_def)
qed

section \<open>The invariant of a connection\<close>

definition requests :: "event list \<Rightarrow> u8 list list" where
  "requests es = concat (map (\<lambda>e. case e of Request p \<Rightarrow> [p] | _ \<Rightarrow> []) es)"
definition processed :: "event list \<Rightarrow> (u8 list \<times> u8 list) list" where
  "processed es = concat (map (\<lambda>e. case e of Processed p r \<Rightarrow> [(p, r)] | _ \<Rightarrow> []) es)"
definition replies :: "event list \<Rightarrow> u8 list list" where
  "replies es = concat (map (\<lambda>e. case e of Replied r \<Rightarrow> [r] | _ \<Rightarrow> []) es)"
definition leaving :: "event list \<Rightarrow> u8 list list" where
  "leaving es = concat (map (\<lambda>e. case e of Replied r \<Rightarrow> [r] | Unlinked r \<Rightarrow> [r] | _ \<Rightarrow> []) es)"
definition unlinks :: "event list \<Rightarrow> u8 list list" where
  "unlinks es = concat (map (\<lambda>e. case e of Unlinked r \<Rightarrow> [r] | _ \<Rightarrow> []) es)"

lemmas event_defs = requests_def processed_def replies_def leaving_def unlinks_def

text \<open>The packets were run one after another from probe state \<open>d\<close>, each with the response noted.\<close>

inductive served :: "dap \<Rightarrow> (u8 list \<times> u8 list) list \<Rightarrow> dap \<Rightarrow> bool" for d where
  nothing: "served d [] d"
| served_one: "served d prs e \<Longrightarrow>
    DAP_ProcessCommand E (put_bytes 0 (drop 4 (queue_to_execute item)) beyond) e = Inr (r, n, f) \<Longrightarrow>
    served d (prs @ [(drop 4 item, r)]) f"

definition sending :: "server_pc \<Rightarrow> u8 list list" where
  "sending pc = (case pc of S_Enqueue x \<Rightarrow> [x] | _ \<Rightarrow> [])"
definition answering :: "task_pc \<Rightarrow> u8 list list" where
  "answering pc = (case pc of T_Send y \<Rightarrow> [y] | _ \<Rightarrow> [])"

definition session_view :: "('r \<Rightarrow> nat \<times> u8 list) \<Rightarrow> dap \<Rightarrow> event list \<Rightarrow> 'r sys \<Rightarrow>
    'r \<Rightarrow> 'r \<Rightarrow> u8 list list \<Rightarrow> u8 list list \<Rightarrow> bool" where
  "session_view \<alpha> d es s rin rout P Q \<longleftrightarrow>
     rings s = Some (rin, rout) \<and> holds \<alpha> rin P \<and> holds \<alpha> rout Q \<and>
     kRestartDAPHandle s = NO_SIGNAL \<and>
     (\<forall>x \<in> set (sending (s_pc s)) \<union> set (answering (t_pc s)). length x = DAP_HANDLE_SIZE) \<and>
     requests es = map fst (processed es) @ map (drop 4) (P @ sending (s_pc s)) \<and>
     map snd (processed es) = leaving es @ map item_payload (Q @ answering (t_pc s)) \<and>
     served d (processed es) (probe s) \<and>
     length (requests es) = length (replies es) + dap_req_num s \<and>
     (\<forall>q \<in> set Q \<union> set (answering (t_pc s)). item_length q \<le> 512) \<and>
     probe_ok (probe s) \<and> (s_pc s = S_Await \<longrightarrow> 0 < dap_req_num s) \<and>
     length P \<le> notify s \<and>
     dap_respond s = int (length Q) - (if t_pc s = T_Respond then 1 else 0)"

definition session_inv :: "('r \<Rightarrow> nat \<times> u8 list) \<Rightarrow> dap \<Rightarrow> event list \<Rightarrow> 'r sys \<Rightarrow> bool" where
  "session_inv \<alpha> d es s \<longleftrightarrow> (\<exists>rin rout P Q. session_view \<alpha> d es s rin rout P Q)"

lemma session_invI: "session_view \<alpha> d es s rin rout P Q \<Longrightarrow> session_inv \<alpha> d es s"
  by (auto simp: session_inv_def)

lemma session_invE:
  assumes "session_inv \<alpha> d es s"
  obtains rin rout P Q where "session_view \<alpha> d es s rin rout P Q"
  using assms by (auto simp: session_inv_def)

lemma event_snoc [simp]:
  "requests (es @ [e]) = requests es @ (case e of Request p \<Rightarrow> [p] | _ \<Rightarrow> [])"
  "processed (es @ [e]) = processed es @ (case e of Processed p r \<Rightarrow> [(p, r)] | _ \<Rightarrow> [])"
  "replies (es @ [e]) = replies es @ (case e of Replied r \<Rightarrow> [r] | _ \<Rightarrow> [])"
  "leaving (es @ [e]) = leaving es @ (case e of Replied r \<Rightarrow> [r] | Unlinked r \<Rightarrow> [r] | _ \<Rightarrow> [])"
  "unlinks (es @ [e]) = unlinks es @ (case e of Unlinked r \<Rightarrow> [r] | _ \<Rightarrow> [])"
  by (simp_all add: event_defs)

lemma session_inv_conn [simp]: "session_inv \<alpha> d es (s\<lparr>s_conn := c\<rparr>) = session_inv \<alpha> d es s"
  "session_inv \<alpha> d es (on_conn f s) = session_inv \<alpha> d es s"
  by (simp_all add: session_inv_def session_view_def on_conn_def)

lemma session_inv_quiet [simp]:
  "session_inv \<alpha> d (es @ [Internal]) s = session_inv \<alpha> d es s"
  "session_inv \<alpha> d (es @ [Empty_Reply]) s = session_inv \<alpha> d es s"
  by (simp_all add: session_inv_def session_view_def)

lemma pc_simps [simp]:
  "sending S_Read = []" "sending S_Await = []" "sending S_Closed = []" "sending (S_Enqueue x) = [x]"
  "answering T_Top = []" "answering T_Wait = []" "answering T_Respond = []" "answering (T_Send y) = [y]"
  by (simp_all add: sending_def answering_def)

lemma inv_start: "byte_ring R ring_size \<alpha> \<Longrightarrow> probe_ok d \<Longrightarrow> session_inv \<alpha> d [] (session_start R d c junk)"
  by (rule session_invI [where P = "[]" and Q = "[]"])
    (auto simp: session_view_def session_start_def holds_new event_defs intro: served.intros)

lemma inv_enqueue:
  assumes R: "byte_ring R ring_size \<alpha>" and inv: "session_inv \<alpha> d es s" and pc: "s_pc s = S_Enqueue x"
    and st: "server_step R s = Some (Inr (ev, s'))"
  shows "session_inv \<alpha> d (es @ [ev]) s'"
proof -
  obtain rin rout P Q where V: "session_view \<alpha> d es s rin rout P Q" using inv by (rule session_invE)
  then have I: "rings s = Some (rin, rout)" "holds \<alpha> rin P" "length x = DAP_HANDLE_SIZE"
    by (simp_all add: session_view_def pc)
  obtain rin' where snd: "ring_send R x rin = Some rin'" and ev: "ev = Internal"
    and s': "s' = s\<lparr>rings := Some (rin', rout), notify := notify s + 1, s_pc := S_Read\<rparr>"
    using st pc I(1) by (auto simp: server_step_def)
  have "session_view \<alpha> d es s' rin' rout (P @ [x]) Q"
    using V holds_send [OF R I(2,3) snd] by (auto simp: session_view_def s' pc)
  then show ?thesis unfolding ev session_inv_quiet by (rule session_invI)
qed

lemma holds_packet: "holds \<alpha> r (p # P) \<Longrightarrow> length p = DAP_HANDLE_SIZE \<and> p \<noteq> []"
  by (auto simp: holds_def ring_sizes)

lemma inv_fast_reply:
  assumes R: "byte_ring R ring_size \<alpha>" and inv: "session_inv \<alpha> d es s" and pc: "s_pc s = S_Await"
    and st: "fast_reply R s = Some (Inr (ev, s'))"
  shows "session_inv \<alpha> d (es @ [ev]) s'"
proof -
  obtain rin rout P Q where V: "session_view \<alpha> d es s rin rout P Q" using inv by (rule session_invE)
  then have I: "rings s = Some (rin, rout)" "holds \<alpha> rout Q" by (simp_all add: session_view_def)
  note recv = holds_recv [OF R I(2)]
  obtain q Q' where Q: "Q = q # Q'"
    using st I(1) recv by (cases Q) (auto simp: fast_reply_def)
  note q = holds_packet [OF I(2) [unfolded Q]]
  have ev: "ev = Replied (item_payload q)"
    and s': "s' = s\<lparr>s_conn := send_stage2_submit_data_fast (Some (drop 4 q)) (item_length q) (s_conn s),
                 dap_respond := dap_respond s - 1,
                 rings := Some (rin, ring_return R (length q) rout),
                 dap_req_num := dap_req_num s - 1, s_pc := S_Read\<rparr>"
    using st I(1) recv q by (auto simp: fast_reply_def Q Let_def)
  have "holds \<alpha> (ring_return R (length q) rout) Q'"
    using holds_return [OF R I(2) [unfolded Q]] q by simp
  then have "session_view \<alpha> d (es @ [ev]) s' rin (ring_return R (length q) rout) P Q'"
    using V by (auto simp: session_view_def ev s' Q pc)
  then show ?thesis by (rule session_invI)
qed

lemma inv_unlink:
  assumes R: "byte_ring R ring_size \<alpha>" and inv: "session_inv \<alpha> d es s"
    and st: "handle_unlink R s = Inr (ev, s')"
  shows "session_inv \<alpha> d (es @ [ev]) s'"
proof -
  obtain rin rout P Q where V: "session_view \<alpha> d es s rin rout P Q" using inv by (rule session_invE)
  then have I: "rings s = Some (rin, rout)" "holds \<alpha> rout Q"
    "dap_respond s = int (length Q) - (if t_pc s = T_Respond then 1 else 0)" by (simp_all add: session_view_def)
  obtain t where t: "handle_dap_unlink R s = Inr (ev, t)" and s': "s' = on_conn send_stage2_unlink t"
    using st by (auto simp: handle_unlink_def split: sum.splits)
  note recv = holds_recv [OF R I(2)]
  show ?thesis
  proof (cases "0 < dap_respond s")
    case False
    then show ?thesis using t s' inv by (simp add: handle_dap_unlink_def)
  next
    case True
    then obtain q Q' where Q: "Q = q # Q'" using I(3) by (cases Q) (auto split: if_splits)
    note q = holds_packet [OF I(2) [unfolded Q]]
    have ev: "ev = Unlinked (item_payload q)"
      and t': "t = s\<lparr>dap_respond := dap_respond s - 1, rings := Some (rin, ring_return R (length q) rout)\<rparr>"
      using t True I(1) recv q by (auto simp: handle_dap_unlink_def Q Let_def)
    have "holds \<alpha> (ring_return R (length q) rout) Q'"
      using holds_return [OF R I(2) [unfolded Q]] q by simp
    then have "session_view \<alpha> d (es @ [ev]) t rin (ring_return R (length q) rout) P Q'"
      using V by (auto simp: session_view_def ev t' Q)
    then show ?thesis unfolding s' session_inv_conn by (rule session_invI)
  qed
qed

lemma inv_data_request:
  assumes inv: "session_inv \<alpha> d es s" and pc: "s_pc s = S_Read"
    and st: "handle_dap_data_request (s\<lparr>dap_req_num := dap_req_num s + 1\<rparr>) = (ev, s')"
  shows "session_inv \<alpha> d (es @ [ev]) s'"
proof -
  obtain rin rout P Q where V: "session_view \<alpha> d es s rin rout P Q" using inv by (rule session_invE)
  define c where "c = send_stage2_submit_data_fast None 0 (s_conn s)"
  define x where "x = get_bytes 44 DAP_HANDLE_SIZE (c_buf c)"
  have x: "length x = DAP_HANDLE_SIZE" "drop 4 x = get_bytes 48 512 (c_buf c)"
    using get_bytes_append [of 44 4 512 "c_buf c"] by (simp_all add: x_def ring_sizes)
  have ev: "ev = Request (drop 4 x)"
    and s': "s' = s\<lparr>dap_req_num := dap_req_num s + 1, s_conn := c, s_pc := S_Enqueue x\<rparr>"
    using st by (auto simp: handle_dap_data_request_def x(2) Let_def c_def [symmetric]) (simp add: x_def)
  have "session_view \<alpha> d (es @ [ev]) s' rin rout P Q"
    using V x(1) by (auto simp: session_view_def ev s' pc)
  then show ?thesis by (rule session_invI)
qed

lemma inv_pc:
  assumes "session_inv \<alpha> d es s" "s_pc s = S_Read" "pc = S_Closed \<or> pc = S_Await \<and> 0 < dap_req_num s"
  shows "session_inv \<alpha> d es (s\<lparr>s_pc := pc\<rparr>)"
proof -
  obtain rin rout P Q where V: "session_view \<alpha> d es s rin rout P Q" using assms(1) by (rule session_invE)
  then have "session_view \<alpha> d es (s\<lparr>s_pc := pc\<rparr>) rin rout P Q"
    using assms(2,3) by (auto simp: session_view_def)
  then show ?thesis by (rule session_invI)
qed

lemma inv_dispatch:
  assumes R: "byte_ring R ring_size \<alpha>" and inv: "session_inv \<alpha> d es s" and pc: "s_pc s = S_Read"
    and st: "urb_dispatch R s = Inr (ev, s')"
  shows "session_inv \<alpha> d (es @ [ev]) s'"
proof -
  define m where "m = c_buf (s_conn s)"
  note D = st [unfolded urb_dispatch_def Let_def, folded m_def]
  note K = inv_pc [OF inv pc]
  show ?thesis
  proof (cases "be32_at m 0 = USBIP_STAGE2_REQ_SUBMIT")
    case submit: True
    consider "be32_at m 16 = 1" "be32_at m 12 = USBIP_DIR_IN" "0 < dap_req_num s"
      | "be32_at m 16 = 1" "be32_at m 12 = USBIP_DIR_IN" "\<not> 0 < dap_req_num s"
      | "be32_at m 16 = 1" "be32_at m 12 = USBIP_DIR_OUT" "be32_at m 12 \<noteq> USBIP_DIR_IN"
      | "be32_at m 16 \<noteq> 1 \<or> be32_at m 12 \<noteq> USBIP_DIR_IN \<and> be32_at m 12 \<noteq> USBIP_DIR_OUT"
      by blast
    then show ?thesis
    proof cases
      case 1
      then have "ev = Internal" "s' = s\<lparr>s_pc := S_Await\<rparr>" using D submit by simp_all
      then show ?thesis using K [of S_Await] 1 by simp
    next
      case 2
      then have "ev = Empty_Reply" "s' = on_conn fast_reply_empty s" using D submit by simp_all
      then show ?thesis using inv by simp
    next
      case 3
      then have "handle_dap_data_request (s\<lparr>dap_req_num := dap_req_num s + 1\<rparr>) = (ev, s')"
        using D submit by simp
      then show ?thesis by (rule inv_data_request [OF inv pc])
    next
      case 4
      then obtain c where "ev = Internal" "s' = s\<lparr>s_conn := c\<rparr>"
        using D submit by (auto simp: on_conn_def split: if_splits option.splits)
      then show ?thesis using inv by simp
    qed
  next
    case False
    show ?thesis
    proof (cases "be32_at m 0 = USBIP_STAGE2_REQ_UNLINK")
      case True
      then have "handle_unlink R (on_conn unpacked s) = Inr (ev, s')" using D False by simp
      then show ?thesis using inv_unlink [OF R, of d es "on_conn unpacked s"] inv by simp
    next
      case u: False
      then have "ev = Internal" "s' = s\<lparr>s_pc := S_Closed\<rparr>" using D False by simp_all
      then show ?thesis using K [of S_Closed] by simp
    qed
  qed
qed

lemma inv_urb:
  assumes R: "byte_ring R ring_size \<alpha>" and inv: "session_inv \<alpha> d es s" and pc: "s_pc s = S_Read"
    and st: "usbip_urb_process R s = Inr (ev, s')"
  shows "session_inv \<alpha> d (es @ [ev]) s'"
proof -
  consider (closed) c where "ev = Internal" "s' = s\<lparr>s_conn := c, s_pc := S_Closed\<rparr>"
    | (dispatch) c where "urb_dispatch R (s\<lparr>s_conn := c\<rparr>) = Inr (ev, s')"
    using st unfolding usbip_urb_process_def Let_def by (auto split: if_splits prod.splits)
  then show ?thesis
  proof cases
    case (closed c)
    then show ?thesis using inv_pc [of \<alpha> d es "s\<lparr>s_conn := c\<rparr>" S_Closed] inv pc by simp
  next
    case (dispatch c)
    then show ?thesis using inv_dispatch [OF R _ _ dispatch] inv pc by simp
  qed
qed

lemma inv_server:
  assumes "byte_ring R ring_size \<alpha>" "session_inv \<alpha> d es s" "server_step R s = Some (Inr (ev, s'))"
  shows "session_inv \<alpha> d (es @ [ev]) s'"
proof (cases "s_pc s")
  case S_Read
  with assms show ?thesis using inv_urb by (simp add: server_step_def)
next
  case (S_Enqueue x)
  with assms show ?thesis using inv_enqueue by blast
next
  case S_Await
  with assms show ?thesis using inv_fast_reply by (simp add: server_step_def)
next
  case S_Closed
  with assms show ?thesis by (simp add: server_step_def)
qed

lemma masked_resp_len: "unat (n AND 0xFFFF :: u32) = resp_len n"
proof -
  have "n AND 0xFFFF = take_bit 16 n" by (simp add: take_bit_eq_mask mask_eq_exp_minus_1)
  then show ?thesis
    by (simp add: resp_len_def unsigned_take_bit_eq unsigned_ucast_eq)
qed

lemma response_item:
  assumes "length r \<le> 512" "unat w = length r"
  shows "item_payload (le32_bytes w @ get_bytes 0 512 (put_bytes 0 r m)) = r"
    "item_length (le32_bytes w @ get_bytes 0 512 (put_bytes 0 r m)) = length r"
proof -
  have w: "le32_at (mem_of (le32_bytes w @ bs)) 0 = w" for bs
    by (simp add: le32_at_def mem_of_def le32_bytes_def le32_roundtrip numeral_2_eq_2 numeral_3_eq_3)
  then show "item_length (le32_bytes w @ get_bytes 0 512 (put_bytes 0 r m)) = length r"
    by (simp add: item_length_def assms(2))
  moreover have "take (length r) (get_bytes 0 512 (put_bytes 0 r m)) = r"
    using get_put_same [of 0 r m] get_bytes_append [of 0 "length r" "512 - length r" "put_bytes 0 r m"] assms(1)
    by simp
  ultimately show "item_payload (le32_bytes w @ get_bytes 0 512 (put_bytes 0 r m)) = r"
    by (simp add: item_payload_def)
qed

lemma process_item_cases:
  assumes st: "process_item E beyond item s = Inr (ev, s')" and ok: "probe_ok (probe s)"
  obtains r n f buf w where
    "DAP_ProcessCommand E (put_bytes 0 (drop 4 (queue_to_execute item)) beyond) (probe s) = Inr (r, n, f)"
    "ev = Processed (drop 4 item) r" "length r \<le> 512"
    "s' = s\<lparr>probe := f, DAPDataProcessed := buf, t_pc := T_Send (le32_bytes w @ get_bytes 0 512 buf)\<rparr>"
    "item_payload (le32_bytes w @ get_bytes 0 512 buf) = r"
    "item_length (le32_bytes w @ get_bytes 0 512 buf) = length r"
proof -
  obtain r n f where C:
    "DAP_ProcessCommand E (put_bytes 0 (drop 4 (queue_to_execute item)) beyond) (probe s) = Inr (r, n, f)"
    and len: "length r \<le> 512" and ev: "ev = Processed (drop 4 item) r"
    and s': "s' = s\<lparr>probe := f, DAPDataProcessed := put_bytes 0 r (DAPDataProcessed s),
      t_pc := T_Send (le32_bytes (n AND 0xFFFF) @ get_bytes 0 512 (put_bytes 0 r (DAPDataProcessed s)))\<rparr>"
    using st by (auto simp: process_item_def Let_def split: sum.splits if_splits)
  have w: "unat (n AND 0xFFFF) = length r"
    unfolding masked_resp_len using proc.length_law [OF C ok TrueI] len by simp
  show thesis by (rule that [OF C ev len s' response_item [OF len w]])
qed

lemma inv_process:
  assumes R: "byte_ring R ring_size \<alpha>" and V: "session_view \<alpha> d es s rin rout (p # P) Q"
    and pc: "t_pc s = T_Wait" and n: "0 < notify s"
    and st: "process_item E beyond p
      (s\<lparr>notify := notify s - 1, rings := Some (ring_return R (length p) rin, rout)\<rparr>) = Inr (ev, s')"
  shows "session_inv \<alpha> d (es @ [ev]) s'"
proof -
  have h: "holds \<alpha> rin (p # P)" using V by (simp add: session_view_def)
  note p = holds_packet [OF h]
  obtain r n f buf w where C:
    "DAP_ProcessCommand E (put_bytes 0 (drop 4 (queue_to_execute p)) beyond) (probe s) = Inr (r, n, f)"
    and ev: "ev = Processed (drop 4 p) r"
    and s': "s' = s\<lparr>notify := notify s - 1, rings := Some (ring_return R (length p) rin, rout),
        probe := f, DAPDataProcessed := buf, t_pc := T_Send (le32_bytes w @ get_bytes 0 512 buf)\<rparr>"
    and r: "item_payload (le32_bytes w @ get_bytes 0 512 buf) = r" and ok: "probe_ok f"
    and len: "item_length (le32_bytes w @ get_bytes 0 512 buf) \<le> 512"
  proof -
    have "probe_ok (probe s)" using V by (simp add: session_view_def)
    with st show thesis
      using proc.keeps that by (elim process_item_cases) auto
  qed
  have sv: "served d (processed es @ [(drop 4 p, r)]) f"
    using V C by (auto simp: session_view_def intro: served_one)
  have ret: "holds \<alpha> (ring_return R (length p) rin) P" using holds_return [OF R h] p by simp
  have "length (le32_bytes w @ get_bytes 0 512 buf) = DAP_HANDLE_SIZE" by (simp add: ring_sizes)
  then have "session_view \<alpha> d (es @ [ev]) s' (ring_return R (length p) rin) rout P Q"
    using V sv ret r pc n ok len by (auto simp: session_view_def ev s')
  then show ?thesis by (rule session_invI)
qed

lemma inv_task:
  assumes R: "byte_ring R ring_size \<alpha>" and inv: "session_inv \<alpha> d es s"
    and st: "task_step R E beyond s = Some (Inr (ev, s'))"
  shows "session_inv \<alpha> d (es @ [ev]) s'"
proof -
  obtain rin rout P Q where V: "session_view \<alpha> d es s rin rout P Q" using inv by (rule session_invE)
  then have I: "rings s = Some (rin, rout)" "holds \<alpha> rin P" "holds \<alpha> rout Q" "kRestartDAPHandle s = NO_SIGNAL"
    by (simp_all add: session_view_def)
  note recv = holds_recv [OF R I(2)]
  show ?thesis
  proof (cases "t_pc s")
    case T_Top
    then have ev: "ev = Internal" and s': "s' = s\<lparr>t_pc := T_Wait, kRestartDAPHandle := NO_SIGNAL, rings := rings s\<rparr>"
      using st I by (simp_all add: task_step_def)
    have "session_view \<alpha> d es s' rin rout P Q" using V T_Top by (auto simp: session_view_def s')
    then show ?thesis unfolding ev session_inv_quiet by (rule session_invI)
  next
    case T_Wait
    then have n: "0 < notify s" using st by (simp add: task_step_def split: if_splits)
    show ?thesis
    proof (cases P)
      case Nil
      then have ev: "ev = Internal" and s': "s' = s\<lparr>notify := notify s - 1, t_pc := T_Top\<rparr>"
        using st I recv n T_Wait by (simp_all add: task_step_def Let_def)
      have "session_view \<alpha> d es s' rin rout P Q" using V T_Wait Nil by (auto simp: session_view_def s')
      then show ?thesis unfolding ev session_inv_quiet by (rule session_invI)
    next
      case (Cons p P')
      note p = holds_packet [OF I(2) [unfolded Cons]]
      have "process_item E beyond p
        (s\<lparr>notify := notify s - 1, rings := Some (ring_return R (length p) rin, rout)\<rparr>) = Inr (ev, s')"
        using st I recv n T_Wait p by (simp add: task_step_def Let_def Cons)
      then show ?thesis by (rule inv_process [OF R V [unfolded Cons] T_Wait n])
    qed
  next
    case (T_Send y)
    then have y: "length y = DAP_HANDLE_SIZE" using V by (simp add: session_view_def)
    obtain rout' where snd: "ring_send R y rout = Some rout'" and ev: "ev = Internal"
      and s': "s' = s\<lparr>rings := Some (rin, rout'), t_pc := T_Respond\<rparr>"
      using st I T_Send by (auto simp: task_step_def)
    have "session_view \<alpha> d es s' rin rout' P (Q @ [y])"
      using V holds_send [OF R I(3) y snd] T_Send by (auto simp: session_view_def s')
    then show ?thesis unfolding ev session_inv_quiet by (rule session_invI)
  next
    case T_Respond
    then have ev: "ev = Internal" and s': "s' = s\<lparr>dap_respond := dap_respond s + 1, t_pc := T_Top\<rparr>"
      using st by (simp_all add: task_step_def)
    have "session_view \<alpha> d es s' rin rout P Q" using V T_Respond by (auto simp: session_view_def s')
    then show ?thesis unfolding ev session_inv_quiet by (rule session_invI)
  qed
qed

lemma inv_run:
  assumes R: "byte_ring R ring_size \<alpha>" and ok: "probe_ok d" and "run R (session_start R d c junk) es s"
  shows "session_inv \<alpha> d es s"
  using assms(3)
proof (induction rule: run.induct)
  case start
  show ?case by (rule inv_start [OF R ok])
next
  case (more es t ev u)
  from more.hyps(2) show ?case
    by (cases rule: stepE) (use inv_server [OF R more.IH] inv_task [OF R more.IH] in blast)+
qed

section \<open>Progress\<close>

lemma leaving_count: "length (leaving es) = length (replies es) + length (unlinks es)"
  by (induction es) (auto simp: event_defs split: event.splits)

text \<open>What is outstanding, and where it is.\<close>

lemma outstanding:
  assumes "session_view \<alpha> d es s rin rout P Q"
  shows "dap_req_num s = length (unlinks es) + length P + length (sending (s_pc s)) + length Q +
    length (answering (t_pc s))"
proof -
  have "length (requests es) = length (processed es) + length P + length (sending (s_pc s))"
    "length (requests es) = length (replies es) + dap_req_num s"
    "length (map snd (processed es)) = length (leaving es) + length Q + length (answering (t_pc s))"
    using assms by (auto simp: session_view_def)
  then show ?thesis by (simp add: leaving_count)
qed

lemma task_blocked:
  assumes R: "byte_ring R ring_size \<alpha>" and V: "session_view \<alpha> d es s rin rout P Q"
    and st: "task_step R E beyond s = None"
  shows "t_pc s = T_Wait \<and> notify s = 0 \<and> P = [] \<or>
    (\<exists>y. t_pc s = T_Send y) \<and> DAP_BUFFER_NUM \<le> length Q"
proof (cases "t_pc s")
  case T_Wait
  have n: "rings s = Some (rin, rout)" using V by (simp add: session_view_def)
  have "notify s = 0"
  proof (rule ccontr)
    assume "notify s \<noteq> 0"
    then show False using st T_Wait n by (simp add: task_step_def Let_def split: if_splits)
  qed
  then show ?thesis using V T_Wait by (simp add: session_view_def)
next
  case (T_Send y)
  then have "holds \<alpha> rout Q" "length y = DAP_HANDLE_SIZE" "rings s = Some (rin, rout)"
    using V by (simp_all add: session_view_def)
  moreover from this have "ring_send R y rout = None" using st T_Send by (simp add: task_step_def)
  ultimately show ?thesis using holds_full [OF R] T_Send by blast
qed (use st in \<open>simp_all add: task_step_def\<close>)

lemma server_blocked:
  assumes R: "byte_ring R ring_size \<alpha>" and V: "session_view \<alpha> d es s rin rout P Q"
    and st: "server_step R s = None"
  shows "s_pc s = S_Closed \<or> s_pc s = S_Await \<and> Q = [] \<or>
    (\<exists>x. s_pc s = S_Enqueue x) \<and> DAP_BUFFER_NUM \<le> length P"
proof (cases "s_pc s")
  case (S_Enqueue x)
  then have "holds \<alpha> rin P" "length x = DAP_HANDLE_SIZE" "rings s = Some (rin, rout)"
    using V by (simp_all add: session_view_def)
  moreover from this have "ring_send R x rin = None" using st S_Enqueue by (simp add: server_step_def)
  ultimately show ?thesis using holds_full [OF R] S_Enqueue by blast
next
  case S_Await
  then have h: "holds \<alpha> rout Q" "rings s = Some (rin, rout)" using V by (simp_all add: session_view_def)
  have "Q = []"
  proof (cases Q)
    case (Cons q Q')
    then show ?thesis
      using st S_Await h holds_recv [OF R h(1)] holds_packet [of \<alpha> rout q Q']
      by (simp add: server_step_def fast_reply_def Let_def)
  qed
  then show ?thesis using S_Await by simp
qed (use st in \<open>simp_all add: server_step_def\<close>)

text \<open>A bound on the steps the DAP task takes by itself.\<close>

fun task_rank :: "task_pc \<Rightarrow> nat" where
  "task_rank T_Wait = 0" | "task_rank T_Top = 1" | "task_rank T_Respond = 2" | "task_rank (T_Send y) = 3"

definition task_measure :: "'r sys \<Rightarrow> nat" where
  "task_measure s = 4 * notify s + task_rank (t_pc s)"

lemma task_measure_decreases:
  assumes st: "task_step R E beyond s = Some (Inr (ev, s'))"
  shows "task_measure s' < task_measure s"
proof (cases "t_pc s")
  case T_Wait
  then have n: "0 < notify s" using st by (simp add: task_step_def split: if_splits)
  let ?s = "s\<lparr>notify := notify s - 1\<rparr>"
  have top: "task_measure (?s\<lparr>rings := r, t_pc := T_Top\<rparr>) < task_measure s"
    "task_measure (?s\<lparr>t_pc := T_Top\<rparr>) < task_measure s" for r
    using n T_Wait by (simp_all add: task_measure_def)
  have proc: "task_measure t < task_measure s"
    if "process_item E beyond item (?s\<lparr>rings := r\<rparr>) = Inr (e, t)" for item r e t
    using that n T_Wait by (auto simp: process_item_def Let_def task_measure_def split: sum.splits if_splits)
  show ?thesis
  proof (cases "rings s")
    case None
    then show ?thesis using st T_Wait n top(2) by (auto simp: task_step_def Let_def)
  next
    case (Some h)
    obtain rin rout where h: "h = (rin, rout)" by fastforce
    define item where "item = ring_recv R DAP_HANDLE_SIZE rin"
    let ?r = "Some (ring_return R (length item) rin, rout)"
    have D: "task_step R E beyond s = (if item = [] then Some (Inr (Internal, ?s\<lparr>t_pc := T_Top\<rparr>))
        else if length item < DAP_HANDLE_SIZE then Some (Inr (Internal, ?s\<lparr>rings := ?r, t_pc := T_Top\<rparr>))
        else Some (process_item E beyond item (?s\<lparr>rings := ?r\<rparr>)))"
      using T_Wait n by (simp add: task_step_def Let_def Some h item_def)
    consider "item = []" | "item \<noteq> []" "length item < DAP_HANDLE_SIZE"
      | "item \<noteq> []" "\<not> length item < DAP_HANDLE_SIZE" by blast
    then show ?thesis
      using st proc [of item ?r ev s'] top unfolding D by cases auto
  qed
qed (use st in \<open>auto simp: task_step_def task_measure_def split: option.splits\<close>)

inductive task_run :: "'r ring_api \<Rightarrow> 'r sys \<Rightarrow> nat \<Rightarrow> 'r sys \<Rightarrow> bool" for R s where
  task_start: "task_run R s 0 s"
| task_more: "task_run R s n t \<Longrightarrow> task_step R E beyond t = Some (Inr (ev, u)) \<Longrightarrow> task_run R s (Suc n) u"

lemma task_run_bound: "task_run R s n t \<Longrightarrow> n + task_measure t \<le> task_measure s"
  by (induction rule: task_run.induct) (auto dest: task_measure_decreases)

lemma task_step_server: "task_step R E beyond s = Some (Inr (ev, s')) \<Longrightarrow>
    s_pc s' = s_pc s \<and> unlinks [ev] = []"
  by (auto simp: task_step_def process_item_def Let_def event_defs
      split: task_pc.splits option.splits if_splits sum.splits)

lemma unlinks_append: "unlinks (es @ es') = unlinks es @ unlinks es'"
  by (simp add: unlinks_def)

lemma task_run_run:
  assumes "task_run R s n t" "run R s0 es s"
  shows "\<exists>es'. run R s0 (es @ es') t \<and> s_pc t = s_pc s \<and> unlinks es' = []"
  using assms(1)
proof (induction rule: task_run.induct)
  case task_start
  show ?case using assms(2) by (intro exI [of _ "[]"]) (simp add: unlinks_def)
next
  case (task_more n t E beyond ev u)
  then obtain es' where es': "run R s0 (es @ es') t" "s_pc t = s_pc s" "unlinks es' = []" by blast
  note st = task_step_server [OF task_more.hyps(2)]
  have "run R s0 ((es @ es') @ [ev]) u"
    by (rule run.more [OF es'(1) step.task [OF task_more.hyps(2)]])
  moreover have "unlinks (es' @ [ev]) = []"
    using es'(3) st by (simp add: unlinks_append)
  moreover have "s_pc u = s_pc s" using es'(2) st by simp
  ultimately show ?case by (intro exI [of _ "es' @ [ev]"]) simp
qed

section \<open>A ring buffer\<close>

definition fifo_ring :: "(nat \<times> u8 list) ring_api" where
  "fifo_ring =
     \<lparr>ring_new = (0, []),
      ring_send = (\<lambda>x r. if length (snd r) + length x \<le> ring_size then Some (fst r, snd r @ x) else None),
      ring_recv = (\<lambda>n r. take (min n (ring_size - fst r)) (snd r)),
      ring_return = (\<lambda>k r. ((fst r + k) mod ring_size, drop k (snd r)))\<rparr>"

lemma fifo_byte_ring: "byte_ring fifo_ring ring_size (\<lambda>r. r)"
  by (auto simp: byte_ring_def fifo_ring_def)

definition example_conn :: "segments \<Rightarrow> conn" where
  "example_conn ss = \<lparr>c_in = ss, c_out = [], c_buf = (\<lambda>_. 0)\<rparr>"

definition example_start :: "segments \<Rightarrow> (nat \<times> u8 list) sys" where
  "example_start ss = session_start fifo_ring example_dap (example_conn ss) (\<lambda>_. 0)"

lemmas fifo_run = inv_run [OF fifo_byte_ring example_probe_ok]

section \<open>What the host sends\<close>

text \<open>The 48 bytes of a submit request of endpoint 1 and of an unlink request.\<close>

definition submit_header :: "u32 \<Rightarrow> u32 \<Rightarrow> nat \<Rightarrow> u8 list" where
  "submit_header seqnum dir n =
     be32_bytes USBIP_STAGE2_REQ_SUBMIT @ be32_bytes seqnum @ be32_bytes 0x10001 @ be32_bytes dir @
     be32_bytes 1 @ be32_bytes 0 @ be32_bytes (of_nat n) @ replicate 20 0"

definition unlink_header :: "u32 \<Rightarrow> u32 \<Rightarrow> u8 list" where
  "unlink_header seqnum victim =
     be32_bytes USBIP_STAGE2_REQ_UNLINK @ be32_bytes seqnum @ be32_bytes 0x10001 @
     be32_bytes 0 @ be32_bytes 0 @ be32_bytes victim @ replicate 24 0"

lemma length_be32 [simp]: "length (be32_bytes v) = 4"
  by (simp add: be32_bytes_def)

lemma length_headers [simp]: "length (submit_header q dir n) = 48" "length (unlink_header q v) = 48"
  by (simp_all add: submit_header_def unlink_header_def)

lemma be32_at_get: "get_bytes p 4 m = be32_bytes v \<Longrightarrow> be32_at m p = v"
proof -
  assume "get_bytes p 4 m = be32_bytes v"
  then have "le32_bytes (htonl (be32_at m p)) = le32_bytes (htonl v)"
    by (simp add: be32_bytes_be32_at le32_bytes_htonl)
  then have "htonl (be32_at m p) = htonl v" by (rule le32_bytes_inj)
  then show ?thesis by (metis htonl_htonl)
qed

lemma get_put_inside:
  "p + n \<le> length bs \<Longrightarrow> get_bytes p n (put_bytes 0 bs m) = take n (drop p bs)"
  by (rule nth_equalityI) (simp_all add: put_bytes_def)

lemma submit_fields:
  "be32_at (put_bytes 0 (submit_header q dir n) m) 0 = USBIP_STAGE2_REQ_SUBMIT"
  "be32_at (put_bytes 0 (submit_header q dir n) m) 12 = dir"
  "be32_at (put_bytes 0 (submit_header q dir n) m) 16 = 1"
  "be32_at (put_bytes 0 (submit_header q dir n) m) 24 = of_nat n"
  by (rule be32_at_get, simp add: get_put_inside submit_header_def)+

lemma unlink_fields: "be32_at (put_bytes 0 (unlink_header q v) m) 0 = USBIP_STAGE2_REQ_UNLINK"
  by (rule be32_at_get) (simp add: get_put_inside unlink_header_def)

lemma recv_segment:
  "c_in c = bs # rest \<Longrightarrow> bs \<noteq> [] \<Longrightarrow>
   recv_to p (length bs) c = (True, c\<lparr>c_in := rest, c_buf := put_bytes p bs (c_buf c)\<rparr>)"
  by (simp add: recv_to_def recv_all.simps [of "length bs"])

lemma be32_at_put_other: "p + length bs \<le> q \<or> q + 4 \<le> p \<Longrightarrow> be32_at (put_bytes p bs m) q = be32_at m q"
  by (simp add: be32_at_def le32_at_put_bytes_other)

lemma urb_dispatched:
  assumes pc: "s_pc s = S_Read" and c: "c_in (s_conn s) = hdr # rest" and h: "length hdr = 48"
    and m: "m = put_bytes 0 hdr (c_buf (s_conn s))"
    and n: "\<not> (be32_at m 0 = USBIP_STAGE2_REQ_SUBMIT \<and> be32_at m 12 = USBIP_DIR_OUT)"
  shows "server_step R s = Some (urb_dispatch R (s\<lparr>s_conn := s_conn s\<lparr>c_in := rest, c_buf := m\<rparr>\<rparr>))"
proof -
  have "hdr \<noteq> []" using h by auto
  then have r: "recv_to 0 48 (s_conn s) = (True, s_conn s\<lparr>c_in := rest, c_buf := m\<rparr>)"
    using recv_segment [OF c, of 0] h m by simp
  have z: "recv_to 48 0 c = (True, c)" for c by (simp add: recv_to_def)
  have "usbip_urb_process R s = urb_dispatch R (s\<lparr>s_conn := s_conn s\<lparr>c_in := rest, c_buf := m\<rparr>\<rparr>)"
    using n unfolding usbip_urb_process_def r by (auto simp: Let_def z rx_size_def)
  then show ?thesis by (simp add: server_step_def pc)
qed

text \<open>An IN request while requests are outstanding, an unlink, and an OUT request.\<close>

lemma in_urb:
  assumes "s_pc s = S_Read" "c_in (s_conn s) = submit_header q USBIP_DIR_IN n # rest" "0 < dap_req_num s"
  shows "\<exists>c. server_step R s = Some (Inr (Internal, s\<lparr>s_conn := c, s_pc := S_Await\<rparr>)) \<and> c_in c = rest"
  using urb_dispatched [OF assms(1,2) _ refl] assms(3)
  by (simp add: submit_fields USBIP_DIR_IN_def USBIP_DIR_OUT_def urb_dispatch_def Let_def)
   (intro exI conjI, rule refl, simp)

lemma unlink_urb:
  assumes "s_pc s = S_Read" "c_in (s_conn s) = unlink_header q v # rest"
  shows "\<exists>c. server_step R s = Some (handle_unlink R (s\<lparr>s_conn := c\<rparr>)) \<and> c_in c = rest"
  using urb_dispatched [OF assms _ refl]
  by (simp add: unlink_fields USBIP_STAGE2_REQ_SUBMIT_def USBIP_STAGE2_REQ_UNLINK_def urb_dispatch_def
      Let_def on_conn_def unpacked_def)
   (intro exI conjI, rule refl, simp)

lemma out_urb:
  assumes pc: "s_pc s = S_Read" and n: "0 < length data" "length data \<le> 512"
    and c: "c_in (s_conn s) = submit_header q USBIP_DIR_OUT (length data) # data # rest"
  shows "\<exists>c x. server_step R s = Some (Inr (Request (drop 4 x),
      s\<lparr>dap_req_num := dap_req_num s + 1, s_conn := c, s_pc := S_Enqueue x\<rparr>)) \<and>
    c_in c = rest \<and> length x = DAP_HANDLE_SIZE \<and> x ! 4 = hd data"
proof -
  let ?h = "submit_header q USBIP_DIR_OUT (length data)"
  let ?c1 = "s_conn s\<lparr>c_in := data # rest, c_buf := put_bytes 0 ?h (c_buf (s_conn s))\<rparr>"
  define c2 where "c2 = s_conn s\<lparr>c_in := rest, c_buf := put_bytes 48 data (c_buf ?c1)\<rparr>"
  have "?h \<noteq> []" by (metis length_headers(1) list.size(3) zero_neq_numeral)
  then have r1: "recv_to 0 48 (s_conn s) = (True, ?c1)" using recv_segment [OF c, of 0] by simp
  have r2: "recv_to 48 (length data) ?c1 = (True, c2)"
    using recv_segment [of ?c1 data rest 48] n by (simp add: c2_def)
  have len: "unat (of_nat (length data) :: u32) = length data"
    using n by (simp add: unat_of_nat_small)
  have f: "be32_at (c_buf c2) 0 = USBIP_STAGE2_REQ_SUBMIT" "be32_at (c_buf c2) 12 = USBIP_DIR_OUT"
    "be32_at (c_buf c2) 16 = 1"
    by (simp_all add: c2_def be32_at_put_other submit_fields)
  define c where "c = send_stage2_submit_data_fast None 0 c2"
  define x where "x = get_bytes 44 DAP_HANDLE_SIZE (c_buf c)"
  have x: "length x = DAP_HANDLE_SIZE" "drop 4 x = get_bytes 48 512 (c_buf c)"
    using get_bytes_append [of 44 4 512 "c_buf c"] by (simp_all add: x_def ring_sizes)
  have "c_buf c 48 = c_buf c2 48"
    by (simp add: c_def send_stage2_submit_data_fast_def Let_def usbip_network_send_def put32_def put_bytes_out)
  also have "\<dots> = hd data" using n by (simp add: c2_def put_bytes_def hd_conv_nth)
  finally have hd: "x ! 4 = hd data" by (simp add: x_def ring_sizes)
  have cin: "c_in c = rest"
    using data_fast_out(2) [of None "[]" 0 c2] by (simp add: c_def c2_def)
  have "usbip_urb_process R s = urb_dispatch R (s\<lparr>s_conn := c2\<rparr>)"
    unfolding usbip_urb_process_def r1 using n by (simp add: Let_def submit_fields len r2 rx_size_def)
  also have "\<dots> = Inr (Request (drop 4 x),
      s\<lparr>dap_req_num := dap_req_num s + 1, s_conn := c, s_pc := S_Enqueue x\<rparr>)"
    unfolding urb_dispatch_def Let_def
    by (simp add: f USBIP_DIR_IN_def USBIP_DIR_OUT_def handle_dap_data_request_def Let_def c_def [symmetric] x(2))
     (simp add: x_def)
  finally show ?thesis using cin x(1) hd by (intro exI [of _ c] exI [of _ x]) (simp add: server_step_def pc)
qed

section \<open>Runs of a connection\<close>

text \<open>A state with \<open>a\<close> packets waiting for the task and \<open>b\<close> responses waiting for the host, all of
  them commands the probe does not know, reached after \<open>n\<close> requests.\<close>

definition reached :: "'r ring_api \<Rightarrow> 'r sys \<Rightarrow> nat \<Rightarrow> 'r sys \<Rightarrow> bool" where
  "reached R s0 n s \<longleftrightarrow> (\<exists>es. run R s0 es s \<and> length (requests es) = n)"

definition unknown_command :: "u8 list \<Rightarrow> bool" where
  "unknown_command x \<longleftrightarrow> length x = DAP_HANDLE_SIZE \<and> x ! 4 = 0xA0"

definition config :: "('r \<Rightarrow> nat \<times> u8 list) \<Rightarrow> 'r sys \<Rightarrow> nat \<Rightarrow> nat \<Rightarrow> bool" where
  "config \<alpha> s a b \<longleftrightarrow> (\<exists>rin rout P Q. rings s = Some (rin, rout) \<and> holds \<alpha> rin P \<and> holds \<alpha> rout Q \<and>
     length P = a \<and> length Q = b \<and> (\<forall>x \<in> set P \<union> set (sending (s_pc s)). unknown_command x) \<and>
     (\<forall>y \<in> set (answering (t_pc s)). length y = DAP_HANDLE_SIZE) \<and>
     kRestartDAPHandle s = NO_SIGNAL \<and> notify s = a)"

lemma reached_server: "reached R s0 n s \<Longrightarrow> server_step R s = Some (Inr (ev, t)) \<Longrightarrow>
    reached R s0 (n + length (requests [ev])) t"
  unfolding reached_def using run.more [OF _ step.server] by (fastforce simp: requests_def)

lemma reached_task: "reached R s0 n s \<Longrightarrow> task_step R E beyond s = Some (Inr (ev, t)) \<Longrightarrow>
    requests [ev] = [] \<Longrightarrow> reached R s0 n t"
  unfolding reached_def using run.more [OF _ step.task] by (fastforce simp: requests_def)

lemma holds_room:
  assumes "byte_ring R ring_size \<alpha>" "holds \<alpha> r P" "length x = DAP_HANDLE_SIZE"
  shows "ring_send R x r \<noteq> None \<longleftrightarrow> length P < DAP_BUFFER_NUM"
proof -
  have "length (snd (\<alpha> r)) = DAP_HANDLE_SIZE * length P"
    using assms(2) length_concat_packets [of P DAP_HANDLE_SIZE] by (simp add: holds_def)
  then show ?thesis
    using byte_ringD(2,3) [OF assms(1), of x r] assms(3)
    by (cases "ring_send R x r") (auto simp: ring_sizes)
qed

lemma unknown_response:
  assumes "m 0 = 0xA0"
  shows "DAP_ProcessCommand E m d = Inr ([ID_DAP_Invalid], pack_num 1 1, d)"
  using assms by (simp add: DAP_ProcessCommand_def dap_command_def)

lemma go_out:
  assumes "reached R s0 n s" "config \<alpha> s a b" "s_pc s = S_Read"
    "c_in (s_conn s) = submit_header q USBIP_DIR_OUT 1 # [0xA0] # rest"
  shows "\<exists>x t. reached R s0 (n + 1) t \<and> config \<alpha> t a b \<and> s_pc t = S_Enqueue x \<and> c_in (s_conn t) = rest \<and>
    t_pc t = t_pc s \<and> dap_req_num t = dap_req_num s + 1 \<and> dap_respond t = dap_respond s"
proof -
  obtain c x where st: "server_step R s = Some (Inr (Request (drop 4 x),
      s\<lparr>dap_req_num := dap_req_num s + 1, s_conn := c, s_pc := S_Enqueue x\<rparr>))" (is "_ = Some (Inr (_, ?t))")
    and c: "c_in c = rest" and x: "length x = DAP_HANDLE_SIZE" "x ! 4 = 0xA0"
    using out_urb [OF assms(3), of "[0xA0]" q rest R] assms(4) by auto
  have "config \<alpha> ?t a b"
    using assms(2,3) x by (auto simp: config_def unknown_command_def)
  then show ?thesis
    using reached_server [OF assms(1) st] c by (intro exI [of _ x] exI [of _ ?t]) (simp add: requests_def)
qed

lemma go_enqueue:
  assumes R: "byte_ring R ring_size \<alpha>" and "reached R s0 n s" "config \<alpha> s a b" "s_pc s = S_Enqueue x"
    "a < DAP_BUFFER_NUM"
  shows "\<exists>t. reached R s0 n t \<and> config \<alpha> t (a + 1) b \<and> s_pc t = S_Read \<and> c_in (s_conn t) = c_in (s_conn s) \<and>
    t_pc t = t_pc s \<and> dap_req_num t = dap_req_num s \<and> dap_respond t = dap_respond s"
proof -
  obtain rin rout P Q where C: "rings s = Some (rin, rout)" "holds \<alpha> rin P" "holds \<alpha> rout Q"
    "length P = a" "length Q = b" "\<forall>x \<in> set P. unknown_command x" "unknown_command x"
    "\<forall>y \<in> set (answering (t_pc s)). length y = DAP_HANDLE_SIZE"
    "kRestartDAPHandle s = NO_SIGNAL" "notify s = a"
    using assms(3,4) by (auto simp: config_def)
  then have x: "length x = DAP_HANDLE_SIZE" by (simp add: unknown_command_def)
  obtain rin' where snd: "ring_send R x rin = Some rin'"
    using holds_room [OF R C(2) x] C(4) assms(5) by auto
  let ?t = "s\<lparr>rings := Some (rin', rout), notify := notify s + 1, s_pc := S_Read\<rparr>"
  have st: "server_step R s = Some (Inr (Internal, ?t))"
    using assms(4) C(1) snd by (simp add: server_step_def)
  have "config \<alpha> ?t (a + 1) b"
    unfolding config_def using C holds_send [OF R C(2) x snd]
    by (intro exI [of _ rin'] exI [of _ rout] exI [of _ "P @ [x]"] exI [of _ Q]) auto
  then show ?thesis
    using reached_server [OF assms(2) st] by (intro exI [of _ ?t]) (simp add: requests_def)
qed

lemma go_process:
  assumes R: "byte_ring R ring_size \<alpha>" and "reached R s0 n s" "config \<alpha> s (Suc a) b" "t_pc s = T_Top"
  shows "\<exists>y t. reached R s0 n t \<and> config \<alpha> t a b \<and> s_pc t = s_pc s \<and> c_in (s_conn t) = c_in (s_conn s) \<and>
    t_pc t = T_Send y \<and> dap_req_num t = dap_req_num s \<and> dap_respond t = dap_respond s"
proof -
  obtain rin rout P Q where C: "rings s = Some (rin, rout)" "holds \<alpha> rin P" "holds \<alpha> rout Q"
    "length P = Suc a" "length Q = b" "\<forall>x \<in> set P \<union> set (sending (s_pc s)). unknown_command x"
    "kRestartDAPHandle s = NO_SIGNAL" "notify s = Suc a"
    using assms(3) by (auto simp: config_def)
  then obtain p P' where P: "P = p # P'" by (cases P) auto
  have p: "length p = DAP_HANDLE_SIZE" "p ! 4 = 0xA0" "p \<noteq> []"
    using C(6) P by (auto simp: unknown_command_def ring_sizes)
  let ?s1 = "s\<lparr>t_pc := T_Wait\<rparr>"
  have "task_step R example_env (\<lambda>_. 0) s = Some (Inr (Internal, ?s1))"
    using assms(4) C(1,7) by (simp add: task_step_def)
  then have r1: "reached R s0 n ?s1" by (rule reached_task [OF assms(2)]) (simp add: requests_def)
  have q: "queue_to_execute p = p" using p(2) by (simp add: queue_to_execute_def)
  have d: "put_bytes 0 (drop 4 p) (\<lambda>_. 0) 0 = 0xA0"
    using p by (simp add: put_bytes_def ring_sizes)
  define buf where "buf = put_bytes 0 [ID_DAP_Invalid] (DAPDataProcessed s)"
  define y where "y = le32_bytes (pack_num 1 1 AND 0xFFFF) @ get_bytes 0 512 buf"
  let ?t = "s\<lparr>notify := a, rings := Some (ring_return R DAP_HANDLE_SIZE rin, rout),
    probe := probe s, DAPDataProcessed := buf, t_pc := T_Send y\<rparr>"
  have st: "task_step R example_env (\<lambda>_. 0) ?s1 = Some (Inr (Processed (drop 4 p) [ID_DAP_Invalid], ?t))"
    using C(1,8) holds_recv [OF R C(2)] p
    by (simp add: task_step_def P process_item_def q unknown_response [where m = "put_bytes 0 (drop 4 p) (\<lambda>_. 0)", OF d] Let_def buf_def y_def)
  have "length y = DAP_HANDLE_SIZE" by (simp add: y_def ring_sizes)
  then have "config \<alpha> ?t a b"
    unfolding config_def using C P holds_return [OF R C(2) [unfolded P]]
    by (intro exI [of _ "ring_return R DAP_HANDLE_SIZE rin"] exI [of _ rout] exI [of _ P'] exI [of _ Q]) auto
  then show ?thesis
    using reached_task [OF r1 st] by (intro exI [of _ y] exI [of _ ?t]) (simp add: requests_def)
qed

lemma go_send:
  assumes R: "byte_ring R ring_size \<alpha>" and "reached R s0 n s" "config \<alpha> s a b" "t_pc s = T_Send y"
    "b < DAP_BUFFER_NUM"
  shows "\<exists>t. reached R s0 n t \<and> config \<alpha> t a (b + 1) \<and> s_pc t = s_pc s \<and> c_in (s_conn t) = c_in (s_conn s) \<and>
    t_pc t = T_Top \<and> dap_req_num t = dap_req_num s \<and> dap_respond t = dap_respond s + 1"
proof -
  obtain rin rout P Q where C: "rings s = Some (rin, rout)" "holds \<alpha> rin P" "holds \<alpha> rout Q"
    "length P = a" "length Q = b" "\<forall>x \<in> set P \<union> set (sending (s_pc s)). unknown_command x"
    "length y = DAP_HANDLE_SIZE" "kRestartDAPHandle s = NO_SIGNAL" "notify s = a"
    using assms(3,4) by (auto simp: config_def)
  obtain rout' where snd: "ring_send R y rout = Some rout'"
    using holds_room [OF R C(3,7)] C(5) assms(5) by auto
  let ?s1 = "s\<lparr>rings := Some (rin, rout'), t_pc := T_Respond\<rparr>"
  let ?t = "?s1\<lparr>dap_respond := dap_respond s + 1, t_pc := T_Top\<rparr>"
  have st1: "task_step R example_env (\<lambda>_. 0) s = Some (Inr (Internal, ?s1))"
    using assms(4) C(1) snd by (simp add: task_step_def)
  have st2: "task_step R example_env (\<lambda>_. 0) ?s1 = Some (Inr (Internal, ?t))"
    by (simp add: task_step_def)
  have "config \<alpha> ?t a (b + 1)"
    unfolding config_def using C holds_send [OF R C(3,7) snd]
    by (intro exI [of _ rin] exI [of _ rout'] exI [of _ P] exI [of _ "Q @ [y]"]) auto
  then show ?thesis
    using reached_task [OF reached_task [OF assms(2) st1] st2]
    by (intro exI [of _ ?t]) (simp add: requests_def)
qed

section \<open>Properties of a connection\<close>

text \<open>C2: Whatever the interleaving of the server and the DAP task, the command packets of a
  connection are run in the order in which the host sent them, each once and starting from the
  probe state the previous one left; the responses leave the queue in that order, to the host
  or, after an unlink, discarded; and \<open>dap_req_num\<close> counts the requests not yet answered.\<close>

theorem responses_in_order:
  assumes "byte_ring R ring_size \<alpha>" "probe_ok d" "run R (session_start R d c junk) es s"
  shows "\<exists>waiting held. served d (processed es) (probe s) \<and>
     requests es = map fst (processed es) @ waiting \<and>
     map snd (processed es) = leaving es @ held \<and>
     length (requests es) = length (replies es) + dap_req_num s"
proof -
  obtain rin rout P Q where "session_view \<alpha> d es s rin rout P Q"
    using inv_run [OF assms] by (rule session_invE)
  then have "served d (processed es) (probe s)"
    "requests es = map fst (processed es) @ map (drop 4) (P @ sending (s_pc s))"
    "map snd (processed es) = leaving es @ map item_payload (Q @ answering (t_pc s))"
    "length (requests es) = length (replies es) + dap_req_num s" unfolding session_view_def by blast+
  then show ?thesis by blast
qed

text \<open>Requests sent without reading responses, as a host may that was told 255 packets can be
  queued.\<close>

definition out_urbs :: "nat \<Rightarrow> segments" where
  "out_urbs k = concat (replicate k [submit_header 1 USBIP_DIR_OUT 1, [0xA0]])"

lemma out_urbs_Suc: "out_urbs (Suc k) = submit_header 1 USBIP_DIR_OUT 1 # [0xA0] # out_urbs k"
  by (simp add: out_urbs_def)

definition stuck :: "'r ring_api \<Rightarrow> 'r sys \<Rightarrow> bool" where
  "stuck R s \<longleftrightarrow> server_step R s = None \<and> (\<forall>E beyond. task_step R E beyond s = None)"

lemma start_config:
  assumes "byte_ring R ring_size \<alpha>"
  shows "reached R (session_start R d c junk) 0 (session_start R d c junk)"
    "config \<alpha> (session_start R d c junk) 0 0"
proof -
  show "reached R (session_start R d c junk) 0 (session_start R d c junk)"
    unfolding reached_def by (intro exI [of _ "[]"]) (auto intro: run.start simp: requests_def)
  show "config \<alpha> (session_start R d c junk) 0 0"
    using holds_new [OF assms] unfolding config_def
    by (intro exI [of _ "ring_new R"] exI [of _ "[]"]) (simp add: session_start_def)
qed

lemma go_cycles:
  assumes R: "byte_ring R ring_size \<alpha>" and k: "k \<le> DAP_BUFFER_NUM"
    and c: "c_in c = out_urbs (k + j)"
  shows "\<exists>t. reached R (session_start R d c junk) k t \<and> config \<alpha> t 0 k \<and> s_pc t = S_Read \<and>
    t_pc t = T_Top \<and> c_in (s_conn t) = out_urbs j \<and> dap_req_num t = k"
  using k c
proof (induction k arbitrary: j)
  case 0
  then show ?case using start_config [OF R] by (intro exI [of _ "session_start R d c junk"]) (simp add: session_start_def)
next
  case (Suc k)
  obtain t where t: "reached R (session_start R d c junk) k t" "config \<alpha> t 0 k" "s_pc t = S_Read"
    "t_pc t = T_Top" "c_in (s_conn t) = out_urbs (Suc j)" "dap_req_num t = k"
    using Suc.IH [of "Suc j"] Suc.prems by auto
  obtain x u where u: "reached R (session_start R d c junk) (k + 1) u" "config \<alpha> u 0 k"
    "s_pc u = S_Enqueue x" "t_pc u = T_Top" "c_in (s_conn u) = out_urbs j" "dap_req_num u = k + 1"
    using go_out [OF t(1-3) t(5) [unfolded out_urbs_Suc]] t by auto
  have "0 < DAP_BUFFER_NUM" by (simp add: DAP_BUFFER_NUM_def)
  then obtain v where v: "reached R (session_start R d c junk) (k + 1) v" "config \<alpha> v (Suc 0) k"
    "s_pc v = S_Read" "t_pc v = T_Top" "c_in (s_conn v) = out_urbs j" "dap_req_num v = k + 1"
    using go_enqueue [OF R u(1-3)] u by auto
  obtain y w where w: "reached R (session_start R d c junk) (k + 1) w" "config \<alpha> w 0 k"
    "s_pc w = S_Read" "t_pc w = T_Send y" "c_in (s_conn w) = out_urbs j" "dap_req_num w = k + 1"
    using go_process [OF R v(1,2,4)] v by auto
  have "k < DAP_BUFFER_NUM" using Suc.prems(1) by simp
  from go_send [OF R w(1,2,4) this] w show ?case by auto
qed

lemma go_fill:
  assumes R: "byte_ring R ring_size \<alpha>" and "a \<le> DAP_BUFFER_NUM"
    and "reached R s0 n s" "config \<alpha> s 0 b" "s_pc s = S_Read" "c_in (s_conn s) = out_urbs (a + j)"
  shows "\<exists>t. reached R s0 (n + a) t \<and> config \<alpha> t a b \<and> s_pc t = S_Read \<and>
    t_pc t = t_pc s \<and> c_in (s_conn t) = out_urbs j \<and> dap_req_num t = dap_req_num s + a"
  using assms(2,6)
proof (induction a arbitrary: j)
  case 0
  then show ?case using assms by auto
next
  case (Suc a)
  obtain t where t: "reached R s0 (n + a) t" "config \<alpha> t a b" "s_pc t = S_Read"
    "t_pc t = t_pc s" "c_in (s_conn t) = out_urbs (Suc j)" "dap_req_num t = dap_req_num s + a"
    using Suc.IH [of "Suc j"] Suc.prems by auto
  obtain x u where u: "reached R s0 (n + a + 1) u" "config \<alpha> u a b" "s_pc u = S_Enqueue x"
    "t_pc u = t_pc s" "c_in (s_conn u) = out_urbs j" "dap_req_num u = dap_req_num s + a + 1"
    using go_out [OF t(1-3) t(5) [unfolded out_urbs_Suc]] t by auto
  have "a < DAP_BUFFER_NUM" using Suc.prems(1) by simp
  from go_enqueue [OF R u(1-3) this] u show ?case by auto
qed

lemma full_stuck:
  assumes R: "byte_ring R ring_size \<alpha>" and "config \<alpha> s DAP_BUFFER_NUM DAP_BUFFER_NUM"
    "s_pc s = S_Enqueue x" "t_pc s = T_Send y"
  shows "stuck R s"
proof -
  obtain rin rout P Q where C: "rings s = Some (rin, rout)" "holds \<alpha> rin P" "holds \<alpha> rout Q"
    "length P = DAP_BUFFER_NUM" "length Q = DAP_BUFFER_NUM" "length x = DAP_HANDLE_SIZE"
    "length y = DAP_HANDLE_SIZE"
    using assms by (auto simp: config_def unknown_command_def)
  then have "ring_send R x rin = None" "ring_send R y rout = None"
    using holds_room [OF R C(2,6)] holds_room [OF R C(3,7)] by auto
  then show ?thesis using C assms by (simp add: stuck_def server_step_def task_step_def)
qed

text \<open>C38: A host that sends 22 command packets before it reads a response (it is told that 255
  packets are buffered) can bring the connection to a standstill: both ring buffers are full,
  the server waits for room in the request ring, and only the server could empty the other.\<close>

theorem pipelining_deadlocks:
  assumes R: "byte_ring R ring_size \<alpha>" and c: "c_in c = out_urbs 22"
  shows "\<exists>es s. run R (session_start R d c junk) es s \<and> length (requests es) = 22 \<and>
    dap_req_num s = 22 \<and> stuck R s"
proof -
  let ?s0 = "session_start R d c junk"
  have c: "c_in c = out_urbs (10 + Suc (10 + Suc 0))" using c by simp
  obtain t where t: "reached R ?s0 10 t" "config \<alpha> t 0 10" "s_pc t = S_Read"
    "t_pc t = T_Top" "c_in (s_conn t) = out_urbs (Suc (10 + Suc 0))" "dap_req_num t = 10"
    using go_cycles [OF R _ c] by (auto simp: DAP_BUFFER_NUM_def)
  obtain x u where u: "reached R ?s0 11 u" "config \<alpha> u 0 10" "s_pc u = S_Enqueue x"
    "t_pc u = T_Top" "c_in (s_conn u) = out_urbs (10 + Suc 0)" "dap_req_num u = 11"
    using go_out [OF t(1-3) t(5) [unfolded out_urbs_Suc]] t by auto
  obtain v where v: "reached R ?s0 11 v" "config \<alpha> v (Suc 0) 10"
    "s_pc v = S_Read" "t_pc v = T_Top" "c_in (s_conn v) = out_urbs (10 + Suc 0)" "dap_req_num v = 11"
    using go_enqueue [OF R u(1-3)] u by (auto simp: DAP_BUFFER_NUM_def)
  obtain y w where w: "reached R ?s0 11 w" "config \<alpha> w 0 10" "s_pc w = S_Read" "t_pc w = T_Send y"
    "c_in (s_conn w) = out_urbs (10 + Suc 0)" "dap_req_num w = 11"
    using go_process [OF R v(1,2,4)] v by auto
  obtain f where f: "reached R ?s0 21 f" "config \<alpha> f 10 10" "s_pc f = S_Read" "t_pc f = T_Send y"
    "c_in (s_conn f) = out_urbs (Suc 0)" "dap_req_num f = 21"
    using go_fill [OF R _ w(1,2,3,5)] w by (auto simp: DAP_BUFFER_NUM_def)
  obtain z g where g: "reached R ?s0 22 g" "config \<alpha> g 10 10" "s_pc g = S_Enqueue z" "t_pc g = T_Send y"
    "dap_req_num g = 22"
    using go_out [OF f(1-3) f(5) [unfolded out_urbs_Suc]] f by auto
  have "stuck R g" using full_stuck [OF R _ g(3,4)] g(2) by (simp add: DAP_BUFFER_NUM_def)
  then show ?thesis using g(1,5) unfolding reached_def by blast
qed

theorem pipelining_deadlocks_witness:
  "\<exists>es s. run fifo_ring (example_start (out_urbs 22)) es s \<and> length (requests es) = 22 \<and>
     dap_req_num s = 22 \<and> stuck fifo_ring s"
  unfolding example_start_def
  by (rule pipelining_deadlocks [OF fifo_byte_ring]) (simp add: example_conn_def)

lemma go_in:
  assumes "reached R s0 n s" "config \<alpha> s a b" "s_pc s = S_Read" "0 < dap_req_num s"
    "c_in (s_conn s) = submit_header q USBIP_DIR_IN k # rest"
  shows "\<exists>t. reached R s0 n t \<and> config \<alpha> t a b \<and> s_pc t = S_Await \<and> c_in (s_conn t) = rest \<and>
    t_pc t = t_pc s \<and> dap_req_num t = dap_req_num s"
proof -
  obtain c where st: "server_step R s = Some (Inr (Internal, s\<lparr>s_conn := c, s_pc := S_Await\<rparr>))"
    (is "_ = Some (Inr (_, ?t))") and c: "c_in c = rest"
    using in_urb [OF assms(3,5,4)] by blast
  have "config \<alpha> ?t a b" using assms(2,3) by (simp add: config_def)
  then show ?thesis
    using reached_server [OF assms(1) st] c by (intro exI [of _ ?t]) (simp add: requests_def)
qed

lemma go_unlink:
  assumes R: "byte_ring R ring_size \<alpha>" and "reached R s0 n s" "config \<alpha> s a (Suc b)" "s_pc s = S_Read"
    "0 < dap_respond s" "c_in (s_conn s) = unlink_header q v # rest"
  shows "\<exists>t. reached R s0 n t \<and> config \<alpha> t a b \<and> s_pc t = S_Read \<and> c_in (s_conn t) = rest \<and>
    t_pc t = t_pc s \<and> dap_req_num t = dap_req_num s"
proof -
  obtain rin rout P Q where C: "rings s = Some (rin, rout)" "holds \<alpha> rin P" "holds \<alpha> rout Q"
    "length P = a" "length Q = Suc b" "\<forall>x \<in> set P. unknown_command x"
    "\<forall>y \<in> set (answering (t_pc s)). length y = DAP_HANDLE_SIZE"
    "kRestartDAPHandle s = NO_SIGNAL" "notify s = a"
    using assms(3,4) by (auto simp: config_def)
  then obtain p Q' where Q: "Q = p # Q'" by (cases Q) auto
  note p = holds_packet [OF C(3) [unfolded Q]]
  obtain c where st: "server_step R s = Some (handle_unlink R (s\<lparr>s_conn := c\<rparr>))" and c: "c_in c = rest"
    using unlink_urb [OF assms(4,6)] by blast
  let ?t = "s\<lparr>s_conn := send_stage2_unlink c, dap_respond := dap_respond s - 1,
    rings := Some (rin, ring_return R DAP_HANDLE_SIZE rout)\<rparr>"
  have st: "server_step R s = Some (Inr (Unlinked (item_payload p), ?t))"
    using st assms(5) C(1) holds_recv [OF R C(3)] p
    by (simp add: handle_unlink_def handle_dap_unlink_def Q Let_def on_conn_def)
  have "c_in (send_stage2_unlink c) = rest"
    using c by (simp add: send_stage2_unlink_def usbip_network_send_def Let_def)
  moreover have "config \<alpha> ?t a b"
    unfolding config_def using C Q assms(4) holds_return [OF R C(3) [unfolded Q]]
    by (intro exI [of _ rin] exI [of _ "ring_return R DAP_HANDLE_SIZE rout"] exI [of _ P] exI [of _ Q']) auto
  ultimately show ?thesis
    using assms(4) reached_server [OF assms(2) st] by (intro exI [of _ ?t]) (simp add: requests_def)
qed

lemma config_stuck:
  assumes R: "byte_ring R ring_size \<alpha>" and "reached R s0 n s" "config \<alpha> s 0 0" "s_pc s = S_Await" "t_pc s = T_Top"
  shows "\<exists>t. reached R s0 n t \<and> s_pc t = S_Await \<and> dap_req_num t = dap_req_num s \<and> stuck R t"
proof -
  obtain rin rout where C: "rings s = Some (rin, rout)" "holds \<alpha> rout []"
    "kRestartDAPHandle s = NO_SIGNAL" "notify s = 0"
    using assms(3) by (auto simp: config_def)
  let ?t = "s\<lparr>t_pc := T_Wait\<rparr>"
  have st: "task_step R example_env (\<lambda>_. 0) s = Some (Inr (Internal, ?t))"
    using assms(5) C by (simp add: task_step_def)
  have "stuck R ?t"
    using C assms(4) holds_recv [OF R C(2)]
    by (simp add: stuck_def server_step_def task_step_def fast_reply_def Let_def)
  then show ?thesis
    using assms(4) reached_task [OF assms(2) st] by (intro exI [of _ ?t]) (simp add: requests_def)
qed

text \<open>C39: An unlink that throws a response away does not take back the request it belonged to:
  after one request, its unlink and a further read, the server waits for a response that
  will never come, and neither task can take another step.\<close>

theorem unlink_blocks_next_read:
  assumes R: "byte_ring R ring_size \<alpha>"
    and c: "c_in c = [submit_header 1 USBIP_DIR_OUT 1, [0xA0], unlink_header 2 1, submit_header 3 USBIP_DIR_IN 512]"
  shows "\<exists>es s. run R (session_start R d c junk) es s \<and> length (requests es) = 1 \<and>
    s_pc s = S_Await \<and> dap_req_num s = 1 \<and> stuck R s"
proof -
  let ?s0 = "session_start R d c junk"
  have s0: "s_pc ?s0 = S_Read" "t_pc ?s0 = T_Top" "dap_req_num ?s0 = 0" "dap_respond ?s0 = 0"
    "c_in (s_conn ?s0) = submit_header 1 USBIP_DIR_OUT 1 # [0xA0] #
       [unlink_header 2 1, submit_header 3 USBIP_DIR_IN 512]"
    using c by (simp_all add: session_start_def)
  have n: "0 < DAP_BUFFER_NUM" by (simp add: DAP_BUFFER_NUM_def)
  obtain x u where u: "reached R ?s0 1 u" "config \<alpha> u 0 0" "s_pc u = S_Enqueue x" "t_pc u = T_Top"
    "dap_req_num u = 1" "dap_respond u = 0"
    "c_in (s_conn u) = [unlink_header 2 1, submit_header 3 USBIP_DIR_IN 512]"
    using go_out [OF start_config [OF R] s0(1,5)] s0 by auto
  obtain v where v: "reached R ?s0 1 v" "config \<alpha> v (Suc 0) 0" "s_pc v = S_Read" "t_pc v = T_Top"
    "dap_req_num v = 1" "dap_respond v = 0" "c_in (s_conn v) = c_in (s_conn u)"
    using go_enqueue [OF R u(1-3) n] u by auto
  obtain y w where w: "reached R ?s0 1 w" "config \<alpha> w 0 0" "s_pc w = S_Read" "t_pc w = T_Send y"
    "dap_req_num w = 1" "dap_respond w = 0" "c_in (s_conn w) = c_in (s_conn u)"
    using go_process [OF R v(1,2,4)] v by auto
  obtain z where z: "reached R ?s0 1 z" "config \<alpha> z 0 (Suc 0)" "s_pc z = S_Read" "t_pc z = T_Top"
    "dap_req_num z = 1" "0 < dap_respond z" "c_in (s_conn z) = unlink_header 2 1 # [submit_header 3 USBIP_DIR_IN 512]"
    using go_send [OF R w(1,2,4) n] w u by auto
  obtain a where a: "reached R ?s0 1 a" "config \<alpha> a 0 0" "s_pc a = S_Read" "t_pc a = T_Top"
    "dap_req_num a = 1" "c_in (s_conn a) = submit_header 3 USBIP_DIR_IN 512 # []"
    using go_unlink [OF R z(1-3) z(6,7)] z by auto
  obtain b where b: "reached R ?s0 1 b" "config \<alpha> b 0 0" "s_pc b = S_Await" "t_pc b = T_Top" "dap_req_num b = 1"
    using go_in [OF a(1-3) _ a(6)] a by auto
  show ?thesis
    using config_stuck [OF R b(1-4)] b(5) unfolding reached_def by auto
qed

theorem unlink_blocks_next_read_witness:
  "\<exists>es s. run fifo_ring (example_start [submit_header 1 USBIP_DIR_OUT 1, [0xA0], unlink_header 2 1,
       submit_header 3 USBIP_DIR_IN 512]) es s \<and> length (requests es) = 1 \<and>
     s_pc s = S_Await \<and> dap_req_num s = 1 \<and> stuck fifo_ring s"
  unfolding example_start_def
  by (rule unlink_blocks_next_read [OF fifo_byte_ring]) (simp add: example_conn_def)


lemma example_close:
  "run fifo_ring (example_start []) [Internal, Internal]
     ((example_start [])\<lparr>s_pc := S_Closed, t_pc := T_Wait\<rparr>)"
proof -
  let ?s = "example_start []"
  have "server_step fifo_ring ?s = Some (Inr (Internal, ?s\<lparr>s_pc := S_Closed\<rparr>))"
    by (simp add: server_step_def example_start_def session_start_def usbip_urb_process_def recv_to_def
        recv_all.simps example_conn_def)
  from run.more [OF run.start step.server [OF this]]
  have "run fifo_ring ?s [Internal] (?s\<lparr>s_pc := S_Closed\<rparr>)" by simp
  moreover have "task_step fifo_ring example_env (\<lambda>_. 0) (?s\<lparr>s_pc := S_Closed\<rparr>) =
      Some (Inr (Internal, ?s\<lparr>s_pc := S_Closed, t_pc := T_Wait\<rparr>))"
    by (simp add: task_step_def example_start_def session_start_def)
  ultimately show ?thesis using run.more [OF _ step.task] by fastforce
qed



lemma config_unlinks:
  assumes "config \<alpha> s a b" "session_inv \<alpha> d es s"
  shows "dap_req_num s = length (unlinks es) + a + length (sending (s_pc s)) + b +
    length (answering (t_pc s))"
proof -
  obtain rin rout P Q where V: "session_view \<alpha> d es s rin rout P Q"
    using assms(2) by (rule session_invE)
  have same: "length P = length P'" if "holds \<alpha> r P" "holds \<alpha> r P'" for r P P'
    using that length_concat_packets [of P DAP_HANDLE_SIZE] length_concat_packets [of P' DAP_HANDLE_SIZE]
    by (auto simp: holds_def ring_sizes)
  have "length P = a" "length Q = b" using assms(1) V same unfolding config_def session_view_def by auto
  then show ?thesis using outstanding [OF V] by simp
qed

definition example_urbs :: segments where
  "example_urbs = [submit_header 1 USBIP_DIR_OUT 1, [0xA0], submit_header 2 USBIP_DIR_IN 512]"

lemma example_await:
  "\<exists>es s. run fifo_ring (example_start example_urbs) es s \<and> config (\<lambda>r. r) s 1 0 \<and> s_pc s = S_Await \<and>
     t_pc s = T_Top \<and> unlinks es = [] \<and> length (requests es) = 1"
proof -
  let ?s0 = "example_start example_urbs"
  note R = fifo_byte_ring
  have s0: "s_pc ?s0 = S_Read" "t_pc ?s0 = T_Top" "dap_req_num ?s0 = 0"
    "c_in (s_conn ?s0) = submit_header 1 USBIP_DIR_OUT 1 # [0xA0] # [submit_header 2 USBIP_DIR_IN 512]"
    by (simp_all add: example_start_def session_start_def example_conn_def example_urbs_def)
  obtain x u where u: "reached fifo_ring ?s0 1 u" "config (\<lambda>r. r) u 0 0" "s_pc u = S_Enqueue x" "t_pc u = T_Top"
    "dap_req_num u = 1" "c_in (s_conn u) = [submit_header 2 USBIP_DIR_IN 512]"
    using go_out [OF start_config [OF R] s0(1,4) [unfolded example_start_def]] s0
    by (auto simp: example_start_def)
  obtain v where v: "reached fifo_ring ?s0 1 v" "config (\<lambda>r. r) v 1 0" "s_pc v = S_Read" "t_pc v = T_Top"
    "dap_req_num v = 1" "c_in (s_conn v) = submit_header 2 USBIP_DIR_IN 512 # []"
    using go_enqueue [OF R u(1-3)] u by (auto simp: DAP_BUFFER_NUM_def)
  obtain b where b: "reached fifo_ring ?s0 1 b" "config (\<lambda>r. r) b 1 0" "s_pc b = S_Await" "t_pc b = T_Top" "dap_req_num b = 1"
    using go_in [OF v(1-3) _ v(6)] v by auto
  then obtain es where es: "run fifo_ring ?s0 es b" "length (requests es) = 1" by (auto simp: reached_def)
  have "unlinks es = []"
    using config_unlinks [OF b(2) fifo_run [OF es(1) [unfolded example_start_def]]] b by simp
  then show ?thesis using b es by blast
qed


theorem responses_in_order_witness:
  "\<exists>es s. run fifo_ring (example_start example_urbs) es s \<and> length (requests es) = 1 \<and>
     (\<exists>waiting held. served example_dap (processed es) (probe s) \<and>
       requests es = map fst (processed es) @ waiting \<and> map snd (processed es) = leaving es @ held \<and>
       length (requests es) = length (replies es) + dap_req_num s)"
proof -
  obtain es s where s: "run fifo_ring (example_start example_urbs) es s" "length (requests es) = 1"
    using example_await by blast
  from responses_in_order [OF fifo_byte_ring example_probe_ok s(1) [unfolded example_start_def]]
  show ?thesis using s by blast
qed

text \<open>A packet that queues or executes commands is not run: the task passes it to
  \<open>DAP\_ProcessCommand\<close>, which does not know the command, instead of \<open>DAP\_ExecuteCommand\<close>; the
  response is the single byte 0xFF and the probe is untouched.\<close>

theorem queued_commands_rejected:
  assumes "length item = DAP_HANDLE_SIZE" "item ! 4 = 0x7E \<or> item ! 4 = 0x7F"
  shows "\<exists>y buf. process_item E beyond item s = Inr (Processed (drop 4 item) [0xFF],
      s\<lparr>DAPDataProcessed := buf, t_pc := T_Send y\<rparr>) \<and> item_payload y = [0xFF]"
proof -
  let ?m = "put_bytes 0 (drop 4 (queue_to_execute item)) beyond"
  have "?m 0 = 0x7F"
    using assms by (auto simp: queue_to_execute_def put_bytes_def ring_sizes)
  then have P: "DAP_ProcessCommand E ?m (probe s) = Inr ([0xFF], pack_num 1 1, probe s)"
    by (simp add: DAP_ProcessCommand_def dap_command_def ID_DAP_Invalid_def)
  let ?buf = "put_bytes 0 [0xFF] (DAPDataProcessed s)"
  have "unat (pack_num 1 1 AND 0xFFFF :: u32) = length [0xFF :: u8]"
    by (simp add: pack_num_def)
  from response_item(1) [OF _ this, of "DAPDataProcessed s"]
  have "item_payload (le32_bytes (pack_num 1 1 AND 0xFFFF) @ get_bytes 0 512 ?buf) = [0xFF]" by simp
  then show ?thesis
    by (intro exI [of _ "le32_bytes (pack_num 1 1 AND 0xFFFF) @ get_bytes 0 512 ?buf"] exI [of _ ?buf])
      (simp add: process_item_def P Let_def)
qed

theorem queued_commands_rejected_witness:
  "\<exists>y buf. process_item example_env (\<lambda>_. 0) (replicate 4 0 @ [0x7E, 1, 0, 0] @ replicate 508 0)
       (example_start []) =
     Inr (Processed ([0x7E, 1, 0, 0] @ replicate 508 0) [0xFF],
       (example_start [])\<lparr>DAPDataProcessed := buf, t_pc := T_Send y\<rparr>) \<and> item_payload y = [0xFF]"
  using queued_commands_rejected [of "replicate 4 0 @ [0x7E, 1, 0, 0] @ replicate 508 0" example_env "\<lambda>_. 0"
      "example_start []"]
  by (simp add: ring_sizes nth_append)

text \<open>C15: In no reachable state does a receive from either ring buffer yield part of a packet,
  although the buffers store bytes and a receive stops at the end of the storage; and neither
  task ever uses a null handle.\<close>

theorem packets_never_split:
  assumes R: "byte_ring R ring_size \<alpha>" and "probe_ok d" "run R (session_start R d c junk) es s"
  shows "(\<exists>rin rout. rings s = Some (rin, rout) \<and>
       length (ring_recv R DAP_HANDLE_SIZE rin) \<in> {0, DAP_HANDLE_SIZE} \<and>
       length (ring_recv R DAP_HANDLE_SIZE rout) \<in> {0, DAP_HANDLE_SIZE}) \<and>
     server_step R s \<noteq> Some (Inl Null_Ring) \<and> task_step R E beyond s \<noteq> Some (Inl Null_Ring)"
proof -
  obtain rin rout P Q where V: "session_view \<alpha> d es s rin rout P Q"
    using inv_run [OF assms] by (rule session_invE)
  then have h: "rings s = Some (rin, rout)" "holds \<alpha> rin P" "holds \<alpha> rout Q" by (simp_all add: session_view_def)
  have rec: "length (ring_recv R DAP_HANDLE_SIZE r) \<in> {0, DAP_HANDLE_SIZE}" if "holds \<alpha> r X" for r X
    using holds_recv [OF R that] that by (cases X) (auto simp: holds_def)
  have u: "handle_unlink R t \<noteq> Inl Null_Ring" if "rings t = Some (rin, rout)" for t
    using that by (simp add: handle_unlink_def handle_dap_unlink_def Let_def)
  have d: "urb_dispatch R t \<noteq> Inl Null_Ring" if "rings t = Some (rin, rout)" for t
    using u [of "on_conn unpacked t"] that
    by (auto simp: urb_dispatch_def Let_def on_conn_def split: option.splits)
  have "usbip_urb_process R s \<noteq> Inl Null_Ring"
    using d [of "s\<lparr>s_conn := c\<rparr>" for c] h(1) unfolding usbip_urb_process_def Let_def
    by (auto split: prod.splits)
  then have "server_step R s \<noteq> Some (Inl Null_Ring)"
    using h(1) by (auto simp: server_step_def fast_reply_def Let_def split: server_pc.splits)
  moreover have "task_step R E beyond s \<noteq> Some (Inl Null_Ring)"
    using h(1) by (auto simp: task_step_def process_item_def Let_def split: task_pc.splits sum.splits if_splits)
  ultimately show ?thesis using h rec by blast
qed

theorem packets_never_split_witness:
  "\<exists>es s rin rout. run fifo_ring (example_start example_urbs) es s \<and> length (requests es) = 1 \<and>
     rings s = Some (rin, rout) \<and>
     length (ring_recv fifo_ring DAP_HANDLE_SIZE rin) \<in> {0, DAP_HANDLE_SIZE} \<and>
     length (ring_recv fifo_ring DAP_HANDLE_SIZE rout) \<in> {0, DAP_HANDLE_SIZE}"
proof -
  obtain es s where s: "run fifo_ring (example_start example_urbs) es s" "length (requests es) = 1"
    using example_await by blast
  from packets_never_split [OF fifo_byte_ring example_probe_ok s(1) [unfolded example_start_def]]
  show ?thesis using s by blast
qed

text \<open>When the server answers an IN request it sends one RET\_SUBMIT message for that request,
  with status 0, the length of the response and exactly the response bytes, although the packet in
  the ring has room for 512.\<close>

theorem reply_on_wire:
  assumes R: "byte_ring R ring_size \<alpha>" and "probe_ok d" "run R (session_start R d c junk) es s"
    and a: "s_pc s = S_Await" and st: "server_step R s = Some (Inr (ev, s'))"
  shows "\<exists>r. ev = Replied r \<and> length r \<le> 512 \<and> c_out (s_conn s') =
     c_out (s_conn s) @ [ret_submit (c_buf (s_conn s)) 0 (of_nat (length r)) @ r]"
proof -
  obtain rin rout P Q where V: "session_view \<alpha> d es s rin rout P Q"
    using inv_run [OF assms(1-3)] by (rule session_invE)
  then have h: "rings s = Some (rin, rout)" "holds \<alpha> rout Q" by (simp_all add: session_view_def)
  have st: "fast_reply R s = Some (Inr (ev, s'))" using st a by (simp add: server_step_def)
  note recv = holds_recv [OF R h(2)]
  obtain q Q' where Q: "Q = q # Q'"
    using st h(1) recv by (cases Q) (auto simp: fast_reply_def)
  note q = holds_packet [OF h(2) [unfolded Q]]
  have len: "item_length q \<le> 512" using V Q by (simp add: session_view_def)
  have r: "length (item_payload q) = item_length q"
    using q len by (simp add: item_payload_def ring_sizes)
  have ev: "ev = Replied (item_payload q)"
    and s': "s_conn s' = send_stage2_submit_data_fast (Some (drop 4 q)) (item_length q) (s_conn s)"
    using st h(1) recv q by (auto simp: fast_reply_def Q Let_def)
  have "c_out (s_conn s') = c_out (s_conn s) @
    [ret_submit (c_buf (s_conn s)) 0 (of_nat (item_length q)) @ take (item_length q) (drop 4 q)]"
    unfolding s' by (rule data_fast_out(1)) (use q len in \<open>auto simp: ring_sizes\<close>)
  then show ?thesis using ev r len by (simp add: item_payload_def)
qed

lemma config_reply:
  assumes R: "byte_ring R ring_size \<alpha>" and "config \<alpha> s a (Suc b)" "s_pc s = S_Await"
  shows "\<exists>ev s'. server_step R s = Some (Inr (ev, s'))"
proof -
  obtain rin rout P Q where C: "rings s = Some (rin, rout)" "holds \<alpha> rout Q" "length Q = Suc b"
    using assms(2) by (auto simp: config_def)
  then obtain q Q' where Q: "Q = q # Q'" by (cases Q) auto
  show ?thesis
    using C assms(3) holds_recv [OF R C(2)] holds_packet [OF C(2) [unfolded Q]]
    by (simp add: server_step_def fast_reply_def Q Let_def)
qed

theorem reply_on_wire_witness:
  "\<exists>es s ev s' r. run fifo_ring (example_start example_urbs) es s \<and> s_pc s = S_Await \<and>
     server_step fifo_ring s = Some (Inr (ev, s')) \<and> ev = Replied r \<and> length r \<le> 512 \<and>
     c_out (s_conn s') = c_out (s_conn s) @ [ret_submit (c_buf (s_conn s)) 0 (of_nat (length r)) @ r]"
proof -
  let ?s0 = "session_start fifo_ring example_dap (example_conn example_urbs) (\<lambda>_. 0)"
  note R = fifo_byte_ring
  obtain es s where s: "run fifo_ring ?s0 es s" "config (\<lambda>r. r) s 1 0" "s_pc s = S_Await" "t_pc s = T_Top"
    "length (requests es) = 1"
    using example_await by (auto simp: example_start_def)
  then have rs: "reached fifo_ring ?s0 1 s" by (auto simp: reached_def)
  obtain y t where t: "reached fifo_ring ?s0 1 t" "config (\<lambda>r. r) t 0 0" "s_pc t = S_Await" "t_pc t = T_Send y"
    using go_process [OF R rs s(2) [unfolded One_nat_def] s(4)] s(3) by auto
  obtain u where u: "reached fifo_ring ?s0 1 u" "config (\<lambda>r. r) u 0 (Suc 0)" "s_pc u = S_Await"
    using go_send [OF R t(1,2,4)] t(3) by (auto simp: DAP_BUFFER_NUM_def)
  obtain es' where es': "run fifo_ring ?s0 es' u" using u(1) by (auto simp: reached_def)
  obtain ev s' where st: "server_step fifo_ring u = Some (Inr (ev, s'))"
    using config_reply [OF R u(2,3)] by blast
  from reply_on_wire [OF R example_probe_ok es' u(3) st]
  show ?thesis using es' u(3) st unfolding example_start_def by blast
qed

end
