(* ===== verification/Proxy.thy ===== *)
theory Proxy
  imports DapTask
begin

text \<open>
  The TCP server (components/dap\_proxy/tcp\_server.c), which tells the protocols apart by the
  first four bytes of a connection, the USB/IP worker up to its URB loop, and elaphureLink
  (components/elaphureLink/elaphureLink\_protocol.c): a handshake, then one command per
  \<open>recv\<close>.
\<close>

section \<open>The TCP server\<close>

definition EL_LINK_IDENTIFIER :: u32 where "EL_LINK_IDENTIFIER = 0x8a656c70"
definition EL_DAP_VERSION :: u32 where "EL_DAP_VERSION = 1"
definition EL_COMMAND_HANDSHAKE :: u32 where "EL_COMMAND_HANDSHAKE = 0"

datatype protocol = Elaphure_Link | Usb_Ip usbip_server_state_t | Web_Socket | Unknown_Protocol | Hung_Up

text \<open>Which worker \<open>tcp_server_task\<close> hands an accepted connection to; it has read four bytes.\<close>

definition tcp_accept :: "conn \<Rightarrow> protocol \<times> conn" where
  "tcp_accept c =
     (let (ok, c) = recv_to 0 4 c; header = be32_at (c_buf c) 0 in
      if \<not> ok then (Hung_Up, c)
      else if header = EL_LINK_IDENTIFIER then (Elaphure_Link, c)
      else if header AND 0xFFFF = 0x8003 \<or> header AND 0xFFFF = 0x8005 then
        (Usb_Ip (if header AND 0xFFFF = 0x8005 then WAIT_DEVLIST else WAIT_IMPORT), c)
      else if header = 0x47455420 then (Web_Socket, c)
      else (Unknown_Protocol, c))"

section \<open>elaphureLink\<close>

datatype el_fault = El_Overflow | El_Probe fault

definition el_handshake_process :: "nat \<Rightarrow> conn \<Rightarrow> bool \<times> conn" where
  "el_handshake_process len c =
     (if len \<noteq> 12 then (False, c)
      else if be32_at (c_buf c) 0 \<noteq> EL_LINK_IDENTIFIER then (False, c)
      else if be32_at (c_buf c) 4 \<noteq> EL_COMMAND_HANDSHAKE then (False, c)
      else (True, usbip_network_send
        (be32_bytes EL_LINK_IDENTIFIER @ be32_bytes EL_COMMAND_HANDSHAKE @ be32_bytes EL_DAP_VERSION) c))"

text \<open>The response buffer has 1500 bytes; what is sent is the first \<open>res\<close> bytes of it.\<close>

definition el_dap_data_process ::
  "(nat \<Rightarrow> env) \<Rightarrow> mem \<Rightarrow> conn \<Rightarrow> dap \<Rightarrow> el_fault + (conn \<times> mem \<times> dap)" where
  "el_dap_data_process E buf c d =
     (case DAP_ExecuteCommand E (c_buf c) d of
        Inl e \<Rightarrow> Inl (El_Probe e)
      | Inr (r, n, d) \<Rightarrow>
          if 1500 < length r then Inl El_Overflow
          else Inr (usbip_network_send (response_bytes r n buf) c, put_bytes 0 r buf, d))"

lemma recv_shorter: "recv n ss = (bs, ss') \<Longrightarrow> bs \<noteq> [] \<Longrightarrow> length (concat ss') < length (concat ss)"
  by (cases ss) (auto split: if_splits)

text \<open>The data loop; iteration \<open>i\<close> finds the environment \<open>Es i\<close>.\<close>

function el_loop ::
  "(nat \<Rightarrow> nat \<Rightarrow> env) \<Rightarrow> nat \<Rightarrow> mem \<Rightarrow> conn \<Rightarrow> dap \<Rightarrow> el_fault + (conn \<times> dap)" where
  "el_loop Es i buf c d =
     (let (bs, ss) = recv 1500 (c_in c); c' = c\<lparr>c_in := ss, c_buf := put_bytes 0 bs (c_buf c)\<rparr> in
      if bs = [] then Inr (c', d)
      else case el_dap_data_process (Es i) buf c' d of Inl e \<Rightarrow> Inl e
        | Inr (c'', buf, d) \<Rightarrow> el_loop Es (Suc i) buf c'' d)"
  by pat_completeness auto

termination
proof (relation "measure (\<lambda>(Es, i, buf, c, d). length (concat (c_in c)))")
  fix Es :: "nat \<Rightarrow> nat \<Rightarrow> env" and i buf and c :: conn and d x bs ss c' y z c'' w buf' d'
  assume "x = recv 1500 (c_in c)" "(bs, ss) = x" "c' = c\<lparr>c_in := ss, c_buf := put_bytes 0 bs (c_buf c)\<rparr>"
    "bs \<noteq> []" "el_dap_data_process (Es i) buf c' d = Inr y" "(c'', z) = y" "(buf', d') = z"
  then show "((Es, Suc i, buf', c'', d'), Es, i, buf, c, d) \<in> measure (\<lambda>(Es, i, buf, c, d). length (concat (c_in c)))"
    using recv_shorter [of 1500 "c_in c" bs ss]
    by (auto simp: el_dap_data_process_def usbip_network_send_def split: sum.splits if_splits)
qed simp

declare el_loop.simps [simp del]

text \<open>\<open>el_dap_work\<close>; the response buffer is freshly allocated (\<open>junk\<close>) after the handshake.\<close>

definition el_dap_work :: "(nat \<Rightarrow> nat \<Rightarrow> env) \<Rightarrow> mem \<Rightarrow> conn \<Rightarrow> dap \<Rightarrow> el_fault + (conn \<times> dap)" where
  "el_dap_work Es junk c d =
     (let (ok, c) = recv_to 4 8 c in
      if \<not> ok then Inr (c, d)
      else let (ok, c) = el_handshake_process 12 c in
        if \<not> ok then Inr (c, d) else el_loop Es 0 junk c d)"

section \<open>Only the byte stream matters\<close>

text \<open>Two connections that differ in how the peer's bytes were cut into segments.\<close>

definition same_stream :: "conn \<Rightarrow> conn \<Rightarrow> bool" where
  "same_stream c c' \<longleftrightarrow> live (c_in c) \<and> live (c_in c') \<and> concat (c_in c) = concat (c_in c') \<and>
     c_out c = c_out c' \<and> c_buf c = c_buf c'"

lemma same_stream_recv:
  assumes "same_stream c c'"
  shows "fst (recv_to p n c) = fst (recv_to p n c')" "same_stream (snd (recv_to p n c)) (snd (recv_to p n c'))"
  using assms recv_all_cong [of "c_in c" "c_in c'" n]
  by (simp_all add: same_stream_def recv_to_def case_prod_beta)

lemma same_stream_eq:
  "same_stream c c' \<Longrightarrow> c' = c\<lparr>c_in := c_in c'\<rparr>"
  by (cases c; cases c') (simp add: same_stream_def)

text \<open>Everything but \<open>recv\<close> ignores what is still to come.\<close>

named_theorems stream_simps \<open>an operation does not look at the bytes to come\<close>

lemma usbip_network_send_stream [stream_simps]: "usbip_network_send bs (c\<lparr>c_in := ss\<rparr>) = (usbip_network_send bs c)\<lparr>c_in := ss\<rparr>"
  by (simp add: usbip_network_send_def)
lemma send_stage1_header_stream [stream_simps]: "send_stage1_header w v (c\<lparr>c_in := ss\<rparr>) = (send_stage1_header w v c)\<lparr>c_in := ss\<rparr>"
  by (simp add: send_stage1_header_def stream_simps)
lemma send_device_info_stream [stream_simps]: "send_device_info j (c\<lparr>c_in := ss\<rparr>) = (send_device_info j c)\<lparr>c_in := ss\<rparr>"
  by (simp add: send_device_info_def stream_simps)
lemma send_interface_info_stream [stream_simps]: "send_interface_info (c\<lparr>c_in := ss\<rparr>) = (send_interface_info c)\<lparr>c_in := ss\<rparr>"
  by (simp add: send_interface_info_def stream_simps)
lemma handle_device_list_stream [stream_simps]: "handle_device_list j (c\<lparr>c_in := ss\<rparr>) = (handle_device_list j c)\<lparr>c_in := ss\<rparr>"
  by (simp add: handle_device_list_def send_device_list_def stream_simps)
lemma handle_device_attach_stream [stream_simps]: "handle_device_attach j n (c\<lparr>c_in := ss\<rparr>) = (handle_device_attach j n c)\<lparr>c_in := ss\<rparr>"
  by (simp add: handle_device_attach_def stream_simps)
lemma attach_stream [stream_simps]: "attach j n (c\<lparr>c_in := ss\<rparr>) = (let (ok, d) = attach j n c in (ok, d\<lparr>c_in := ss\<rparr>))"
  by (simp add: attach_def stream_simps split: option.split)
lemma send_stage2_submit_stream [stream_simps]: "send_stage2_submit w n (c\<lparr>c_in := ss\<rparr>) = (send_stage2_submit w n c)\<lparr>c_in := ss\<rparr>"
  by (simp add: send_stage2_submit_def Let_def stream_simps usbip_network_send_def)
lemma send_stage2_submit_data_stream [stream_simps]: "send_stage2_submit_data w bs n (c\<lparr>c_in := ss\<rparr>) = (send_stage2_submit_data w bs n c)\<lparr>c_in := ss\<rparr>"
  by (simp add: send_stage2_submit_data_def Let_def stream_simps)
lemma send_stage2_submit_data_fast_stream [stream_simps]: "send_stage2_submit_data_fast d n (c\<lparr>c_in := ss\<rparr>) = (send_stage2_submit_data_fast d n c)\<lparr>c_in := ss\<rparr>"
  by (simp add: send_stage2_submit_data_fast_def Let_def usbip_network_send_def)
lemma send_stage2_unlink_stream [stream_simps]: "send_stage2_unlink (c\<lparr>c_in := ss\<rparr>) = (send_stage2_unlink c)\<lparr>c_in := ss\<rparr>"
  by (simp add: send_stage2_unlink_def Let_def usbip_network_send_def)
lemma fast_reply_empty_stream [stream_simps]: "fast_reply_empty (c\<lparr>c_in := ss\<rparr>) = (fast_reply_empty c)\<lparr>c_in := ss\<rparr>"
  by (simp add: fast_reply_empty_def Let_def usbip_network_send_def)
lemma unpacked_stream [stream_simps]: "unpacked (c\<lparr>c_in := ss\<rparr>) = (unpacked c)\<lparr>c_in := ss\<rparr>"
  by (simp add: unpacked_def)
lemma bmRequestType_stream [stream_simps]: "bmRequestType (c\<lparr>c_in := ss\<rparr>) = bmRequestType c" "bRequest (c\<lparr>c_in := ss\<rparr>) = bRequest c"
  "wValue_lo (c\<lparr>c_in := ss\<rparr>) = wValue_lo c" "wValue_hi (c\<lparr>c_in := ss\<rparr>) = wValue_hi c"
  "wIndex (c\<lparr>c_in := ss\<rparr>) = wIndex c" "wLength (c\<lparr>c_in := ss\<rparr>) = wLength c"
  by (simp_all add: bmRequestType_def bRequest_def wValue_lo_def wValue_hi_def wIndex_def wLength_def)

lemma handleGetDescriptor_stream [stream_simps]: "handleGetDescriptor (c\<lparr>c_in := ss\<rparr>) = map_option (\<lambda>d. d\<lparr>c_in := ss\<rparr>) (handleGetDescriptor c)"
  by (simp add: handleGetDescriptor_def Let_def stream_simps option.map_comp comp_def)
lemma control_stream [stream_simps]: "handleUSBControlRequest (c\<lparr>c_in := ss\<rparr>) = map_option (\<lambda>d. d\<lparr>c_in := ss\<rparr>) (handleUSBControlRequest c)"
  by (simp add: handleUSBControlRequest_def Let_def stream_simps)

lemma same_stream_in: "same_stream c (c\<lparr>c_in := ss\<rparr>) \<longleftrightarrow> live (c_in c) \<and> live ss \<and> concat (c_in c) = concat ss"
  by (simp add: same_stream_def)

definition stream_op :: "(conn \<Rightarrow> conn) \<Rightarrow> bool" where
  "stream_op f \<longleftrightarrow> (\<forall>c ss. f (c\<lparr>c_in := ss\<rparr>) = (f c)\<lparr>c_in := ss\<rparr>)"

lemma stream_op_same:
  assumes "stream_op f" "same_stream c c'"
  shows "same_stream (f c) (f c')"
proof -
  have f: "f (c\<lparr>c_in := ss\<rparr>) = (f c)\<lparr>c_in := ss\<rparr>" for ss using assms(1) by (simp add: stream_op_def)
  have "c_in (f c) = c_in c" using f [of "c_in c"] by (metis conn.select_convs(1) conn.surjective conn.update_convs(1))
  moreover have "f c' = (f c)\<lparr>c_in := c_in c'\<rparr>" using f [of "c_in c'"] same_stream_eq [OF assms(2)] by simp
  ultimately show ?thesis using assms(2) by (simp add: same_stream_def)
qed

lemma same_stream_attach:
  assumes "same_stream c c'"
  shows "fst (attach j n c) = fst (attach j n c')" "same_stream (snd (attach j n c)) (snd (attach j n c'))"
proof -
  have "attach j n c' = (fst (attach j n c), (snd (attach j n c))\<lparr>c_in := c_in c'\<rparr>)"
    by (subst same_stream_eq [OF assms]) (simp add: stream_simps case_prod_beta Let_def)
  then show "fst (attach j n c) = fst (attach j n c')" by simp
  show "same_stream (snd (attach j n c)) (snd (attach j n c'))"
    by (rule stream_op_same [OF _ assms]) (simp add: stream_op_def stream_simps case_prod_beta Let_def)
qed

lemma same_stream_attach_phase:
  assumes "same_stream c c'"
  shows "fst (usbip_attach_phase j st c) = fst (usbip_attach_phase j st c') \<and>
     fst (snd (usbip_attach_phase j st c)) = fst (snd (usbip_attach_phase j st c')) \<and>
     same_stream (snd (snd (usbip_attach_phase j st c))) (snd (snd (usbip_attach_phase j st c')))"
proof -
  define first where "first = (\<lambda>c. if st = WAIT_DEVLIST then
      (let (ok, c) = recv_to 4 (8 - 4) c
       in if \<not> ok then (False, 4, c) else let (ok, c) = attach j 8 c in (ok, 0, c))
    else (True, 4 :: nat, c))"
  define second where "second = (\<lambda>n c. let (ok, c) = recv_to n (40 - n) c
      in if \<not> ok then (False, WAIT_IMPORT, c)
         else let (ok, c) = attach j 40 c in if \<not> ok then (False, WAIT_IMPORT, c) else (True, WAIT_URB, c))"
  have D: "usbip_attach_phase j st c = (case first c of (ok, n, c) \<Rightarrow>
      if \<not> ok then (False, st, c) else second n c)" for c
    by (simp add: usbip_attach_phase_def first_def second_def Let_def case_prod_beta)
  have r: "fst (recv_to p n c) = fst (recv_to p n c')" "same_stream (snd (recv_to p n c)) (snd (recv_to p n c'))"
    if "same_stream c c'" for p n c c' using same_stream_recv [OF that] .
  have 1: "fst (first c) = fst (first c') \<and> fst (snd (first c)) = fst (snd (first c')) \<and>
      same_stream (snd (snd (first c))) (snd (snd (first c')))"
    using r [OF assms, of 4 4] same_stream_attach [of "snd (recv_to 4 4 c)" "snd (recv_to 4 4 c')" j 8] assms
    by (simp add: first_def case_prod_beta Let_def)
  have 2: "fst (second n c) = fst (second n c') \<and> fst (snd (second n c)) = fst (snd (second n c')) \<and>
      same_stream (snd (snd (second n c))) (snd (snd (second n c')))" if "same_stream c c'" for n c c'
    using r [OF that, of n "40 - n"] that
      same_stream_attach [of "snd (recv_to n (40 - n) c)" "snd (recv_to n (40 - n) c')" j 40]
    by (simp add: second_def case_prod_beta Let_def)
  show ?thesis
    using 1 2 [of "snd (snd (first c))" "snd (snd (first c'))" "fst (snd (first c))"]
    unfolding D by (simp add: case_prod_beta)
qed

lemma same_stream_control:
  assumes "same_stream c c'"
  shows "rel_option same_stream (handleUSBControlRequest c) (handleUSBControlRequest c')"
proof (cases "handleUSBControlRequest c")
  case None
  then have "handleUSBControlRequest c' = None"
    by (subst same_stream_eq [OF assms]) (simp add: stream_simps)
  with None show ?thesis by simp
next
  case (Some d)
  have "d\<lparr>c_in := c_in c\<rparr> = d"
    using control_stream [where c = c and ss = "c_in c"] Some by simp
  then have "c_in d = c_in c" by (metis conn.select_convs(1) conn.surjective conn.update_convs(1))
  moreover have "handleUSBControlRequest c' = Some (d\<lparr>c_in := c_in c'\<rparr>)"
    by (subst same_stream_eq [OF assms]) (simp add: stream_simps Some)
  ultimately show ?thesis using assms Some
    by (cases d) (auto simp: same_stream_def)
qed

text \<open>Two system states that differ only in the segmentation of what is to come.\<close>

definition same_sys :: "'r sys \<Rightarrow> 'r sys \<Rightarrow> bool" where
  "same_sys s t \<longleftrightarrow> same_stream (s_conn s) (s_conn t) \<and> s_pc s = s_pc t \<and>
     dap_req_num s = dap_req_num t \<and> rings s = rings t \<and> dap_respond s = dap_respond t \<and>
     notify s = notify t \<and> kRestartDAPHandle s = kRestartDAPHandle t \<and> t_pc s = t_pc t \<and>
     DAPDataProcessed s = DAPDataProcessed t \<and> probe s = probe t"

lemma same_sysI: "same_stream c c' \<Longrightarrow> same_sys (s\<lparr>s_conn := c\<rparr>) (s\<lparr>s_conn := c'\<rparr>)"
  by (simp add: same_sys_def)

lemma on_conn_same: "stream_op f \<Longrightarrow> same_stream c c' \<Longrightarrow>
   same_sys (on_conn f (s\<lparr>s_conn := c\<rparr>)) (on_conn f (s\<lparr>s_conn := c'\<rparr>))"
  by (simp add: on_conn_def same_sysI stream_op_same)

definition same_result :: "system_fault + event \<times> 'r sys \<Rightarrow> system_fault + event \<times> 'r sys \<Rightarrow> bool" where
  "same_result x y \<longleftrightarrow> rel_sum (=) (rel_prod (=) same_sys) x y"

lemma same_result_simps [simp]:
  "same_result (Inl e) (Inl e') \<longleftrightarrow> e = e'"
  "same_result (Inr (ev, s)) (Inr (ev', t)) \<longleftrightarrow> ev = ev' \<and> same_sys s t"
  by (simp_all add: same_result_def)

lemma same_unlink:
  assumes "same_stream c c'"
  shows "same_result (handle_unlink R (s\<lparr>s_conn := c\<rparr>)) (handle_unlink R (s\<lparr>s_conn := c'\<rparr>))"
proof -
  have "stream_op send_stage2_unlink" by (simp add: stream_op_def stream_simps)
  note same = stream_op_same [OF this assms]
  show ?thesis
    using same_sysI [OF same]
    by (auto simp: handle_unlink_def handle_dap_unlink_def Let_def on_conn_def same_sys_def same split: option.splits)
qed

lemma same_dispatch:
  assumes "same_stream c c'"
  shows "same_result (urb_dispatch R (s\<lparr>s_conn := c\<rparr>)) (urb_dispatch R (s\<lparr>s_conn := c'\<rparr>))"
proof -
  have b: "c_buf c' = c_buf c" using assms by (simp add: same_stream_def)
  have op: "stream_op unpacked" "stream_op fast_reply_empty" "stream_op (send_stage2_submit 0 0)"
    "stream_op (send_stage2_submit_data_fast None 0)"
    by (simp_all add: stream_op_def stream_simps)
  note same = op [THEN stream_op_same, OF assms]
  have ctl: "same_result
      (case handleUSBControlRequest (unpacked c) of None \<Rightarrow> Inl String_Index | Some d \<Rightarrow> Inr (Internal, s\<lparr>s_conn := c, s_conn := d\<rparr>))
      (case handleUSBControlRequest (unpacked c') of None \<Rightarrow> Inl String_Index | Some d \<Rightarrow> Inr (Internal, s\<lparr>s_conn := c', s_conn := d\<rparr>))"
    using same_stream_control [OF same(1)] by (cases rule: option.rel_cases) (simp_all add: same_sysI)
  have dat: "same_result (Inr (handle_dap_data_request (s\<lparr>s_conn := c, dap_req_num := k\<rparr>)))
      (Inr (handle_dap_data_request (s\<lparr>s_conn := c', dap_req_num := k\<rparr>)))" for k
  proof -
    have "c_buf (send_stage2_submit_data_fast None 0 c') = c_buf (send_stage2_submit_data_fast None 0 c)"
      using same(4) by (simp add: same_stream_def)
    then show ?thesis using same(4) by (auto simp: handle_dap_data_request_def Let_def same_sys_def)
  qed
  have "same_result (handle_unlink R (on_conn unpacked (s\<lparr>s_conn := c\<rparr>))) (handle_unlink R (on_conn unpacked (s\<lparr>s_conn := c'\<rparr>)))"
    using same_unlink [OF same(1)] by (simp add: on_conn_def)
  then show ?thesis
    using ctl dat same assms
    by (simp add: urb_dispatch_def Let_def b on_conn_def same_sysI) (auto simp: same_sys_def)
qed

lemma same_urb:
  assumes "same_stream c c'"
  shows "same_result (usbip_urb_process R (s\<lparr>s_conn := c\<rparr>)) (usbip_urb_process R (s\<lparr>s_conn := c'\<rparr>))"
proof -
  define d where "d = snd (recv_to 0 48 c)"
  define d' where "d' = snd (recv_to 0 48 c')"
  have 1: "fst (recv_to 0 48 c') = fst (recv_to 0 48 c)" "same_stream d d'"
    using same_stream_recv [OF assms] by (simp_all add: d_def d'_def)
  have b: "c_buf d' = c_buf d" using 1(2) by (simp add: same_stream_def)
  have 2: "fst (recv_to 48 n d') = fst (recv_to 48 n d)" "same_stream (snd (recv_to 48 n d)) (snd (recv_to 48 n d'))" for n
    using same_stream_recv [OF 1(2)] by simp_all
  show ?thesis
    using 1 2 same_dispatch [OF 2(2)]
    by (auto simp: usbip_urb_process_def Let_def case_prod_beta d_def [symmetric] d'_def [symmetric] b same_sys_def)
qed

text \<open>C12: How TCP cuts the byte stream into segments makes no difference to the USB/IP server: two
  connections with the same bytes to come, however segmented, go through the attach phase with
  the same outcome and the same output, and the URB loop takes the same step with them.\<close>

theorem segmentation_irrelevant:
  assumes "same_stream c c'"
  shows "fst (usbip_attach_phase j st c) = fst (usbip_attach_phase j st c') \<and>
     same_stream (snd (snd (usbip_attach_phase j st c))) (snd (snd (usbip_attach_phase j st c'))) \<and>
     same_result (usbip_urb_process R (s\<lparr>s_conn := c\<rparr>)) (usbip_urb_process R (s\<lparr>s_conn := c'\<rparr>))"
  using same_stream_attach_phase [OF assms] same_urb [OF assms] by blast

theorem segmentation_irrelevant_witness:
  "same_stream (example_conn [[0, 0, 0], [0]]) (example_conn [[0], [0, 0, 0]]) \<and>
   fst (usbip_attach_phase (\<lambda>_. 0) WAIT_IMPORT (example_conn [[0, 0, 0], [0]])) =
   fst (usbip_attach_phase (\<lambda>_. 0) WAIT_IMPORT (example_conn [[0], [0, 0, 0]]))"
proof -
  have s: "same_stream (example_conn [[0, 0, 0], [0]]) (example_conn [[0], [0, 0, 0]])"
    by (simp add: same_stream_def example_conn_def live_def)
  show ?thesis using s segmentation_irrelevant [OF s] by blast
qed

section \<open>The attach phase\<close>

lemma recv_to_stream:
  assumes "live (c_in c)" "concat (c_in c) = bs @ rest" "length bs = n"
  shows "\<exists>ss. recv_to p n c = (True, c\<lparr>c_in := ss, c_buf := put_bytes p bs (c_buf c)\<rparr>) \<and> live ss \<and> concat ss = rest"
  using recv_all_stream [OF assms(1), of n] assms(2,3)
  by (cases "recv_all n (c_in c)") (auto simp: recv_to_def)

lemma attach_out:
  assumes "8 \<le> n" "c_buf c 3 = k"
  shows "attach j n c = (True,
     if k = 5 then handle_device_list j c else if k = 3 then handle_device_attach j n c else c)"
proof -
  have low: "x AND 0xFF = take_bit 8 x" for x :: u16 by (simp add: take_bit_eq_mask mask_eq_exp_minus_1)
  have w: "(push_bit 8 (ucast (c_buf c 2)) OR ucast k) AND 0xFF = (ucast k :: u16)"
    by (rule bit_word_eqI) (auto simp: low bit_simps dest: bit_imp_le_length)
  have "(ucast k :: u16) = 5 \<longleftrightarrow> k = 5" "(ucast k :: u16) = 3 \<longleftrightarrow> k = 3"
    by (auto simp: word_unat_eq_iff)
  then show ?thesis
    using assms w by (simp add: attach_def read_stage1_command_def USBIP_STAGE1_CMD_DEVICE_LIST_def
        USBIP_STAGE1_CMD_DEVICE_ATTACH_def)
qed

definition device_record :: "mem \<Rightarrow> u8 list" where
  "device_record junk = get_bytes 0 312 (usbip_stage1_usb_device junk)"

definition rep_devlist :: "mem \<Rightarrow> u8 list" where
  "rep_devlist junk = [1, 0x11, 0, 5, 0, 0, 0, 0] @ [0, 0, 0, 1] @ device_record junk @ [0xFF, 0, 0, 0]"
definition rep_import :: "mem \<Rightarrow> u8 list" where
  "rep_import junk = [1, 0x11, 0, 3, 0, 0, 0, 0] @ device_record junk"

lemma attach_replies:
  assumes "8 \<le> n"
  shows "concat (c_out (handle_device_list j c)) = concat (c_out c) @ rep_devlist j"
    "concat (c_out (handle_device_attach j n c)) = concat (c_out c) @ rep_import j"
    "c_in (handle_device_list j c) = c_in c" "c_in (handle_device_attach j n c) = c_in c"
    "c_buf (handle_device_list j c) = c_buf c" "c_buf (handle_device_attach j n c) = c_buf c"
proof -
  have b: "be16_bytes 273 = [1, 0x11]" "be16_bytes 5 = [0, 5]" "be16_bytes 3 = [0, 3]"
    "be32_bytes 0 = [0, 0, 0, 0]" "be32_bytes 1 = [0, 0, 0, 1]" by code_simp+
  show "concat (c_out (handle_device_list j c)) = concat (c_out c) @ rep_devlist j"
    "concat (c_out (handle_device_attach j n c)) = concat (c_out c) @ rep_import j"
    "c_in (handle_device_list j c) = c_in c" "c_in (handle_device_attach j n c) = c_in c"
    "c_buf (handle_device_list j c) = c_buf c" "c_buf (handle_device_attach j n c) = c_buf c"
    using assms
    by (simp_all add: handle_device_list_def handle_device_attach_def send_device_list_def
        send_interface_info_def send_device_info_def send_stage1_header_def usbip_network_send_def
        rep_devlist_def rep_import_def device_record_def USBIP_STAGE1_CMD_DEVICE_LIST_def
        USBIP_STAGE1_CMD_DEVICE_ATTACH_def b)
qed

lemma be32_at_le32: "be32_at m p = le32 (m (p + 3)) (m (p + 2)) (m (p + 1)) (m p)"
proof (rule le32_bytes_inj)
  show "le32_bytes (be32_at m p) = le32_bytes (le32 (m (p + 3)) (m (p + 2)) (m (p + 1)) (m p))"
    by (simp only: be32_at_def le32_bytes_htonl_at le32_bytes_of_le32)
qed

lemma header_low:
  assumes "m 2 = 0x80"
  shows "be32_at m 0 AND 0xFFFF = (if m 3 = 5 then 0x8005 else if m 3 = 3 then 0x8003 else le32 (m 3) 0x80 0 0)"
proof -
  have b: "be32_at m 0 = le32 (m 3) (m 2) (m 1) (m 0)"
    by (simp add: be32_at_le32 numeral_2_eq_2)
  have "be32_at m 0 AND 0xFFFF = take_bit 16 (le32 (m 3) (m 2) (m 1) (m 0))"
    unfolding b by (simp add: take_bit_eq_mask mask_eq_exp_minus_1)
  also have "\<dots> = le32 (m 3) (m 2) 0 0"
    by (rule bit_word_eqI) (auto simp: le32_def bit_simps dest: bit_imp_le_length)
  finally have l: "be32_at m 0 AND 0xFFFF = le32 (m 3) 0x80 0 0" using assms by simp
  have "le32 5 0x80 0 0 = 0x8005" "le32 3 0x80 0 0 = 0x8003" by code_simp+
  then show ?thesis using l by auto
qed

lemma accept_usbip:
  assumes live: "live (c_in c)" and stream: "concat (c_in c) = v # w # 0x80 # 5 # rest"
  shows "\<exists>c'. tcp_accept c = (Usb_Ip WAIT_DEVLIST, c') \<and> live (c_in c') \<and> concat (c_in c') = rest \<and>
    c_out c' = c_out c \<and> c_buf c' 3 = 5"
proof -
  obtain ss where r: "recv_to 0 4 c = (True, c\<lparr>c_in := ss, c_buf := put_bytes 0 [v, w, 0x80, 5] (c_buf c)\<rparr>)"
    and ss: "live ss" "concat ss = rest"
    using recv_to_stream [OF live, of "[v, w, 0x80, 5]" rest 4 0] stream by auto
  define m where "m = put_bytes 0 [v, w, 0x80, 5] (c_buf c)"
  have m: "m 2 = 0x80" "m 3 = 5" by (simp_all add: m_def put_bytes_def numeral_2_eq_2 numeral_3_eq_3)
  have h: "be32_at m 0 AND 0xFFFF = 0x8005" using header_low [where m = m, OF m(1)] m(2) by simp
  moreover have "EL_LINK_IDENTIFIER AND 0xFFFF \<noteq> 0x8005" by code_simp
  ultimately have "be32_at m 0 \<noteq> EL_LINK_IDENTIFIER" by auto
  then have "tcp_accept c = (Usb_Ip WAIT_DEVLIST, c\<lparr>c_in := ss, c_buf := m\<rparr>)"
    using h by (simp add: tcp_accept_def r m_def [symmetric])
  then show ?thesis using ss m by simp
qed

text \<open>A client that connects, lists the devices and then imports one, whatever the
  segmentation, is taken for a USB/IP client, gets an OP\_REP\_DEVLIST with one device and then
  an OP\_REP\_IMPORT with the same device record; the server is then at the first URB with
  exactly the bytes of the two requests consumed.\<close>

theorem attach_phase_replies:
  assumes live: "live (c_in c)"
    and stream: "concat (c_in c) = v # w # 0x80 # 5 # status @ imp @ rest"
    and len: "length status = 4" "length imp = 40" and imp: "imp ! 3 = 3"
  shows "\<exists>c1 c'. tcp_accept c = (Usb_Ip WAIT_DEVLIST, c1) \<and>
     usbip_attach_phase junk WAIT_DEVLIST c1 = (True, WAIT_URB, c') \<and>
     concat (c_out c') = concat (c_out c) @ rep_devlist junk @ rep_import junk \<and> concat (c_in c') = rest"
proof -
  obtain c0 where c0: "tcp_accept c = (Usb_Ip WAIT_DEVLIST, c0)" "live (c_in c0)"
    "concat (c_in c0) = status @ imp @ rest" "c_out c0 = c_out c" "c_buf c0 3 = 5"
    using accept_usbip [OF live stream] by blast
  obtain ss where r1: "recv_to 4 4 c0 = (True, c0\<lparr>c_in := ss, c_buf := put_bytes 4 status (c_buf c0)\<rparr>)"
    and ss: "live ss" "concat ss = imp @ rest"
    using recv_to_stream [OF c0(2,3) len(1)] by blast
  define c1 where "c1 = c0\<lparr>c_in := ss, c_buf := put_bytes 4 status (c_buf c0)\<rparr>"
  define c2 where "c2 = handle_device_list junk c1"
  have "c_buf c1 3 = 5" using c0(5) by (simp add: put_bytes_out c1_def)
  then have a1: "attach junk 8 c1 = (True, c2)" by (simp add: attach_out c2_def)
  have c2: "c_in c2 = ss" "concat (c_out c2) = concat (c_out c) @ rep_devlist junk"
    using attach_replies [of 8 junk c1] by (simp_all add: c2_def c1_def c0(4))
  obtain ss' where r2: "recv_to 0 40 c2 = (True, c2\<lparr>c_in := ss', c_buf := put_bytes 0 imp (c_buf c2)\<rparr>)"
    and ss': "concat ss' = rest"
    using recv_to_stream [of c2 imp rest 40 0] ss c2(1) len(2) by auto
  define c3 where "c3 = c2\<lparr>c_in := ss', c_buf := put_bytes 0 imp (c_buf c2)\<rparr>"
  define c4 where "c4 = handle_device_attach junk 40 c3"
  have "c_buf c3 3 = 3" using imp len(2) by (simp add: put_bytes_def c3_def)
  then have a2: "attach junk 40 c3 = (True, c4)" by (simp add: attach_out c4_def)
  have "concat (c_out c4) = concat (c_out c) @ rep_devlist junk @ rep_import junk" "c_in c4 = ss'"
    using attach_replies [of 40 junk c3] c2 by (simp_all add: c4_def c3_def)
  moreover have "usbip_attach_phase junk WAIT_DEVLIST c0 = (True, WAIT_URB, c4)"
    by (simp add: usbip_attach_phase_def r1 [folded c1_def] a1 r2 [folded c3_def] a2)
  ultimately show ?thesis using ss' c0(1) by blast
qed

theorem attach_phase_replies_witness:
  "\<exists>c1 c'. tcp_accept (example_conn [[1, 0x11, 0x80], [5, 0, 0], [0, 0, 1, 0x11, 0x80, 3], replicate 36 0]) =
       (Usb_Ip WAIT_DEVLIST, c1) \<and>
     usbip_attach_phase (\<lambda>_. 0) WAIT_DEVLIST c1 = (True, WAIT_URB, c') \<and>
     concat (c_out c') = rep_devlist (\<lambda>_. 0) @ rep_import (\<lambda>_. 0) \<and> concat (c_in c') = []"
  using attach_phase_replies [of "example_conn [[1, 0x11, 0x80], [5, 0, 0], [0, 0, 1, 0x11, 0x80, 3], replicate 36 0]"
      1 "0x11" "[0, 0, 0, 0]" "[1, 0x11, 0x80, 3] @ replicate 36 0" "[]" "\<lambda>_. 0"]
  by (simp add: live_def example_conn_def numeral_3_eq_3)

section \<open>An elaphureLink session\<close>

text \<open>The request buffers of successive receives: each segment overwrites the start of the last.\<close>

primrec el_requests :: "mem \<Rightarrow> segments \<Rightarrow> mem list" where
  "el_requests m [] = []"
| "el_requests m (bs # ss) = put_bytes 0 bs m # el_requests (put_bytes 0 bs m) ss"

lemma el_loop_session:
  assumes "\<forall>bs \<in> set (c_in c). bs \<noteq> [] \<and> length bs \<le> 1500" "probe_ok d"
    and "\<forall>m \<in> set (el_requests (c_buf c) (c_in c)). small_blocks m"
    and "exe.session Es i (el_requests (c_buf c) (c_in c)) d = Inr (rs, d')"
    and "\<forall>r \<in> set rs. length r \<le> 1500"
  shows "\<exists>c'. el_loop Es i buf c d = Inr (c', d') \<and> c_out c' = c_out c @ rs \<and> c_in c' = []"
  using assms
proof (induction "c_in c" arbitrary: c i buf d rs)
  case Nil
  then show ?case using Nil.hyps [symmetric] by (subst el_loop.simps) simp
next
  case (Cons bs ss)
  note c = Cons.hyps(2) [symmetric]
  let ?m = "put_bytes 0 bs (c_buf c)"
  have b: "bs \<noteq> []" "length bs \<le> 1500" using Cons.prems(1) c by auto
  obtain r n e where x: "DAP_ExecuteCommand (Es i) ?m d = Inr (r, n, e)"
    using Cons.prems(4) c by (auto split: sum.splits)
  then obtain rs' where rs: "exe.session Es (Suc i) (el_requests ?m ss) e = Inr (rs', d')" "rs = r # rs'"
    using Cons.prems(4) c by (cases "exe.session Es (Suc i) (el_requests ?m ss) e") auto
  have r: "length r \<le> 1500" "small_blocks ?m" using Cons.prems(3,5) rs(2) c by auto
  have sent: "response_bytes r n buf = r"
    using exe.sends_response [OF x Cons.prems(2) r(2)] r(1) by simp
  let ?c = "c\<lparr>c_in := ss, c_buf := ?m, c_out := c_out c @ [r]\<rparr>"
  have "el_dap_data_process (Es i) buf (c\<lparr>c_in := ss, c_buf := ?m\<rparr>) d = Inr (?c, put_bytes 0 r buf, e)"
    using x r by (simp add: el_dap_data_process_def sent usbip_network_send_def)
  then have step: "el_loop Es i buf c d = el_loop Es (Suc i) (put_bytes 0 r buf) ?c e"
    using b c by (subst el_loop.simps) simp
  have "\<exists>c'. el_loop Es (Suc i) (put_bytes 0 r buf) ?c e = Inr (c', d') \<and> c_out c' = c_out ?c @ rs' \<and> c_in c' = []"
    by (rule Cons.hyps(1)) (use Cons.prems c rs exe.keeps [OF x] in auto)
  then show ?case using step rs(2) by simp
qed



end
