(* ===== verification/CString.thy ===== *)
theory CString
  imports Socket
begin

text \<open>
  C strings in byte memories, for the parts of the firmware that handle text: the HTTP upgrade,
  the URI table, the names in JSON messages.
\<close>

definition ascii :: "string \<Rightarrow> u8 list" where
  "ascii str = map (\<lambda>c. of_nat (of_char c)) str"

lemma length_ascii [simp]: "length (ascii str) = length str"
  by (simp add: ascii_def)

text \<open>\<open>strlen\<close> runs until it finds a zero byte, which need not be there.\<close>

partial_function (option) strlen_loop :: "mem \<Rightarrow> nat \<Rightarrow> nat \<Rightarrow> nat option" where
  "strlen_loop m p n = (if m p = 0 then Some n else strlen_loop m (p + 1) (n + 1))"

definition strlen :: "mem \<Rightarrow> nat \<Rightarrow> nat option" where
  "strlen m p = strlen_loop m p 0"

definition string_at :: "mem \<Rightarrow> nat \<Rightarrow> u8 list \<Rightarrow> bool" where
  "string_at m p str \<longleftrightarrow> get_bytes p (length str) m = str \<and> 0 \<notin> set str \<and> m (p + length str) = 0"

lemma get_bytes_Suc: "get_bytes p (Suc n) m = m p # get_bytes (p + 1) n m"
  using get_bytes_append [of p 1 n m] by (simp add: get_bytes_def)

lemma string_at_Nil [simp]: "string_at m p [] \<longleftrightarrow> m p = 0"
  by (simp add: string_at_def get_bytes_def)

lemma string_at_Cons [simp]: "string_at m p (c # cs) \<longleftrightarrow> m p = c \<and> c \<noteq> 0 \<and> string_at m (p + 1) cs"
  by (auto simp: string_at_def get_bytes_Suc)

lemma strlen_loop_string: "string_at m p str \<Longrightarrow> strlen_loop m p n = Some (n + length str)"
  by (induction str arbitrary: p n) (simp_all add: strlen_loop.simps)

lemma strlen_string: "string_at m p str \<Longrightarrow> strlen m p = Some (length str)"
  by (simp add: strlen_def strlen_loop_string)

lemma string_at_nth: "string_at m p str \<Longrightarrow> i < length str \<Longrightarrow> m (p + i) = str ! i"
  by (metis nth_get_bytes string_at_def)

lemma string_at_get: "string_at m p str \<Longrightarrow> get_bytes p (length str) m = str"
  by (simp add: string_at_def)

lemma string_at_unique: "string_at m p str \<Longrightarrow> string_at m p str' \<Longrightarrow> str = str'"
proof (induction str arbitrary: p str')
  case Nil
  then show ?case by (cases str') simp_all
next
  case (Cons c str)
  then show ?case by (cases str') auto
qed

end
