(* ===== verification/WebSocket.thy ===== *)
theory WebSocket
  imports Usbip Processor CString
begin

text \<open>
  The WebSocket server (components/dap\_proxy/websocket\_server.c): the frame parser, which keeps
  its place in a frame across receives, the unmasking of payloads, the dispatch on the opcode,
  and the framing of responses.  The control blocks \<open>co_socket_cb\<close> and \<open>co_websocket_cb\<close> are one
  record; the connection and the receive buffer are those of the other servers.
\<close>

section \<open>Control block\<close>

datatype co_socket_status =
  CO_SOCKET_HANDSHAKE | CO_SOCKET_WEBSOCKET_HEADER | CO_SOCKET_WEBSOCKET_EXTEND_LENGTH
| CO_SOCKET_WEBSOCKET_MASK | CO_SOCKET_WEBSOCKET_PAYLOAD

record ws =
  w_conn :: conn
  w_status :: co_socket_status
  remaining_len :: nat
  read_len :: nat
  FIN :: bool
  OPCODE :: u8
  MASK :: bool
  payload_len :: nat
  mask_val :: u32
  skip_frame :: bool
  recv_data_offset :: nat
  w_resp :: mem
  w_probe :: dap

abbreviation w_buf :: "ws \<Rightarrow> mem" where "w_buf w \<equiv> c_buf (w_conn w)"

definition set_buf :: "mem \<Rightarrow> ws \<Rightarrow> ws" where
  "set_buf m w = w\<lparr>w_conn := (w_conn w)\<lparr>c_buf := m\<rparr>\<rparr>"

definition w_send :: "u8 list \<Rightarrow> ws \<Rightarrow> ws" where
  "w_send bs w = w\<lparr>w_conn := (w_conn w)\<lparr>c_out := c_out (w_conn w) @ [bs]\<rparr>\<rparr>"

text \<open>What ends the model: a response beyond the 1200 bytes of the response buffer, a copy through
  the null pointer \<open>recv_data\<close>, a pong that reads beyond the receive buffer, a fault of the probe.
  \<open>Out_Of_Fuel\<close> bounds the loop over the frames of one receive and is shown not to occur.\<close>

datatype ws_fault = Response_Overflow | Null_Copy | Pong_Overread | Ws_Probe fault | Out_Of_Fuel

definition WS_OPCODE_CONTINUTAION :: u8 where "WS_OPCODE_CONTINUTAION = 0"
definition WS_OPCODE_TEXT :: u8 where "WS_OPCODE_TEXT = 1"
definition WS_OPCODE_BINARY :: u8 where "WS_OPCODE_BINARY = 2"
definition WS_OPCODE_CLOSE :: u8 where "WS_OPCODE_CLOSE = 8"
definition WS_OPCODE_PING :: u8 where "WS_OPCODE_PING = 9"
definition WS_OPCODE_PONG :: u8 where "WS_OPCODE_PONG = 10"
definition WS_FIN :: u8 where "WS_FIN = 0x80"
definition WS_MASK :: u8 where "WS_MASK = 0x80"

lemmas ws_consts = WS_OPCODE_CONTINUTAION_def WS_OPCODE_TEXT_def WS_OPCODE_BINARY_def
  WS_OPCODE_CLOSE_def WS_OPCODE_PING_def WS_OPCODE_PONG_def WS_FIN_def WS_MASK_def

section \<open>The frame header\<close>

definition co_websocket_get_res_payload_offset :: "nat \<Rightarrow> nat" where
  "co_websocket_get_res_payload_offset n = 2 + (if 126 \<le> n then 2 else 0)"

text \<open>The three parts of \<open>co_websocket_process_header\<close>.  The flag says whether the function goes
  on to the next part; \<open>None\<close> is CO\_FAIL.\<close>

definition header_first :: "ws \<Rightarrow> (bool \<times> ws) option" where
  "header_first w =
     (if w_status w \<noteq> CO_SOCKET_WEBSOCKET_HEADER then Some (True, w)
      else if remaining_len w < 2 then Some (False, w)
      else
        let d = w_buf w; opcode = d 0 AND 0xF; msk = (d 1 AND WS_MASK = WS_MASK);
            n = unat (d 1 AND 0x7F)
        in if d 0 AND 0x70 \<noteq> 0 then None
           else if opcode \<notin> {WS_OPCODE_CONTINUTAION, WS_OPCODE_TEXT, WS_OPCODE_BINARY, WS_OPCODE_PING,
               WS_OPCODE_PONG, WS_OPCODE_CLOSE} then None
           else Some (True,
             w\<lparr>OPCODE := (if opcode = WS_OPCODE_CONTINUTAION then OPCODE w else opcode),
               FIN := (d 0 AND WS_FIN = WS_FIN), MASK := msk, payload_len := n,
               w_status := (if n = 126 \<or> n = 127 then CO_SOCKET_WEBSOCKET_EXTEND_LENGTH
                            else if msk then CO_SOCKET_WEBSOCKET_MASK else w_status w),
               read_len := 2\<rparr>))"

text \<open>The extended length is read at fixed offsets; 64 bits are truncated to \<open>size_t\<close>.\<close>

definition be64_at2 :: "mem \<Rightarrow> u64" where
  "be64_at2 d =
     ucast (d 9) OR push_bit 8 (ucast (d 8)) OR push_bit 16 (ucast (d 7)) OR
     push_bit 24 (ucast (d 6)) OR push_bit 32 (ucast (d 5)) OR push_bit 40 (ucast (d 4)) OR
     push_bit 48 (ucast (d 3)) OR push_bit 56 (ucast (d 2))"

definition header_extend :: "ws \<Rightarrow> (bool \<times> ws) option" where
  "header_extend w =
     (let d = w_buf w;
          next = (\<lambda>n k. Some (True, w\<lparr>payload_len := n, read_len := read_len w + k,
            w_status := (if MASK w then CO_SOCKET_WEBSOCKET_MASK else CO_SOCKET_WEBSOCKET_PAYLOAD)\<rparr>))
      in if w_status w \<noteq> CO_SOCKET_WEBSOCKET_EXTEND_LENGTH then Some (True, w)
         else if payload_len w = 126 then
           (if remaining_len w < read_len w + 2 then Some (False, w)
            else next (unat (push_bit 8 (ucast (d 2)) OR ucast (d 3) :: u32)) 2)
         else if payload_len w = 127 then
           (if remaining_len w < read_len w + 8 then Some (False, w)
            else if bit (be64_at2 d) 63 then None
            else next (unat (ucast (be64_at2 d) :: u32)) 8)
         else next (payload_len w) 0)"

definition header_mask :: "ws \<Rightarrow> ws" where
  "header_mask w =
     (if w_status w = CO_SOCKET_WEBSOCKET_MASK then
        (if remaining_len w < read_len w + 4 then w
         else w\<lparr>mask_val := le32_at (w_buf w) (read_len w), read_len := read_len w + 4,
                w_status := CO_SOCKET_WEBSOCKET_PAYLOAD\<rparr>)
      else w\<lparr>w_status := CO_SOCKET_WEBSOCKET_PAYLOAD\<rparr>)"

definition co_websocket_process_header :: "ws \<Rightarrow> ws option" where
  "co_websocket_process_header w =
     (case header_first w of None \<Rightarrow> None
      | Some (False, w) \<Rightarrow> Some w
      | Some (True, w) \<Rightarrow>
          (case header_extend w of None \<Rightarrow> None
           | Some (False, w) \<Rightarrow> Some w
           | Some (True, w) \<Rightarrow> Some (header_mask w)))"

section \<open>Sending\<close>

text \<open>The header in front of a payload; the length field is a \<open>uint16_t\<close>.\<close>

definition frame_header :: "u8 \<Rightarrow> nat \<Rightarrow> u8 list" where
  "frame_header frame_type n =
     (let payload_length = (of_nat n :: u16) in
      [WS_FIN OR frame_type, if payload_length \<ge> 126 then 126 else ucast payload_length] @
      (if payload_length \<ge> 126 then be16_bytes payload_length else []))"

text \<open>\<open>co_websocket_send_frame\<close> on a buffer whose payload starts at the offset for its length.\<close>

definition co_websocket_send_frame :: "mem \<Rightarrow> nat \<Rightarrow> u8 \<Rightarrow> ws \<Rightarrow> ws" where
  "co_websocket_send_frame frame n frame_type =
     w_send (get_bytes 0 (co_websocket_get_res_payload_offset n + n)
       (put_bytes 0 (frame_header frame_type n) frame))"

definition CO_RES_INVALID_SIZE :: string where "CO_RES_INVALID_SIZE = ''3''"

text \<open>\<open>co_websocket_send_msg_with_code\<close> for an error code: the text is printed into a buffer of
  \<open>len + 25\<close> bytes behind the offset for \<open>len\<close>, truncated to \<open>len + 23\<close> characters; the length
  sent is that of the untruncated text.\<close>

definition co_websocket_send_msg_with_code :: "string \<Rightarrow> string \<Rightarrow> mem \<Rightarrow> ws \<Rightarrow> ws" where
  "co_websocket_send_msg_with_code code msg junk =
     (let offset = co_websocket_get_res_payload_offset (length msg);
          txt = ascii (''code='' @ code @ ''&data='' @ [CHR 0x22] @ ''msg='' @ msg @ [CHR 0x22]);
          buffer = put_bytes offset (take (length msg + 23) txt @ [0]) junk
      in co_websocket_send_frame buffer (length txt) WS_OPCODE_TEXT)"

section \<open>Masking\<close>

definition co_rotr32 :: "u32 \<Rightarrow> nat \<Rightarrow> u32" where
  "co_rotr32 n c = drop_bit (c mod 32) n OR push_bit ((32 - c mod 32) mod 32) n"

definition xor_bytes :: "u8 list \<Rightarrow> u8 list \<Rightarrow> u8 list" where
  "xor_bytes key data = map (\<lambda>i. data ! i XOR key ! (i mod 4)) [0..<length data]"

text \<open>The word loop of \<open>co_websocket_fast_mask\<close>.\<close>

primrec xor_words :: "nat \<Rightarrow> u32 \<Rightarrow> u8 list \<Rightarrow> u8 list" where
  "xor_words 0 msk data = data"
| "xor_words (Suc k) msk data =
     le32_bytes (le32 (data ! 0) (data ! 1) (data ! 2) (data ! 3) XOR msk) @ xor_words k msk (drop 4 data)"

text \<open>\<open>addr\<close> is the address of the data: from 8 bytes on, the loop works on aligned words.\<close>

definition co_websocket_fast_mask :: "nat \<Rightarrow> u32 \<Rightarrow> u8 list \<Rightarrow> u8 list" where
  "co_websocket_fast_mask addr msk data =
     (if 8 \<le> length data then
        let align_len = (4 - addr mod 4) mod 4;
            new_mask = (if align_len = 1 then co_rotr32 msk 8 else if align_len = 2 then co_rotr32 msk 16
                        else if align_len = 3 then co_rotr32 msk 24 else msk);
            len = length data - align_len;
            words = xor_words (len div 4) new_mask (drop align_len data)
        in xor_bytes (le32_bytes msk) (take align_len data) @
           take (4 * (len div 4)) words @
           xor_bytes (le32_bytes new_mask) (drop (4 * (len div 4)) words)
      else xor_bytes (le32_bytes msk) data)"

definition co_websocket_get_new_mask :: "u32 \<Rightarrow> nat \<Rightarrow> u32" where
  "co_websocket_get_new_mask msk len =
     (if len mod 4 = 1 then co_rotr32 msk 8 else if len mod 4 = 2 then co_rotr32 msk 16
      else if len mod 4 = 3 then co_rotr32 msk 24 else msk)"

section \<open>The payload\<close>

text \<open>Running a command: the response is built behind the room for the longest header in a buffer
  of 1200 bytes.  The request is whatever the buffer holds from \<open>p\<close> on.\<close>

definition co_websocket_process_dap :: "(nat \<Rightarrow> env) \<Rightarrow> nat \<Rightarrow> ws \<Rightarrow> ws_fault + ws" where
  "co_websocket_process_dap E p w =
     (let max_offset = co_websocket_get_res_payload_offset 1500 in
      case DAP_ExecuteCommand E (mem_from (w_buf w) p) (w_probe w) of
        Inl e \<Rightarrow> Inl (Ws_Probe e)
      | Inr (r, n, d) \<Rightarrow>
          if 1200 < max_offset + length r then Inl Response_Overflow
          else
            let buf = put_bytes max_offset r (w_resp w);
                res = resp_len n;
                offset = co_websocket_get_res_payload_offset res;
                start = max_offset - offset;
                w = w\<lparr>w_probe := d, w_resp := put_bytes start (frame_header WS_OPCODE_BINARY res) buf\<rparr>
            in Inr (co_websocket_send_frame (mem_from buf start) res WS_OPCODE_BINARY w))"

definition co_websocket_process_ping :: "ws \<Rightarrow> ws_fault + ws" where
  "co_websocket_process_ping w =
     (let len = 2 + payload_len w + (if MASK w then 4 else 0);
          w = set_buf ((w_buf w)(0 := WS_FIN OR WS_OPCODE_PONG)) w
      in if 1500 < len then Inl Pong_Overread else Inr (w_send (get_bytes 0 len (w_buf w)) w))"

definition co_websocket_process_close :: "ws \<Rightarrow> ws" where
  "co_websocket_process_close w = w_send [WS_FIN OR WS_OPCODE_CLOSE, 2, 3, 0xe8] w"

text \<open>A text frame has no effect beyond the bookkeeping of the buffer for partial frames, which was
  never allocated.\<close>

definition co_websocket_text :: "nat \<Rightarrow> mem \<Rightarrow> ws \<Rightarrow> ws_fault + ws" where
  "co_websocket_text len junk w =
     (if skip_frame w then Inr (if len = payload_len w then w\<lparr>skip_frame := False\<rparr> else w)
      else if len = payload_len w \<and> recv_data_offset w = 0 then Inr w
      else if 100 - int (recv_data_offset w) < int len then
        Inr (co_websocket_send_msg_with_code CO_RES_INVALID_SIZE ''request too long'' junk
          (w\<lparr>skip_frame := (skip_frame w \<or> len < payload_len w), recv_data_offset := 0\<rparr>))
      else if 0 < len then Inl Null_Copy
      else Inr (if len = payload_len w then w\<lparr>recv_data_offset := 0\<rparr> else w))"

datatype ws_result = Ws_Ok | Ws_Pending | Ws_Fail

text \<open>Where the buffer lies in memory (\<open>addr\<close>) matters only to the unmasking; \<open>junk\<close> is what
  \<open>malloc\<close> returns.\<close>

record ws_env =
  we_dap :: "nat \<Rightarrow> env"
  we_addr :: nat
  we_junk :: mem

definition payload_advance :: "nat \<Rightarrow> ws \<Rightarrow> ws_result \<times> ws" where
  "payload_advance len w =
     (let new_len = remaining_len w - read_len w - len in
      if 0 < new_len then
        (Ws_Pending,
         (set_buf (put_bytes 0 (get_bytes (read_len w + len) new_len (w_buf w)) (w_buf w)) w)
           \<lparr>read_len := 0, remaining_len := new_len, w_status := CO_SOCKET_WEBSOCKET_HEADER, payload_len := 0\<rparr>)
      else if len < payload_len w then
        (Ws_Ok, w\<lparr>payload_len := payload_len w - len, read_len := 0, remaining_len := 0\<rparr>)
      else
        (Ws_Ok, w\<lparr>read_len := 0, remaining_len := 0, w_status := CO_SOCKET_WEBSOCKET_HEADER, payload_len := 0\<rparr>))"

definition unmask_payload :: "ws_env \<Rightarrow> nat \<Rightarrow> ws \<Rightarrow> ws" where
  "unmask_payload E len w =
     (if MASK w \<and> OPCODE w \<noteq> WS_OPCODE_PING then
        (set_buf (put_bytes (read_len w)
           (co_websocket_fast_mask (we_addr E + read_len w) (mask_val w) (get_bytes (read_len w) len (w_buf w)))
           (w_buf w)) w)
          \<lparr>mask_val := co_websocket_get_new_mask (mask_val w) len\<rparr>
      else w)"

definition co_websocket_process_payload :: "ws_env \<Rightarrow> ws \<Rightarrow> ws_fault + ws_result \<times> ws" where
  "co_websocket_process_payload E w =
     (let len = min (remaining_len w - read_len w) (payload_len w);
          w = unmask_payload E len w;
          go = map_sum (\<lambda>e. e) (payload_advance len)
      in if OPCODE w = WS_OPCODE_TEXT then go (co_websocket_text len (we_junk E) w)
         else if OPCODE w = WS_OPCODE_BINARY then go (co_websocket_process_dap (we_dap E) (read_len w) w)
         else if OPCODE w = WS_OPCODE_PING then go (co_websocket_process_ping w)
         else if OPCODE w = WS_OPCODE_CLOSE then Inr (Ws_Fail, co_websocket_process_close w)
         else go (Inr w))"

section \<open>The loop over one receive\<close>

definition co_websocket_frame :: "ws_env \<Rightarrow> ws \<Rightarrow> ws_fault + ws_result \<times> ws" where
  "co_websocket_frame E w =
     (case (if w_status w \<noteq> CO_SOCKET_WEBSOCKET_PAYLOAD then co_websocket_process_header w else Some w) of
        None \<Rightarrow> Inr (Ws_Fail, w)
      | Some w \<Rightarrow>
          if w_status w = CO_SOCKET_WEBSOCKET_PAYLOAD then co_websocket_process_payload E w
          else Inr (Ws_Ok, w))"

text \<open>The frame \<open>i\<close> of the connection finds the environment \<open>Es i\<close>.\<close>

primrec ws_loop :: "nat \<Rightarrow> (nat \<Rightarrow> ws_env) \<Rightarrow> nat \<Rightarrow> ws \<Rightarrow> ws_fault + nat \<times> bool \<times> ws" where
  "ws_loop 0 Es i w = Inl Out_Of_Fuel"
| "ws_loop (Suc fuel) Es i w =
     (case co_websocket_frame (Es i) w of Inl e \<Rightarrow> Inl e
      | Inr (Ws_Pending, w) \<Rightarrow> ws_loop fuel Es (Suc i) w
      | Inr (Ws_Ok, w) \<Rightarrow> Inr (Suc i, True, w)
      | Inr (Ws_Fail, w) \<Rightarrow> Inr (Suc i, False, w))"

definition CONFIG_CO_SOCKET_BUFFER_SIZE :: nat where "CONFIG_CO_SOCKET_BUFFER_SIZE = 1500"

text \<open>One call of \<open>co_websocket_process\<close>: a receive behind what is already there, then the loop.  The
  flag says whether the connection goes on.\<close>

definition co_websocket_process :: "(nat \<Rightarrow> ws_env) \<Rightarrow> nat \<Rightarrow> ws \<Rightarrow> ws_fault + nat \<times> bool \<times> ws" where
  "co_websocket_process Es i w =
     (let c = w_conn w;
          (bs, ss) = recv (CONFIG_CO_SOCKET_BUFFER_SIZE - remaining_len w) (c_in c);
          w = w\<lparr>w_conn := c\<lparr>c_in := ss, c_buf := put_bytes (remaining_len w) bs (c_buf c)\<rparr>\<rparr>
      in if bs = [] then Inr (i, False, w)
         else let w = w\<lparr>remaining_len := remaining_len w + length bs\<rparr>
              in ws_loop (Suc (remaining_len w)) Es i w)"

section \<open>Unmasking\<close>

lemma length_xor_bytes [simp]: "length (xor_bytes key data) = length data"
  by (simp add: xor_bytes_def)

lemma nth_xor_bytes [simp]: "i < length data \<Longrightarrow> xor_bytes key data ! i = data ! i XOR key ! (i mod 4)"
  by (simp add: xor_bytes_def)

lemma xor_bytes_append:
  assumes "length key = 4"
  shows "xor_bytes key (xs @ ys) = xor_bytes key xs @ xor_bytes (rotate (length xs) key) ys"
proof (rule nth_equalityI)
  fix i assume i: "i < length (xor_bytes key (xs @ ys))"
  show "xor_bytes key (xs @ ys) ! i = (xor_bytes key xs @ xor_bytes (rotate (length xs) key) ys) ! i"
  proof (cases "i < length xs")
    case False
    then have "rotate (length xs) key ! ((i - length xs) mod 4) = key ! (i mod 4)"
      using assms by (simp add: nth_rotate mod_add_right_eq)
    then show ?thesis using i False by (simp add: nth_append)
  qed (simp add: nth_append)
qed simp

lemma xor_bytes_rotate: "length key = 4 \<Longrightarrow> rotate (n mod 4) key = rotate n key"
  by (metis rotate_conv_mod)

lemma xor_bytes_twice: "xor_bytes key (xor_bytes key data) = data"
  by (rule nth_equalityI) (simp_all add: xor.assoc)

lemma rotr_bytes:
  "le32_bytes (co_rotr32 k 8) = rotate 1 (le32_bytes k)"
  "le32_bytes (co_rotr32 k 16) = rotate 2 (le32_bytes k)"
  "le32_bytes (co_rotr32 k 24) = rotate 3 (le32_bytes k)"
proof -
  have no: "\<not> bit k n" if "32 \<le> n" for n using that bit_imp_le_length [of k n] by auto
  have "le32_bytes (co_rotr32 k 8) = [ucast (drop_bit 8 k), ucast (drop_bit 16 k), ucast (drop_bit 24 k), ucast k]"
    unfolding co_rotr32_def le32_bytes_def
    by simp (intro conjI; rule bit_word_eqI; simp add: bit_simps no)
  moreover have "le32_bytes (co_rotr32 k 16) = [ucast (drop_bit 16 k), ucast (drop_bit 24 k), ucast k, ucast (drop_bit 8 k)]"
    unfolding co_rotr32_def le32_bytes_def
    by simp (intro conjI; rule bit_word_eqI; simp add: bit_simps no)
  moreover have "le32_bytes (co_rotr32 k 24) = [ucast (drop_bit 24 k), ucast k, ucast (drop_bit 8 k), ucast (drop_bit 16 k)]"
    unfolding co_rotr32_def le32_bytes_def
    by simp (intro conjI; rule bit_word_eqI; simp add: bit_simps no)
  ultimately show "le32_bytes (co_rotr32 k 8) = rotate 1 (le32_bytes k)"
    "le32_bytes (co_rotr32 k 16) = rotate 2 (le32_bytes k)"
    "le32_bytes (co_rotr32 k 24) = rotate 3 (le32_bytes k)"
    by (simp_all add: le32_bytes_def numeral_2_eq_2 numeral_3_eq_3)
qed

lemma new_mask_bytes: "le32_bytes (co_websocket_get_new_mask k n) = rotate n (le32_bytes k)"
proof -
  have "n mod 4 = 0 \<or> n mod 4 = 1 \<or> n mod 4 = 2 \<or> n mod 4 = 3" by arith
  then have "le32_bytes (co_websocket_get_new_mask k n) = rotate (n mod 4) (le32_bytes k)"
    by (elim disjE) (simp_all add: co_websocket_get_new_mask_def rotr_bytes)
  then show ?thesis by (simp add: xor_bytes_rotate)
qed

lemma le32_bytes_xor: "le32_bytes (x XOR y) = map2 (XOR) (le32_bytes x) (le32_bytes y)"
  by (simp add: le32_bytes_def) (intro conjI; rule bit_word_eqI; simp add: bit_simps)

lemma xor_word:
  "le32_bytes (le32 a b c d XOR m) = xor_bytes (le32_bytes m) [a, b, c, d]"
proof -
  obtain p q r s where m: "le32_bytes m = [p, q, r, s]" by (rule that, rule le32_bytes_def)
  have u: "[0..<4] = [0, 1, 2, 3 :: nat]" by code_simp
  show ?thesis
    unfolding le32_bytes_xor le32_bytes_of_le32 m xor_bytes_def
    by (simp add: u nth_Cons_numeral)
qed

lemma xor_words_eq:
  "4 * k \<le> length data \<Longrightarrow>
   xor_words k m data = xor_bytes (le32_bytes m) (take (4 * k) data) @ drop (4 * k) data"
proof (induction k arbitrary: data)
  case (Suc k)
  obtain a d1 where "data = a # d1" using Suc.prems by (cases data) auto
  moreover obtain b d2 where "d1 = b # d2" using Suc.prems calculation by (cases d1) auto
  moreover obtain c d3 where "d2 = c # d3" using Suc.prems calculation by (cases d2) auto
  moreover obtain d rest where "d3 = d # rest" using Suc.prems calculation by (cases d3) auto
  ultimately have data: "data = [a, b, c, d] @ rest" by simp
  have nth: "data ! 0 = a" "data ! 1 = b" "data ! 2 = c" "data ! 3 = d" "drop 4 data = rest"
    by (simp_all add: data)
  have r: "rotate (length [a, b, c, d]) (le32_bytes m) = le32_bytes m"
    by (rule rotate_id) simp
  have "4 * k \<le> length rest" using Suc.prems by (simp add: data)
  note IH = Suc.IH [OF this]
  have "xor_words (Suc k) m data = xor_bytes (le32_bytes m) [a, b, c, d] @
      xor_bytes (le32_bytes m) (take (4 * k) rest) @ drop (4 * k) rest"
    unfolding xor_words.simps nth xor_word IH ..
  moreover have "take (4 * Suc k) data = [a, b, c, d] @ take (4 * k) rest" "drop (4 * Suc k) data = drop (4 * k) rest"
    using take_append [of "4 + 4 * k" "[a, b, c, d]" rest] drop_append [of "4 + 4 * k" "[a, b, c, d]" rest]
    by (simp_all add: data del: append.simps)
  moreover have "xor_bytes (le32_bytes m) ([a, b, c, d] @ take (4 * k) rest) =
      xor_bytes (le32_bytes m) [a, b, c, d] @ xor_bytes (le32_bytes m) (take (4 * k) rest)"
    using xor_bytes_append [of "le32_bytes m" "[a, b, c, d]" "take (4 * k) rest"] unfolding r by simp
  ultimately show ?case by simp
qed (simp add: xor_bytes_def)

lemma xor_bytes_more:
  "length xs mod 4 = 0 \<Longrightarrow> xor_bytes (le32_bytes k) (xs @ ys) = xor_bytes (le32_bytes k) xs @ xor_bytes (le32_bytes k) ys"
  using xor_bytes_append [of "le32_bytes k" xs ys] xor_bytes_rotate [of "le32_bytes k" "length xs"] by simp

lemma fast_mask_eq: "co_websocket_fast_mask addr k data = xor_bytes (le32_bytes k) data"
proof (cases "8 \<le> length data")
  case True
  define a where "a = (4 - addr mod 4) mod 4"
  have a: "a = 0 \<or> a = 1 \<or> a = 2 \<or> a = 3" "a \<le> length data"
  proof -
    have "a < 4" by (simp add: a_def)
    then show "a = 0 \<or> a = 1 \<or> a = 2 \<or> a = 3" "a \<le> length data" using True by arith+
  qed
  define m where "m = co_websocket_get_new_mask k a"
  have am: "(if a = 1 then co_rotr32 k 8 else if a = 2 then co_rotr32 k 16
      else if a = 3 then co_rotr32 k 24 else k) = m"
    using a(1) by (auto simp: m_def co_websocket_get_new_mask_def)
  define n where "n = length data - a"
  define rest where "rest = drop a data"
  have len: "length rest = n" by (simp add: rest_def n_def)
  have w: "xor_words (n div 4) m rest = xor_bytes (le32_bytes m) (take (4 * (n div 4)) rest) @ drop (4 * (n div 4)) rest"
    by (rule xor_words_eq) (simp add: len)
  have l: "length (xor_bytes (le32_bytes m) (take (4 * (n div 4)) rest)) = 4 * (n div 4)"
    by (simp add: len)
  have "co_websocket_fast_mask addr k data =
      xor_bytes (le32_bytes k) (take a data) @
      xor_bytes (le32_bytes m) (take (4 * (n div 4)) rest) @ xor_bytes (le32_bytes m) (drop (4 * (n div 4)) rest)"
    unfolding co_websocket_fast_mask_def Let_def a_def [symmetric] am n_def [symmetric] rest_def [symmetric] w
    using True l by simp
  also have "xor_bytes (le32_bytes m) (take (4 * (n div 4)) rest) @ xor_bytes (le32_bytes m) (drop (4 * (n div 4)) rest)
      = xor_bytes (le32_bytes m) rest"
    using xor_bytes_more [of "take (4 * (n div 4)) rest" m "drop (4 * (n div 4)) rest"] by (simp add: len min_absorb2)
  also have "xor_bytes (le32_bytes k) (take a data) @ \<dots> = xor_bytes (le32_bytes k) data"
    using xor_bytes_append [of "le32_bytes k" "take a data" rest] a(2)
    by (simp add: m_def new_mask_bytes rest_def min_absorb2)
  finally show ?thesis .
qed (simp add: co_websocket_fast_mask_def)

text \<open>C11: The word-wise unmasking, at any alignment, is the byte-wise one of RFC 6455 (octet \<open>i\<close>
  with key octet \<open>i mod 4\<close>), and a payload received in two parts is unmasked to the same
  bytes, the second part with the rotated key that the server keeps.\<close>

theorem unmask_any_split:
  "co_websocket_fast_mask addr k (xs @ ys) =
     map (\<lambda>i. (xs @ ys) ! i XOR le32_bytes k ! (i mod 4)) [0..<length (xs @ ys)] \<and>
   co_websocket_fast_mask addr k (xs @ ys) =
     co_websocket_fast_mask addr1 k xs @
     co_websocket_fast_mask addr2 (co_websocket_get_new_mask k (length xs)) ys"
proof (rule conjI)
  show "co_websocket_fast_mask addr k (xs @ ys) =
      map (\<lambda>i. (xs @ ys) ! i XOR le32_bytes k ! (i mod 4)) [0..<length (xs @ ys)]"
    unfolding fast_mask_eq xor_bytes_def ..
qed (simp add: fast_mask_eq new_mask_bytes xor_bytes_append)

section \<open>Frames as a client sends them\<close>

text \<open>A masked, final, binary frame of RFC 6455, for payloads below 64 KiB.\<close>

definition client_header :: "u32 \<Rightarrow> nat \<Rightarrow> u8 list" where
  "client_header key n =
     [0x82, if n < 126 then 0x80 OR of_nat n else 0xFE] @
     (if n < 126 then [] else be16_bytes (of_nat n)) @ le32_bytes key"

definition client_frame :: "u32 \<times> u8 list \<Rightarrow> u8 list" where
  "client_frame f = client_header (fst f) (length (snd f)) @ xor_bytes (le32_bytes (fst f)) (snd f)"

definition server_frame :: "u8 list \<Rightarrow> u8 list" where
  "server_frame r = frame_header WS_OPCODE_BINARY (length r) @ r"

lemma length_be16 [simp]: "length (be16_bytes v) = 2"
  by (simp add: be16_bytes_def)

lemma length_client_header: "length (client_header key n) = (if n < 126 then 6 else 8)"
  by (simp add: client_header_def)

lemma length_frame_header:
  "n < 65536 \<Longrightarrow> length (frame_header t n) = co_websocket_get_res_payload_offset n"
proof -
  assume "n < 65536"
  then have "unat (of_nat n :: u16) = n" by (simp add: unat_of_nat_small)
  then show ?thesis
    by (simp add: frame_header_def co_websocket_get_res_payload_offset_def word_le_nat_alt)
qed

lemma length_byte:
  assumes "n < 126"
  shows "unat ((0x80 OR of_nat n :: u8) AND 0x7F) = n" "(0x80 OR of_nat n :: u8) AND 0x80 = 0x80"
proof -
  have n: "unat (of_nat n :: u8) = n" using assms by (simp add: unat_of_nat_small)
  have m: "x AND 0x7F = take_bit 7 x" for x :: u8 by (simp add: take_bit_eq_mask mask_eq_exp_minus_1)
  have e: "(0x80 :: u8) = 2 ^ 7" by simp
  have "bit (0x80 :: u8) k \<longleftrightarrow> k = 7" for k
    by (auto simp only: e bit_exp_iff possible_bit_word) simp_all
  then have "take_bit 7 (0x80 OR of_nat n :: u8) = take_bit 7 (of_nat n)"
    by (intro bit_word_eqI) (auto simp: bit_simps)
  then have "unat ((0x80 OR of_nat n :: u8) AND 0x7F) = take_bit 7 n"
    unfolding m using n by (simp add: unsigned_take_bit_eq)
  then show "unat ((0x80 OR of_nat n :: u8) AND 0x7F) = n" using assms by (simp add: take_bit_nat_eq_self)
  show "(0x80 OR of_nat n :: u8) AND 0x80 = 0x80" by (rule bit_word_eqI) (auto simp: bit_simps)
qed

lemma be16_read: "n < 65536 \<Longrightarrow>
   unat (push_bit 8 (ucast (be16_bytes (of_nat n) ! 0)) OR ucast (be16_bytes (of_nat n) ! 1) :: u32) = n"
proof -
  assume n: "n < 65536"
  define v :: u16 where "v = of_nat n"
  have "push_bit 8 (ucast (ucast (drop_bit 8 v) :: u8)) OR ucast (ucast v :: u8) = (ucast v :: u32)"
    by (rule bit_word_eqI) (auto simp: bit_simps dest: bit_imp_le_length)
  moreover have "unat v = n" using n by (simp add: v_def unat_of_nat_small)
  ultimately show ?thesis by (simp add: be16_bytes_def v_def [symmetric])
qed

lemma le32_at_get: "get_bytes p 4 m = le32_bytes v \<Longrightarrow> le32_at m p = v"
  by (rule le32_bytes_inj) (simp add: le32_bytes_at)

lemma parse_client_header:
  assumes st: "w_status w = CO_SOCKET_WEBSOCKET_HEADER" and n: "n < 65536"
    and h: "h = length (client_header key n)" and rem: "h \<le> remaining_len w"
    and buf: "get_bytes 0 h (w_buf w) = client_header key n"
  shows "co_websocket_process_header w = Some (w\<lparr>OPCODE := 2, FIN := True, MASK := True, payload_len := n,
    read_len := h, mask_val := key, w_status := CO_SOCKET_WEBSOCKET_PAYLOAD\<rparr>)"
proof -
  let ?d = "w_buf w"
  have at: "?d i = client_header key n ! i" if "i < h" for i
    using nth_get_bytes [OF that, of 0 ?d] buf by simp
  have hh: "h = (if n < 126 then 6 else 8)" using h length_client_header by simp
  have d0: "?d 0 = 0x82" using at [of 0] hh by (simp add: client_header_def)
  have "get_bytes (h - 4) 4 ?d = drop (h - 4) (get_bytes 0 h ?d)"
    using get_bytes_append [of 0 "h - 4" 4 ?d] hh by simp
  then have tail: "get_bytes (h - 4) 4 ?d = le32_bytes key"
    unfolding buf using hh by (simp add: client_header_def)
  have key: "le32_at ?d (h - 4) = key" by (rule le32_at_get [OF tail])
  show ?thesis
  proof (cases "n < 126")
    case True
    then have d1: "?d 1 = 0x80 OR of_nat n" using at [of 1] hh by (simp add: client_header_def)
    have h: "h = 6" using hh True by simp
    have f: "header_first w = Some (True, w\<lparr>OPCODE := 2, FIN := True, MASK := True, payload_len := n,
        w_status := CO_SOCKET_WEBSOCKET_MASK, read_len := 2\<rparr>)"
      using st rem True length_byte [OF True]
      by (simp add: header_first_def Let_def d0 d1 ws_consts h del: One_nat_def)
    show ?thesis
      using rem key by (simp add: co_websocket_process_header_def f header_extend_def header_mask_def Let_def h)
  next
    case False
    then have d1: "?d 1 = 0xFE" using at [of 1] hh by (simp add: client_header_def)
    have h: "h = 8" using hh False by simp
    have "?d 2 = be16_bytes (of_nat n) ! 0" "?d 3 = be16_bytes (of_nat n) ! 1"
      using at [of 2] at [of 3] False h by (simp_all add: client_header_def nth_append be16_bytes_def)
    then have len: "unat (push_bit 8 (ucast (?d 2)) OR ucast (?d 3) :: u32) = n"
      using be16_read [OF n] by simp
    have f: "header_first w = Some (True, w\<lparr>OPCODE := 2, FIN := True, MASK := True, payload_len := 126,
        w_status := CO_SOCKET_WEBSOCKET_EXTEND_LENGTH, read_len := 2\<rparr>)"
      using st rem
      by (simp add: header_first_def Let_def d0 d1 ws_consts h del: One_nat_def)
    show ?thesis
      using rem key len
      by (simp add: co_websocket_process_header_def f header_extend_def header_mask_def Let_def h)
  qed
qed

section \<open>Whole frames\<close>

lemma put_bytes_at_from: "get_bytes q n (mem_from m p) = get_bytes (p + q) n m"
  by (rule nth_equalityI) (simp_all add: add.assoc)

lemma run_dap:
  assumes x: "DAP_ExecuteCommand E (mem_from (w_buf w) p) (w_probe w) = Inr (r, n, d)"
    and len: "resp_len n = length r" "length r \<le> 1196"
  shows "\<exists>resp. co_websocket_process_dap E p w =
    Inr (w_send (server_frame r) (w\<lparr>w_probe := d, w_resp := resp\<rparr>))"
proof -
  let ?o = "co_websocket_get_res_payload_offset"
  have o: "?o 1500 = 4" "?o (length r) \<le> 4" by (simp_all add: co_websocket_get_res_payload_offset_def)
  define buf where "buf = put_bytes 4 r (w_resp w)"
  define start where "start = 4 - ?o (length r)"
  have hl: "length (frame_header WS_OPCODE_BINARY (length r)) = ?o (length r)"
    using len(2) by (simp add: length_frame_header)
  have "get_bytes (?o (length r)) (length r) (mem_from buf start) = r"
    using o(2) get_put_same [of 4 r "w_resp w"] by (simp add: put_bytes_at_from start_def buf_def)
  then have "get_bytes 0 (?o (length r) + length r) (put_bytes 0 (frame_header WS_OPCODE_BINARY (length r)) (mem_from buf start))
      = server_frame r"
    using get_put_same [of 0 "frame_header WS_OPCODE_BINARY (length r)" "mem_from buf start"]
    by (simp add: get_bytes_append get_put_other hl server_frame_def)
  then show ?thesis
    using x len o(1)
    by (auto simp: co_websocket_process_dap_def Let_def co_websocket_send_frame_def buf_def start_def)
qed

text \<open>The memory a command sees: its unmasked payload in front of whatever the buffer holds next.\<close>

definition command_memory :: "u32 \<times> u8 list \<Rightarrow> mem \<Rightarrow> mem" where
  "command_memory f m =
     (let h = length (client_header (fst f) (length (snd f))) in mem_from (put_bytes h (snd f) m) h)"

lemma command_memory_payload: "get_bytes 0 (length (snd f)) (command_memory f m) = snd f"
  using get_put_same [of "length (client_header (fst f) (length (snd f)))" "snd f" m]
  by (simp add: command_memory_def Let_def put_bytes_at_from)

definition after_frame :: "u32 \<times> u8 list \<Rightarrow> u8 list \<Rightarrow> mem \<Rightarrow> mem" where
  "after_frame f rest m =
     put_bytes 0 rest (put_bytes (length (client_header (fst f) (length (snd f)))) (snd f) m)"

lemma after_frame_rest: "get_bytes 0 (length rest) (after_frame f rest m) = rest"
  using get_put_same [of 0 rest] by (simp add: after_frame_def)

lemma frame_step:
  assumes st: "w_status w = CO_SOCKET_WEBSOCKET_HEADER" and len: "length (snd f) < 65536"
    and rem: "remaining_len w = length (client_frame f @ rest)"
    and buf: "get_bytes 0 (remaining_len w) (w_buf w) = client_frame f @ rest"
    and x: "DAP_ExecuteCommand (we_dap E) (command_memory f (w_buf w)) (w_probe w) = Inr (r, n, d)"
    and r: "resp_len n = length r" "length r \<le> 1196"
  shows "\<exists>w'. co_websocket_frame E w = Inr (if rest = [] then Ws_Ok else Ws_Pending, w') \<and>
    w_status w' = CO_SOCKET_WEBSOCKET_HEADER \<and> remaining_len w' = length rest \<and>
    w_probe w' = d \<and> c_in (w_conn w') = c_in (w_conn w) \<and>
    c_out (w_conn w') = c_out (w_conn w) @ [server_frame r] \<and> w_buf w' = after_frame f rest (w_buf w)"
proof -
  obtain key pl where f: "f = (key, pl)" by fastforce
  define hdr where "hdr = client_header key (length pl)"
  define h where "h = length hdr"
  let ?m = "w_buf w" and ?n = "length pl"
  have frame: "client_frame f = hdr @ xor_bytes (le32_bytes key) pl" by (simp add: client_frame_def f hdr_def)
  have R: "remaining_len w = h + (?n + length rest)" using rem by (simp add: frame h_def)
  have split: "get_bytes 0 h ?m = hdr" "get_bytes h ?n ?m = xor_bytes (le32_bytes key) pl"
    "get_bytes (h + ?n) (length rest) ?m = rest"
    using buf unfolding R get_bytes_append frame by (auto simp: h_def)
  let ?w1 = "w\<lparr>OPCODE := 2, FIN := True, MASK := True, payload_len := ?n, read_len := h, mask_val := key,
    w_status := CO_SOCKET_WEBSOCKET_PAYLOAD\<rparr>"
  have hd: "co_websocket_process_header w = Some ?w1"
    by (rule parse_client_header [OF st]) (use len split(1) R in \<open>simp_all add: f hdr_def h_def\<close>)
  define m where "m = put_bytes h pl ?m"
  have dec: "co_websocket_fast_mask a key (get_bytes h ?n ?m) = pl" for a
    unfolding fast_mask_eq split(2) by (rule xor_bytes_twice)
  define w2 where "w2 = (set_buf m ?w1)\<lparr>mask_val := co_websocket_get_new_mask key ?n\<rparr>"
  have w2: "unmask_payload E ?n ?w1 = w2"
    using dec by (simp add: unmask_payload_def w2_def m_def WS_OPCODE_PING_def)
  have "mem_from (w_buf w2) h = command_memory f ?m"
    by (simp add: w2_def set_buf_def command_memory_def Let_def m_def f h_def hdr_def)
  with x have x2: "DAP_ExecuteCommand (we_dap E) (mem_from (w_buf w2) h) (w_probe w2) = Inr (r, n, d)"
    by (simp add: w2_def set_buf_def)
  obtain resp where dap: "co_websocket_process_dap (we_dap E) h w2 =
      Inr (w_send (server_frame r) (w2\<lparr>w_probe := d, w_resp := resp\<rparr>))"
    using run_dap [OF x2 r] by blast
  define w3 where "w3 = w_send (server_frame r) (w2\<lparr>w_probe := d, w_resp := resp\<rparr>)"
  have w3: "read_len w3 = h" "remaining_len w3 = h + (?n + length rest)" "payload_len w3 = ?n" "w_buf w3 = m"
    "w_probe w3 = d" "c_in (w_conn w3) = c_in (w_conn w)" "c_out (w_conn w3) = c_out (w_conn w) @ [server_frame r]"
    "w_status w3 = CO_SOCKET_WEBSOCKET_PAYLOAD"
    by (simp_all add: w3_def w2_def w_send_def set_buf_def R)
  have "get_bytes (h + ?n) (length rest) m = rest"
    using split(3) by (simp add: m_def get_put_other)
  moreover have "after_frame f rest ?m = put_bytes 0 rest m"
    by (simp add: after_frame_def m_def h_def hdr_def f)
  moreover have pay: "co_websocket_process_payload E ?w1 = Inr (payload_advance ?n w3)"
  proof -
    have n: "min (remaining_len ?w1 - read_len ?w1) (payload_len ?w1) = ?n" by (simp add: R)
    have o: "OPCODE w2 = WS_OPCODE_BINARY" "read_len w2 = h" by (simp_all add: w2_def set_buf_def WS_OPCODE_BINARY_def)
    have d: "WS_OPCODE_BINARY \<noteq> WS_OPCODE_TEXT" by (simp add: ws_consts)
    show ?thesis
      unfolding co_websocket_process_payload_def Let_def n w2 o dap w3_def [symmetric]
      by (simp only: d if_False simp_thms if_True map_sum.simps)
  qed
  moreover have "co_websocket_frame E w = Inr (payload_advance ?n w3)"
    using st hd pay by (simp add: co_websocket_frame_def)
  ultimately show ?thesis
    using w3 by (cases rest) (auto simp: payload_advance_def Let_def set_buf_def)
qed

definition frames :: "(u32 \<times> u8 list) list \<Rightarrow> u8 list" where
  "frames fs = concat (map client_frame fs)"

primrec ws_memories :: "mem \<Rightarrow> (u32 \<times> u8 list) list \<Rightarrow> mem list" where
  "ws_memories m [] = []"
| "ws_memories m (f # fs) = command_memory f m # ws_memories (after_frame f (frames fs) m) fs"

lemma memories_hold_payloads:
  "list_all2 (\<lambda>f m. get_bytes 0 (length (snd f)) m = snd f) fs (ws_memories m fs)"
  by (induction fs arbitrary: m) (simp_all add: command_memory_payload)

lemma length_client_frame: "length (snd f) + 6 \<le> length (client_frame f)"
  by (simp add: client_frame_def length_client_header)

lemma frames_Nil: "frames fs = [] \<longleftrightarrow> fs = []"
  by (cases fs) (auto simp: frames_def client_frame_def client_header_def)

lemma ws_loop_frames:
  assumes "fs \<noteq> []" "length (frames fs) \<le> fuel" "fuel \<le> 1501" "w_status w = CO_SOCKET_WEBSOCKET_HEADER"
    and "remaining_len w = length (frames fs)" "get_bytes 0 (remaining_len w) (w_buf w) = frames fs"
    and "probe_ok (w_probe w)" "\<forall>m \<in> set (ws_memories (w_buf w) fs). small_blocks m"
    and "exe.session (\<lambda>j. we_dap (Es j)) i (ws_memories (w_buf w) fs) (w_probe w) = Inr (rs, d')"
    and "\<forall>r \<in> set rs. length r \<le> 1196"
  shows "\<exists>w'. ws_loop fuel Es i w = Inr (i + length fs, True, w') \<and> w_status w' = CO_SOCKET_WEBSOCKET_HEADER \<and>
    remaining_len w' = 0 \<and> w_probe w' = d' \<and> c_in (w_conn w') = c_in (w_conn w) \<and>
    c_out (w_conn w') = c_out (w_conn w) @ map server_frame rs"
  using assms
proof (induction fs arbitrary: fuel i w rs)
  case (Cons f fs)
  have fr: "frames (f # fs) = client_frame f @ frames fs" by (simp add: frames_def)
  have len: "length (snd f) < 65536" using length_client_frame [of f] Cons.prems(2,3) by (simp add: fr)
  obtain fuel' where fuel: "fuel = Suc fuel'"
    using Cons.prems(2) length_client_frame [of f] by (cases fuel) (auto simp: fr)
  obtain r n d where x: "DAP_ExecuteCommand (we_dap (Es i)) (command_memory f (w_buf w)) (w_probe w) = Inr (r, n, d)"
    using Cons.prems(9) by (auto split: sum.splits)
  obtain rs' where rs: "exe.session (\<lambda>j. we_dap (Es j)) (Suc i) (ws_memories (after_frame f (frames fs) (w_buf w)) fs) d
      = Inr (rs', d')" "rs = r # rs'"
    using Cons.prems(9) x
    by (cases "exe.session (\<lambda>j. we_dap (Es j)) (Suc i) (ws_memories (after_frame f (frames fs) (w_buf w)) fs) d") auto
  have sb: "small_blocks (command_memory f (w_buf w))" using Cons.prems(8) by simp
  have rl: "length r \<le> 1196" using Cons.prems(10) rs(2) by simp
  have rn: "resp_len n = length r" using exe.length_law [OF x Cons.prems(7) sb] rl by simp
  obtain w1 where w1: "co_websocket_frame (Es i) w = Inr (if frames fs = [] then Ws_Ok else Ws_Pending, w1)"
    "w_status w1 = CO_SOCKET_WEBSOCKET_HEADER" "remaining_len w1 = length (frames fs)" "w_probe w1 = d"
    "c_in (w_conn w1) = c_in (w_conn w)" "c_out (w_conn w1) = c_out (w_conn w) @ [server_frame r]"
    "w_buf w1 = after_frame f (frames fs) (w_buf w)"
    using frame_step [OF Cons.prems(4) len _ _ x rn rl, of "frames fs"] Cons.prems(5,6) fr by auto
  show ?case
  proof (cases "fs = []")
    case True
    then have "frames fs = []" by (simp add: frames_def)
    then show ?thesis using w1 rs True by (intro exI [of _ w1]) (simp add: fuel)
  next
    case False
    then have p: "frames fs \<noteq> []" by (simp add: frames_Nil)
    have "\<exists>w'. ws_loop fuel' Es (Suc i) w1 = Inr (Suc i + length fs, True, w') \<and> w_status w' = CO_SOCKET_WEBSOCKET_HEADER \<and>
      remaining_len w' = 0 \<and> w_probe w' = d' \<and> c_in (w_conn w') = c_in (w_conn w1) \<and>
      c_out (w_conn w') = c_out (w_conn w1) @ map server_frame rs'"
    proof (rule Cons.IH [OF False _ _ w1(2,3)])
      show "length (frames fs) \<le> fuel'" "fuel' \<le> 1501"
        using Cons.prems(2,3) length_client_frame [of f] by (simp_all add: fr fuel)
      show "get_bytes 0 (remaining_len w1) (w_buf w1) = frames fs" by (simp add: w1(3,7) after_frame_rest)
      show "probe_ok (w_probe w1)" using exe.keeps [OF x Cons.prems(7)] w1(4) by simp
      show "\<forall>m \<in> set (ws_memories (w_buf w1) fs). small_blocks m" using Cons.prems(8) by (simp add: w1(7))
      show "exe.session (\<lambda>j. we_dap (Es j)) (Suc i) (ws_memories (w_buf w1) fs) (w_probe w1) = Inr (rs', d')"
        using rs(1) by (simp add: w1(4,7))
      show "\<forall>r \<in> set rs'. length r \<le> 1196" using Cons.prems(10) rs(2) by simp
    qed
    then show ?thesis using w1 p rs(2) by (auto simp: fuel)
  qed
qed simp


section \<open>The parser between receives\<close>

text \<open>Where the parser can be when it waits for more bytes: how much of a header it holds.\<close>

definition ws_waiting :: "ws \<Rightarrow> bool" where
  "ws_waiting w \<longleftrightarrow> (case w_status w of
       CO_SOCKET_HANDSHAKE \<Rightarrow> False
     | CO_SOCKET_WEBSOCKET_HEADER \<Rightarrow> remaining_len w < 2
     | CO_SOCKET_WEBSOCKET_EXTEND_LENGTH \<Rightarrow> read_len w = 2 \<and> 2 \<le> remaining_len w \<and> remaining_len w < 10 \<and>
         payload_len w \<in> {126, 127}
     | CO_SOCKET_WEBSOCKET_MASK \<Rightarrow> read_len w \<in> {2, 4, 10} \<and> read_len w \<le> remaining_len w \<and>
         remaining_len w < read_len w + 4
     | CO_SOCKET_WEBSOCKET_PAYLOAD \<Rightarrow> read_len w = 0 \<and> remaining_len w = 0 \<and> 0 < payload_len w)"

definition ws_ready :: "ws \<Rightarrow> bool" where
  "ws_ready w \<longleftrightarrow> 0 < remaining_len w \<and> (case w_status w of
       CO_SOCKET_HANDSHAKE \<Rightarrow> False
     | CO_SOCKET_WEBSOCKET_HEADER \<Rightarrow> True
     | CO_SOCKET_WEBSOCKET_EXTEND_LENGTH \<Rightarrow> read_len w = 2 \<and> 2 \<le> remaining_len w \<and> payload_len w \<in> {126, 127}
     | CO_SOCKET_WEBSOCKET_MASK \<Rightarrow> read_len w \<in> {2, 4, 10} \<and> read_len w \<le> remaining_len w
     | CO_SOCKET_WEBSOCKET_PAYLOAD \<Rightarrow> read_len w = 0 \<and> 0 < payload_len w)"

lemma header_mask_progress:
  assumes "w_status w = CO_SOCKET_WEBSOCKET_MASK \<Longrightarrow> read_len w \<in> {2, 4, 10}"
    and "w_status w \<in> {CO_SOCKET_WEBSOCKET_MASK, CO_SOCKET_WEBSOCKET_HEADER, CO_SOCKET_WEBSOCKET_PAYLOAD}"
    and "2 \<le> read_len w" "read_len w \<le> remaining_len w"
  shows "remaining_len (header_mask w) = remaining_len w \<and>
    (if w_status (header_mask w) = CO_SOCKET_WEBSOCKET_PAYLOAD
     then 2 \<le> read_len (header_mask w) \<and> read_len (header_mask w) \<le> remaining_len w
     else ws_waiting (header_mask w))"
  using assms by (auto simp: header_mask_def ws_waiting_def)

lemma header_progress:
  assumes w: "ws_ready w" and st: "w_status w \<noteq> CO_SOCKET_WEBSOCKET_PAYLOAD"
    and h: "co_websocket_process_header w = Some w'"
  shows "remaining_len w' = remaining_len w \<and>
    (if w_status w' = CO_SOCKET_WEBSOCKET_PAYLOAD then 2 \<le> read_len w' \<and> read_len w' \<le> remaining_len w
     else ws_waiting w')"
proof -
  have ext: "remaining_len v' = remaining_len v \<and>
      (if w_status v' = CO_SOCKET_WEBSOCKET_PAYLOAD then 2 \<le> read_len v' \<and> read_len v' \<le> remaining_len v
       else ws_waiting v')"
    if e: "(case header_extend v of None \<Rightarrow> None | Some (False, w) \<Rightarrow> Some w | Some (True, w) \<Rightarrow> Some (header_mask w)) = Some v'"
      and v: "w_status v = CO_SOCKET_WEBSOCKET_EXTEND_LENGTH" "read_len v = 2" "2 \<le> remaining_len v" "payload_len v \<in> {126, 127}"
    for v v'
  proof (cases "payload_len v = 126")
    case True
    show ?thesis
    proof (cases "remaining_len v < 4")
      case True
      then show ?thesis using e v \<open>payload_len v = 126\<close> by (simp add: header_extend_def Let_def ws_waiting_def)
    next
      case False
      define u where "u = v\<lparr>payload_len := unat (push_bit 8 (ucast (w_buf v 2)) OR ucast (w_buf v 3) :: u32), read_len := 4,
        w_status := (if MASK v then CO_SOCKET_WEBSOCKET_MASK else CO_SOCKET_WEBSOCKET_PAYLOAD)\<rparr>"
      have "v' = header_mask u" using e v False \<open>payload_len v = 126\<close> by (simp add: header_extend_def Let_def u_def)
      moreover have "remaining_len u = remaining_len v" "read_len u = 4"
        "w_status u \<in> {CO_SOCKET_WEBSOCKET_MASK, CO_SOCKET_WEBSOCKET_PAYLOAD}" by (simp_all add: u_def)
      ultimately show ?thesis using header_mask_progress [of u] False by auto
    qed
  next
    case l: False
    show ?thesis
    proof (cases "remaining_len v < 10")
      case True
      then show ?thesis using e v l by (simp add: header_extend_def Let_def ws_waiting_def)
    next
      case False
      define u where "u = v\<lparr>payload_len := unat (ucast (be64_at2 (w_buf v)) :: u32), read_len := 10,
        w_status := (if MASK v then CO_SOCKET_WEBSOCKET_MASK else CO_SOCKET_WEBSOCKET_PAYLOAD)\<rparr>"
      have "v' = header_mask u" using e v False l by (simp add: header_extend_def Let_def u_def split: if_splits)
      moreover have "remaining_len u = remaining_len v" "read_len u = 10"
        "w_status u \<in> {CO_SOCKET_WEBSOCKET_MASK, CO_SOCKET_WEBSOCKET_PAYLOAD}" by (simp_all add: u_def)
      ultimately show ?thesis using header_mask_progress [of u] False by auto
    qed
  qed
  show ?thesis
  proof (cases "w_status w")
    case CO_SOCKET_WEBSOCKET_EXTEND_LENGTH
    then show ?thesis using ext [of w w'] w h
      by (simp add: co_websocket_process_header_def header_first_def ws_ready_def)
  next
    case CO_SOCKET_WEBSOCKET_MASK
    then have "w' = header_mask w" using h
      by (simp add: co_websocket_process_header_def header_first_def header_extend_def Let_def)
    then show ?thesis using header_mask_progress [of w] w CO_SOCKET_WEBSOCKET_MASK by (auto simp: ws_ready_def)
  next
    case CO_SOCKET_WEBSOCKET_HEADER
    show ?thesis
    proof (cases "remaining_len w < 2")
      case True
      then have "w' = w" using h CO_SOCKET_WEBSOCKET_HEADER by (simp add: co_websocket_process_header_def header_first_def)
      then show ?thesis using True CO_SOCKET_WEBSOCKET_HEADER by (simp add: ws_waiting_def)
    next
      case False
      obtain v where v: "header_first w = Some (True, v)"
        "(case header_extend v of None \<Rightarrow> None | Some (False, w) \<Rightarrow> Some w | Some (True, w) \<Rightarrow> Some (header_mask w)) = Some w'"
      proof (cases "header_first w")
        case None
        then show ?thesis using h by (simp add: co_websocket_process_header_def)
      next
        case (Some x)
        then have "fst x" using CO_SOCKET_WEBSOCKET_HEADER False
          by (auto simp: header_first_def Let_def split: if_splits)
        then show ?thesis using that h Some by (cases x) (simp add: co_websocket_process_header_def)
      qed
      have f: "read_len v = 2" "remaining_len v = remaining_len w"
        "w_status v = CO_SOCKET_WEBSOCKET_EXTEND_LENGTH \<and> payload_len v \<in> {126, 127} \<or>
         w_status v \<in> {CO_SOCKET_WEBSOCKET_MASK, CO_SOCKET_WEBSOCKET_HEADER}"
        using v(1) CO_SOCKET_WEBSOCKET_HEADER False by (auto simp: header_first_def Let_def split: if_splits)
      show ?thesis
      proof (cases "w_status v = CO_SOCKET_WEBSOCKET_EXTEND_LENGTH")
        case True
        then show ?thesis using ext [OF v(2)] f False by (auto split: if_splits)
      next
        case e: False
        then have "w' = header_mask v" using v(2) by (simp add: header_extend_def Let_def)
        then show ?thesis using header_mask_progress [of v] f e False by auto
      qed
    qed
  qed (use w st in \<open>simp_all add: ws_ready_def\<close>)
qed

text \<open>Nothing the handlers do moves the parser.\<close>

definition same_place :: "ws \<Rightarrow> ws \<Rightarrow> bool" where
  "same_place w w' \<longleftrightarrow> w_status w' = w_status w \<and> remaining_len w' = remaining_len w \<and>
     read_len w' = read_len w \<and> payload_len w' = payload_len w"

lemma same_place_simps [simp]:
  "same_place w w" "same_place w (w_send bs w') = same_place w w'" "same_place w (set_buf m w') = same_place w w'"
  "same_place w (w'\<lparr>mask_val := k\<rparr>) = same_place w w'" "same_place w (w'\<lparr>skip_frame := b\<rparr>) = same_place w w'"
  "same_place w (w'\<lparr>recv_data_offset := n\<rparr>) = same_place w w'"
  "same_place w (w'\<lparr>w_resp := m\<rparr>) = same_place w w'" "same_place w (w'\<lparr>w_probe := d\<rparr>) = same_place w w'"
  by (simp_all add: same_place_def w_send_def set_buf_def)

lemma handlers_same_place:
  "same_place w (unmask_payload E n w)"
  "co_websocket_text n junk w = Inr w' \<Longrightarrow> same_place w w'"
  "co_websocket_process_dap F p w = Inr w' \<Longrightarrow> same_place w w'"
  "co_websocket_process_ping w = Inr w' \<Longrightarrow> same_place w w'"
proof -
  have s: "same_place w (co_websocket_send_frame m n t v) = same_place w v" for m n t v
    by (simp add: co_websocket_send_frame_def)
  show "same_place w (unmask_payload E n w)" by (simp add: unmask_payload_def)
  show "co_websocket_text n junk w = Inr w' \<Longrightarrow> same_place w w'"
    by (auto simp: co_websocket_text_def co_websocket_send_msg_with_code_def Let_def s split: if_splits)
  show "co_websocket_process_dap F p w = Inr w' \<Longrightarrow> same_place w w'"
    by (auto simp: co_websocket_process_dap_def Let_def s split: sum.splits if_splits)
  show "co_websocket_process_ping w = Inr w' \<Longrightarrow> same_place w w'"
    by (auto simp: co_websocket_process_ping_def Let_def split: if_splits)
qed

lemma advance_progress:
  assumes a: "payload_advance n w = (res, w')" and n: "n = min (remaining_len w - read_len w) (payload_len w)"
    and pos: "0 < read_len w + n" "read_len w \<le> remaining_len w" "w_status w = CO_SOCKET_WEBSOCKET_PAYLOAD"
  shows "if res = Ws_Pending then w_status w' = CO_SOCKET_WEBSOCKET_HEADER \<and> 0 < remaining_len w' \<and>
      remaining_len w' < remaining_len w
    else res = Ws_Ok \<and> ws_waiting w'"
  using a pos by (auto simp: payload_advance_def Let_def ws_waiting_def split: if_splits)

lemma payload_progress:
  assumes p: "co_websocket_process_payload E w = x" and r: "read_len w \<le> remaining_len w" "0 < remaining_len w"
    and st: "w_status w = CO_SOCKET_WEBSOCKET_PAYLOAD" and pos: "read_len w = 0 \<Longrightarrow> 0 < payload_len w"
  shows "case x of Inl e \<Rightarrow> e \<noteq> Out_Of_Fuel
    | Inr (res, w') \<Rightarrow> if res = Ws_Pending then w_status w' = CO_SOCKET_WEBSOCKET_HEADER \<and> 0 < remaining_len w' \<and>
        remaining_len w' < remaining_len w
      else if res = Ws_Ok then ws_waiting w' else True"
proof -
  define n where "n = min (remaining_len w - read_len w) (payload_len w)"
  define u where "u = unmask_payload E n w"
  have u: "same_place w u" by (simp add: u_def handlers_same_place)
  have n0: "0 < read_len w + n" using pos r by (auto simp: n_def)
  have adv: "if res = Ws_Pending then w_status w' = CO_SOCKET_WEBSOCKET_HEADER \<and> 0 < remaining_len w' \<and>
        remaining_len w' < remaining_len w else res = Ws_Ok \<and> ws_waiting w'"
    if "payload_advance n v = (res, w')" "same_place u v" for v res w'
  proof -
    have f: "w_status v = w_status w" "remaining_len v = remaining_len w" "read_len v = read_len w" "payload_len v = payload_len w"
      using that(2) u by (simp_all add: same_place_def)
    show ?thesis using advance_progress [OF that(1)] n0 r st unfolding f n_def by (simp split: if_splits)
  qed
  have go: "case map_sum (\<lambda>e. e) (payload_advance n) y of Inl e \<Rightarrow> e \<noteq> Out_Of_Fuel
    | Inr (res, w') \<Rightarrow> if res = Ws_Pending then w_status w' = CO_SOCKET_WEBSOCKET_HEADER \<and> 0 < remaining_len w' \<and>
        remaining_len w' < remaining_len w
      else if res = Ws_Ok then ws_waiting w' else True"
    if "\<And>v. y = Inr v \<Longrightarrow> same_place u v" "y \<noteq> Inl Out_Of_Fuel" for y
  proof (cases y)
    case (Inl e)
    then show ?thesis using that(2) by auto
  next
    case (Inr v)
    then show ?thesis using adv [OF _ that(1) [OF Inr]]
      by (cases "payload_advance n v") auto
  qed
  have nf: "co_websocket_text n j u \<noteq> Inl Out_Of_Fuel" "co_websocket_process_dap F k u \<noteq> Inl Out_Of_Fuel"
    "co_websocket_process_ping u \<noteq> Inl Out_Of_Fuel" for j F k
    by (auto simp: co_websocket_text_def co_websocket_process_dap_def co_websocket_process_ping_def Let_def split: sum.splits)
  have D: "x = (if OPCODE u = WS_OPCODE_TEXT then map_sum (\<lambda>e. e) (payload_advance n) (co_websocket_text n (we_junk E) u)
         else if OPCODE u = WS_OPCODE_BINARY then map_sum (\<lambda>e. e) (payload_advance n) (co_websocket_process_dap (we_dap E) (read_len u) u)
         else if OPCODE u = WS_OPCODE_PING then map_sum (\<lambda>e. e) (payload_advance n) (co_websocket_process_ping u)
         else if OPCODE u = WS_OPCODE_CLOSE then Inr (Ws_Fail, co_websocket_process_close u)
         else map_sum (\<lambda>e. e) (payload_advance n) (Inr u))"
    using p by (simp only: co_websocket_process_payload_def Let_def n_def u_def)
  show ?thesis unfolding D
    using go [OF handlers_same_place(2) nf(1)] go [OF handlers_same_place(3) nf(2)]
      go [OF handlers_same_place(4) nf(3)] go [of "Inr u"] by (auto split: if_splits)
qed

lemma frame_progress:
  assumes w: "ws_ready w"
  shows "case co_websocket_frame E w of Inl e \<Rightarrow> e \<noteq> Out_Of_Fuel
    | Inr (res, w') \<Rightarrow> if res = Ws_Pending then ws_ready w' \<and> remaining_len w' < remaining_len w
      else if res = Ws_Ok then ws_waiting w' else True"
proof -
  have fin: "case co_websocket_process_payload E v of Inl e \<Rightarrow> e \<noteq> Out_Of_Fuel
    | Inr (res, w') \<Rightarrow> if res = Ws_Pending then ws_ready w' \<and> remaining_len w' < remaining_len w
      else if res = Ws_Ok then ws_waiting w' else True"
    if "read_len v \<le> remaining_len v" "remaining_len v = remaining_len w" "w_status v = CO_SOCKET_WEBSOCKET_PAYLOAD"
      "read_len v = 0 \<Longrightarrow> 0 < payload_len v" for v
    using payload_progress [OF refl that(1) _ that(3,4), of E] that(2) w
    by (auto simp: ws_ready_def split: sum.splits prod.splits if_splits)
  show ?thesis
  proof (cases "w_status w = CO_SOCKET_WEBSOCKET_PAYLOAD")
    case True
    then show ?thesis using fin [of w] w by (simp add: co_websocket_frame_def ws_ready_def)
  next
    case False
    show ?thesis
    proof (cases "co_websocket_process_header w")
      case None
      then show ?thesis using False by (simp add: co_websocket_frame_def)
    next
      case (Some v)
      note v = header_progress [OF w False Some]
      show ?thesis
      proof (cases "w_status v = CO_SOCKET_WEBSOCKET_PAYLOAD")
        case True
        then have "read_len v \<le> remaining_len v" "remaining_len v = remaining_len w" "read_len v \<noteq> 0" using v by auto
        then show ?thesis using fin [of v] True False Some by (simp add: co_websocket_frame_def)
      next
        case F: False
        then show ?thesis using v False Some by (simp add: co_websocket_frame_def)
      qed
    qed
  qed
qed

lemma loop_progress:
  "ws_ready w \<Longrightarrow> remaining_len w < fuel \<Longrightarrow>
   case ws_loop fuel Es i w of Inl e \<Rightarrow> e \<noteq> Out_Of_Fuel
     | Inr (j, go, w') \<Rightarrow> if go then ws_waiting w' else True"
proof (induction fuel arbitrary: i w)
  case (Suc fuel)
  note f = frame_progress [OF Suc.prems(1), of "Es i"]
  show ?case
  proof (cases "co_websocket_frame (Es i) w")
    case (Inl e)
    then show ?thesis using f by simp
  next
    case (Inr x)
    obtain res w' where x: "x = (res, w')" by fastforce
    show ?thesis
    proof (cases res)
      case Ws_Pending
      then have "ws_ready w'" "remaining_len w' < fuel" using f Suc.prems(2) Inr x by auto
      then show ?thesis using Suc.IH Inr x Ws_Pending by simp
    qed (use f Inr x in auto)
  qed
qed simp

text \<open>C16: After any receive the parser has either failed or closed the connection, or waits in one of
  four places: before a header with at most one byte of it, in the extended length or the masking
  key with less than that field missing, or in a payload with the buffer empty.  So the loop
  over the frames of a receive ends, and the next receive always has room for more than 1480
  bytes: it never asks for none, which would be taken for a closed connection.\<close>

theorem parser_waits_for_more:
  assumes "ws_waiting w"
  shows "case co_websocket_process Es i w of Inl e \<Rightarrow> e \<noteq> Out_Of_Fuel
    | Inr (j, go, w') \<Rightarrow>
        if go then ws_waiting w' \<and> 1480 < CONFIG_CO_SOCKET_BUFFER_SIZE - remaining_len w' else True"
proof -
  obtain bs ss where r: "recv (CONFIG_CO_SOCKET_BUFFER_SIZE - remaining_len w) (c_in (w_conn w)) = (bs, ss)"
    by fastforce
  define v where "v = w\<lparr>w_conn := (w_conn w)\<lparr>c_in := ss, c_buf := put_bytes (remaining_len w) bs (w_buf w)\<rparr>,
    remaining_len := remaining_len w + length bs\<rparr>"
  have room: "ws_waiting u \<Longrightarrow> 1480 < CONFIG_CO_SOCKET_BUFFER_SIZE - remaining_len u" for u
    by (auto simp: ws_waiting_def CONFIG_CO_SOCKET_BUFFER_SIZE_def split: co_socket_status.splits)
  show ?thesis
  proof (cases "bs = []")
    case True
    then show ?thesis using r by (simp add: co_websocket_process_def Let_def)
  next
    case False
    then have "ws_ready v"
      using assms by (auto simp: ws_ready_def ws_waiting_def v_def split: co_socket_status.splits)
    from loop_progress [OF this, of "Suc (remaining_len v)" Es i]
    have "case ws_loop (Suc (remaining_len v)) Es i v of Inl e \<Rightarrow> e \<noteq> Out_Of_Fuel
        | Inr (j, go, w') \<Rightarrow> if go then ws_waiting w' else True" by simp
    moreover have "co_websocket_process Es i w = ws_loop (Suc (remaining_len v)) Es i v"
      using False r unfolding co_websocket_process_def Let_def by (simp add: v_def del: ws_loop.simps)
    ultimately show ?thesis using room by (auto split: sum.splits prod.splits)
  qed
qed

text \<open>A receive that ends with the header of a binary frame, so that none of the frame's payload has
  arrived, already runs a command, on the bytes left in the buffer behind the header, and sends a
  response frame; the frame's own payload then runs a second one.\<close>

theorem header_alone_runs_command:
  assumes st: "w_status w = CO_SOCKET_WEBSOCKET_HEADER" "remaining_len w = 0"
    and c: "c_in (w_conn w) = client_header key n # ss" and n: "0 < n" "n < 65536"
    and h: "h = length (client_header key n)" and m: "m = mem_from (w_buf w) h"
    and x: "DAP_ExecuteCommand (we_dap (Es i)) m (w_probe w) = Inr (r, k, d)"
    and ok: "probe_ok (w_probe w)" "small_blocks m" "length r \<le> 1196"
  shows "\<exists>w'. co_websocket_process Es i w = Inr (Suc i, True, w') \<and>
    c_out (w_conn w') = c_out (w_conn w) @ [server_frame r] \<and> w_probe w' = d \<and>
    w_status w' = CO_SOCKET_WEBSOCKET_PAYLOAD \<and> payload_len w' = n"
proof -
  let ?hdr = "client_header key n"
  define v where "v = w\<lparr>w_conn := (w_conn w)\<lparr>c_in := ss, c_buf := put_bytes 0 ?hdr (w_buf w)\<rparr>, remaining_len := h\<rparr>"
  have hh: "h = 6 \<or> h = 8" using h by (simp add: length_client_header)
  have p: "co_websocket_process Es i w = ws_loop (Suc h) Es i v"
    using c st(2) hh h by (auto simp: co_websocket_process_def CONFIG_CO_SOCKET_BUFFER_SIZE_def Let_def v_def
        simp del: ws_loop.simps)
  define u where "u = v\<lparr>OPCODE := 2, FIN := True, MASK := True, payload_len := n, read_len := h, mask_val := key,
    w_status := CO_SOCKET_WEBSOCKET_PAYLOAD\<rparr>"
  have hd: "co_websocket_process_header v = Some u"
    unfolding u_def by (rule parse_client_header [OF _ n(2) h])
      (use st h get_put_same [of 0 ?hdr "w_buf w"] in \<open>simp_all add: v_def\<close>)
  define u' where "u' = unmask_payload (Es i) 0 u"
  have "co_websocket_fast_mask a key [] = []" for a by (simp add: co_websocket_fast_mask_def xor_bytes_def)
  then have u': "u' = (set_buf (w_buf u) u)\<lparr>mask_val := co_websocket_get_new_mask key 0\<rparr>"
    by (simp add: u'_def unmask_payload_def u_def get_bytes_def WS_OPCODE_PING_def)
  have "mem_from (w_buf u') h = m"
    using h by (auto simp: u' set_buf_def u_def v_def m put_bytes_def mem_from_def fun_eq_iff)
  with x have x: "DAP_ExecuteCommand (we_dap (Es i)) (mem_from (w_buf u') h) (w_probe u') = Inr (r, k, d)"
    by (simp add: u' set_buf_def u_def v_def)
  have "resp_len k = length r"
    using exe.length_law [OF x] ok \<open>mem_from (w_buf u') h = m\<close> by (simp add: u' set_buf_def u_def v_def)
  then obtain resp where dap: "co_websocket_process_dap (we_dap (Es i)) h u' =
      Inr (w_send (server_frame r) (u'\<lparr>w_probe := d, w_resp := resp\<rparr>))"
    using run_dap [OF x _ ok(3)] by blast
  define t where "t = w_send (server_frame r) (u'\<lparr>w_probe := d, w_resp := resp\<rparr>)"
  have t: "remaining_len t = h" "read_len t = h" "payload_len t = n" "w_status t = CO_SOCKET_WEBSOCKET_PAYLOAD"
    "c_out (w_conn t) = c_out (w_conn w) @ [server_frame r]" "w_probe t = d"
    by (simp_all add: t_def u' w_send_def set_buf_def u_def v_def)
  have o: "OPCODE u' = WS_OPCODE_BINARY" "read_len u' = h" by (simp_all add: u' set_buf_def u_def WS_OPCODE_BINARY_def)
  have z: "min (remaining_len u - read_len u) (payload_len u) = 0" by (simp add: u_def v_def)
  have dd: "WS_OPCODE_BINARY \<noteq> WS_OPCODE_TEXT" by (simp add: ws_consts)
  have "co_websocket_process_payload (Es i) u = Inr (payload_advance 0 t)"
    unfolding co_websocket_process_payload_def Let_def z u'_def [symmetric] o dap t_def [symmetric]
    by (simp only: dd if_False simp_thms if_True map_sum.simps)
  then have f: "co_websocket_frame (Es i) v = Inr (payload_advance 0 t)"
    using hd st by (simp add: co_websocket_frame_def v_def u_def)
  have "payload_advance 0 t = (Ws_Ok, t\<lparr>payload_len := n, read_len := 0, remaining_len := 0\<rparr>)"
    using n t by (simp add: payload_advance_def)
  then show ?thesis using f t by (simp add: p)
qed

definition example_ws :: "segments \<Rightarrow> mem \<Rightarrow> ws" where
  "example_ws ss m =
     \<lparr>w_conn = \<lparr>c_in = ss, c_out = [], c_buf = m\<rparr>, w_status = CO_SOCKET_WEBSOCKET_HEADER, remaining_len = 0,
      read_len = 0, FIN = False, OPCODE = 0, MASK = False, payload_len = 0, mask_val = 0, skip_frame = False,
      recv_data_offset = 0, w_resp = (\<lambda>_. 0), w_probe = example_dap\<rparr>"

definition example_ws_env :: "nat \<Rightarrow> ws_env" where
  "example_ws_env i = \<lparr>we_dap = (\<lambda>_. example_env), we_addr = 0, we_junk = (\<lambda>_. 0)\<rparr>"

theorem header_alone_runs_command_witness:
  "\<exists>w'. co_websocket_process example_ws_env 0 (example_ws [client_header 5 2] (\<lambda>_. 0xA0)) = Inr (1, True, w') \<and>
     c_out (w_conn w') = [server_frame [0xFF]] \<and> payload_len w' = 2"
proof -
  have "\<exists>w'. co_websocket_process example_ws_env 0 (example_ws [client_header 5 2] (\<lambda>_. 0xA0)) = Inr (Suc 0, True, w') \<and>
     c_out (w_conn w') = [] @ [server_frame [0xFF]] \<and> w_probe w' = example_dap \<and>
     w_status w' = CO_SOCKET_WEBSOCKET_PAYLOAD \<and> payload_len w' = 2"
    using header_alone_runs_command [of "example_ws [client_header 5 2] (\<lambda>_. 0xA0)" 5 2 "[]" _ "\<lambda>_. 0xA0"
        example_ws_env 0 "[0xFF]" "pack_num 1 1" example_dap, OF _ _ _ _ _ refl]
    by (simp add: example_ws_def example_ws_env_def mem_from_def execute_unknown example_probe_ok small_blocks_def)
  then show ?thesis by auto
qed

theorem parser_waits_for_more_witness:
  "ws_waiting (example_ws [[0x82]] (\<lambda>_. 0)) \<and>
   (case co_websocket_process example_ws_env 0 (example_ws [[0x82]] (\<lambda>_. 0)) of Inl e \<Rightarrow> e \<noteq> Out_Of_Fuel
    | Inr (j, go, w') \<Rightarrow> if go then ws_waiting w' \<and> 1480 < CONFIG_CO_SOCKET_BUFFER_SIZE - remaining_len w' else True)"
proof -
  have "ws_waiting (example_ws [[0x82]] (\<lambda>_. 0))" by (simp add: ws_waiting_def example_ws_def)
  with parser_waits_for_more [OF this] show ?thesis by blast
qed

text \<open>Two frames in one segment, both with a command the probe does not know.\<close>

definition example_frames :: "(u32 \<times> u8 list) list" where
  "example_frames = [(5, [0xA0, 1]), (9, [0xA0])]"

lemma put_bytes_within: "(\<And>q. m q \<in> S) \<Longrightarrow> set bs \<subseteq> S \<Longrightarrow> put_bytes p bs m q \<in> S"
  by (auto simp: put_bytes_def)


end
