(* ===== verification/Upgrade.thy ===== *)
theory Upgrade
  imports WebSocket
begin

text \<open>
  The HTTP upgrade in front of the WebSocket protocol and the worker that runs both
  (components/dap\_proxy/websocket\_server.c).  The search in the request works on C strings: a
  function that looks for a terminating zero is partial, and \<open>None\<close> means that it never returns.
  mbedTLS is the parameter \<open>crypto\<close>.
\<close>

section \<open>Searching the request\<close>

definition to_lower :: "u8 \<Rightarrow> u8" where
  "to_lower b = (if 0x41 \<le> b \<and> b \<le> 0x5A then b + 0x20 else b)"

definition is_alnum :: "u8 \<Rightarrow> bool" where
  "is_alnum b \<longleftrightarrow> (0x30 \<le> b \<and> b \<le> 0x39) \<or> (0x41 \<le> b \<and> b \<le> 0x5A) \<or> (0x61 \<le> b \<and> b \<le> 0x7A)"

abbreviation lower :: "u8 list \<Rightarrow> u8 list" where "lower \<equiv> map to_lower"

definition match_ci :: "mem \<Rightarrow> u8 list \<Rightarrow> nat \<Rightarrow> bool" where
  "match_ci m str p \<longleftrightarrow> lower (get_bytes p (length str) m) = lower str"

text \<open>The outer option is termination, the inner one the null pointer.\<close>

partial_function (option) strcasestr :: "mem \<Rightarrow> u8 list \<Rightarrow> nat \<Rightarrow> nat option option" where
  "strcasestr m str p =
     (if match_ci m str p then Some (Some p) else if m p = 0 then Some None else strcasestr m str (p + 1))"

definition CR :: u8 where "CR = 0x0D"
definition LF :: u8 where "LF = 0x0A"
definition COLON :: u8 where "COLON = 0x3A"
definition BLANK :: u8 where "BLANK = 0x20"

definition CRLF :: "u8 list" where "CRLF = [CR, LF]"

definition field_here :: "mem \<Rightarrow> nat \<Rightarrow> nat \<Rightarrow> u8 list \<Rightarrow> nat \<Rightarrow> bool" where
  "field_here m header_start header_end field_name f \<longleftrightarrow>
     2 \<le> f - header_start \<and> m (f - 2) = CR \<and> m (f - 1) = LF \<and>
     f + length field_name \<le> header_end \<and> m (f + length field_name) = COLON"

partial_function (option) find_field :: "mem \<Rightarrow> nat \<Rightarrow> nat \<Rightarrow> u8 list \<Rightarrow> nat \<Rightarrow> nat option option" where
  "find_field m header_start header_end field_name p =
     Option.bind (strcasestr m field_name (p + 1)) (\<lambda>r.
       if r = None then Some None
       else if field_here m header_start header_end field_name (the r) then Some r
       else find_field m header_start header_end field_name (the r))"

definition co_http_header_find_field_value ::
  "mem \<Rightarrow> nat \<Rightarrow> nat \<Rightarrow> u8 list \<Rightarrow> u8 list option \<Rightarrow> nat option option" where
  "co_http_header_find_field_value m header_start header_end field_name val =
     Option.bind (find_field m header_start header_end field_name header_start) (\<lambda>r.
       case r of None \<Rightarrow> Some None | Some field_start \<Rightarrow>
         Option.bind (strcasestr m CRLF field_start) (\<lambda>r.
           case r of None \<Rightarrow> Some None | Some next_crlf \<Rightarrow>
             (case val of None \<Rightarrow> Some (Some (field_start + length field_name + 1))
              | Some tok \<Rightarrow>
                  Option.bind (strcasestr m tok field_start) (\<lambda>r.
                    case r of None \<Rightarrow> Some None | Some value_start \<Rightarrow>
                      Some (if next_crlf < value_start then None
                            else if is_alnum (m (value_start - 1)) \<or> is_alnum (m (value_start + length tok)) then None
                            else Some value_start)))))"

section \<open>The handshake\<close>

definition WS_GUID :: "u8 list" where "WS_GUID = ascii ''258EAFA5-E914-47DA-95CA-C5AB0DC85B11''"

text \<open>\<open>mbedtls_sha1\<close> and \<open>mbedtls_base64_encode\<close> (with the size of the destination); \<open>None\<close> is an error.\<close>

record crypto =
  co_sha1 :: "u8 list \<Rightarrow> u8 list option"
  co_base64_encode :: "nat \<Rightarrow> u8 list \<Rightarrow> u8 list option"

definition co_websocket_create_accept_key :: "crypto \<Rightarrow> nat \<Rightarrow> u8 list \<Rightarrow> u8 list option" where
  "co_websocket_create_accept_key C dst_len client_key =
     Option.bind (co_sha1 C (take 24 client_key @ WS_GUID)) (co_base64_encode C dst_len)"

definition switching_text :: "u8 list \<Rightarrow> u8 list" where
  "switching_text accept_key =
     ascii ''HTTP/1.1 101 Switching Protocols'' @ CRLF @
     ascii ''Server: corsacOTA server'' @ CRLF @
     ascii ''Upgrade: websocket'' @ CRLF @
     ascii ''Connection: Upgrade'' @ CRLF @
     ascii ''Sec-WebSocket-Accept: '' @ accept_key @ CRLF @
     CRLF"

text \<open>The response is printed into 256 bytes.\<close>

definition co_websocket_handshake_send_key :: "crypto \<Rightarrow> u8 list \<Rightarrow> ws \<Rightarrow> ws option" where
  "co_websocket_handshake_send_key C client_key w =
     map_option (\<lambda>key. w_send (take 255 (switching_text (takeWhile (\<lambda>b. b \<noteq> 0) key))) w)
       (co_websocket_create_accept_key C 29 client_key)"

definition error_400 :: "u8 list" where "error_400 = ascii ''HTTP/1.1 400 Bad Request'' @ CRLF @ CRLF"

definition co_http_error_400_response :: "ws \<Rightarrow> ws" where
  "co_http_error_400_response w = w_send error_400 w"

partial_function (option) skip_blank :: "mem \<Rightarrow> nat \<Rightarrow> nat option" where
  "skip_blank m p = (if m p = BLANK then skip_blank m (p + 1) else Some p)"

partial_function (option) key_end :: "mem \<Rightarrow> nat \<Rightarrow> nat option" where
  "key_end m p = (if m p \<noteq> CR \<and> m p \<noteq> BLANK then key_end m (p + 1) else Some p)"

definition zeros :: "mem \<Rightarrow> mem" where
  "zeros m = put_bytes 0 (replicate CONFIG_CO_SOCKET_BUFFER_SIZE 0) m"

definition handshake_done :: "ws \<Rightarrow> ws" where
  "handshake_done w = (set_buf (zeros (w_buf w)) w)\<lparr>w_status := CO_SOCKET_WEBSOCKET_HEADER, remaining_len := 0\<rparr>"

text \<open>What follows the three searches, from the field value of the key on.\<close>

definition handshake_key :: "crypto \<Rightarrow> nat \<Rightarrow> ws \<Rightarrow> (bool \<times> ws) option" where
  "handshake_key C ws_key_start w =
     Option.bind (skip_blank (w_buf w) ws_key_start) (\<lambda>ws_key_start.
       Option.bind (key_end (w_buf w) ws_key_start) (\<lambda>ws_key_end.
         Some (if ws_key_end - ws_key_start \<noteq> 24 then (False, co_http_error_400_response w)
           else case co_websocket_handshake_send_key C (get_bytes ws_key_start 24 (w_buf w)) w of
             None \<Rightarrow> (False, co_http_error_400_response w)
           | Some w \<Rightarrow> (True, handshake_done w))))"

definition handshake_request :: "crypto \<Rightarrow> ws \<Rightarrow> (bool \<times> ws) option" where
  "handshake_request C w =
     (let search = co_http_header_find_field_value (w_buf w) 0 (remaining_len w - 1);
          bad = Some (False, co_http_error_400_response w) in
      Option.bind (search (ascii ''Upgrade'') (Some (ascii ''websocket''))) (\<lambda>u.
        if u = None then bad
        else Option.bind (search (ascii ''Connection'') (Some (ascii ''Upgrade''))) (\<lambda>c.
          if c = None then bad
          else Option.bind (search (ascii ''Sec-WebSocket-Key'') None) (\<lambda>k.
            case k of None \<Rightarrow> bad | Some k \<Rightarrow> handshake_key C k w))))"

definition co_websocket_handshake_process :: "crypto \<Rightarrow> ws \<Rightarrow> (bool \<times> ws) option" where
  "co_websocket_handshake_process C w =
     (let c = w_conn w; offset = remaining_len w;
          m = (if offset = 0 then zeros (c_buf c) else c_buf c);
          (bs, ss) = recv (CONFIG_CO_SOCKET_BUFFER_SIZE - offset) (c_in c);
          w = w\<lparr>w_conn := c\<lparr>c_in := ss, c_buf := put_bytes offset bs m\<rparr>\<rparr>
      in if bs = [] then Some (False, co_http_error_400_response w)
         else let w = w\<lparr>remaining_len := offset + length bs\<rparr> in
           if remaining_len w < 4 \<or> get_bytes (remaining_len w - 4) 4 (w_buf w) \<noteq> CRLF @ CRLF then Some (True, w)
           else handshake_request C w)"

section \<open>The worker\<close>

partial_function (option) handshake_loop :: "crypto \<Rightarrow> ws \<Rightarrow> (bool \<times> ws) option" where
  "handshake_loop C w =
     Option.bind (co_websocket_handshake_process C w) (\<lambda>r.
       if fst r \<and> w_status (snd r) = CO_SOCKET_HANDSHAKE then handshake_loop C (snd r) else Some r)"

partial_function (option) ws_serve :: "(nat \<Rightarrow> ws_env) \<Rightarrow> nat \<Rightarrow> ws \<Rightarrow> (ws_fault + ws) option" where
  "ws_serve Es i w =
     (case co_websocket_process Es i w of
        Inl e \<Rightarrow> Some (Inl e)
      | Inr (i, ok, w) \<Rightarrow> if ok then ws_serve Es i w else Some (Inr w))"

text \<open>\<open>websocket_worker\<close> on a connection of which four bytes have been read; \<open>resp\<close> is what \<open>malloc\<close>
  returns for the responses.\<close>

definition ws_begin :: "conn \<Rightarrow> mem \<Rightarrow> dap \<Rightarrow> ws" where
  "ws_begin c resp d =
     \<lparr>w_conn = c, w_status = CO_SOCKET_HANDSHAKE, remaining_len = 4, read_len = 0, FIN = False, OPCODE = 0,
      MASK = False, payload_len = 0, mask_val = 0, skip_frame = False, recv_data_offset = 0,
      w_resp = resp, w_probe = d\<rparr>"

definition websocket_worker :: "crypto \<Rightarrow> (nat \<Rightarrow> ws_env) \<Rightarrow> conn \<Rightarrow> mem \<Rightarrow> dap \<Rightarrow> (ws_fault + (bool \<times> ws)) option" where
  "websocket_worker C Es c resp d =
     Option.bind (handshake_loop C (ws_begin c resp d)) (\<lambda>(ok, w).
       if \<not> ok then Some (Inr (False, w))
       else map_option (map_sum (\<lambda>e. e) (\<lambda>w. (True, w))) (ws_serve Es 0 w))"

section \<open>Well-formed requests\<close>

type_synonym header = "u8 list \<times> u8 list"

primrec header_lines :: "header list \<Rightarrow> u8 list" where
  "header_lines [] = CRLF @ CRLF"
| "header_lines (h # hs) = CRLF @ fst h @ [COLON] @ snd h @ header_lines hs"

definition http_request :: "u8 list \<Rightarrow> header list \<Rightarrow> u8 list" where
  "http_request line hs = line @ header_lines hs"

definition clean :: "u8 list \<Rightarrow> bool" where
  "clean bs \<longleftrightarrow> CR \<notin> set bs \<and> LF \<notin> set bs \<and> 0 \<notin> set bs"

definition clean_name :: "u8 list \<Rightarrow> bool" where
  "clean_name bs \<longleftrightarrow> bs \<noteq> [] \<and> clean bs \<and> COLON \<notin> set bs"

definition clean_request :: "u8 list \<Rightarrow> header list \<Rightarrow> bool" where
  "clean_request line hs \<longleftrightarrow> line \<noteq> [] \<and> clean line \<and> (\<forall>h \<in> set hs. clean_name (fst h) \<and> clean (snd h))"

lemmas char_defs = CR_def LF_def COLON_def BLANK_def CRLF_def

lemma to_lower_simps [simp]:
  "to_lower CR = CR" "to_lower LF = LF" "to_lower COLON = COLON" "to_lower 0 = 0"
  by (simp_all add: to_lower_def char_defs)

lemma to_lower_fixed: "x < 0x41 \<Longrightarrow> to_lower b = x \<longleftrightarrow> b = x"
  by (auto simp: to_lower_def word_less_nat_alt word_le_nat_alt unat_word_ariths dest: arg_cong [where f = unat])

lemma to_lower_chars [simp]: "to_lower b = CR \<longleftrightarrow> b = CR" "to_lower b = LF \<longleftrightarrow> b = LF"
  "to_lower b = COLON \<longleftrightarrow> b = COLON" "to_lower b = 0 \<longleftrightarrow> b = 0"
  by (simp_all add: to_lower_fixed char_defs)

lemma lower_mem: "x \<in> {CR, LF, COLON, 0} \<Longrightarrow> x \<in> set (lower bs) \<longleftrightarrow> x \<in> set bs"
  by (auto simp: image_iff) (metis to_lower_chars to_lower_simps)+

text \<open>Where a string occurs no such character does.\<close>

lemma match_no:
  assumes "match_ci m str p" "x \<in> {CR, LF, COLON, 0}" "x \<notin> set str" "i < length str"
  shows "m (p + i) \<noteq> x"
proof
  assume "m (p + i) = x"
  then have "x \<in> set (get_bytes p (length str) m)"
    using assms(4) by (metis length_get_bytes nth_get_bytes nth_mem)
  then have "x \<in> set (lower str)" using assms(1,2) lower_mem by (metis match_ci_def)
  then show False using assms(2,3) lower_mem by blast
qed

subsection \<open>Searching\<close>

lemma strcasestr_found:
  assumes "p \<le> q" "match_ci m str q" "\<And>i. p \<le> i \<Longrightarrow> i < q \<Longrightarrow> \<not> match_ci m str i \<and> m i \<noteq> 0"
  shows "strcasestr m str p = Some (Some q)"
  using assms
proof (induction "q - p" arbitrary: p)
  case 0
  then show ?case by (subst strcasestr.simps) simp
next
  case (Suc d)
  then have "p < q" by simp
  then have "strcasestr m str (p + 1) = Some (Some q)" using Suc.hyps(2) Suc.prems by (intro Suc.hyps(1)) auto
  then show ?case using Suc.prems(3) [of p] \<open>p < q\<close> by (subst strcasestr.simps) simp
qed

definition first_match :: "mem \<Rightarrow> u8 list \<Rightarrow> nat \<Rightarrow> nat option \<Rightarrow> bool" where
  "first_match m str p r \<longleftrightarrow> (case r of
      None \<Rightarrow> \<forall>i. p \<le> i \<and> (\<forall>j. p \<le> j \<and> j < i \<longrightarrow> m j \<noteq> 0) \<longrightarrow> \<not> match_ci m str i
    | Some q \<Rightarrow> p \<le> q \<and> match_ci m str q \<and> (\<forall>i. p \<le> i \<and> i < q \<longrightarrow> \<not> match_ci m str i \<and> m i \<noteq> 0))"

lemma first_match_Suc:
  assumes "\<not> match_ci m str p" "m p \<noteq> 0" "first_match m str (p + 1) r"
  shows "first_match m str p r"
proof -
  have le: "p \<le> i \<Longrightarrow> i = p \<or> p + 1 \<le> i" for i by linarith
  show ?thesis using assms le by (fastforce simp: first_match_def split: option.splits)
qed

lemma strcasestr_total: "p \<le> z \<Longrightarrow> m z = 0 \<Longrightarrow> \<exists>r. strcasestr m str p = Some r \<and> first_match m str p r"
proof (induction "z - p" arbitrary: p)
  case 0
  then have "p = z" by simp
  moreover have "first_match m str z None" if "\<not> match_ci m str z"
    using that 0 by (auto simp: first_match_def) (metis le_neq_implies_less order_refl)
  ultimately show ?case
    using 0 by (subst strcasestr.simps) (auto simp: first_match_def [of _ _ _ "Some _"])
next
  case (Suc d)
  consider "match_ci m str p" | "\<not> match_ci m str p" "m p = 0" | "\<not> match_ci m str p" "m p \<noteq> 0" by blast
  then show ?case
  proof cases
    case 1
    then show ?thesis by (subst strcasestr.simps) (auto simp: first_match_def)
  next
    case 2
    then have "first_match m str p None" by (auto simp: first_match_def) (metis le_neq_implies_less order_refl)
    then show ?thesis using 2 by (subst strcasestr.simps) simp
  next
    case 3
    have "d = z - (p + 1)" "p + 1 \<le> z" using Suc.hyps(2) by simp_all
    then obtain r where r: "strcasestr m str (p + 1) = Some r" "first_match m str (p + 1) r"
      using Suc.hyps(1) [of "p + 1"] Suc.prems(2) by blast
    then show ?thesis using first_match_Suc [OF 3 r(2)] 3 by (subst strcasestr.simps) simp
  qed
qed

text \<open>The loop over the occurrences of the name finds the first one that is a field.\<close>

definition field_at :: "mem \<Rightarrow> nat \<Rightarrow> nat \<Rightarrow> u8 list \<Rightarrow> nat \<Rightarrow> bool" where
  "field_at m a b nam q \<longleftrightarrow> match_ci m nam q \<and> field_here m a b nam q"

definition first_field :: "mem \<Rightarrow> nat \<Rightarrow> nat \<Rightarrow> u8 list \<Rightarrow> nat \<Rightarrow> nat option \<Rightarrow> bool" where
  "first_field m a b nam p r \<longleftrightarrow> (case r of
      None \<Rightarrow> \<forall>i. p < i \<longrightarrow> \<not> field_at m a b nam i
    | Some q \<Rightarrow> p < q \<and> field_at m a b nam q \<and> (\<forall>i. p < i \<and> i < q \<longrightarrow> \<not> field_at m a b nam i))"

lemma find_field_spec:
  assumes "m z = 0" "p < z" "0 \<notin> set nam" "nam \<noteq> []" "\<And>i. p < i \<Longrightarrow> i \<le> b \<Longrightarrow> m i \<noteq> 0"
  shows "\<exists>r. find_field m a b nam p = Some r \<and> first_field m a b nam p r"
  using assms
proof (induction "z - p" arbitrary: p rule: less_induct)
  case less
  obtain r where r: "strcasestr m nam (p + 1) = Some r" "first_match m nam (p + 1) r"
    using strcasestr_total [of "p + 1" z m nam] less.prems by auto
  have inside: "i \<le> b" if "field_at m a b nam i" for i
    using that by (simp add: field_at_def field_here_def)
  show ?case
  proof (cases r)
    case None
    have "\<not> field_at m a b nam i" if i: "p < i" for i
    proof
      assume f: "field_at m a b nam i"
      have "\<forall>j. p + 1 \<le> j \<and> j < i \<longrightarrow> m j \<noteq> 0" using less.prems(5) inside [OF f] by auto
      then show False using r(2) None f i by (auto simp: field_at_def first_match_def)
    qed
    then show ?thesis using r None by (subst find_field.simps) (simp add: first_field_def)
  next
    case (Some q)
    then have q: "p < q" "match_ci m nam q" "\<And>i. p < i \<Longrightarrow> i < q \<Longrightarrow> \<not> match_ci m nam i"
      and nz: "\<And>i. p < i \<Longrightarrow> i < q \<Longrightarrow> m i \<noteq> 0"
      using r(2) by (auto simp: first_match_def)
    have "q \<le> z" using nz [of z] less.prems(1,2) by (metis not_less)
    moreover have "m q \<noteq> 0" using match_no [OF q(2), of 0 0] less.prems(3,4) by simp
    ultimately have qz: "q < z" using less.prems(1) by (metis le_neq_implies_less)
    show ?thesis
    proof (cases "field_here m a b nam q")
      case True
      then show ?thesis using r(1) Some q by (subst find_field.simps) (auto simp: field_at_def first_field_def)
    next
      case False
      have "z - q < z - p" using q(1) qz by simp
      then obtain r' where r': "find_field m a b nam q = Some r'" "first_field m a b nam q r'"
        using less.hyps [of q] less.prems q(1) qz by auto
      have "find_field m a b nam p = Some r'" using r(1) Some False r'(1) by (subst find_field.simps) simp
      moreover have no: "\<not> field_at m a b nam i" if "p < i" "i \<le> q" for i
        using that q False by (cases "i = q") (auto simp: field_at_def)
      have "first_field m a b nam p r'"
      proof (cases r')
        case None
        then show ?thesis using r'(2) no by (simp add: first_field_def) (metis not_less)
      next
        case (Some q')
        then show ?thesis using r'(2) no q(1) by (simp add: first_field_def) (metis not_less order.strict_trans)
      qed
      ultimately show ?thesis by blast
    qed
  qed
qed

subsection \<open>The header list\<close>

text \<open>Where the first header of that name stands, and the header.\<close>

primrec field_pos :: "u8 list \<Rightarrow> nat \<Rightarrow> header list \<Rightarrow> nat option" where
  "field_pos nam p [] = None"
| "field_pos nam p (h # hs) =
     (if lower (fst h) = lower nam then Some (p + 2) else field_pos nam (p + 3 + length (fst h) + length (snd h)) hs)"

definition lookup_header :: "u8 list \<Rightarrow> header list \<Rightarrow> header option" where
  "lookup_header nam hs = List.find (\<lambda>h. lower (fst h) = lower nam) hs"

definition holds_at :: "mem \<Rightarrow> nat \<Rightarrow> u8 list \<Rightarrow> bool" where
  "holds_at m p bs \<longleftrightarrow> get_bytes p (length bs) m = bs"

lemma holds_Nil [simp]: "holds_at m p []"
  by (simp add: holds_at_def get_bytes_def)

lemma holds_append [simp]: "holds_at m p (xs @ ys) \<longleftrightarrow> holds_at m p xs \<and> holds_at m (p + length xs) ys"
  by (simp add: holds_at_def get_bytes_append)

lemma holds_Cons [simp]: "holds_at m p (x # xs) \<longleftrightarrow> m p = x \<and> holds_at m (p + 1) xs"
  by (simp add: holds_at_def get_bytes_Suc)

lemma holds_nth: "holds_at m p bs \<Longrightarrow> i < length bs \<Longrightarrow> m (p + i) = bs ! i"
  by (metis holds_at_def nth_get_bytes)

lemma holds_in: "holds_at m p bs \<Longrightarrow> p \<le> q \<Longrightarrow> q < p + length bs \<Longrightarrow> m q \<in> set bs"
  using holds_nth [of m p bs "q - p"] by auto

lemma CRLF_list: "CRLF = [CR, LF]" "length CRLF = 2"
  by (simp_all add: CRLF_def)

lemma char_neqs [simp]: "CR \<noteq> LF" "LF \<noteq> CR" "CR \<noteq> COLON" "COLON \<noteq> CR" "LF \<noteq> COLON" "COLON \<noteq> LF" "CR \<noteq> 0" "LF \<noteq> 0" "COLON \<noteq> 0"
  "0 \<noteq> CR" "0 \<noteq> LF" "0 \<noteq> COLON"
  by (simp_all add: char_defs)

text \<open>A name matches at the start of a header exactly when it is the header's name.\<close>

lemma name_matches:
  assumes h: "holds_at m q (n @ [COLON])" "COLON \<notin> set n" "COLON \<notin> set nam"
  shows "match_ci m nam q \<and> m (q + length nam) = COLON \<longleftrightarrow> lower n = lower nam"
proof
  assume l: "lower n = lower nam"
  then have "length n = length nam" by (metis length_map)
  moreover have "get_bytes q (length n) m = n" "m (q + length n) = COLON" using h(1) by (simp_all flip: holds_at_def)
  ultimately show "match_ci m nam q \<and> m (q + length nam) = COLON" using l by (simp add: match_ci_def)
next
  assume a: "match_ci m nam q \<and> m (q + length nam) = COLON"
  have "\<not> length n < length nam"
    using match_no [of m nam q COLON "length n"] a h by auto
  moreover have "\<not> length nam < length n"
    using a h(1,2) holds_nth [of m q n "length nam"] by (metis holds_append nth_mem)
  ultimately have "length nam = length n" by simp
  moreover have "get_bytes q (length n) m = n" using h(1) by (simp flip: holds_at_def)
  ultimately show "lower n = lower nam" using a by (simp add: match_ci_def)
qed

text \<open>The only line ends are those between the headers.\<close>

lemma field_pos_first:
  assumes "holds_at m p (header_lines hs)" "\<forall>h \<in> set hs. clean_name (fst h) \<and> clean (snd h)" "clean_name nam"
    "0 < p" "m (p - 1) \<noteq> LF" "b = p + length (header_lines hs) - 1"
  shows "case field_pos nam p hs of
      None \<Rightarrow> \<forall>i \<ge> p. \<not> field_at m 0 b nam i
    | Some f \<Rightarrow> p < f \<and> field_at m 0 b nam f \<and> (\<forall>i. p \<le> i \<and> i < f \<longrightarrow> \<not> field_at m 0 b nam i)"
  using assms
proof (induction hs arbitrary: p)
  case Nil
  have m: "m p = CR" "m (p + 1) = LF" "m (p + 2) = CR" "m (p + 3) = LF"
    using Nil.prems(1) by (simp_all add: CRLF_list numeral_2_eq_2 numeral_3_eq_3)
  have "\<not> field_at m 0 b nam i" if i: "p \<le> i" for i
  proof
    assume f: "field_at m 0 b nam i"
    then have "m (i - 1) = LF" "i + length nam \<le> p + 3" "match_ci m nam i"
      using Nil.prems(6) by (simp_all add: field_at_def field_here_def CRLF_list)
    moreover have "0 < length nam" "CR \<notin> set nam" using Nil.prems(3) by (auto simp: clean_name_def clean_def)
    moreover from this have "m i \<noteq> CR" using match_no [OF calculation(3), of CR 0] by simp
    moreover from calculation have "i = p \<or> i = p + 1 \<or> i = p + 2" using i by linarith
    ultimately show False using m Nil.prems(4,5) by auto
  qed
  then show ?case by simp
next
  case (Cons h hs)
  obtain n v where h: "h = (n, v)" by fastforce
  let ?q = "p + 3 + length n + length v"
  have c: "clean_name n" "clean v" "\<forall>h \<in> set hs. clean_name (fst h) \<and> clean (snd h)" using Cons.prems(2) h by simp_all
  have m: "m p = CR" "m (p + 1) = LF" "holds_at m (p + 2) (n @ [COLON])" "holds_at m (p + 3 + length n) v"
    "holds_at m ?q (header_lines hs)"
    using Cons.prems(1) h by (simp_all add: CRLF_list numeral_3_eq_3 ac_simps)
  have line: "m i \<in> set (n @ COLON # v)" if "p + 2 \<le> i" "i < ?q" for i
  proof -
    have "holds_at m (p + 2) (n @ COLON # v)" using m(3,4) by (simp add: numeral_3_eq_3)
    then show ?thesis using that holds_in [of m "p + 2" "n @ COLON # v" i] by simp
  qed
  then have lf: "m i \<noteq> LF" if "p + 2 \<le> i" "i < ?q" for i
    using line [OF that] c(1,2) by (auto simp: clean_name_def clean_def)
  have before: "\<not> field_at m 0 b nam i" if "p \<le> i" "i < ?q" "i \<noteq> p + 2" for i
  proof
    assume "field_at m 0 b nam i"
    then have "m (i - 1) = LF" by (simp add: field_at_def field_here_def)
    moreover have "i = p \<or> i = p + 1 \<or> p + 2 \<le> i - 1 \<and> i - 1 < ?q" using that by linarith
    ultimately show False using lf [of "i - 1"] m(1) Cons.prems(5) by auto
  qed
  have here: "field_at m 0 b nam (p + 2) \<longleftrightarrow> lower n = lower nam"
  proof -
    have "COLON \<notin> set n" "COLON \<notin> set nam" using c(1) Cons.prems(3) by (simp_all add: clean_name_def)
    note name_matches [OF m(3) this]
    moreover have "p + 2 + length nam \<le> b" if "lower n = lower nam"
      using arg_cong [OF that, of length] Cons.prems(6) h by (simp add: CRLF_list)
    ultimately show ?thesis using m(1,2) by (auto simp: field_at_def field_here_def)
  qed
  show ?case
  proof (cases "lower n = lower nam")
    case True
    then show ?thesis using here before h by simp
  next
    case False
    have "m (?q - 1) \<noteq> LF" using lf [of "?q - 1"] by simp
    moreover have "b = ?q + length (header_lines hs) - 1" using Cons.prems(6) h by (simp add: CRLF_list)
    ultimately have IH: "case field_pos nam ?q hs of
      None \<Rightarrow> \<forall>i \<ge> ?q. \<not> field_at m 0 b nam i
    | Some f \<Rightarrow> ?q < f \<and> field_at m 0 b nam f \<and> (\<forall>i. ?q \<le> i \<and> i < f \<longrightarrow> \<not> field_at m 0 b nam i)"
      using Cons.IH [OF m(5) c(3) Cons.prems(3)] by simp
    have no: "\<not> field_at m 0 b nam i" if "p \<le> i" "i < ?q" for i
      using that before [of i] here False by (cases "i = p + 2") auto
    show ?thesis using IH no False h by (auto split: option.splits) (meson not_less)+
  qed
qed

lemma header_lines_front: "\<exists>rest. header_lines hs = CRLF @ rest"
  by (cases hs) simp_all

lemma field_pos_lookup:
  "holds_at m p (header_lines hs) \<Longrightarrow> case field_pos nam p hs of
     None \<Rightarrow> lookup_header nam hs = None
   | Some f \<Rightarrow> p < f \<and> (\<exists>h \<in> set hs. lookup_header nam hs = Some h \<and> lower (fst h) = lower nam \<and>
       holds_at m f (fst h @ COLON # snd h @ CRLF))"
proof (induction hs arbitrary: p)
  case (Cons h hs)
  obtain rest where rest: "header_lines hs = CRLF @ rest" using header_lines_front by blast
  have m: "holds_at m (p + 2) (fst h @ COLON # snd h @ CRLF)" "holds_at m (p + 3 + length (fst h) + length (snd h)) (header_lines hs)"
    using Cons.prems by (simp_all add: CRLF_list rest numeral_3_eq_3 ac_simps)
  show ?case
  proof (cases "lower (fst h) = lower nam")
    case True
    then show ?thesis using m(1) by (simp add: lookup_header_def)
  next
    case False
    then show ?thesis using Cons.IH [OF m(2)] by (auto simp: lookup_header_def split: option.splits)
  qed
qed (simp add: lookup_header_def)

text \<open>The request stands at the front of the buffer, and somewhere behind it there is a zero.\<close>

definition request_in :: "mem \<Rightarrow> u8 list \<Rightarrow> header list \<Rightarrow> bool" where
  "request_in m line hs \<longleftrightarrow>
     clean_request line hs \<and> holds_at m 0 (http_request line hs) \<and> (\<exists>z \<ge> length (http_request line hs). m z = 0)"

definition request_end :: "u8 list \<Rightarrow> header list \<Rightarrow> nat" where
  "request_end line hs = length (http_request line hs) - 1"

lemma header_lines_nonzero: "\<forall>h \<in> set hs. clean_name (fst h) \<and> clean (snd h) \<Longrightarrow> 0 \<notin> set (header_lines hs)"
  by (induction hs) (auto simp: CRLF_list clean_name_def clean_def)

lemma request_nonzero: "request_in m line hs \<Longrightarrow> i \<le> request_end line hs \<Longrightarrow> m i \<noteq> 0"
proof -
  assume r: "request_in m line hs" and i: "i \<le> request_end line hs"
  have "0 \<notin> set (http_request line hs)"
    using r header_lines_nonzero [of hs] by (auto simp: request_in_def clean_request_def clean_def http_request_def)
  moreover have "0 < length (http_request line hs)" using r by (auto simp: request_in_def clean_request_def http_request_def)
  moreover from this have "i < 0 + length (http_request line hs)" using i unfolding request_end_def by linarith
  ultimately show "m i \<noteq> 0"
    using holds_in [of m 0 "http_request line hs" i] r by (auto simp: request_in_def)
qed

lemma search_name:
  assumes r: "request_in m line hs" and nam: "clean_name nam"
  shows "find_field m 0 (request_end line hs) nam 0 = Some (field_pos nam (length line) hs)"
proof -
  let ?b = "request_end line hs" and ?p = "length line"
  obtain z where z: "length (http_request line hs) \<le> z" "m z = 0" using r by (auto simp: request_in_def)
  have c: "line \<noteq> []" "clean line" "\<forall>h \<in> set hs. clean_name (fst h) \<and> clean (snd h)"
    "holds_at m 0 line" "holds_at m ?p (header_lines hs)"
    using r by (auto simp: request_in_def clean_request_def http_request_def)
  have lf: "m i \<noteq> LF" if "i < ?p" for i using holds_in [OF c(4), of i] c(2) that by (auto simp: clean_def)
  have "0 < z" using z(1) c(1) by (cases z) (auto simp: http_request_def)
  then obtain f where f: "find_field m 0 ?b nam 0 = Some f" "first_field m 0 ?b nam 0 f"
    using find_field_spec [where m = m and z = z and p = 0 and nam = nam and b = ?b and a = 0] z(2) nam request_nonzero [OF r] by (auto simp: clean_name_def clean_def)
  have no: "\<not> field_at m 0 ?b nam i" if "i < ?p" for i
    using lf [of "i - 1"] that by (auto simp: field_at_def field_here_def)
  have "case field_pos nam ?p hs of
      None \<Rightarrow> \<forall>i \<ge> ?p. \<not> field_at m 0 ?b nam i
    | Some f \<Rightarrow> ?p < f \<and> field_at m 0 ?b nam f \<and> (\<forall>i. ?p \<le> i \<and> i < f \<longrightarrow> \<not> field_at m 0 ?b nam i)"
    using lf [of "?p - 1"] c(1) by (intro field_pos_first [OF c(5,3) nam]) (simp_all add: request_end_def http_request_def)
  then have first: "case field_pos nam ?p hs of
      None \<Rightarrow> \<forall>i. \<not> field_at m 0 ?b nam i
    | Some f \<Rightarrow> field_at m 0 ?b nam f \<and> (\<forall>i < f. \<not> field_at m 0 ?b nam i)"
    using no by (auto split: option.splits) (meson not_less)+
  have "0 < i" if "field_at m 0 ?b nam i" for i using that by (simp add: field_at_def field_here_def)
  then have "f = field_pos nam ?p hs"
    using first f(2) by (auto simp: first_field_def split: option.splits) (metis linorder_neqE_nat)
  then show ?thesis using f(1) by simp
qed

subsection \<open>Tokens of a header\<close>

definition occurs :: "u8 list \<Rightarrow> u8 list \<Rightarrow> nat \<Rightarrow> bool" where
  "occurs tok bs i \<longleftrightarrow> lower (take (length tok) (drop i bs)) = lower tok"

text \<open>The first occurrence in the line counts, and only if no letter or digit stands next to it.\<close>

definition has_token :: "u8 list \<Rightarrow> u8 list \<Rightarrow> bool" where
  "has_token tok bs \<longleftrightarrow> (case List.find (occurs tok bs) [0..<length bs] of None \<Rightarrow> False
     | Some i \<Rightarrow> \<not> (0 < i \<and> is_alnum (bs ! (i - 1))) \<and>
         \<not> (i + length tok < length bs \<and> is_alnum (bs ! (i + length tok))))"

definition header_line :: "header \<Rightarrow> u8 list" where
  "header_line h = fst h @ COLON # snd h"

lemma find_upt:
  "List.find P [0..<n] = Some i \<longleftrightarrow> i < n \<and> P i \<and> (\<forall>j < i. \<not> P j)"
  "List.find P [0..<n] = None \<longleftrightarrow> (\<forall>i < n. \<not> P i)"
  by (auto simp: find_Some_iff find_None_iff)

lemma line_end:
  assumes "holds_at m f (bs @ CRLF)" "clean bs"
  shows "strcasestr m CRLF f = Some (Some (f + length bs))"
proof (rule strcasestr_found)
  show "match_ci m CRLF (f + length bs)" using assms(1) by (simp add: match_ci_def flip: holds_at_def) (simp add: holds_at_def)
  fix i assume "f \<le> i" "i < f + length bs"
  then have "m i \<in> set bs" using holds_in [of m f bs i] assms(1) by simp
  then show "\<not> match_ci m CRLF i \<and> m i \<noteq> 0"
    using assms(2) by (auto simp: match_ci_def CRLF_list clean_def get_bytes_Suc)
qed simp

lemma occurs_fits:
  assumes "occurs tok bs i" "i \<le> length bs"
  shows "i + length tok \<le> length bs"
proof -
  have "length (lower (take (length tok) (drop i bs))) = length (lower tok)" using assms(1) by (simp only: occurs_def)
  then show ?thesis using assms(2) by (simp add: min_def split: if_splits)
qed

lemma occurs_at:
  assumes b: "holds_at m f (bs @ CRLF)" "clean bs" "clean tok" "i \<le> length bs"
  shows "match_ci m tok (f + i) \<longleftrightarrow> occurs tok bs i"
proof (cases "i + length tok \<le> length bs")
  case True
  have "get_bytes (f + i) (length tok) m = take (length tok) (drop i bs)"
    using b(1) True by (intro nth_equalityI) (auto simp: holds_nth add.assoc)
  then show ?thesis by (simp add: match_ci_def occurs_def)
next
  case False
  have "m (f + i + (length bs - i)) = CR" using b(1,4) by (simp add: CRLF_list)
  moreover have "length bs - i < length tok" using False b(4) by linarith
  ultimately have "\<not> match_ci m tok (f + i)"
    using match_no [of m tok "f + i" CR "length bs - i"] b(3) by (auto simp: clean_def)
  moreover have "\<not> occurs tok bs i" using False b(4) occurs_fits by blast
  ultimately show ?thesis by simp
qed

text \<open>The search for the value of a field, once the field is found.\<close>

lemma token_search:
  assumes b: "holds_at m f (bs @ CRLF)" "clean bs" "clean tok" "tok \<noteq> []" and f: "0 < f" "m (f - 1) = LF" and z: "f \<le> z" "m z = 0"
  shows "\<exists>r. strcasestr m tok f = Some r \<and>
    (\<exists>v. r = Some v \<and> v \<le> f + length bs \<and> \<not> is_alnum (m (v - 1)) \<and> \<not> is_alnum (m (v + length tok))) = has_token tok bs"
proof -
  obtain r where r: "strcasestr m tok f = Some r" "first_match m tok f r" using strcasestr_total [of f z m tok] z by blast
  have cr: "m (f + length bs) = CR" using b(1) by (simp add: CRLF_list)
  have nz: "m i \<noteq> 0" if "f \<le> i" "i < f + length bs" for i
    using holds_in [of m f bs i] b(1,2) that by (auto simp: clean_def)
  have at: "match_ci m tok (f + i) \<longleftrightarrow> occurs tok bs i" if "i \<le> length bs" for i using occurs_at [OF b(1-3) that] .
  have off: "\<not> occurs tok bs (length bs)" using b(4) by (simp add: occurs_def)
  have al: "\<not> is_alnum CR" "\<not> is_alnum LF" by (simp_all add: is_alnum_def char_defs)
  show ?thesis
  proof (cases "List.find (occurs tok bs) [0..<length bs]")
    case None
    have "\<not> (\<exists>v. r = Some v \<and> v \<le> f + length bs)"
    proof
      assume "\<exists>v. r = Some v \<and> v \<le> f + length bs"
      then obtain v where v: "r = Some v" "v \<le> f + length bs" by blast
      then have "f \<le> v" "match_ci m tok v" using r(2) by (simp_all add: first_match_def)
      then have "occurs tok bs (v - f)" using at [of "v - f"] v(2) by simp
      then show False using None off v(2) by (metis find_upt(2) le_diff_conv2 \<open>f \<le> v\<close> add.commute le_neq_implies_less le_add_diff_inverse nat_add_left_cancel_le)
    qed
    then show ?thesis using r(1) None by (auto simp: has_token_def)
  next
    case (Some i)
    then have i: "i < length bs" "occurs tok bs i" "\<forall>j < i. \<not> occurs tok bs j" by (simp_all add: find_upt)
    have "strcasestr m tok f = Some (Some (f + i))"
    proof (rule strcasestr_found)
      fix j assume j: "f \<le> j" "j < f + i"
      then show "\<not> match_ci m tok j \<and> m j \<noteq> 0" using at [of "j - f"] i nz [of j] by simp
    qed (use at [of i] i in auto)
    moreover have "is_alnum (m (f + i - 1)) \<longleftrightarrow> 0 < i \<and> is_alnum (bs ! (i - 1))"
      using b(1) f(2) al i(1) holds_nth [of m f bs "i - 1"] by (cases i) auto
    moreover have le: "i + length tok \<le> length bs" using i(1,2) occurs_fits by simp
    moreover have "is_alnum (m (f + i + length tok)) \<longleftrightarrow> i + length tok < length bs \<and> is_alnum (bs ! (i + length tok))"
      using b(1) cr al le holds_nth [of m f bs "i + length tok"] by (cases "i + length tok = length bs") (auto simp: add.assoc)
    ultimately show ?thesis using i(1) Some by (auto simp: has_token_def)
  qed
qed

section \<open>The search is a lookup\<close>

text \<open>What a search is to find in a list of headers.\<close>

definition offers :: "u8 list \<Rightarrow> u8 list \<Rightarrow> header list \<Rightarrow> bool" where
  "offers nam tok hs \<longleftrightarrow> (case lookup_header nam hs of None \<Rightarrow> False | Some h \<Rightarrow> has_token tok (header_line h))"

lemma field_line:
  assumes r: "request_in m line hs" and f: "field_pos nam (length line) hs = Some f"
  obtains h where "lookup_header nam hs = Some h" "lower (fst h) = lower nam" "holds_at m f (header_line h @ CRLF)"
    "clean (header_line h)" "0 < f" "m (f - 1) = LF" "clean (snd h)"
    "f < length (http_request line hs)"
proof -
  have p: "holds_at m (length line) (header_lines hs)" "\<forall>h \<in> set hs. clean_name (fst h) \<and> clean (snd h)"
    using r by (simp_all add: request_in_def http_request_def clean_request_def)
  obtain h where h: "h \<in> set hs" "lookup_header nam hs = Some h" "lower (fst h) = lower nam" "length line < f"
    "holds_at m f (fst h @ COLON # snd h @ CRLF)"
    using field_pos_lookup [OF p(1), of nam] f by auto
  have "0 < p \<Longrightarrow> holds_at m p (header_lines hs) \<Longrightarrow> field_pos nam p hs = Some f \<Longrightarrow>
      m (f - 1) = LF \<and> f < p + length (header_lines hs)" for p
  proof (induction hs arbitrary: p)
    case (Cons h hs)
    then show ?case
      using Cons.IH [of "p + 3 + length (fst h) + length (snd h)"]
      by (auto simp: CRLF_list numeral_3_eq_3 ac_simps split: if_splits)
  qed simp
  moreover have "0 < length line" using r by (auto simp: request_in_def clean_request_def)
  ultimately have "m (f - 1) = LF" "f < length (http_request line hs)" using p(1) f by (auto simp: http_request_def)
  then show thesis using that [of h] h p(2)
    by (auto simp: header_line_def clean_name_def clean_def)
qed

lemma search_without_value:
  assumes r: "request_in m line hs" and nam: "clean_name nam"
  shows "co_http_header_find_field_value m 0 (request_end line hs) nam None =
    Some (map_option (\<lambda>f. f + length nam + 1) (field_pos nam (length line) hs))"
proof (cases "field_pos nam (length line) hs")
  case (Some f)
  then obtain h where "holds_at m f (header_line h @ CRLF)" "clean (header_line h)" using field_line [OF r] by blast
  then show ?thesis using line_end search_name [OF r nam] Some by (simp add: co_http_header_find_field_value_def)
qed (simp add: co_http_header_find_field_value_def search_name [OF r nam])

lemma search_with_value:
  assumes r: "request_in m line hs" and nam: "clean_name nam" and tok: "clean tok" "tok \<noteq> []"
  shows "\<exists>v. co_http_header_find_field_value m 0 (request_end line hs) nam (Some tok) = Some v \<and> (v \<noteq> None) = offers nam tok hs"
proof (cases "field_pos nam (length line) hs")
  case None
  have "holds_at m (length line) (header_lines hs)" using r by (simp add: request_in_def http_request_def)
  then have "\<not> offers nam tok hs" using field_pos_lookup [of m "length line" hs nam] None by (simp add: offers_def)
  then show ?thesis using search_name [OF r nam] None by (simp add: co_http_header_find_field_value_def)
next
  case (Some f)
  then obtain h where h: "lookup_header nam hs = Some h" "holds_at m f (header_line h @ CRLF)"
    "clean (header_line h)" "0 < f" "m (f - 1) = LF" "f < length (http_request line hs)" using field_line [OF r Some] by blast
  obtain z where z: "length (http_request line hs) \<le> z" "m z = 0" using r by (auto simp: request_in_def)
  then have "f \<le> z" using h(6) by simp
  then obtain v where v: "strcasestr m tok f = Some v"
    "(\<exists>u. v = Some u \<and> u \<le> f + length (header_line h) \<and> \<not> is_alnum (m (u - 1)) \<and> \<not> is_alnum (m (u + length tok))) =
      has_token tok (header_line h)"
    using token_search [OF h(2,3) tok h(4,5) _ z(2)] by blast
  then show ?thesis using line_end [OF h(2,3)] search_name [OF r nam] Some h(1)
    by (auto simp: co_http_header_find_field_value_def offers_def split: option.splits)
qed

section \<open>The answer to a request\<close>

definition client_key :: "header \<Rightarrow> u8 list" where
  "client_key h = takeWhile (\<lambda>b. b \<noteq> BLANK) (dropWhile (\<lambda>b. b = BLANK) (snd h))"

text \<open>\<open>None\<close> is the refusal.\<close>

definition upgrade_answer :: "crypto \<Rightarrow> header list \<Rightarrow> u8 list option" where
  "upgrade_answer C hs =
     (if offers (ascii ''Upgrade'') (ascii ''websocket'') hs \<and> offers (ascii ''Connection'') (ascii ''Upgrade'') hs then
        (case lookup_header (ascii ''Sec-WebSocket-Key'') hs of None \<Rightarrow> None
         | Some h \<Rightarrow>
             if length (client_key h) \<noteq> 24 then None
             else map_option (\<lambda>key. take 255 (switching_text (takeWhile (\<lambda>b. b \<noteq> 0) key)))
               (Option.bind (co_sha1 C (client_key h @ WS_GUID)) (co_base64_encode C 29)))
      else None)"

lemma skip_blank_holds:
  "holds_at m p (v @ [CR]) \<Longrightarrow> skip_blank m p = Some (p + length (takeWhile (\<lambda>b. b = BLANK) v))"
proof (induction v arbitrary: p)
  case Nil
  then show ?case by (subst skip_blank.simps) (simp add: char_defs)
next
  case (Cons b v)
  then show ?case using Cons.IH [of "p + 1"] by (subst skip_blank.simps) simp
qed

lemma key_end_holds:
  "holds_at m p (v @ [CR]) \<Longrightarrow> CR \<notin> set v \<Longrightarrow> key_end m p = Some (p + length (takeWhile (\<lambda>b. b \<noteq> BLANK) v))"
proof (induction v arbitrary: p)
  case Nil
  then show ?case by (subst key_end.simps) simp
next
  case (Cons b v)
  then show ?case using Cons.IH [of "p + 1"] by (subst key_end.simps) auto
qed

lemma handshake_key_answer:
  assumes k: "holds_at (w_buf w) k (snd h @ CRLF)" "clean (snd h)"
  shows "handshake_key C k w =
    Some (case (if length (client_key h) \<noteq> 24 then None
             else map_option (\<lambda>key. take 255 (switching_text (takeWhile (\<lambda>b. b \<noteq> 0) key)))
               (Option.bind (co_sha1 C (client_key h @ WS_GUID)) (co_base64_encode C 29))) of
        None \<Rightarrow> (False, co_http_error_400_response w)
      | Some answer \<Rightarrow> (True, handshake_done (w_send answer w)))"
proof -
  let ?b = "takeWhile (\<lambda>b. b = BLANK) (snd h)" and ?r = "dropWhile (\<lambda>b. b = BLANK) (snd h)"
  let ?s = "k + length ?b"
  have v: "holds_at (w_buf w) k (snd h @ [CR])" using k(1) by (simp add: CRLF_list)
  then have "holds_at (w_buf w) k ((?b @ ?r) @ [CR])" by simp
  then have r: "holds_at (w_buf w) ?s (?r @ [CR])" by (simp del: takeWhile_dropWhile_id add: add.assoc)
  have "CR \<notin> set ?r" using k(2) set_dropWhileD by (fastforce simp: clean_def)
  note e = key_end_holds [OF r this]
  have "holds_at (w_buf w) ?s (takeWhile (\<lambda>b. b \<noteq> BLANK) ?r @ dropWhile (\<lambda>b. b \<noteq> BLANK) ?r)"
    using r by (simp only: takeWhile_dropWhile_id holds_append)
  then have "holds_at (w_buf w) ?s (client_key h)" unfolding client_key_def by (simp only: holds_append)
  then have "get_bytes ?s (length (client_key h)) (w_buf w) = client_key h" by (simp only: holds_at_def)
  then show ?thesis
    using skip_blank_holds [OF v] e
    by (auto simp: handshake_key_def client_key_def [symmetric] co_websocket_handshake_send_key_def
        co_websocket_create_accept_key_def split: option.split)
qed

lemma names_clean:
  "clean_name (ascii ''Upgrade'')" "clean_name (ascii ''Connection'')" "clean_name (ascii ''Sec-WebSocket-Key'')"
  "clean (ascii ''Upgrade'')" "clean (ascii ''websocket'')" "ascii ''Upgrade'' \<noteq> []" "ascii ''websocket'' \<noteq> []"
  by (simp_all add: clean_name_def clean_def ascii_def char_defs)

lemma handshake_request_answer:
  assumes r: "request_in (w_buf w) line hs" and n: "remaining_len w - 1 = request_end line hs"
  shows "handshake_request C w = Some (case upgrade_answer C hs of
      None \<Rightarrow> (False, co_http_error_400_response w)
    | Some answer \<Rightarrow> (True, handshake_done (w_send answer w)))"
proof -
  let ?S = "co_http_header_find_field_value (w_buf w) 0 (request_end line hs)"
  obtain u where u: "?S (ascii ''Upgrade'') (Some (ascii ''websocket'')) = Some u"
    "(u \<noteq> None) = offers (ascii ''Upgrade'') (ascii ''websocket'') hs"
    using search_with_value [OF r names_clean(1,5,7)] by blast
  obtain c where c: "?S (ascii ''Connection'') (Some (ascii ''Upgrade'')) = Some c"
    "(c \<noteq> None) = offers (ascii ''Connection'') (ascii ''Upgrade'') hs"
    using search_with_value [OF r names_clean(2,4,6)] by blast
  let ?nam = "ascii ''Sec-WebSocket-Key''"
  note k = search_without_value [OF r names_clean(3)]
  show ?thesis
  proof (cases "offers (ascii ''Upgrade'') (ascii ''websocket'') hs \<and> offers (ascii ''Connection'') (ascii ''Upgrade'') hs")
    case False
    then show ?thesis using u c by (auto simp: handshake_request_def n [simplified] upgrade_answer_def Let_def)
  next
    case True
    then obtain u' c' where uc: "u = Some u'" "c = Some c'" using u c by auto
    show ?thesis
    proof (cases "field_pos ?nam (length line) hs")
      case None
      have "holds_at (w_buf w) (length line) (header_lines hs)" using r by (simp add: request_in_def http_request_def)
      then have "lookup_header ?nam hs = None" using field_pos_lookup [of "w_buf w" "length line" hs ?nam] None by simp
      then show ?thesis using True u c k None by (simp add: uc handshake_request_def n [simplified] upgrade_answer_def Let_def)
    next
      case (Some f)
      obtain h where h: "lookup_header ?nam hs = Some h" "lower (fst h) = lower ?nam"
        "holds_at (w_buf w) f (header_line h @ CRLF)" "clean (snd h)" using field_line [OF r Some] by blast
      have "length (fst h) = length ?nam" using arg_cong [OF h(2), of length] by simp
      then have "holds_at (w_buf w) (f + length ?nam + 1) (snd h @ CRLF)" using h(3) by (simp add: header_line_def add.assoc)
      note key = handshake_key_answer [OF this h(4)]
      show ?thesis using True u c k Some h(1)
        by (simp add: uc handshake_request_def n [simplified] upgrade_answer_def Let_def key [simplified])
    qed
  qed
qed

section \<open>Receiving the request\<close>

lemma header_lines_end: "\<exists>pre. header_lines hs = pre @ CRLF @ CRLF"
proof (induction hs)
  case (Cons h hs)
  then obtain pre where "header_lines hs = pre @ CRLF @ CRLF" by blast
  then have "header_lines (h # hs) = (CRLF @ fst h @ [COLON] @ snd h @ pre) @ CRLF @ CRLF" by simp
  then show ?case by blast
qed simp

text \<open>Only the end of a request looks like one.\<close>

lemma no_early_end:
  "pre \<noteq> [] \<Longrightarrow> CR \<notin> set pre \<Longrightarrow> \<forall>h \<in> set hs. clean_name (fst h) \<and> clean (snd h) \<Longrightarrow>
   q + 4 < length (pre @ header_lines hs) \<Longrightarrow> take 4 (drop q (pre @ header_lines hs)) \<noteq> CRLF @ CRLF"
proof (induction hs arbitrary: pre q)
  case Nil
  then have "q < length pre" by (simp add: CRLF_list)
  then have "hd (drop q (pre @ header_lines [])) \<in> set pre" by (simp add: hd_drop_conv_nth nth_append)
  then show ?case using Nil(2) by (cases "drop q (pre @ header_lines [])") (auto simp: CRLF_list)
next
  case (Cons h hs)
  let ?line = "fst h @ COLON # snd h"
  have c: "fst h \<noteq> []" "CR \<notin> set ?line" using Cons.prems(3) by (auto simp: clean_name_def clean_def)
  have e: "pre @ header_lines (h # hs) = pre @ CR # LF # ?line @ header_lines hs" by (simp add: CRLF_list)
  consider "q < length pre" | "q = length pre" | "q = length pre + 1" | "length pre + 2 \<le> q" by linarith
  then show ?case
  proof cases
    case 1
    then have "hd (drop q (pre @ header_lines (h # hs))) \<in> set pre" by (simp add: hd_drop_conv_nth nth_append)
    then show ?thesis using Cons.prems(2) by (cases "drop q (pre @ header_lines (h # hs))") (auto simp: CRLF_list)
  next
    case 2
    obtain b n where "fst h = b # n" using c(1) by (cases "fst h") auto
    then show ?thesis unfolding e using 2 c(2) by (auto simp: CRLF_list)
  next
    case 3
    then show ?thesis unfolding e by (simp add: CRLF_list)
  next
    case 4
    then obtain k where k: "q = length pre + 2 + k" by (metis le_Suc_ex)
    have "drop q (pre @ header_lines (h # hs)) = drop k (?line @ header_lines hs)" unfolding e k by simp
    moreover have "take 4 (drop k (?line @ header_lines hs)) \<noteq> CRLF @ CRLF"
      using Cons.prems(3,4) c(2) k by (intro Cons.IH) (auto simp: CRLF_list)
    ultimately show ?thesis by simp
  qed
qed

lemma get_bytes_sub: "get_bytes 0 n m = bs \<Longrightarrow> p + k \<le> n \<Longrightarrow> get_bytes p k m = take k (drop p bs)"
  by (rule nth_equalityI) auto

text \<open>What a receive leaves behind, with the answer to a complete request.\<close>

definition answered :: "crypto \<Rightarrow> header list \<Rightarrow> ws \<Rightarrow> bool \<times> ws" where
  "answered C hs w = (case upgrade_answer C hs of
      None \<Rightarrow> (False, co_http_error_400_response w)
    | Some answer \<Rightarrow> (True, handshake_done (w_send answer w)))"

definition received :: "u8 list \<Rightarrow> segments \<Rightarrow> ws \<Rightarrow> ws" where
  "received bs ss w = w\<lparr>w_conn := (w_conn w)\<lparr>c_in := ss, c_buf := put_bytes (remaining_len w) bs (w_buf w)\<rparr>,
     remaining_len := remaining_len w + length bs\<rparr>"

lemma process_segment:
  assumes k: "0 < remaining_len w" "get_bytes 0 (remaining_len w) (w_buf w) = take (remaining_len w) req"
    and s: "c_in (w_conn w) = bs # ss" "bs \<noteq> []" "bs @ rest = drop (remaining_len w) req" "4 \<le> remaining_len w + length bs"
    and n: "length req \<le> CONFIG_CO_SOCKET_BUFFER_SIZE" "remaining_len w \<le> length req"
  shows "co_websocket_handshake_process C w =
      (if take 4 (drop (remaining_len w + length bs - 4) req) \<noteq> CRLF @ CRLF then Some (True, received bs ss w)
       else handshake_request C (received bs ss w)) \<and>
    get_bytes 0 (remaining_len w + length bs) (w_buf (received bs ss w)) = take (remaining_len w + length bs) req"
proof -
  let ?k = "remaining_len w" and ?w = "received bs ss w"
  have l: "length bs + length rest = length req - ?k" using arg_cong [OF s(3), of length] by simp
  have r: "recv (CONFIG_CO_SOCKET_BUFFER_SIZE - ?k) (c_in (w_conn w)) = (bs, ss)" using l n by (simp add: s(1))
  have "get_bytes 0 (?k + length bs) (w_buf ?w) = take ?k req @ bs"
    using k(2) by (simp add: received_def get_bytes_append get_put_same get_put_other)
  also have "\<dots> = take (?k + length bs) req" using arg_cong [OF s(3), of "take (length bs)"] by (simp add: take_add)
  finally have b: "get_bytes 0 (?k + length bs) (w_buf ?w) = take (?k + length bs) req" .
  have "get_bytes (?k + length bs - 4) 4 (w_buf ?w) = take 4 (drop (?k + length bs - 4) (take (?k + length bs) req))"
    using s(4) by (intro get_bytes_sub [OF b]) simp
  also have "\<dots> = take 4 (drop (?k + length bs - 4) req)" using s(4) by (simp add: drop_take)
  finally have e: "get_bytes (?k + length bs - 4) 4 (w_buf ?w) = take 4 (drop (?k + length bs - 4) req)" .
  have "remaining_len ?w = ?k + length bs" by (simp add: received_def)
  moreover have "co_websocket_handshake_process C w =
      (if remaining_len ?w < 4 \<or> get_bytes (remaining_len ?w - 4) 4 (w_buf ?w) \<noteq> CRLF @ CRLF then Some (True, ?w)
       else handshake_request C ?w)"
    using k(1) r s(2) by (simp add: co_websocket_handshake_process_def Let_def received_def)
  ultimately show ?thesis using b s(4) unfolding e [symmetric] by auto
qed

lemma received_simps [simp]:
  "remaining_len (received bs ss w) = remaining_len w + length bs" "w_status (received bs ss w) = w_status w"
  "c_in (w_conn (received bs ss w)) = ss" "c_out (w_conn (received bs ss w)) = c_out (w_conn w)"
  "w_buf (received bs ss w) = put_bytes (remaining_len w) bs (w_buf w)"
  by (simp_all add: received_def)

lemma received_again:
  "received cs tt (received bs ss w) = received (bs @ cs) tt w"
  by (simp add: received_def put_put_append add.assoc)

text \<open>All the segments of a request.\<close>

lemma handshake_segments:
  assumes "clean_request line hs" "req = http_request line hs" "length req \<le> CONFIG_CO_SOCKET_BUFFER_SIZE"
    and "z \<ge> length req" "w_buf w z = 0" "w_status w = CO_SOCKET_HANDSHAKE"
    and "4 \<le> remaining_len w" "remaining_len w < length req"
    and "get_bytes 0 (remaining_len w) (w_buf w) = take (remaining_len w) req"
    and "c_in (w_conn w) = ss @ tt" "live ss" "concat ss = drop (remaining_len w) req"
  shows "handshake_loop C w = Some (answered C hs (received (drop (remaining_len w) req) tt w))"
  using assms
proof (induction ss arbitrary: w)
  case (Cons bs ss)
  let ?k = "remaining_len w" and ?w = "received bs (ss @ tt) w"
  have bs: "bs \<noteq> []" "bs @ concat ss = drop ?k req" "live ss" using Cons.prems(11,12) by (auto simp: live_def)
  have l: "?k + length bs + length (concat ss) = length req"
    using arg_cong [OF bs(2), of length] Cons.prems(8) by simp
  have c: "line \<noteq> []" "CR \<notin> set line" "\<forall>h \<in> set hs. clean_name (fst h) \<and> clean (snd h)"
    using Cons.prems(1) by (auto simp: clean_request_def clean_def)
  have P: "co_websocket_handshake_process C w =
      (if take 4 (drop (?k + length bs - 4) req) \<noteq> CRLF @ CRLF then Some (True, ?w) else handshake_request C ?w)"
    and B: "get_bytes 0 (?k + length bs) (w_buf ?w) = take (?k + length bs) req"
    using process_segment [OF _ Cons.prems(9) _ bs(1,2) _ Cons.prems(3), of "ss @ tt" C] Cons.prems(7,8,10) by auto
  have z: "w_buf ?w z = 0" using Cons.prems(4,5) l by (simp add: put_bytes_def)
  show ?case
  proof (cases "ss = []")
    case True
    then have k: "?k + length bs = length req" "drop ?k req = bs" using l bs(2) by simp_all
    obtain pre where pre: "header_lines hs = pre @ CRLF @ CRLF" using header_lines_end by blast
    have "take 4 (drop (length req - 4) req) = CRLF @ CRLF"
      by (simp add: Cons.prems(2) http_request_def pre CRLF_list)
    note e = this
    have "co_websocket_handshake_process C w = handshake_request C ?w" using P unfolding k(1) e by simp
    moreover have "request_in (w_buf ?w) line hs"
      using Cons.prems(1,2,4) z B k(1) by (auto simp: request_in_def holds_at_def simp del: received_simps(5))
    moreover have "remaining_len ?w - 1 = request_end line hs" using k(1) by (simp add: request_end_def Cons.prems(2))
    ultimately have "co_websocket_handshake_process C w = Some (answered C hs ?w)"
      using handshake_request_answer [of ?w line hs C] by (simp add: answered_def)
    moreover have "fst (answered C hs ?w) \<Longrightarrow> w_status (snd (answered C hs ?w)) \<noteq> CO_SOCKET_HANDSHAKE"
      by (simp add: answered_def handshake_done_def split: option.splits)
    ultimately show ?thesis using True k(2) by (subst handshake_loop.simps) auto
  next
    case False
    have rest: "concat ss = drop (?k + length bs) req"
      using arg_cong [OF bs(2), of "drop (length bs)"] by (simp add: add.commute)
    have "concat ss \<noteq> []" using False bs(3) live_concat by blast
    then have lt: "?k + length bs < length req" using l by (cases "concat ss") auto
    have "take 4 (drop (?k + length bs - 4) req) \<noteq> CRLF @ CRLF"
      using no_early_end [OF c, of "?k + length bs - 4"] lt Cons.prems(2,7) by (simp add: http_request_def)
    then have "co_websocket_handshake_process C w = Some (True, ?w)" using P by simp
    moreover have "handshake_loop C ?w = Some (answered C hs (received (drop (remaining_len ?w) req) tt ?w))"
      using Cons.prems lt bs B z rest
      by (intro Cons.IH) (simp_all add: add.commute)
    moreover have "drop ?k req = bs @ drop (?k + length bs) req"
      using bs(2) rest by simp
    ultimately show ?thesis using Cons.prems(6) by (subst handshake_loop.simps) (simp add: received_again)
  qed
qed simp


definition example_line :: "u8 list" where "example_line = ascii ''GET / HTTP/1.1''"

definition example_headers :: "header list" where
  "example_headers =
     [(ascii ''Host'', ascii '' probe''), (ascii ''upgrade'', ascii '' WebSocket''),
      (ascii ''Connection'', ascii '' keep-alive, Upgrade''),
      (ascii ''Sec-WebSocket-Key'', ascii '' c2REMVVpRXJRQWJ0Q1dKeQ=='')]"

definition example_crypto :: crypto where
  "example_crypto = \<lparr>co_sha1 = (\<lambda>bs. Some (take 20 bs)), co_base64_encode = (\<lambda>n bs. Some (bs @ take 8 bs))\<rparr>"

lemma example_answer: "upgrade_answer example_crypto example_headers = Some (switching_text (ascii ''c2REMVVpRXJRQWJ0Q1dKc2REMVVp''))"
  by code_simp

definition example_request :: "u8 list" where "example_request = http_request example_line example_headers"

definition example_upgrade :: conn where
  "example_upgrade = \<lparr>c_in = [take 10 (drop 4 example_request), drop 14 example_request], c_out = [],
     c_buf = mem_of (take 4 example_request)\<rparr>"


section \<open>The worker returns\<close>

text \<open>Somewhere behind the receive buffer there is a zero; receiving does not write there.\<close>

definition sentinel :: "mem \<Rightarrow> bool" where
  "sentinel m \<longleftrightarrow> (\<exists>z \<ge> CONFIG_CO_SOCKET_BUFFER_SIZE. m z = 0)"

lemma find_field_total:
  "m z = 0 \<Longrightarrow> p < z \<Longrightarrow> 0 \<notin> set nam \<Longrightarrow> nam \<noteq> [] \<Longrightarrow>
   \<exists>r. find_field m a b nam p = Some r \<and> (\<forall>f. r = Some f \<longrightarrow> f < z \<and> field_at m a b nam f)"
proof (induction "z - p" arbitrary: p rule: less_induct)
  case less
  obtain r where r: "strcasestr m nam (p + 1) = Some r" "first_match m nam (p + 1) r"
    using strcasestr_total [of "p + 1" z m nam] less.prems by auto
  show ?case
  proof (cases r)
    case None
    then show ?thesis using r by (subst find_field.simps) simp
  next
    case (Some q)
    then have q: "p < q" "match_ci m nam q" "\<And>i. p < i \<Longrightarrow> i < q \<Longrightarrow> m i \<noteq> 0" using r(2) by (auto simp: first_match_def)
    have "q \<le> z" using q(3) [of z] less.prems(1,2) by (metis not_less)
    moreover have "m q \<noteq> 0" using match_no [OF q(2), of 0 0] less.prems(3,4) by simp
    ultimately have qz: "q < z" using less.prems(1) by (metis le_neq_implies_less)
    show ?thesis
    proof (cases "field_here m a b nam q")
      case True
      then show ?thesis using r(1) Some q(2) qz by (subst find_field.simps) (auto simp: field_at_def)
    next
      case False
      have "z - q < z - p" using q(1) qz by simp
      from less.hyps [OF this less.prems(1) qz less.prems(3,4)] show ?thesis
        using r(1) Some False by (subst find_field.simps) simp
    qed
  qed
qed

lemma skip_blank_total: "p \<le> c \<Longrightarrow> m c = CR \<Longrightarrow> \<exists>q. skip_blank m p = Some q \<and> q \<le> c"
proof (induction "c - p" arbitrary: p)
  case 0
  then show ?case by (subst skip_blank.simps) (simp add: char_defs)
next
  case (Suc d)
  then show ?case using Suc.hyps(1) [of "p + 1"] by (subst skip_blank.simps) simp
qed

lemma key_end_total: "p \<le> c \<Longrightarrow> m c = CR \<Longrightarrow> \<exists>q. key_end m p = Some q"
proof (induction "c - p" arbitrary: p)
  case 0
  then show ?case by (subst key_end.simps) simp
next
  case (Suc d)
  then show ?case using Suc.hyps(1) [of "p + 1"] by (subst key_end.simps) (cases "p = c", auto)
qed

lemma search_total:
  assumes z: "m z = 0" "0 < z" and nam: "clean_name nam"
  shows "\<exists>r. co_http_header_find_field_value m 0 b nam val = Some r \<and>
    (\<forall>k. val = None \<longrightarrow> r = Some k \<longrightarrow> (\<exists>c \<ge> k. m c = CR))"
proof -
  have n: "0 \<notin> set nam" "nam \<noteq> []" "CR \<notin> set nam" using nam by (auto simp: clean_name_def clean_def)
  obtain r where r: "find_field m 0 b nam 0 = Some r" "\<forall>f. r = Some f \<longrightarrow> f < z \<and> field_at m 0 b nam f"
    using find_field_total [where m = m and p = 0 and a = 0 and b = b] z n(1,2) by blast
  show ?thesis
  proof (cases r)
    case (Some f)
    then have f: "f \<le> z" "match_ci m nam f" "m (f + length nam) = COLON" using r(2) by (auto simp: field_at_def field_here_def)
    obtain e where e: "strcasestr m CRLF f = Some e" "first_match m CRLF f e" using strcasestr_total [of f z m CRLF] f(1) z(1) by blast
    show ?thesis
    proof (cases e)
      case None
      then show ?thesis using r(1) Some e(1) by (simp add: co_http_header_find_field_value_def)
    next
      case e': (Some c)
      then have "f \<le> c" "m c = CR" using e(2) by (auto simp: first_match_def match_ci_def CRLF_list get_bytes_Suc)
      moreover have "\<not> (c < f + length nam)"
      proof
        assume "c < f + length nam"
        then have "c - f < length nam" using \<open>f \<le> c\<close> by linarith
        then show False using match_no [OF f(2), of CR "c - f"] n(3) \<open>f \<le> c\<close> \<open>m c = CR\<close> by simp
      qed
      moreover have "c \<noteq> f + length nam" using f(3) \<open>m c = CR\<close> by auto
      ultimately have c: "f + length nam + 1 \<le> c" "m c = CR" by auto
      show ?thesis
      proof (cases val)
        case None
        then show ?thesis using r(1) Some e(1) e' c by (auto simp: co_http_header_find_field_value_def)
      next
        case (Some tok)
        then show ?thesis using strcasestr_total [of f z m tok] f(1) z(1) r(1) \<open>r = Some f\<close> e(1) e'
          by (auto simp: co_http_header_find_field_value_def split: option.split)
      qed
    qed
  qed (use r in \<open>simp add: co_http_header_find_field_value_def\<close>)
qed

lemma sentinel_put: "sentinel m \<Longrightarrow> p + length bs \<le> CONFIG_CO_SOCKET_BUFFER_SIZE \<Longrightarrow> sentinel (put_bytes p bs m)"
  unfolding sentinel_def by (metis le_trans put_bytes_out)

lemma handshake_request_total:
  assumes "sentinel (w_buf w)"
  shows "\<exists>r. handshake_request C w = Some r \<and> (fst r \<longrightarrow> w_status (snd r) \<noteq> CO_SOCKET_HANDSHAKE \<and> sentinel (w_buf (snd r)))"
proof -
  let ?m = "w_buf w" and ?b = "remaining_len w - 1"
  obtain z where z: "CONFIG_CO_SOCKET_BUFFER_SIZE \<le> z" "?m z = 0" using assms by (auto simp: sentinel_def)
  then have "0 < z" by (simp add: CONFIG_CO_SOCKET_BUFFER_SIZE_def)
  note T = search_total [where m = ?m and z = z, OF z(2) this]
  obtain u where u: "co_http_header_find_field_value ?m 0 ?b (ascii ''Upgrade'') (Some (ascii ''websocket'')) = Some u"
    using T [OF names_clean(1)] by blast
  obtain c where c: "co_http_header_find_field_value ?m 0 ?b (ascii ''Connection'') (Some (ascii ''Upgrade'')) = Some c"
    using T [OF names_clean(2)] by blast
  obtain k where k: "co_http_header_find_field_value ?m 0 ?b (ascii ''Sec-WebSocket-Key'') None = Some k"
    "\<And>i. k = Some i \<Longrightarrow> \<exists>c \<ge> i. ?m c = CR"
    using T [OF names_clean(3), of ?b None] by auto
  have K: "\<exists>r. handshake_key C i w = Some r \<and> (fst r \<longrightarrow> w_status (snd r) \<noteq> CO_SOCKET_HANDSHAKE \<and> sentinel (w_buf (snd r)))"
    if i: "k = Some i" for i
  proof -
    obtain e where e: "i \<le> e" "?m e = CR" using k(2) [OF i] by blast
    obtain q where q: "skip_blank ?m i = Some q" "q \<le> e" using skip_blank_total [of i e ?m] e by blast
    obtain t where t: "key_end ?m q = Some t" using key_end_total [of q e ?m] q(2) e(2) by blast
    have sz: "sentinel (zeros ?m)" using sentinel_put [OF assms, of 0] by (simp add: zeros_def)
    have "w_buf v = ?m" if "co_websocket_handshake_send_key C bs w = Some v" for bs v
      using that by (auto simp: co_websocket_handshake_send_key_def w_send_def)
    then show ?thesis using q t sz by (auto simp: handshake_key_def handshake_done_def set_buf_def split: option.split)
  qed
  show ?thesis
    using u c k(1) K by (cases u; cases c; cases k) (simp_all add: handshake_request_def Let_def)
qed

lemma recv_shrinks: "fst (recv n ss) \<noteq> [] \<Longrightarrow> length (concat (snd (recv n ss))) < length (concat ss)"
  by (cases ss) (auto split: if_splits)

lemma recv_room: "fst (recv (k - n) ss) \<noteq> [] \<Longrightarrow> n + length (fst (recv (k - n) ss)) \<le> k"
  using length_recv [of "k - n" ss] by (cases "n \<le> k") auto

lemma handshake_process_total:
  assumes "sentinel (w_buf w)"
  shows "\<exists>r. co_websocket_handshake_process C w = Some r \<and>
    (fst r \<longrightarrow> sentinel (w_buf (snd r)) \<and>
      (w_status (snd r) = CO_SOCKET_HANDSHAKE \<longrightarrow> length (concat (c_in (w_conn (snd r)))) < length (concat (c_in (w_conn w)))))"
proof -
  define n where "n = CONFIG_CO_SOCKET_BUFFER_SIZE - remaining_len w"
  obtain bs ss where r: "recv n (c_in (w_conn w)) = (bs, ss)" by fastforce
  define m where "m = (if remaining_len w = 0 then zeros (w_buf w) else w_buf w)"
  define v where "v = w\<lparr>w_conn := (w_conn w)\<lparr>c_in := ss, c_buf := put_bytes (remaining_len w) bs m\<rparr>\<rparr>"
  define u where "u = v\<lparr>remaining_len := remaining_len w + length bs\<rparr>"
  have m: "sentinel m" using assms sentinel_put [of "w_buf w" 0] by (simp add: zeros_def m_def)
  have P: "co_websocket_handshake_process C w =
      (if bs = [] then Some (False, co_http_error_400_response v)
       else if remaining_len u < 4 \<or> get_bytes (remaining_len u - 4) 4 (w_buf u) \<noteq> CRLF @ CRLF then Some (True, u)
       else handshake_request C u)"
    unfolding co_websocket_handshake_process_def Let_def n_def [symmetric] m_def [symmetric] r prod.case v_def [symmetric] u_def [symmetric] ..
  show ?thesis
  proof (cases "bs = []")
    case False
    have "remaining_len w + length bs \<le> CONFIG_CO_SOCKET_BUFFER_SIZE"
      using recv_room [of CONFIG_CO_SOCKET_BUFFER_SIZE "remaining_len w" "c_in (w_conn w)"] r False by (simp add: n_def)
    then have s: "sentinel (w_buf u)" using sentinel_put [OF m] by (simp add: u_def v_def)
    have l: "length (concat (c_in (w_conn u))) < length (concat (c_in (w_conn w)))"
      using recv_shrinks [of n "c_in (w_conn w)"] r False by (simp add: u_def v_def)
    obtain x where x: "handshake_request C u = Some x" "fst x \<longrightarrow> w_status (snd x) \<noteq> CO_SOCKET_HANDSHAKE \<and> sentinel (w_buf (snd x))"
      using handshake_request_total [OF s] by blast
    show ?thesis
    proof (cases "remaining_len u < 4 \<or> get_bytes (remaining_len u - 4) 4 (w_buf u) \<noteq> CRLF @ CRLF")
      case True
      then have "co_websocket_handshake_process C w = Some (True, u)" using P False by simp
      then show ?thesis using s l by simp
    next
      case F: False
      then have "co_websocket_handshake_process C w = Some x" using P False x(1) by simp
      then show ?thesis using x(2) by simp
    qed
  qed (use P in simp)
qed

lemma handshake_loop_total:
  "sentinel (w_buf w) \<Longrightarrow> \<exists>r. handshake_loop C w = Some r"
proof (induction "length (concat (c_in (w_conn w)))" arbitrary: w rule: less_induct)
  case less
  obtain r where r: "co_websocket_handshake_process C w = Some r"
    "fst r \<longrightarrow> sentinel (w_buf (snd r)) \<and>
      (w_status (snd r) = CO_SOCKET_HANDSHAKE \<longrightarrow> length (concat (c_in (w_conn (snd r)))) < length (concat (c_in (w_conn w))))"
    using handshake_process_total [OF less.prems] by blast
  then show ?case using less.hyps [of "snd r"] by (subst handshake_loop.simps) simp
qed

text \<open>Handling the frames of a receive reads nothing more.\<close>

lemma frame_keeps_input:
  assumes "co_websocket_frame E w = Inr (res, w')"
  shows "c_in (w_conn w') = c_in (w_conn w)"
proof -
  let ?i = "\<lambda>w. c_in (w_conn w)"
  have head: "?i v = ?i w" if "co_websocket_process_header w = Some v" for v w
    using that by (auto simp: co_websocket_process_header_def header_first_def header_extend_def header_mask_def Let_def
        split: option.splits if_splits)
  have send: "?i (w_send bs w) = ?i w" "?i (set_buf m w) = ?i w" "?i (co_websocket_send_frame m n t w) = ?i w" for bs m n t w
    by (simp_all add: w_send_def set_buf_def co_websocket_send_frame_def)
  have adv: "payload_advance n w = (res, v) \<Longrightarrow> ?i v = ?i w" for n w v res
    by (auto simp: payload_advance_def Let_def send split: if_splits)
  have texts: "co_websocket_text n j w = Inr v \<Longrightarrow> ?i v = ?i w" for n j w v
    by (auto simp: co_websocket_text_def co_websocket_send_msg_with_code_def Let_def send split: if_splits)
  have dap: "co_websocket_process_dap F p w = Inr v \<Longrightarrow> ?i v = ?i w" for F p w v
    by (auto simp: co_websocket_process_dap_def Let_def send split: sum.splits if_splits)
  have ping: "co_websocket_process_ping w = Inr v \<Longrightarrow> ?i v = ?i w" for w v
    by (auto simp: co_websocket_process_ping_def Let_def send split: if_splits)
  have mask: "?i (unmask_payload E n w) = ?i w" for E n w
    by (simp add: unmask_payload_def send)
  have go: "map_sum (\<lambda>e. e) (payload_advance n) x = Inr (res, v) \<Longrightarrow> (\<And>u. x = Inr u \<Longrightarrow> ?i u = ?i w) \<Longrightarrow> ?i v = ?i w" for n x v w res
    by (cases x) (auto dest: adv)
  have pay: "co_websocket_process_payload E w = Inr (res, v) \<Longrightarrow> ?i v = ?i w" for w v
    unfolding co_websocket_process_payload_def Let_def
    by (auto simp: mask send co_websocket_process_close_def split: if_splits dest!: go dest: texts dap ping adv)
  show ?thesis using assms
    by (auto simp: co_websocket_frame_def split: if_splits option.splits dest!: head pay)
qed

lemma loop_keeps_input: "ws_loop fuel Es i w = Inr (j, ok, w') \<Longrightarrow> c_in (w_conn w') = c_in (w_conn w)"
proof (induction fuel arbitrary: i w)
  case (Suc fuel)
  then show ?case
    by (auto dest: frame_keeps_input split: sum.splits prod.splits ws_result.splits)
qed simp

lemma process_shrinks:
  assumes "co_websocket_process Es i w = Inr (j, True, w')"
  shows "length (concat (c_in (w_conn w'))) < length (concat (c_in (w_conn w)))"
proof -
  let ?n = "CONFIG_CO_SOCKET_BUFFER_SIZE - remaining_len w"
  obtain bs ss where r: "recv ?n (c_in (w_conn w)) = (bs, ss)" by fastforce
  have "bs \<noteq> [] \<and> c_in (w_conn w') = ss"
    using assms r by (auto simp: co_websocket_process_def Let_def simp del: ws_loop.simps split: if_splits dest: loop_keeps_input)
  then show ?thesis using recv_shrinks [of ?n "c_in (w_conn w)"] r by simp
qed

lemma ws_serve_total: "\<exists>r. ws_serve Es i w = Some r"
proof (induction "length (concat (c_in (w_conn w)))" arbitrary: i w rule: less_induct)
  case less
  then show ?case
    by (subst ws_serve.simps) (auto split: sum.split prod.split dest!: process_shrinks)
qed



end
