(* ===== verification/UartBridge.thy ===== *)
theory UartBridge
  imports CString
begin

text \<open>
  The bridge between a TCP connection and a UART (components/uart\_tcp\_bridge/uart\_tcp\_bridge.c).
  A connection of lwIP is named by a number.  One iteration of the task is a function of the event
  it finds in the queue; what lwIP and the UART driver deliver comes with the event.
\<close>

section \<open>State\<close>

definition UART_BUF_SIZE :: nat where "UART_BUF_SIZE = 512"

text \<open>What leaves the bridge: bytes to the UART, bytes to a connection, a new baud rate.\<close>

datatype bridge_out = To_Uart "u8 list" | To_Net nat "u8 list" | Set_Baud int

record bridge =
  uart_netconn :: "nat option"
  is_conn_valid :: bool
  is_first_time_recv :: bool
  freed :: "nat list"
  b_log :: "bridge_out list"

datatype bridge_fault = Freed_Netconn | Null_Netconn

text \<open>The outcome of \<open>netconn_recv\<close>: the parts of a netbuf, or an error and whether the connection was
  marked as closed before.\<close>

datatype net_recv = Netbuf "u8 list list" | Recv_Error bool

text \<open>Events: the wait timed out; the Wi-Fi connection is lost; a client at the listening connection
  (\<open>None\<close>: accepting it fails); data on a connection.  The UART's buffered bytes come with the first
  and the last.\<close>

datatype bridge_event = Quiet "u8 list" | Wifi_Lost | Listen_Event "nat option" | Data_Event nat "u8 list" net_recv

definition put_out :: "bridge_out \<Rightarrow> bridge \<Rightarrow> bridge" where
  "put_out e s = s\<lparr>b_log := b_log s @ [e]\<rparr>"

section \<open>The baud rate\<close>

definition num_digits :: "int \<Rightarrow> nat" where
  "num_digits n =
     (if n < 10 then 1 else if n < 100 then 2 else if n < 1000 then 3 else if n < 10000 then 4
      else if n < 100000 then 5 else if n < 1000000 then 6 else 7)"

text \<open>\<open>atoi\<close> of the C library.\<close>

definition is_space :: "u8 \<Rightarrow> bool" where
  "is_space b \<longleftrightarrow> b = 0x20 \<or> (0x09 \<le> b \<and> b \<le> 0x0D)"

definition is_digit :: "u8 \<Rightarrow> bool" where
  "is_digit b \<longleftrightarrow> 0x30 \<le> b \<and> b \<le> 0x39"

definition digit :: "u8 \<Rightarrow> int" where "digit b = uint b - 48"

primrec atoi_digits :: "int \<Rightarrow> u8 list \<Rightarrow> int" where
  "atoi_digits n [] = n"
| "atoi_digits n (b # bs) = (if is_digit b then atoi_digits (10 * n + digit b) bs else n)"

definition atoi :: "u8 list \<Rightarrow> int" where
  "atoi bs = (case dropWhile is_space bs of
       [] \<Rightarrow> 0
     | b # cs \<Rightarrow> if b = 0x2D then - atoi_digits 0 cs else if b = 0x2B then atoi_digits 0 cs else atoi_digits 0 (b # cs))"

definition baud_of :: "u8 list \<Rightarrow> int option" where
  "baud_of bs =
     (if 1 < length bs \<and> length bs < 8 then
        let baudrate = atoi bs in
        if 0 < baudrate \<and> baudrate < 2000000 \<and> num_digits baudrate = length bs then Some baudrate else None
      else None)"

section \<open>The task\<close>

definition uart_bridge_reset :: "bridge \<Rightarrow> bridge" where
  "uart_bridge_reset s = s\<lparr>uart_netconn := None, is_conn_valid := False\<rparr>"

definition close_tcp_netconn :: "nat \<Rightarrow> bridge \<Rightarrow> bridge" where
  "close_tcp_netconn nc s = s\<lparr>freed := nc # freed s\<rparr>"

text \<open>One part of a netbuf; both ports of the UART get the rate.\<close>

definition bridge_part :: "u8 list \<Rightarrow> bridge \<Rightarrow> bridge" where
  "bridge_part bs s =
     (case (if is_first_time_recv s then baud_of bs else None) of
        Some n \<Rightarrow> (put_out (Set_Baud n) s)\<lparr>is_first_time_recv := False\<rparr>
      | None \<Rightarrow> put_out (To_Uart bs) (s\<lparr>is_first_time_recv := False\<rparr>))"

definition uart_bridge_iteration :: "bridge_event \<Rightarrow> bridge \<Rightarrow> bridge_fault + bridge" where
  "uart_bridge_iteration ev s =
     (case ev of
        Quiet bs \<Rightarrow>
          if is_conn_valid s then
            (case uart_netconn s of None \<Rightarrow> Inl Null_Netconn
             | Some nc \<Rightarrow>
                 if nc \<in> set (freed s) then Inl Freed_Netconn else Inr (put_out (To_Net nc (take UART_BUF_SIZE bs)) s))
          else Inr s
      | Wifi_Lost \<Rightarrow>
          if is_conn_valid s then
            (case uart_netconn s of None \<Rightarrow> Inl Null_Netconn
             | Some nc \<Rightarrow>
                 if nc \<in> set (freed s) then Inl Freed_Netconn else Inr (uart_bridge_reset (close_tcp_netconn nc s)))
          else Inr s
      | Listen_Event nc_in \<Rightarrow>
          (case nc_in of None \<Rightarrow> Inr s
           | Some nc \<Rightarrow>
               Inr (if is_conn_valid s then close_tcp_netconn nc s
                    else s\<lparr>uart_netconn := Some nc, is_conn_valid := True, is_first_time_recv := True\<rparr>))
      | Data_Event nc bs result \<Rightarrow>
          if nc \<in> set (freed s) then Inl Freed_Netconn
          else
            let s = put_out (To_Net nc (take UART_BUF_SIZE bs)) (s\<lparr>uart_netconn := Some nc\<rparr>) in
            Inr (case result of
                Netbuf parts \<Rightarrow> fold bridge_part parts s
              | Recv_Error marked \<Rightarrow> if marked then s else uart_bridge_reset (close_tcp_netconn nc s)))"

primrec uart_bridge_task :: "bridge_event list \<Rightarrow> bridge \<Rightarrow> bridge_fault + bridge" where
  "uart_bridge_task [] s = Inr s"
| "uart_bridge_task (ev # evs) s =
     (case uart_bridge_iteration ev s of Inl e \<Rightarrow> Inl e | Inr s \<Rightarrow> uart_bridge_task evs s)"

definition bridge_start :: bridge where
  "bridge_start = \<lparr>uart_netconn = None, is_conn_valid = False, is_first_time_recv = False, freed = [], b_log = []\<rparr>"

section \<open>Which texts are baud rates\<close>

text \<open>The decimal representation.\<close>

fun decimal :: "nat \<Rightarrow> u8 list" where
  "decimal n = (if n < 10 then [of_nat (48 + n)] else decimal (n div 10) @ [of_nat (48 + n mod 10)])"

declare decimal.simps [simp del]

lemma digit_unat: "digit b = int (unat b) - 48" "is_digit b \<longleftrightarrow> 48 \<le> unat b \<and> unat b \<le> 57"
  by (simp_all add: digit_def is_digit_def word_le_nat_alt)

lemma digit_of:
  assumes "n < 10"
  shows "is_digit (of_nat (48 + n)) \<and> digit (of_nat (48 + n)) = int n"
proof -
  have "unat (of_nat (48 + n) :: u8) = 48 + n" unfolding unat_of_nat using assms by simp
  then show ?thesis using assms by (simp add: digit_unat del: of_nat_add)
qed

lemma digit_bounds:
  assumes "is_digit b"
  shows "0 \<le> digit b \<and> digit b < 10 \<and> of_nat (48 + nat (digit b)) = b"
proof -
  have b: "48 \<le> unat b" "unat b \<le> 57" using assms by (simp_all add: digit_unat(2))
  then have d: "digit b = int (unat b - 48)" unfolding digit_unat(1) by (simp add: of_nat_diff)
  have e: "48 + nat (digit b) = unat b" unfolding d nat_int using b by simp
  have "of_nat (48 + nat (digit b)) = b" unfolding e by simp
  moreover have "0 \<le> digit b \<and> digit b < 10" unfolding d using b by presburger
  ultimately show ?thesis by blast
qed

lemma atoi_append:
  "list_all is_digit bs \<Longrightarrow> atoi_digits n (bs @ [c]) = (if is_digit c then 10 * atoi_digits n bs + digit c else atoi_digits n bs)"
  by (induction bs arbitrary: n) auto

lemma decimal_eqs:
  "n < 10 \<Longrightarrow> decimal n = [of_nat (48 + n)]"
  "\<not> n < 10 \<Longrightarrow> decimal n = decimal (n div 10) @ [of_nat (48 + n mod 10)]"
  by (simp_all add: decimal.simps [of n] del: of_nat_add)

lemma decimal_digits: "list_all is_digit (decimal n) \<and> atoi_digits 0 (decimal n) = int n \<and> decimal n \<noteq> []"
proof (induction n rule: decimal.induct)
  case (1 n)
  show ?case
  proof (cases "n < 10")
    case True
    then show ?thesis using digit_of [OF True] by (simp add: decimal_eqs(1) del: of_nat_add)
  next
    case False
    have "n = 10 * (n div 10) + n mod 10" by simp
    then have "int n = 10 * int (n div 10) + int (n mod 10)" by presburger
    then show ?thesis using False 1 digit_of [of "n mod 10"]
      by (simp add: decimal_eqs(2) atoi_append del: of_nat_add)
  qed
qed

text \<open>Digits of which the first is not zero are the representation of their value.\<close>

lemma digits_value: "list_all is_digit bs \<Longrightarrow> 0 \<le> atoi_digits 0 bs \<and> (bs \<noteq> [] \<and> hd bs \<noteq> 0x30 \<longrightarrow> 0 < atoi_digits 0 bs)"
proof (induction bs rule: rev_induct)
  case (snoc b bs)
  then have b: "is_digit b" "list_all is_digit bs" by simp_all
  show ?case
  proof (cases bs)
    case Nil
    have "b \<noteq> 0x30 \<Longrightarrow> digit b \<noteq> 0" using digit_bounds [OF b(1)] by auto
    then show ?thesis using Nil b digit_bounds [OF b(1)] by auto
  next
    case (Cons c cs)
    then show ?thesis using snoc b digit_bounds [OF b(1)] atoi_append [OF b(2), of 0 b] by auto
  qed
qed simp

lemma decimal_of_digits:
  "list_all is_digit bs \<Longrightarrow> bs \<noteq> [] \<Longrightarrow> hd bs \<noteq> 0x30 \<Longrightarrow> decimal (nat (atoi_digits 0 bs)) = bs"
proof (induction bs rule: rev_induct)
  case (snoc b bs)
  then have b: "is_digit b" "list_all is_digit bs" by simp_all
  note d = digit_bounds [OF b(1)]
  show ?case
  proof (cases "bs = []")
    case True
    have "nat (digit b) < 10" using d by linarith
    then have "decimal (nat (digit b)) = [b]" using d by (simp only: decimal_eqs(1))
    then show ?thesis using b True by simp
  next
    case False
    have "nat (digit b) < 10" using d by linarith
    define v where "v = atoi_digits 0 bs"
    have v: "0 < v" using digits_value [OF b(2)] False snoc.prems(3) by (simp add: v_def)
    have n: "nat (10 * v + digit b) = 10 * nat v + nat (digit b)" using v d by (simp add: nat_add_distrib nat_mult_distrib)
    have "\<not> 10 * nat v + nat (digit b) < 10" using v by simp
    moreover have "(10 * nat v + nat (digit b)) div 10 = nat v" "(10 * nat v + nat (digit b)) mod 10 = nat (digit b)"
      using \<open>nat (digit b) < 10\<close> by (simp_all add: div_add1_eq)
    ultimately have "decimal (nat (10 * v + digit b)) = decimal (nat v) @ [of_nat (48 + nat (digit b))]"
      unfolding n using decimal_eqs(2) by metis
    moreover have "decimal (nat v) = bs" using snoc False b v_def by simp
    ultimately show ?thesis using b d atoi_append [OF b(2), of 0 b] by (simp add: v_def del: of_nat_add)
  qed
qed simp

lemma decimal_length: "n < 10 ^ Suc k \<Longrightarrow> 10 ^ k \<le> n \<or> k = 0 \<Longrightarrow> length (decimal n) = Suc k"
proof (induction k arbitrary: n)
  case (Suc k)
  then have "10 * 10 ^ k \<le> n" "n < 10 * 10 ^ Suc k" by simp_all
  then have "10 ^ k \<le> n div 10" "n div 10 < 10 ^ Suc k" by (simp_all add: less_eq_div_iff_mult_less_eq div_less_iff_less_mult)
  moreover have "\<not> n < 10" using \<open>10 * 10 ^ k \<le> n\<close> one_le_power [of "10 :: nat" k] by linarith
  ultimately show ?case using Suc.IH by (simp add: decimal_eqs(2) del: of_nat_add)
qed (simp add: decimal_eqs(1))

lemma num_digits_decimal:
  assumes "n < 10000000"
  shows "num_digits (int n) = length (decimal n)"
proof -
  note d = decimal_length [of n 0] decimal_length [of n 1] decimal_length [of n 2] decimal_length [of n 3]
    decimal_length [of n 4] decimal_length [of n 5] decimal_length [of n 6]
  show ?thesis using assms d by (simp add: num_digits_def)
qed

lemma atoi_digits_prefix:
  "atoi_digits n bs = atoi_digits n (takeWhile is_digit bs)"
  by (induction bs arbitrary: n) auto

lemma num_digits_le: "0 \<le> n \<Longrightarrow> n < 10 ^ k \<Longrightarrow> k \<noteq> 0 \<Longrightarrow> k < 8 \<Longrightarrow> num_digits n \<le> k"
proof -
  assume a: "0 \<le> n" "n < 10 ^ k" "k \<noteq> 0" "k < 8"
  then have "k = 1 \<or> k = 2 \<or> k = 3 \<or> k = 4 \<or> k = 5 \<or> k = 6 \<or> k = 7" by linarith
  then show ?thesis using a by (elim disjE) (simp_all add: num_digits_def)
qed

lemma atoi_digits_less: "list_all is_digit bs \<Longrightarrow> atoi_digits 0 bs < 10 ^ length bs"
proof (induction bs rule: rev_induct)
  case (snoc b bs)
  then show ?case using digit_bounds [of b] atoi_append [of bs 0 b] by auto
qed simp

text \<open>A sign, white space, a leading zero or anything behind the digits makes the text longer than the
  number of digits of its value.\<close>

lemma atoi_shorter:
  assumes "0 < atoi bs" "num_digits (atoi bs) = length bs" "1 < length bs" "length bs < 8"
  shows "list_all is_digit bs \<and> hd bs \<noteq> 0x30 \<and> atoi bs = atoi_digits 0 bs"
proof -
  have short: "num_digits (atoi_digits 0 cs) < length bs" if "length (takeWhile is_digit cs) < length bs" for cs
  proof -
    let ?ds = "takeWhile is_digit cs"
    have ds: "list_all is_digit ?ds" by (auto simp: list_all_iff dest: set_takeWhileD)
    show ?thesis
    proof (cases "?ds = []")
      case True
      then show ?thesis using assms(3) by (subst atoi_digits_prefix) (simp add: num_digits_def)
    next
      case False
      then have "num_digits (atoi_digits 0 ?ds) \<le> length ?ds"
        using digits_value [OF ds] atoi_digits_less [OF ds] that assms(4) by (intro num_digits_le) auto
      then show ?thesis using that by (subst atoi_digits_prefix) simp
    qed
  qed
  have tw: "length (takeWhile is_digit cs) \<le> length cs" for cs by (rule length_takeWhile_le)
  obtain b cs where b: "dropWhile is_space bs = b # cs" using assms(1) by (cases "dropWhile is_space bs") (simp_all add: atoi_def)
  have l: "length (b # cs) \<le> length bs" using b length_dropWhile_le [of is_space bs] by simp
  have plain: "atoi bs = atoi_digits 0 (b # cs)" if "b \<noteq> 0x2D" "b \<noteq> 0x2B" using that b by (simp add: atoi_def)
  have "b \<noteq> 0x2D"
  proof
    assume m: "b = 0x2D"
    have "0 \<le> atoi_digits 0 (takeWhile is_digit cs)" by (intro conjunct1 [OF digits_value]) (auto simp: list_all_iff dest: set_takeWhileD)
    then show False using assms(1) b m atoi_digits_prefix [of 0 cs] by (simp add: atoi_def)
  qed
  moreover have "b \<noteq> 0x2B"
  proof
    assume p: "b = 0x2B"
    then have "atoi bs = atoi_digits 0 cs" using b by (simp add: atoi_def)
    moreover have "length (takeWhile is_digit cs) < length bs" using l tw [of cs] by simp
    ultimately show False using short [of cs] assms(2) by simp
  qed
  ultimately have v: "atoi bs = atoi_digits 0 (b # cs)" by (rule plain)
  have all: "length (takeWhile is_digit (b # cs)) = length bs"
    using short [of "b # cs", folded v] tw [of "b # cs"] l assms(2) by linarith
  have "length (b # cs) = length bs" using all l tw [of "b # cs"] by linarith
  then have bs: "bs = b # cs" using b by (metis append_Nil takeWhile_dropWhile_id append_eq_append_conv length_append add_cancel_left_left length_0_conv)
  have d: "list_all is_digit bs" using all bs by (metis takeWhile_eq_all_conv list_all_iff takeWhile_eq_take take_all_iff order_refl)
  have "b \<noteq> 0x30"
  proof
    assume z: "b = 0x30"
    then have "atoi bs = atoi_digits 0 cs" using v by (simp add: digit_def is_digit_def)
    moreover have "length (takeWhile is_digit cs) < length bs" using bs tw [of cs] by simp
    ultimately show False using short [of cs] assms(2) by simp
  qed
  then show ?thesis using d v bs by simp
qed

text \<open>The first part of a connection's data is taken as a baud rate exactly when it is the decimal
  representation, without sign, blanks or leading zeros, of a number from 10 to 1999999, and the
  rate set is that number; every other text is data.\<close>

theorem baud_text: "baud_of bs = Some r \<longleftrightarrow> 10 \<le> r \<and> r < 2000000 \<and> bs = decimal (nat r)"
proof
  assume r: "baud_of bs = Some r"
  then have a: "1 < length bs" "length bs < 8" "atoi bs = r" "0 < r" "r < 2000000" "num_digits r = length bs"
    by (auto simp: baud_of_def Let_def split: if_splits)
  then have d: "list_all is_digit bs" "hd bs \<noteq> 0x30" "r = atoi_digits 0 bs" using atoi_shorter [of bs] by auto
  then have "bs = decimal (nat r)" using decimal_of_digits [of bs] a(1) by (cases "bs = []") simp_all
  moreover have "10 \<le> r" using a(1,6) by (auto simp: num_digits_def split: if_splits)
  ultimately show "10 \<le> r \<and> r < 2000000 \<and> bs = decimal (nat r)" using a(5) by simp
next
  assume r: "10 \<le> r \<and> r < 2000000 \<and> bs = decimal (nat r)"
  then have d: "list_all is_digit bs" "atoi_digits 0 bs = r" "bs \<noteq> []" using decimal_digits [of "nat r"] by auto
  have "nat r < 10000000" using r by linarith
  then have n: "num_digits r = length bs" using num_digits_decimal [of "nat r"] r by simp
  obtain b cs where b: "bs = b # cs" using d(3) by (cases bs) auto
  have "is_digit b" using d(1) b by simp
  then have "\<not> is_space b" "b \<noteq> 0x2D" "b \<noteq> 0x2B" by (auto simp: is_digit_def is_space_def word_le_nat_alt)
  then have "atoi bs = r" using d(2) b by (simp add: atoi_def)
  moreover have "1 < length bs" "length bs < 8" using n r by (auto simp: num_digits_def split: if_splits)
  ultimately show "baud_of bs = Some r" using r n by (simp add: baud_of_def)
qed

section \<open>A connection\<close>

text \<open>What a run sends to the UART, and to the connection.\<close>

definition uart_bytes :: "bridge_out list \<Rightarrow> u8 list" where
  "uart_bytes es = concat (map (\<lambda>e. case e of To_Uart bs \<Rightarrow> bs | _ \<Rightarrow> []) es)"

definition net_bytes :: "nat \<Rightarrow> bridge_out list \<Rightarrow> u8 list" where
  "net_bytes nc es = concat (map (\<lambda>e. case e of To_Net c bs \<Rightarrow> if c = nc then bs else [] | _ \<Rightarrow> []) es)"

definition bauds :: "bridge_out list \<Rightarrow> int list" where
  "bauds es = concat (map (\<lambda>e. case e of Set_Baud n \<Rightarrow> [n] | _ \<Rightarrow> []) es)"

lemmas out_defs = uart_bytes_def net_bytes_def bauds_def

lemma out_append [simp]:
  "uart_bytes (xs @ ys) = uart_bytes xs @ uart_bytes ys" "net_bytes nc (xs @ ys) = net_bytes nc xs @ net_bytes nc ys"
  "bauds (xs @ ys) = bauds xs @ bauds ys"
  by (simp_all add: out_defs)

text \<open>The events of one connection \<open>nc\<close>: quiet phases and received netbufs.\<close>

definition session_event :: "nat \<Rightarrow> bridge_event \<Rightarrow> bool" where
  "session_event nc ev \<longleftrightarrow> (case ev of Quiet _ \<Rightarrow> True | Data_Event c _ (Netbuf _) \<Rightarrow> c = nc | _ \<Rightarrow> False)"

definition event_parts :: "bridge_event \<Rightarrow> u8 list list" where
  "event_parts ev = (case ev of Data_Event _ _ (Netbuf parts) \<Rightarrow> parts | _ \<Rightarrow> [])"

definition event_uart :: "bridge_event \<Rightarrow> u8 list" where
  "event_uart ev = (case ev of Quiet bs \<Rightarrow> take UART_BUF_SIZE bs | Data_Event _ bs _ \<Rightarrow> take UART_BUF_SIZE bs | _ \<Rightarrow> [])"

text \<open>The parts of a connection, with the first one treated as a rate when it is one.\<close>

definition rate :: "bool \<Rightarrow> u8 list list \<Rightarrow> int list \<times> u8 list" where
  "rate first parts = (case parts of
       [] \<Rightarrow> ([], [])
     | bs # rest \<Rightarrow> (case (if first then baud_of bs else None) of
         Some n \<Rightarrow> ([n], concat rest) | None \<Rightarrow> ([], concat parts)))"

lemma fold_parts:
  "\<exists>es. fold bridge_part parts s = s\<lparr>is_first_time_recv := is_first_time_recv s \<and> parts = [], b_log := b_log s @ es\<rparr> \<and>
     bauds es = fst (rate (is_first_time_recv s) parts) \<and> uart_bytes es = snd (rate (is_first_time_recv s) parts) \<and> net_bytes nc es = []"
proof (induction parts arbitrary: s)
  case Nil
  show ?case by (rule exI [of _ "[]"]) (simp add: rate_def out_defs)
next
  case (Cons bs parts)
  define t where "t = bridge_part bs s"
  obtain e where t: "t = s\<lparr>is_first_time_recv := False, b_log := b_log s @ [e]\<rparr>"
    "e = (case (if is_first_time_recv s then baud_of bs else None) of Some n \<Rightarrow> Set_Baud n | None \<Rightarrow> To_Uart bs)"
    by (auto simp: t_def bridge_part_def put_out_def split: option.splits)
  obtain es where es: "fold bridge_part parts t = t\<lparr>is_first_time_recv := is_first_time_recv t \<and> parts = [], b_log := b_log t @ es\<rparr>"
    "bauds es = fst (rate (is_first_time_recv t) parts)" "uart_bytes es = snd (rate (is_first_time_recv t) parts)" "net_bytes nc es = []"
    using Cons.IH by blast
  have "rate False parts = ([], concat parts)" by (simp add: rate_def split: list.split)
  then show ?case using es
    by (intro exI [of _ "e # es"]) (auto simp: t_def [symmetric] t rate_def out_defs split: option.split)
qed

lemma session_run:
  assumes "\<forall>ev \<in> set evs. session_event nc ev" "is_conn_valid s" "uart_netconn s = Some nc" "nc \<notin> set (freed s)"
  shows "\<exists>es. uart_bridge_task evs s = Inr (s\<lparr>is_first_time_recv := is_first_time_recv s \<and> concat (map event_parts evs) = [], b_log := b_log s @ es\<rparr>) \<and>
    (bauds es, uart_bytes es) = rate (is_first_time_recv s) (concat (map event_parts evs)) \<and> net_bytes nc es = concat (map event_uart evs)"
  using assms
proof (induction evs arbitrary: s)
  case Nil
  show ?case by (rule exI [of _ "[]"]) (simp add: rate_def out_defs)
next
  case (Cons ev evs)
  obtain es where es: "uart_bridge_iteration ev s =
      Inr (s\<lparr>is_first_time_recv := is_first_time_recv s \<and> event_parts ev = [], b_log := b_log s @ es\<rparr>)"
    "(bauds es, uart_bytes es) = rate (is_first_time_recv s) (event_parts ev)" "net_bytes nc es = event_uart ev"
  proof (cases ev)
    case (Quiet bs)
    then show thesis using Cons.prems that [of "[To_Net nc (take UART_BUF_SIZE bs)]"]
      by (simp add: uart_bridge_iteration_def put_out_def event_parts_def event_uart_def out_defs rate_def)
  next
    case (Data_Event c bs res)
    then obtain parts where p: "c = nc" "res = Netbuf parts" using Cons.prems(1) by (cases res) (auto simp: session_event_def)
    let ?s = "put_out (To_Net nc (take UART_BUF_SIZE bs)) (s\<lparr>uart_netconn := Some nc\<rparr>)"
    obtain es where "fold bridge_part parts ?s = ?s\<lparr>is_first_time_recv := is_first_time_recv ?s \<and> parts = [], b_log := b_log ?s @ es\<rparr>"
      "bauds es = fst (rate (is_first_time_recv ?s) parts)" "uart_bytes es = snd (rate (is_first_time_recv ?s) parts)" "net_bytes nc es = []"
      using fold_parts [of parts ?s nc] by blast
    then show thesis using Cons.prems Data_Event p that [of "To_Net nc (take UART_BUF_SIZE bs) # es"]
      by (simp add: uart_bridge_iteration_def put_out_def event_parts_def event_uart_def out_defs)
  qed (use Cons.prems in \<open>simp_all add: session_event_def\<close>)
  define t where "t = s\<lparr>is_first_time_recv := is_first_time_recv s \<and> event_parts ev = [], b_log := b_log s @ es\<rparr>"
  obtain es' where es': "uart_bridge_task evs t = Inr (t\<lparr>is_first_time_recv := is_first_time_recv t \<and> concat (map event_parts evs) = [], b_log := b_log t @ es'\<rparr>)"
    "(bauds es', uart_bytes es') = rate (is_first_time_recv t) (concat (map event_parts evs))" "net_bytes nc es' = concat (map event_uart evs)"
    using Cons.IH [of t] Cons.prems by (auto simp: t_def)
  have r: "rate b (xs @ ys) = (fst (rate b xs) @ fst (rate (b \<and> xs = []) ys), snd (rate b xs) @ snd (rate (b \<and> xs = []) ys))" for b xs ys
    by (auto simp: rate_def split: list.split option.split)
  have "fst (rate (is_first_time_recv s) (event_parts ev)) = bauds es" "snd (rate (is_first_time_recv s) (event_parts ev)) = uart_bytes es"
    "fst (rate (is_first_time_recv t) (concat (map event_parts evs))) = bauds es'" "snd (rate (is_first_time_recv t) (concat (map event_parts evs))) = uart_bytes es'"
    using es(2) es'(2) by (metis fst_conv snd_conv)+
  then show ?case using es es'
    by (intro exI [of _ "es @ es'"]) (simp add: t_def [symmetric] r, simp add: t_def)
qed

text \<open>C28: While one client is connected, however its data is cut into netbufs and parts and whenever the UART
  receives, the bytes sent to the UART are the client's bytes in order, without the first part if
  that is a baud rate, which is then set once, and the client gets the UART's bytes in order.\<close>

theorem bridge_forwards:
  assumes "\<forall>ev \<in> set evs. session_event nc ev" "\<not> is_conn_valid s" "nc \<notin> set (freed s)"
  shows "\<exists>es s'. uart_bridge_task (Listen_Event (Some nc) # evs) s = Inr s' \<and> b_log s' = b_log s @ es \<and>
    (bauds es, uart_bytes es) = rate True (concat (map event_parts evs)) \<and>
    net_bytes nc es = concat (map event_uart evs) \<and> is_conn_valid s' \<and> uart_netconn s' = Some nc \<and> freed s' = freed s"
proof -
  let ?s = "s\<lparr>uart_netconn := Some nc, is_conn_valid := True, is_first_time_recv := True\<rparr>"
  obtain es where "uart_bridge_task evs ?s =
      Inr (?s\<lparr>is_first_time_recv := is_first_time_recv ?s \<and> concat (map event_parts evs) = [], b_log := b_log ?s @ es\<rparr>)"
    "(bauds es, uart_bytes es) = rate (is_first_time_recv ?s) (concat (map event_parts evs))" "net_bytes nc es = concat (map event_uart evs)"
    using session_run [OF assms(1), of ?s] assms(3) by auto
  then show ?thesis using assms(2) by (simp add: uart_bridge_iteration_def)
qed

text \<open>A rate, then data in two parts.\<close>

theorem bridge_forwards_witness:
  "\<exists>s'. uart_bridge_task (Listen_Event (Some 5) #
      [Data_Event 5 [] (Netbuf [ascii ''115200'']), Quiet [0x4F], Data_Event 5 [0x4B] (Netbuf [[0x41], [0x42]])]) bridge_start = Inr s' \<and>
    uart_bytes (b_log s') = [0x41, 0x42] \<and> bauds (b_log s') = [115200] \<and> net_bytes 5 (b_log s') = [0x4F, 0x4B]"
proof -
  have "baud_of (ascii ''115200'') = Some 115200" by code_simp
  then show ?thesis
    using bridge_forwards [of "[Data_Event 5 [] (Netbuf [ascii ''115200'']), Quiet [0x4F], Data_Event 5 [0x4B] (Netbuf [[0x41], [0x42]])]" 5 bridge_start]
    by (auto simp: session_event_def bridge_start_def event_parts_def event_uart_def rate_def UART_BUF_SIZE_def)
qed

text \<open>A second client is closed as soon as it is accepted; what it has sent before is still in the queue,
  as an event of a connection that no longer exists.\<close>

lemma second_client_freed:
  "is_conn_valid s \<Longrightarrow> uart_bridge_task [Listen_Event (Some nc), Data_Event nc bs result] s = Inl Freed_Netconn"
  by (simp add: uart_bridge_iteration_def close_tcp_netconn_def)

end
