(* ===== verification/DlList.thy ===== *)
theory DlList
  imports Prelude
begin

text \<open>
  The intrusive doubly linked list of components/utils/list.h.  Nodes are addresses of an explicit
  heap with a \<open>next\<close> and a \<open>prev\<close> field; \<open>ring h l xs\<close> says that the list with head \<open>l\<close> holds the
  nodes \<open>xs\<close>, in order.  Each operation is shown to do to \<open>xs\<close> what its name says.
\<close>

record dl_heap =
  nxt :: "nat \<Rightarrow> nat"
  prv :: "nat \<Rightarrow> nat"

definition NULL :: nat where "NULL = 0"

section \<open>Operations\<close>

definition dl_list_init :: "nat \<Rightarrow> dl_heap \<Rightarrow> dl_heap" where
  "dl_list_init l h = h\<lparr>nxt := (nxt h)(l := l), prv := (prv h)(l := l)\<rparr>"

definition dl_list_add :: "nat \<Rightarrow> nat \<Rightarrow> dl_heap \<Rightarrow> dl_heap" where
  "dl_list_add l item h =
     (let h = h\<lparr>nxt := (nxt h)(item := nxt h l)\<rparr>;
          h = h\<lparr>prv := (prv h)(item := l)\<rparr>;
          h = h\<lparr>prv := (prv h)(nxt h l := item)\<rparr>
      in h\<lparr>nxt := (nxt h)(l := item)\<rparr>)"

definition dl_list_add_tail :: "nat \<Rightarrow> nat \<Rightarrow> dl_heap \<Rightarrow> dl_heap" where
  "dl_list_add_tail l item h = dl_list_add (prv h l) item h"

definition dl_list_del :: "nat \<Rightarrow> dl_heap \<Rightarrow> dl_heap" where
  "dl_list_del item h =
     (let h = h\<lparr>prv := (prv h)(nxt h item := prv h item)\<rparr>;
          h = h\<lparr>nxt := (nxt h)(prv h item := nxt h item)\<rparr>
      in h\<lparr>nxt := (nxt h)(item := NULL), prv := (prv h)(item := NULL)\<rparr>)"

definition dl_list_empty :: "nat \<Rightarrow> dl_heap \<Rightarrow> bool" where
  "dl_list_empty l h \<longleftrightarrow> nxt h l = l"

text \<open>The loops follow \<open>next\<close> until the head comes back; on a damaged list they may not end.\<close>

partial_function (option) dl_len_loop :: "nat \<Rightarrow> dl_heap \<Rightarrow> nat \<Rightarrow> nat \<Rightarrow> nat option" where
  "dl_len_loop l h item count =
     (if item = l then Some count else dl_len_loop l h (nxt h item) (count + 1))"

definition dl_list_len :: "nat \<Rightarrow> dl_heap \<Rightarrow> nat option" where
  "dl_list_len l h = dl_len_loop l h (nxt h l) 0"

text \<open>\<open>dl_list_for_each\<close> with a body that may leave the loop: the node it stops at, which is the
  head if it runs to the end.\<close>

partial_function (option) dl_find :: "(nat \<Rightarrow> bool) \<Rightarrow> nat \<Rightarrow> dl_heap \<Rightarrow> nat \<Rightarrow> nat option" where
  "dl_find stop l h item =
     (if item = l then Some l else if stop item then Some item else dl_find stop l h (nxt h item))"

text \<open>\<open>dl_list_for_each\<close> with a body that changes a state but not the list.\<close>

partial_function (option) dl_each :: "(nat \<Rightarrow> 's \<Rightarrow> 's) \<Rightarrow> nat \<Rightarrow> dl_heap \<Rightarrow> nat \<Rightarrow> 's \<Rightarrow> 's option" where
  "dl_each body l h item s = (if item = l then Some s else dl_each body l h (nxt h item) (body item s))"

section \<open>The list a heap holds\<close>

fun links :: "dl_heap \<Rightarrow> nat list \<Rightarrow> bool" where
  "links h (a # b # ys) \<longleftrightarrow> nxt h a = b \<and> prv h b = a \<and> links h (b # ys)"
| "links h _ \<longleftrightarrow> True"

definition ring :: "dl_heap \<Rightarrow> nat \<Rightarrow> nat list \<Rightarrow> bool" where
  "ring h l xs \<longleftrightarrow> distinct (l # xs) \<and> links h (l # xs @ [l])"

lemma links_append: "links h (xs @ y # zs) \<longleftrightarrow> links h (xs @ [y]) \<and> links h (y # zs)"
proof (induction xs)
  case (Cons x xs)
  then show ?case by (cases xs) auto
qed simp

lemma links_cong:
  "links h ys \<Longrightarrow> \<forall>a \<in> set (butlast ys). nxt h' a = nxt h a \<Longrightarrow> \<forall>a \<in> set (tl ys). prv h' a = prv h a \<Longrightarrow>
   links h' ys"
  by (induction h ys rule: links.induct) (auto split: if_splits)

lemma ring_iff: "ring h l xs \<longleftrightarrow> distinct (l # xs) \<and> links h (l # xs @ [l])"
  by (simp add: ring_def)

lemma ring_init: "ring (dl_list_init l h) l []"
  by (simp add: ring_def dl_list_init_def)

text \<open>Adding behind any node of the list, head included.\<close>

lemma links_insert:
  assumes l: "links h (us @ p # v # ws)" and d: "distinct (butlast (us @ p # v # ws))" "distinct (tl (us @ p # v # ws))"
    and i: "item \<notin> set (us @ p # v # ws)"
  shows "links (dl_list_add p item h) (us @ p # item # v # ws)"
proof -
  let ?h = "dl_list_add p item h"
  have L: "links h (us @ [p])" "nxt h p = v" "prv h v = p" "links h (v # ws)"
    using l links_append [of h us p "v # ws"] by simp_all
  have h: "nxt ?h = (nxt h)(item := v, p := item)" "prv ?h = (prv h)(item := p, v := item)"
    using i L(2) by (simp_all add: dl_list_add_def Let_def)
  have d1: "p \<notin> set us" "p \<notin> set (butlast (v # ws))"
    using d(1) by (simp_all add: butlast_append)
  have d2: "v \<notin> set (tl (us @ [p]))" "v \<notin> set ws"
    using d(2) by (cases us; simp)+
  have "links ?h (us @ [p])"
    using L(1) by (rule links_cong) (use i d1 d2 in \<open>auto simp: h dest: list.set_sel(2) [rotated]\<close>)
  moreover have "links ?h (v # ws)"
    using L(4) by (rule links_cong) (use i d1 d2 in \<open>auto simp: h dest: in_set_butlastD\<close>)
  ultimately show ?thesis
    using i links_append [of ?h us p "item # v # ws"] by (simp add: h)
qed

lemma ring_add:
  assumes r: "ring h l (xs @ ys)" and i: "item \<notin> set (l # xs @ ys)"
  shows "ring (dl_list_add (last (l # xs)) item h) l (xs @ item # ys)"
proof -
  obtain us p where up: "l # xs = us @ [p]" by (metis append_butlast_last_id list.distinct(1))
  obtain v ws where vw: "ys @ [l] = v # ws" by (cases "ys @ [l]") auto
  have n: "us @ p # v # ws = l # xs @ ys @ [l]" "us @ p # item # v # ws = l # xs @ item # ys @ [l]"
    using up vw by (metis append.assoc append_Cons append_Nil)+
  have "links (dl_list_add p item h) (us @ p # item # v # ws)"
    by (rule links_insert) (use r i in \<open>auto simp: n ring_def butlast_append\<close>)
  then show ?thesis using r i up by (auto simp: n ring_def)
qed

lemma ring_add_head: "ring h l xs \<Longrightarrow> item \<notin> set (l # xs) \<Longrightarrow> ring (dl_list_add l item h) l (item # xs)"
  using ring_add [of h l "[]" xs item] by simp

lemma ring_prv: "ring h l xs \<Longrightarrow> prv h l = last (l # xs)"
  using links_append [of h "butlast (l # xs)" "last (l # xs)" "[l]"]
  by (metis append.assoc append_Cons append_Nil append_butlast_last_id links.simps(1) list.distinct(1) ring_def)

lemma ring_add_tail: "ring h l xs \<Longrightarrow> item \<notin> set (l # xs) \<Longrightarrow> ring (dl_list_add_tail l item h) l (xs @ [item])"
  using ring_add [of h l xs "[]" item] by (simp add: dl_list_add_tail_def ring_prv)

text \<open>Removing a node.\<close>

lemma ring_del:
  assumes r: "ring h l (xs @ item # ys)"
  shows "ring (dl_list_del item h) l (xs @ ys)"
proof -
  obtain us p where up: "l # xs = us @ [p]" by (metis append_butlast_last_id list.distinct(1))
  obtain v ws where vw: "ys @ [l] = v # ws" by (cases "ys @ [l]") auto
  have n: "l # xs @ item # ys @ [l] = us @ p # item # v # ws" "us @ p # v # ws = l # xs @ ys @ [l]"
    using up vw by (metis append.assoc append_Cons append_Nil)+
  let ?N = "us @ p # item # v # ws"
  have d: "distinct (butlast ?N)" "distinct (tl ?N)" "links h ?N"
    using r unfolding n(1) [symmetric] by (auto simp: ring_def butlast_append)
  have L: "links h (us @ [p])" "nxt h p = item" "prv h item = p" "nxt h item = v" "prv h v = item" "links h (v # ws)"
    using d(3) links_append [of h us p "item # v # ws"] by simp_all
  have d1: "p \<notin> set us" "item \<notin> set us" "p \<noteq> item" "p \<notin> set (butlast (v # ws))" "item \<notin> set (butlast (v # ws))"
    using d(1) by (auto simp: butlast_append split: if_splits)
  have d2: "v \<notin> set (tl (us @ [p]))" "v \<notin> set ws" "item \<noteq> v" "item \<notin> set (tl (us @ [p]))" "item \<notin> set ws"
    using d(2) by (cases us; auto)+
  let ?h = "dl_list_del item h"
  have h: "nxt ?h = (nxt h)(p := v, item := NULL)" "prv ?h = (prv h)(v := p, item := NULL)"
    using d1 d2 L by (simp_all add: dl_list_del_def Let_def)
  have "links ?h (us @ [p])"
    using L(1) by (rule links_cong) (use d1 d2 in \<open>auto simp: h dest: list.set_sel(2) [rotated]\<close>)
  moreover have "links ?h (v # ws)"
    using L(6) by (rule links_cong) (use d1 d2 in \<open>auto simp: h dest: in_set_butlastD\<close>)
  ultimately have "links ?h (us @ p # v # ws)"
    using d1 d2 links_append [of ?h us p "v # ws"] by (simp add: h)
  then show ?thesis using r by (auto simp: n ring_def)
qed

section \<open>The loops\<close>

lemma ring_empty: "ring h l xs \<Longrightarrow> dl_list_empty l h \<longleftrightarrow> xs = []"
  by (cases xs) (auto simp: ring_def dl_list_empty_def)

text \<open>The head of a part of the list that ends at the head of the list.\<close>

lemma links_hd: "links h (a # ys) \<Longrightarrow> ys \<noteq> [] \<Longrightarrow> nxt h a = hd ys"
  by (cases ys) auto

lemma len_loop:
  "links h (ys @ [l]) \<Longrightarrow> l \<notin> set ys \<Longrightarrow> dl_len_loop l h (hd (ys @ [l])) n = Some (n + length ys)"
proof (induction ys arbitrary: n)
  case (Cons y ys)
  have "links h (ys @ [l])" "nxt h y = hd (ys @ [l])" using Cons.prems(1) by (cases ys; simp)+
  then show ?case using Cons by (subst dl_len_loop.simps) simp
qed (simp add: dl_len_loop.simps)

lemma find_loop:
  "links h (ys @ [l]) \<Longrightarrow> l \<notin> set ys \<Longrightarrow>
   dl_find stop l h (hd (ys @ [l])) = Some (case dropWhile (\<lambda>x. \<not> stop x) ys of [] \<Rightarrow> l | x # _ \<Rightarrow> x)"
proof (induction ys)
  case (Cons y ys)
  have "links h (ys @ [l])" "nxt h y = hd (ys @ [l])" using Cons.prems(1) by (cases ys; simp)+
  then show ?case using Cons by (subst dl_find.simps) simp
qed (simp add: dl_find.simps)

lemma each_loop:
  "links h (ys @ [l]) \<Longrightarrow> l \<notin> set ys \<Longrightarrow> dl_each body l h (hd (ys @ [l])) s = Some (fold body ys s)"
proof (induction ys arbitrary: s)
  case (Cons y ys)
  have "links h (ys @ [l])" "nxt h y = hd (ys @ [l])" using Cons.prems(1) by (cases ys; simp)+
  then show ?case using Cons by (subst dl_each.simps) simp
qed (simp add: dl_each.simps)

lemma ring_next: "ring h l xs \<Longrightarrow> nxt h l = hd (xs @ [l]) \<and> links h (xs @ [l]) \<and> l \<notin> set xs"
  by (cases xs) (auto simp: ring_def)

lemma ring_len: "ring h l xs \<Longrightarrow> dl_list_len l h = Some (length xs)"
  using ring_next [of h l xs] len_loop [of h xs l 0] by (simp add: dl_list_len_def)

lemma ring_find:
  "ring h l xs \<Longrightarrow> dl_find stop l h (nxt h l) = Some (case dropWhile (\<lambda>x. \<not> stop x) xs of [] \<Rightarrow> l | x # _ \<Rightarrow> x)"
  using ring_next [of h l xs] find_loop [of h xs l stop] by simp

lemma ring_each: "ring h l xs \<Longrightarrow> dl_each body l h (nxt h l) s = Some (fold body xs s)"
  using ring_next [of h l xs] each_loop [of h xs l body s] by simp

end
