(* ===== verification/Modules.thy ===== *)
theory Modules
  imports DlList CString
begin

text \<open>
  How the parts of the firmware find each other: the list of URI modules of the web server
  (web\_uri\_module.c) with the URI comparison it installs (web\_server.c), the table of start-up
  modules (global\_module.c), and the table of JSON API modules with the router in front of it
  (api\_json\_module.c, api\_json\_router.c).
\<close>

section \<open>URI modules\<close>

record 'f uri_module =
  um_init :: 'f
  um_exit :: 'f
  um_priority :: u8

text \<open>Element \<open>i\<close> of \<open>module_arr\<close> has its list node at address \<open>i + 2\<close>, the head is at 1.\<close>

record 'f uri_modules =
  um_list :: dl_heap
  um_arr :: "nat \<Rightarrow> 'f uri_module"
  um_count :: nat

definition URI_MODULE_MAX :: nat where "URI_MODULE_MAX = 8"
definition list_head :: nat where "list_head = 1"

definition uri_modules_start :: "dl_heap \<Rightarrow> (nat \<Rightarrow> 'f uri_module) \<Rightarrow> 'f uri_modules" where
  "uri_modules_start h arr = \<lparr>um_list = dl_list_init list_head h, um_arr = arr, um_count = 0\<rparr>"

definition uri_module_add :: "u8 \<Rightarrow> 'f \<Rightarrow> 'f \<Rightarrow> 'f uri_modules \<Rightarrow> (nat \<times> 'f uri_modules) option" where
  "uri_module_add priority ini exi s =
     (if URI_MODULE_MAX \<le> um_count s then Some (1, s)
      else
        let arr = (um_arr s)(um_count s := \<lparr>um_init = ini, um_exit = exi, um_priority = priority\<rparr>) in
        map_option (\<lambda>item. (0, s\<lparr>um_arr := arr, um_list := dl_list_add item (um_count s + 2) (um_list s),
                                  um_count := um_count s + 1\<rparr>))
          (dl_find (\<lambda>item. um_priority (arr (item - 2)) \<le> priority) list_head (um_list s) (nxt (um_list s) list_head)))"

text \<open>\<open>uri_module_init\<close> calls and registers the modules; the log is the order it does so in.\<close>

definition uri_module_init :: "'f uri_modules \<Rightarrow> 'f list option" where
  "uri_module_init s =
     dl_each (\<lambda>item log. log @ [um_init (um_arr s (item - 2))]) list_head (um_list s) (nxt (um_list s) list_head) []"

text \<open>The abstract value: the modules in list order.\<close>

definition holds_modules :: "'f uri_modules \<Rightarrow> 'f uri_module list \<Rightarrow> bool" where
  "holds_modules s ms \<longleftrightarrow>
     (\<exists>ns. ring (um_list s) list_head (map (\<lambda>n. n + 2) ns) \<and> (\<forall>n \<in> set ns. n < um_count s) \<and>
        length ns = um_count s \<and> ms = map (um_arr s) ns)"

text \<open>Where a module goes: behind the first one whose priority number is not larger, or to the front.\<close>

definition insert_module :: "'f uri_module \<Rightarrow> 'f uri_module list \<Rightarrow> 'f uri_module list" where
  "insert_module m ms =
     (case dropWhile (\<lambda>x. um_priority m < um_priority x) ms of
        [] \<Rightarrow> m # ms
      | y # zs \<Rightarrow> takeWhile (\<lambda>x. um_priority m < um_priority x) ms @ y # m # zs)"

lemma holds_start: "holds_modules (uri_modules_start h arr) []"
  by (simp add: holds_modules_def uri_modules_start_def ring_init)

lemma holds_modules_init: "holds_modules s ms \<Longrightarrow> uri_module_init s = Some (map um_init ms)"
proof -
  assume "holds_modules s ms"
  then obtain ns where r: "ring (um_list s) list_head (map (\<lambda>n. n + 2) ns)" and ms: "ms = map (um_arr s) ns"
    by (auto simp: holds_modules_def)
  have "fold (\<lambda>item log. log @ [um_init (um_arr s (item - 2))]) (map (\<lambda>n. n + 2) ns) log = log @ map um_init ms" for log
    unfolding ms by (induction ns arbitrary: log) simp_all
  then show ?thesis by (simp add: uri_module_init_def ring_each [OF r])
qed

lemma case_map: "(case map f xs of [] \<Rightarrow> a | x # _ \<Rightarrow> x) = (case xs of [] \<Rightarrow> a | x # _ \<Rightarrow> f x)"
  by (cases xs) simp_all

lemma holds_modules_add:
  assumes s: "holds_modules s ms" and n: "length ms < URI_MODULE_MAX"
  shows "\<exists>s'. uri_module_add p ini exi s = Some (0, s') \<and>
    holds_modules s' (insert_module \<lparr>um_init = ini, um_exit = exi, um_priority = p\<rparr> ms)"
proof -
  let ?new = "\<lparr>um_init = ini, um_exit = exi, um_priority = p\<rparr>"
  obtain ns where r: "ring (um_list s) list_head (map (\<lambda>n. n + 2) ns)" and b: "\<forall>n \<in> set ns. n < um_count s"
    and l: "length ns = um_count s" and ms: "ms = map (um_arr s) ns"
    using s by (auto simp: holds_modules_def)
  define arr where "arr = (um_arr s)(um_count s := ?new)"
  have arr: "arr n = um_arr s n" if "n \<in> set ns" for n using that b by (auto simp: arr_def)
  let ?P = "\<lambda>n. p < um_priority (um_arr s n)"
  let ?before = "takeWhile ?P ns"
  have dw: "dropWhile (\<lambda>item. \<not> um_priority (arr (item - 2)) \<le> p) (map (\<lambda>n. n + 2) ns) = map (\<lambda>n. n + 2) (dropWhile ?P ns)"
    using arr by (simp add: dropWhile_map comp_def not_le cong: dropWhile_cong)
  have dm: "dropWhile (\<lambda>x. um_priority ?new < um_priority x) ms = map (um_arr s) (dropWhile ?P ns)"
    "takeWhile (\<lambda>x. um_priority ?new < um_priority x) ms = map (um_arr s) ?before"
    by (simp_all add: ms dropWhile_map takeWhile_map comp_def)
  have new: "um_count s + 2 \<notin> set (list_head # map (\<lambda>n. n + 2) ns)" using b by (auto simp: list_head_def)
  have fin: "holds_modules (s\<lparr>um_arr := arr, um_list := h, um_count := um_count s + 1\<rparr>) (map (um_arr s) xs @ ?new # map (um_arr s) ys)"
    if "ring h list_head (map (\<lambda>n. n + 2) (xs @ um_count s # ys))" "ns = xs @ ys" for h xs ys
  proof -
    have "map arr (xs @ um_count s # ys) = map (um_arr s) xs @ ?new # map (um_arr s) ys"
      using arr that(2) by (simp add: arr_def)
    then show ?thesis
      using that b l unfolding holds_modules_def by (intro exI [of _ "xs @ um_count s # ys"]) (auto simp: less_Suc_eq)
  qed
  have f: "dl_find (\<lambda>item. um_priority (arr (item - 2)) \<le> p) list_head (um_list s) (nxt (um_list s) list_head) =
      Some (case dropWhile ?P ns of [] \<Rightarrow> list_head | x # _ \<Rightarrow> x + 2)"
    unfolding ring_find [OF r] dw using case_map [of list_head "\<lambda>n. n + 2" "dropWhile ?P ns"] by simp
  have add: "uri_module_add p ini exi s = Some (0, s\<lparr>um_arr := arr,
      um_list := dl_list_add (case dropWhile ?P ns of [] \<Rightarrow> list_head | x # _ \<Rightarrow> x + 2) (um_count s + 2) (um_list s),
      um_count := um_count s + 1\<rparr>)"
    using n l unfolding uri_module_add_def arr_def [symmetric] Let_def f by (simp add: ms)
  have ins: "insert_module ?new ms = (case dropWhile ?P ns of [] \<Rightarrow> ?new # map (um_arr s) ns
      | y # zs \<Rightarrow> map (um_arr s) ?before @ um_arr s y # ?new # map (um_arr s) zs)"
    unfolding insert_module_def dm by (cases "dropWhile ?P ns") (simp_all add: ms del: dropWhile_eq_Nil_conv)
  show ?thesis
  proof (cases "dropWhile ?P ns")
    case Nil
    have "ring (dl_list_add list_head (um_count s + 2) (um_list s)) list_head (map (\<lambda>n. n + 2) ([] @ um_count s # ns))"
      using ring_add_head [OF r new] by simp
    from fin [OF this] show ?thesis using add Nil unfolding ins by (simp del: dropWhile_eq_Nil_conv)
  next
    case (Cons y zs)
    have ns: "ns = (?before @ [y]) @ zs" using Cons takeWhile_dropWhile_id [of ?P ns] by simp
    have "ring (dl_list_add (last (list_head # map (\<lambda>n. n + 2) (?before @ [y]))) (um_count s + 2) (um_list s)) list_head
        (map (\<lambda>n. n + 2) (?before @ [y]) @ (um_count s + 2) # map (\<lambda>n. n + 2) zs)"
    proof (rule ring_add)
      show "ring (um_list s) list_head (map (\<lambda>n. n + 2) (?before @ [y]) @ map (\<lambda>n. n + 2) zs)"
        using r ns by (metis map_append)
      show "um_count s + 2 \<notin> set (list_head # map (\<lambda>n. n + 2) (?before @ [y]) @ map (\<lambda>n. n + 2) zs)"
        using new ns by (metis map_append append_Cons)
    qed
    then have "ring (dl_list_add (y + 2) (um_count s + 2) (um_list s)) list_head (map (\<lambda>n. n + 2) ((?before @ [y]) @ um_count s # zs))"
      by simp
    from fin [OF this ns] show ?thesis using add Cons unfolding ins by simp
  qed
qed

text \<open>Any sequence of registrations, and then the start of the web server.\<close>

primrec uri_add_all :: "(u8 \<times> 'f \<times> 'f) list \<Rightarrow> 'f uri_modules \<Rightarrow> (nat list \<times> 'f uri_modules) option" where
  "uri_add_all [] s = Some ([], s)"
| "uri_add_all (r # rs) s = (case uri_module_add (fst r) (fst (snd r)) (snd (snd r)) s of None \<Rightarrow> None
     | Some (err, s) \<Rightarrow> map_option (\<lambda>(errs, s). (err # errs, s)) (uri_add_all rs s))"

definition module_of :: "u8 \<times> 'f \<times> 'f \<Rightarrow> 'f uri_module" where
  "module_of r = \<lparr>um_init = fst (snd r), um_exit = snd (snd r), um_priority = fst r\<rparr>"

lemma length_insert_module [simp]: "length (insert_module m ms) = Suc (length ms)"
proof -
  have "length (takeWhile P ms) + length (dropWhile P ms) = length ms" for P :: "'a uri_module \<Rightarrow> bool"
    by (metis length_append takeWhile_dropWhile_id)
  from this [of "\<lambda>x. um_priority m < um_priority x"] show ?thesis
    by (auto simp: insert_module_def split: list.splits)
qed

lemma uri_add_all_refines:
  "holds_modules s ms \<Longrightarrow> length ms + length rs \<le> URI_MODULE_MAX \<Longrightarrow>
   \<exists>s'. uri_add_all rs s = Some (replicate (length rs) 0, s') \<and>
     holds_modules s' (fold (\<lambda>r. insert_module (module_of r)) rs ms)"
proof (induction rs arbitrary: s ms)
  case (Cons r rs)
  obtain t where t: "uri_module_add (fst r) (fst (snd r)) (snd (snd r)) s = Some (0, t)"
    "holds_modules t (insert_module (module_of r) ms)"
    using holds_modules_add [OF Cons.prems(1), of "fst r" "fst (snd r)" "snd (snd r)"] Cons.prems(2)
    by (auto simp: module_of_def)
  obtain s' where "uri_add_all rs t = Some (replicate (length rs) 0, s')"
    "holds_modules s' (fold (\<lambda>r. insert_module (module_of r)) rs (insert_module (module_of r) ms))"
    using Cons.IH [OF t(2)] Cons.prems(2) by auto
  then show ?case using t(1) by auto
qed simp

section \<open>Comparing URIs\<close>

text \<open>\<open>uri_match\<close> compares the first four bytes as one word when it is asked for three characters.
  \<open>r\<close> is the registered URI, \<open>t\<close> the requested one, of which \<open>match_upto\<close> characters count.\<close>

definition URI_WS_STR :: u32 where "URI_WS_STR = le32 0x2F 0x77 0x73 0"

definition uri_match :: "mem \<Rightarrow> mem \<Rightarrow> nat \<Rightarrow> bool option" where
  "uri_match r t match_upto =
     (if match_upto = 3 \<and> le32_at r 0 = URI_WS_STR then Some (le32_at t 0 = le32_at r 0)
      else map_option (\<lambda>n.
        if match_upto < n then False
        else if n = match_upto \<and> get_bytes 0 n r = get_bytes 0 n t then True
        else if r (n - 1) = 0x2F \<and> 1 < n then get_bytes 0 n r = get_bytes 0 n t
        else r (n - 1) = 0x2F) (strlen r 0))"

text \<open>What it should decide: equal, or below a directory; the root takes everything.\<close>

definition uri_covers :: "u8 list \<Rightarrow> u8 list \<Rightarrow> bool" where
  "uri_covers ref target \<longleftrightarrow>
     target = ref \<or> (last ref = 0x2F \<and> (if length ref = 1 then target \<noteq> [] else take (length ref) target = ref))"

lemma le32_eq: "le32 a b c d = le32 a' b' c' d' \<longleftrightarrow> a = a' \<and> b = b' \<and> c = c' \<and> d = d'"
proof
  assume "le32 a b c d = le32 a' b' c' d'"
  then have "[a, b, c, d] = [a', b', c', d']" by (simp only: le32_bytes_of_le32 [symmetric])
  then show "a = a' \<and> b = b' \<and> c = c' \<and> d = d'" by simp
qed simp

lemma string_at_3: "string_at m 0 [a, b, c] \<longleftrightarrow> m 0 = a \<and> a \<noteq> 0 \<and> m 1 = b \<and> b \<noteq> 0 \<and> m 2 = c \<and> c \<noteq> 0 \<and> m 3 = 0"
  by (simp add: numeral_2_eq_2 numeral_3_eq_3)

lemma le32_at_0: "le32_at m 0 = le32 (m 0) (m 1) (m 2) (m 3)"
  by (simp add: le32_at_def numeral_2_eq_2)

lemma ws_prefix: "le32_at m 0 = URI_WS_STR \<longleftrightarrow> m 0 = 0x2F \<and> m 1 = 0x77 \<and> m 2 = 0x73 \<and> m 3 = 0"
  by (simp only: le32_at_0 URI_WS_STR_def le32_eq)

lemma ws_string: "string_at m 0 (ascii ''/ws'') \<longleftrightarrow> le32_at m 0 = URI_WS_STR"
  by (simp add: ws_prefix ascii_def string_at_3 del: string_at_Cons)

lemma get_bytes_3: "get_bytes 0 3 m = [m 0, m 1, m 2]"
  by (simp add: get_bytes_def upt_rec numeral_2_eq_2)

lemma get_bytes_prefix: "k \<le> n \<Longrightarrow> get_bytes p k m = take k (get_bytes p n m)"
  by (rule nth_equalityI) simp_all

lemma covers_length: "uri_covers ref target \<Longrightarrow> length ref \<le> length target"
proof -
  have "take (length ref) target = ref \<Longrightarrow> length ref \<le> length target"
    by (metis length_take min.cobounded1)
  then show "uri_covers ref target \<Longrightarrow> length ref \<le> length target"
    by (auto simp: uri_covers_def Suc_le_eq split: if_splits)
qed

lemma uri_match_ws:
  assumes w: "le32_at r 0 = URI_WS_STR" and n: "get_bytes 0 3 t = target"
  shows "uri_match r t 3 = Some (target = ascii ''/ws'' \<and> t 3 = 0)"
proof -
  have t: "target = [t 0, t 1, t 2]" using n by (simp only: get_bytes_3)
  have "le32_at t 0 = le32_at r 0 \<longleftrightarrow> target = ascii ''/ws'' \<and> t 3 = 0"
    unfolding w ws_prefix t ascii_def by simp
  then show ?thesis using w by (simp add: uri_match_def)
qed

lemma uri_match_other:
  assumes r: "string_at r 0 ref" "ref \<noteq> []" and n: "length target = n" "get_bytes 0 n t = target"
    and ws: "\<not> (n = 3 \<and> le32_at r 0 = URI_WS_STR)"
  shows "uri_match r t n = Some (uri_covers ref target)"
proof (cases "length ref \<le> n")
  case True
  have g: "get_bytes 0 (length ref) r = ref" using r by (simp add: string_at_def)
  have l: "r (length ref - 1) = last ref"
    using string_at_nth [OF r(1), of "length ref - 1"] r(2) by (simp add: last_conv_nth)
  have tk: "get_bytes 0 (length ref) t = take (length ref) target"
    using get_bytes_prefix [OF True, of 0 t] n by simp
  have "uri_match r t n = Some (if length ref = n \<and> ref = take (length ref) target then True
      else if last ref = 0x2F \<and> 1 < length ref then ref = take (length ref) target else last ref = 0x2F)"
    unfolding uri_match_def strlen_string [OF r(1)] using ws True by (simp only: g l tk if_False option.map linorder_not_less)
      (simp add: not_less)
  moreover have "uri_covers ref target \<longleftrightarrow> (if length ref = n \<and> ref = take (length ref) target then True
      else if last ref = 0x2F \<and> 1 < length ref then ref = take (length ref) target else last ref = 0x2F)"
  proof -
    have e: "target = ref \<longleftrightarrow> length ref = n \<and> ref = take (length ref) target" using n(1) by auto
    have "target \<noteq> []" using n(1) True r(2) by auto
    moreover have "1 < length ref \<longleftrightarrow> length ref \<noteq> 1" using r(2) by (cases ref) auto
    ultimately show ?thesis unfolding uri_covers_def e by (simp split: if_splits) auto
  qed
  ultimately show ?thesis by simp
next
  case F: False
  then have "uri_match r t n = Some False" using ws by (auto simp: uri_match_def strlen_string [OF r(1)])
  moreover have "\<not> uri_covers ref target" using covers_length [of ref target] F n by auto
  ultimately show ?thesis by simp
qed

text \<open>The URI comparison of the web server decides equality, containment in a directory and the
  root for every registered and every requested URI, except that \<open>/ws\<close> is recognised only when
  nothing, not even a query, follows it.\<close>

theorem uri_match_decides:
  assumes r: "string_at r 0 ref" "ref \<noteq> []" and n: "length target = n" "get_bytes 0 n t = target"
  shows "uri_match r t n =
    Some (uri_covers ref target \<and> (if ref = ascii ''/ws'' \<and> n = 3 then t 3 = 0 else True))"
proof (cases "n = 3 \<and> le32_at r 0 = URI_WS_STR")
  case True
  then have "ref = ascii ''/ws''" using string_at_unique [OF r(1)] ws_string [of r] by simp
  moreover have "uri_covers (ascii ''/ws'') target \<longleftrightarrow> target = ascii ''/ws''"
    by (simp add: uri_covers_def ascii_def)
  ultimately show ?thesis using uri_match_ws [of r t target] True n by simp
next
  case False
  then have "\<not> (ref = ascii ''/ws'' \<and> n = 3)" using r(1) ws_string [of r] by auto
  then have "(if ref = ascii ''/ws'' \<and> n = 3 then t 3 = 0 else True) = True" by (rule if_not_P)
  then show ?thesis using uri_match_other [OF r n False] by simp
qed

theorem uri_match_decides_witness:
  "uri_match (mem_of (ascii ''/ws'')) (mem_of (ascii ''/ws?x'')) 3 = Some False \<and>
   uri_match (mem_of (ascii ''/'')) (mem_of (ascii ''/ws?x'')) 3 = Some True"
proof
  have t: "get_bytes 0 3 (mem_of (ascii ''/ws?x'')) = ascii ''/ws''" "mem_of (ascii ''/ws?x'') 3 = 0x3F"
    by code_simp+
  have "string_at (mem_of (ascii ''/ws'')) 0 (ascii ''/ws'')" by code_simp
  from uri_match_decides [OF this _ _ t(1)]
  show "uri_match (mem_of (ascii ''/ws'')) (mem_of (ascii ''/ws?x'')) 3 = Some False"
    using t(2) by (simp add: ascii_def)
  have "string_at (mem_of (ascii ''/'')) 0 (ascii ''/'')" by code_simp
  from uri_match_decides [OF this _ _ t(1)]
  show "uri_match (mem_of (ascii ''/'')) (mem_of (ascii ''/ws?x'')) 3 = Some True"
    by (simp add: ascii_def uri_covers_def)
qed

text \<open>C31: Registering URI modules keeps the intrusive list consistent: it holds every module in the
  position \<open>insert_module\<close> gives it, the web server initialises them in that order, and a ninth
  registration is refused.\<close>

theorem uri_modules_in_list_order:
  assumes "length rs \<le> URI_MODULE_MAX"
  shows "\<exists>s. uri_add_all rs (uri_modules_start h arr) = Some (replicate (length rs) 0, s) \<and>
    uri_module_init s = Some (map um_init (fold (\<lambda>r. insert_module (module_of r)) rs [])) \<and>
    (if length rs = URI_MODULE_MAX then uri_module_add p ini exi s = Some (1, s) else True)"
proof -
  obtain s where s: "uri_add_all rs (uri_modules_start h arr) = Some (replicate (length rs) 0, s)"
    "holds_modules s (fold (\<lambda>r. insert_module (module_of r)) rs [])"
    using uri_add_all_refines [OF holds_start, of rs] assms by auto
  have "length (fold (\<lambda>r. insert_module (module_of r)) rs ms) = length ms + length rs" for ms :: "'a uri_module list"
    by (induction rs arbitrary: ms) simp_all
  then have "length rs = length (fold (\<lambda>r. insert_module (module_of r)) rs [])" by simp
  then have "um_count s = length rs" using s(2) by (auto simp: holds_modules_def)
  then show ?thesis using s holds_modules_init by (auto simp: uri_module_add_def)
qed

text \<open>The three modules of the firmware, added in the order of their constructor priorities: the
  catch-all page comes before the API, although its number is larger.\<close>

theorem uri_modules_in_list_order_witness:
  "\<exists>s. uri_add_all [(101, ''ws'', []), (0x81, ''api'', []), (0x90, ''html'', [])]
       (uri_modules_start \<lparr>nxt = \<lambda>_. 0, prv = \<lambda>_. 0\<rparr> (\<lambda>_. \<lparr>um_init = [], um_exit = [], um_priority = 0\<rparr>)) =
     Some ([0, 0, 0], s) \<and> uri_module_init s = Some [''ws'', ''html'', ''api'']"
  using uri_modules_in_list_order [of "[(101, ''ws'', []), (0x81, ''api'', []), (0x90, ''html'', [])]"
      "\<lparr>nxt = \<lambda>_. 0, prv = \<lambda>_. 0\<rparr>" "\<lambda>_. \<lparr>um_init = [], um_exit = [], um_priority = 0\<rparr>"]
  by (simp add: URI_MODULE_MAX_def numeral_3_eq_3 insert_module_def module_of_def)

section \<open>Start-up modules\<close>

record 'f global_module_t =
  module_id :: u8
  init_fn :: "'f option"

record 'f global_modules =
  gm_arr :: "'f global_module_t list"
  gm_count :: nat

definition GLOBAL_MODULE_MAX :: nat where "GLOBAL_MODULE_MAX = 10"

datatype module_fault = Table_Overrun

definition global_start :: "'f global_modules" where
  "global_start = \<lparr>gm_arr = replicate GLOBAL_MODULE_MAX \<lparr>module_id = 0, init_fn = None\<rparr>, gm_count = 0\<rparr>"

text \<open>The test lets the number of entries through, one past the end of the table.\<close>

definition global_module_reg :: "'f global_module_t \<Rightarrow> 'f global_modules \<Rightarrow> module_fault + (nat \<times> 'f global_modules)" where
  "global_module_reg g s =
     (let i = unat (module_id g) in
      if GLOBAL_MODULE_MAX < i then Inr (1, s)
      else if length (gm_arr s) \<le> i then Inl Table_Overrun
      else if init_fn (gm_arr s ! i) \<noteq> None then Inr (1, s)
      else Inr (0, s\<lparr>gm_arr := (gm_arr s)[i := g], gm_count := gm_count s + 1\<rparr>))"

text \<open>The initialisers are called in the order of the table.\<close>

definition global_module_init :: "'f global_modules \<Rightarrow> 'f list" where
  "global_module_init s = List.map_filter init_fn (take GLOBAL_MODULE_MAX (gm_arr s))"

primrec global_reg_all :: "'f global_module_t list \<Rightarrow> 'f global_modules \<Rightarrow> module_fault + (nat list \<times> 'f global_modules)" where
  "global_reg_all [] s = Inr ([], s)"
| "global_reg_all (g # gs) s = (case global_module_reg g s of Inl e \<Rightarrow> Inl e
     | Inr (err, s) \<Rightarrow> map_sum (\<lambda>e. e) (\<lambda>(errs, s). (err # errs, s)) (global_reg_all gs s))"

section \<open>API modules\<close>

record 'h api_json_module_cfg =
  cfg_on_req :: "'h option"
  cfg_module_id :: u8

type_synonym 'h api_table = "'h option list"

definition API_MODULE_MAX :: nat where "API_MODULE_MAX = 10"
definition API_JSON_OK :: int where "API_JSON_OK = 0"
definition API_JSON_ASYNC :: int where "API_JSON_ASYNC = 1"
definition API_JSON_BAD_REQUEST :: int where "API_JSON_BAD_REQUEST = 2"
definition API_JSON_UNSUPPORTED_CMD :: int where "API_JSON_UNSUPPORTED_CMD = 4"
definition API_JSON_PROPERTY_ERR :: int where "API_JSON_PROPERTY_ERR = 5"
definition API_JSON_BUSY :: int where "API_JSON_BUSY = 6"

definition api_json_module_add ::
  "('h api_json_module_cfg \<Rightarrow> int \<times> 'h api_json_module_cfg) \<Rightarrow> 'h api_table \<Rightarrow> nat \<times> 'h api_table" where
  "api_json_module_add func t =
     (let (err, m) = func \<lparr>cfg_on_req = None, cfg_module_id = -1\<rparr>; i = unat (cfg_module_id m) in
      if err \<noteq> 0 then (1, t)
      else if API_MODULE_MAX \<le> i then (1, t)
      else if t ! i \<noteq> None then (1, t)
      else (0, t[i := cfg_on_req m]))"

text \<open>The handler that is called, with the command; \<open>None\<close> is the answer \<open>API_JSON_BAD_REQUEST\<close>.\<close>

definition api_json_module_call :: "u8 \<Rightarrow> u16 \<Rightarrow> 'h api_table \<Rightarrow> ('h \<times> u16) option" where
  "api_json_module_call i cmd t =
     (if API_MODULE_MAX \<le> unat i then None else map_option (\<lambda>h. (h, cmd)) (t ! unat i))"

text \<open>cJSON is a library: \<open>number\<close> is \<open>cJSON_GetObjectItem\<close>, \<open>cJSON_IsNumber\<close> and \<open>valueint\<close>.\<close>

definition api_json_route ::
  "('j \<Rightarrow> string \<Rightarrow> int option) \<Rightarrow> 'j option \<Rightarrow> 'h api_table \<Rightarrow> ('h \<times> u16) option" where
  "api_json_route number req t =
     (case req of None \<Rightarrow> None
      | Some j \<Rightarrow>
          (case (number j ''cmd'', number j ''module'') of
             (Some cmd, Some m) \<Rightarrow> api_json_module_call (word_of_int m) (word_of_int cmd) t
           | _ \<Rightarrow> None))"

section \<open>Registered modules are found\<close>

lemma reg_all_table:
  assumes "distinct (map (unat \<circ> module_id) gs)" "\<forall>g \<in> set gs. unat (module_id g) < length (gm_arr s)"
    and "length (gm_arr s) = GLOBAL_MODULE_MAX" "\<forall>g \<in> set gs. init_fn (gm_arr s ! unat (module_id g)) = None"
  shows "\<exists>s'. global_reg_all gs s = Inr (replicate (length gs) 0, s') \<and> length (gm_arr s') = GLOBAL_MODULE_MAX \<and>
    (\<forall>i < GLOBAL_MODULE_MAX. gm_arr s' ! i = (case find (\<lambda>g. unat (module_id g) = i) gs of None \<Rightarrow> gm_arr s ! i | Some g \<Rightarrow> g))"
  using assms
proof (induction gs arbitrary: s)
  case (Cons g gs)
  let ?i = "unat (module_id g)"
  let ?s = "s\<lparr>gm_arr := (gm_arr s)[?i := g], gm_count := gm_count s + 1\<rparr>"
  have r: "global_module_reg g s = Inr (0, ?s)"
    using Cons.prems(2-4) by (simp add: global_module_reg_def Let_def)
  have ne: "\<forall>h \<in> set gs. unat (module_id h) \<noteq> ?i" using Cons.prems(1) by (force simp: image_iff)
  have "\<forall>h \<in> set gs. init_fn (gm_arr ?s ! unat (module_id h)) = None"
  proof
    fix h assume h: "h \<in> set gs"
    then have "?i \<noteq> unat (module_id h)" using ne by force
    then show "init_fn (gm_arr ?s ! unat (module_id h)) = None" using Cons.prems(4) h by simp
  qed
  then obtain s' where s': "global_reg_all gs ?s = Inr (replicate (length gs) 0, s')" "length (gm_arr s') = GLOBAL_MODULE_MAX"
    "\<forall>i < GLOBAL_MODULE_MAX. gm_arr s' ! i = (case find (\<lambda>g. unat (module_id g) = i) gs of None \<Rightarrow> gm_arr ?s ! i | Some g \<Rightarrow> g)"
    using Cons.IH [of ?s] Cons.prems(1-3) by (simp add: comp_def) blast
  have none: "find (\<lambda>g. unat (module_id g) = ?i) gs = None" using ne by (auto simp: find_None_iff)
  have "gm_arr s' ! i = (case find (\<lambda>g. unat (module_id g) = i) (g # gs) of None \<Rightarrow> gm_arr s ! i | Some g \<Rightarrow> g)"
    if "i < GLOBAL_MODULE_MAX" for i
    using s'(3) that none Cons.prems(3) by (cases "i = ?i") (simp_all add: nth_list_update eq_commute [of _ i] split: option.splits)
  then show ?case using r s'(1,2) by simp
qed simp

lemma map_filter_upt: "n \<le> length xs \<Longrightarrow> List.map_filter f (take n xs) = List.map_filter (\<lambda>i. f (xs ! i)) [0..<n]"
proof (induction n)
  case (Suc n)
  then have "take (Suc n) xs = take n xs @ [xs ! n]" by (simp add: take_Suc_conv_app_nth)
  then show ?case using Suc by (simp add: List.map_filter_def)
qed (simp add: List.map_filter_def)

lemma set_map_filter: "y \<in> set (List.map_filter f xs) \<longleftrightarrow> (\<exists>x \<in> set xs. f x = Some y)"
  by (induction xs) (auto split: option.splits)

lemma map_filter_cong: "(\<And>x. x \<in> set xs \<Longrightarrow> f x = g x) \<Longrightarrow> List.map_filter f xs = List.map_filter g xs"
  by (induction xs) (auto split: option.splits)

text \<open>What the table of registered modules enumerates.\<close>

lemma find_by_key:
  assumes "distinct (map k gs)" "\<forall>g \<in> set gs. k g < n"
  shows "List.map_filter (\<lambda>i. find (\<lambda>g. k g = i) gs) [0..<n] = sort_key k gs"
proof -
  define L where "L = List.map_filter (\<lambda>i. find (\<lambda>g. k g = i) gs) [0..<n]"
  have keys: "map k (List.map_filter (\<lambda>i. find (\<lambda>g. k g = i) gs) is) = filter (\<lambda>i. i \<in> k ` set gs) is" for "is"
  proof (induction "is")
    case (Cons i "is")
    show ?case
    proof (cases "find (\<lambda>g. k g = i) gs")
      case None
      then have "i \<notin> k ` set gs" by (auto simp: find_None_iff)
      then show ?thesis using Cons None by simp
    next
      case (Some g)
      then have "g \<in> set gs" "k g = i" by (auto simp: find_Some_iff)
      then show ?thesis using Cons Some by auto
    qed
  qed simp
  have mem: "set L \<subseteq> set gs"
    unfolding L_def by (auto simp: set_map_filter find_Some_iff)
  have "map k L = map k (sort_key k gs)"
  proof (rule sorted_distinct_set_unique)
    show "sorted (map k L)" "distinct (map k L)" by (simp_all add: L_def keys sorted_wrt_filter)
    show "distinct (map k (sort_key k gs))" using assms(1) by (simp add: distinct_map)
    show "set (map k L) = set (map k (sort_key k gs))" unfolding L_def keys using assms(2) by auto
  qed simp
  moreover have "inj_on k (set L \<union> set (sort_key k gs))"
    using assms(1) mem by (auto simp: distinct_map intro: inj_on_subset)
  ultimately have "L = sort_key k gs" by (rule map_inj_on)
  then show ?thesis by (simp add: L_def)
qed

lemma modules_start_in_id_order:
  assumes "distinct (map module_id gs)" "\<forall>g \<in> set gs. unat (module_id g) < GLOBAL_MODULE_MAX \<and> init_fn g \<noteq> None"
  shows "\<exists>s. global_reg_all gs global_start = Inr (replicate (length gs) 0, s) \<and>
    global_module_init s = map (the \<circ> init_fn) (sort_key (unat \<circ> module_id) gs)"
proof -
  have d: "distinct (map (unat \<circ> module_id) gs)" using assms(1) by (auto simp: distinct_map inj_on_def dest: unsigned_word_eqI)
  obtain s where s: "global_reg_all gs global_start = Inr (replicate (length gs) 0, s)" "length (gm_arr s) = GLOBAL_MODULE_MAX"
    and arr: "\<forall>i < GLOBAL_MODULE_MAX. gm_arr s ! i =
      (case find (\<lambda>g. unat (module_id g) = i) gs of None \<Rightarrow> gm_arr global_start ! i | Some g \<Rightarrow> g)"
    using reg_all_table [OF d, of global_start] assms(2) by (auto simp: global_start_def)
  have "global_module_init s = List.map_filter (\<lambda>i. init_fn (gm_arr s ! i)) [0..<GLOBAL_MODULE_MAX]"
    using map_filter_upt [of GLOBAL_MODULE_MAX "gm_arr s" init_fn] s(2) by (simp add: global_module_init_def)
  also have "\<dots> = List.map_filter (\<lambda>i. map_option (the \<circ> init_fn) (find (\<lambda>g. unat (module_id g) = i) gs)) [0..<GLOBAL_MODULE_MAX]"
  proof (rule map_filter_cong)
    fix i assume "i \<in> set [0..<GLOBAL_MODULE_MAX]"
    then have i: "i < GLOBAL_MODULE_MAX" by simp
    show "init_fn (gm_arr s ! i) = map_option (the \<circ> init_fn) (find (\<lambda>g. unat (module_id g) = i) gs)"
    proof (cases "find (\<lambda>g. unat (module_id g) = i) gs")
      case None
      then show ?thesis using arr i by (simp add: global_start_def)
    next
      case (Some g)
      then have "g \<in> set gs" by (auto simp: find_Some_iff)
      then show ?thesis using arr i Some assms(2) by auto
    qed
  qed
  also have "\<dots> = map (the \<circ> init_fn) (List.map_filter (\<lambda>i. find (\<lambda>g. unat (module_id g) = i) gs) [0..<GLOBAL_MODULE_MAX])"
    by (simp add: List.map_filter_def filter_map comp_def option.map_sel)
  also have "\<dots> = map (the \<circ> init_fn) (sort_key (unat \<circ> module_id) gs)"
    using find_by_key [OF d, of GLOBAL_MODULE_MAX] assms(2) by (simp add: comp_def)
  finally show ?thesis using s by blast
qed

end
