(* ===== verification/Ssdp.thy ===== *)
theory Ssdp
  imports CString
begin

text \<open>
  Discovery of the probe (ssdp.c): the announcement, the answer to a search, the device description
  and the loop that serves the multicast socket.  \<open>ntoa\<close> is lwIP's \<open>ip4addr_ntoa\<close>; sockets are the
  datagrams they deliver.  The size of a pool buffer is memory\_pool.c's.
\<close>

section \<open>Text\<close>

definition BUFFER_SZ :: nat where "BUFFER_SZ = 2048"

definition crlf :: "u8 list" where "crlf = [0x0D, 0x0A]"
definition quoted :: "u8 list \<Rightarrow> u8 list" where "quoted t = 0x22 # t @ [0x22]"

text \<open>Formatting a byte with \<open>%02x\<close> and \<open>%02X\<close>.\<close>

definition hex_digit :: "bool \<Rightarrow> u8 \<Rightarrow> u8" where
  "hex_digit upper d = (if d < 10 then 0x30 + d else (if upper then 0x41 else 0x61) + (d - 10))"

definition hex2 :: "bool \<Rightarrow> u8 \<Rightarrow> u8 list" where
  "hex2 upper b = [hex_digit upper (b div 16), hex_digit upper (b mod 16)]"

lemma length_hex2 [simp]: "length (hex2 upper b) = 2"
  by (simp add: hex2_def)

text \<open>\<open>snprintf\<close>: at most \<open>n - 1\<close> characters and a zero; it answers the length of the whole text.\<close>

definition snprintf :: "nat \<Rightarrow> u8 list \<Rightarrow> mem \<Rightarrow> nat \<times> mem" where
  "snprintf n txt m = (length txt, if n = 0 then m else put_bytes 0 (take (n - 1) txt @ [0]) m)"

section \<open>State and messages\<close>

record ssdp_ctx =
  sd_ip :: u32
  sd_gw :: u32
  uuid_end :: "u8 list"
  friendly_name :: "u8 list"

definition SSDP_UUID_BASE :: "u8 list" where "SSDP_UUID_BASE = ascii ''9079d7e9-92c6-45b3-aa28-77cdcc''"
definition HEADER_SEARCH :: "u8 list" where "HEADER_SEARCH = ascii ''M-SEARCH''"
definition SSDP_DEVICE_TYPE :: "u8 list" where "SSDP_DEVICE_TYPE = ascii ''urn:schemas-upnp-org:device:Basic:1''"
definition SSDP_MODEL_NAME :: "u8 list" where "SSDP_MODEL_NAME = ascii ''wireless-proxy''"
definition SSDP_MODEL_URL :: "u8 list" where "SSDP_MODEL_URL = ascii ''https://yunsi.studio/''"

definition SSDP_DEFAULT_FRIENDLY_NAME :: "u8 list" where
  "SSDP_DEFAULT_FRIENDLY_NAME = [0xE5, 0x85, 0x81, 0xE6, 0x96, 0xAF, 0xE8, 0xB0, 0x83, 0xE8, 0xAF, 0x95, 0xE5, 0x99, 0xA8]"

definition SSDP_MANUFACTURER :: "u8 list" where
  "SSDP_MANUFACTURER = [0xE5, 0x85, 0x81, 0xE6, 0x96, 0xAF, 0xE5, 0xB7, 0xA5, 0xE4, 0xBD, 0x9C, 0xE5, 0xAE, 0xA4]"

definition uuid_text :: "ssdp_ctx \<Rightarrow> u8 list" where
  "uuid_text c = SSDP_UUID_BASE @ hex2 False (uuid_end c ! 0) @ hex2 False (uuid_end c ! 1) @ hex2 False (uuid_end c ! 2)"

definition notify_text :: "(u32 \<Rightarrow> u8 list) \<Rightarrow> ssdp_ctx \<Rightarrow> u8 list" where
  "notify_text ntoa c =
     ascii ''NOTIFY * HTTP/1.1'' @ crlf @
     ascii ''HOST: 239.255.255.250:1900'' @ crlf @
     ascii ''NTS: ssdp:alive'' @ crlf @
     ascii ''NT: upnp:rootdevice'' @ crlf @
     ascii ''CACHE-CONTROL: max-age=3600'' @ crlf @
     ascii ''SERVER: FreeRTOS/v10 UPnP/1.1 product/version'' @ crlf @
     ascii ''USN: uuid:'' @ uuid_text c @ ascii ''::upnp:rootdevice'' @ crlf @
     ascii ''LOCATION: http://'' @ ntoa (sd_ip c) @ ascii '':80/SSDP.xml'' @ crlf"

definition response_text :: "(u32 \<Rightarrow> u8 list) \<Rightarrow> ssdp_ctx \<Rightarrow> u8 list" where
  "response_text ntoa c =
     ascii ''HTTP/1.1 200 OK'' @ crlf @
     ascii ''EXT:'' @ crlf @
     ascii ''ST: upnp:rootdevice'' @ crlf @
     ascii ''CACHE-CONTROL: max-age=3600'' @ crlf @
     ascii ''SERVER: FreeRTOS/v10 UPnP/1.1 product/version'' @ crlf @
     ascii ''USN: uuid:'' @ uuid_text c @ ascii ''::upnp:rootdevice'' @ crlf @
     ascii ''LOCATION: http://'' @ ntoa (sd_ip c) @ ascii '':80/SSDP.xml'' @ crlf @
     crlf"

definition schema_text :: "(u32 \<Rightarrow> u8 list) \<Rightarrow> ssdp_ctx \<Rightarrow> u8 list" where
  "schema_text ntoa c =
     ascii ''<?xml version='' @ quoted (ascii ''1.0'') @ ascii ''?>'' @
     ascii ''<root xmlns='' @ quoted (ascii ''urn:schemas-upnp-org:device-1-0'') @ ascii ''>'' @
     ascii ''<specVersion>'' @
     ascii ''<major>1</major>'' @
     ascii ''<minor>0</minor>'' @
     ascii ''</specVersion>'' @
     ascii ''<URLBase>http://'' @ ntoa (sd_ip c) @ ascii '':80</URLBase>'' @
     ascii ''<device>'' @
     ascii ''<friendlyName>'' @ friendly_name c @ ascii ''</friendlyName>'' @
     ascii ''<deviceType>'' @ SSDP_DEVICE_TYPE @ ascii ''</deviceType>'' @
     ascii ''<presentationURL>/</presentationURL>'' @
     ascii ''<serialNumber>0000</serialNumber>'' @
     ascii ''<modelName>'' @ SSDP_MODEL_NAME @ ascii ''</modelName>'' @
     ascii ''<modelNumber>0000</modelNumber>'' @
     ascii ''<modelURL>'' @ SSDP_MODEL_URL @ ascii ''</modelURL>'' @
     ascii ''<manufacturer>'' @ SSDP_MANUFACTURER @ ascii ''</manufacturer>'' @
     ascii ''<manufacturerURL>https://yunsi.studio</manufacturerURL>'' @
     ascii ''</device>'' @
     ascii ''</root>'' @ crlf @
     crlf"

section \<open>Operations\<close>

datatype ssdp_fault = Past_Buffer

text \<open>A text is formatted into the buffer, closed with a zero at its full length, and sent.\<close>

definition send_text :: "u8 list \<Rightarrow> nat \<Rightarrow> mem \<Rightarrow> ssdp_fault + (u8 list \<times> mem)" where
  "send_text txt buf_len m =
     (let (msg_len, m) = snprintf buf_len txt m in
      if BUFFER_SZ \<le> msg_len then Inl Past_Buffer
      else let m = m(msg_len := 0) in Inr (get_bytes 0 msg_len m, m))"

definition ssdp_send_notify :: "(u32 \<Rightarrow> u8 list) \<Rightarrow> ssdp_ctx \<Rightarrow> nat \<Rightarrow> mem \<Rightarrow> ssdp_fault + (u8 list \<times> mem)" where
  "ssdp_send_notify ntoa c buf_len m = send_text (notify_text ntoa c) buf_len m"

definition ssdp_send_response :: "(u32 \<Rightarrow> u8 list) \<Rightarrow> ssdp_ctx \<Rightarrow> nat \<Rightarrow> mem \<Rightarrow> ssdp_fault + (u8 list \<times> mem)" where
  "ssdp_send_response ntoa c buf_len m = send_text (response_text ntoa c) buf_len m"

text \<open>A datagram: sender and content.  The comparison reads eight bytes of the buffer, whatever was
  received.\<close>

type_synonym datagram = "(u32 \<times> u16) \<times> u8 list"

definition ssdp_handle_data ::
  "(u32 \<Rightarrow> u8 list) \<Rightarrow> ssdp_ctx \<Rightarrow> u32 \<times> u16 \<Rightarrow> nat \<Rightarrow> mem \<Rightarrow> ssdp_fault + (datagram list \<times> mem)" where
  "ssdp_handle_data ntoa c remote len m =
     (if get_bytes 0 (length HEADER_SEARCH) m \<noteq> HEADER_SEARCH then Inr ([], m)
      else map_sum (\<lambda>e. e) (\<lambda>(sent, m). ([(remote, sent)], m)) (ssdp_send_response ntoa c len m))"

text \<open>The service loop, over the datagrams up to the receive error that ends it; what it sends.\<close>

primrec ssdp_service_handle_socket ::
  "(u32 \<Rightarrow> u8 list) \<Rightarrow> ssdp_ctx \<Rightarrow> datagram list \<Rightarrow> mem \<Rightarrow> ssdp_fault + datagram list" where
  "ssdp_service_handle_socket ntoa c [] m = Inr []"
| "ssdp_service_handle_socket ntoa c (d # ds) m =
     (let bytes = take BUFFER_SZ (snd d) in
      if bytes = [] then ssdp_service_handle_socket ntoa c ds m
      else if BUFFER_SZ \<le> length bytes then Inl Past_Buffer
      else
        case ssdp_handle_data ntoa c (fst d) BUFFER_SZ ((put_bytes 0 bytes m)(length bytes := 0)) of
          Inl e \<Rightarrow> Inl e
        | Inr (sent, m) \<Rightarrow> map_sum (\<lambda>e. e) ((@) sent) (ssdp_service_handle_socket ntoa c ds m))"

text \<open>The name has 32 bytes with its zero; the default is completed by two bytes of the address.\<close>

definition ssdp_set_friendly_name :: "u8 list \<Rightarrow> ssdp_ctx \<Rightarrow> ssdp_ctx" where
  "ssdp_set_friendly_name nam c =
     c\<lparr>friendly_name := take 31 (nam @ ascii ''-'' @ hex2 True (uuid_end c ! 1) @ ascii ''-'' @ hex2 True (uuid_end c ! 2))\<rparr>"

text \<open>\<open>stored\<close> is the name found in the flash, up to its zero.\<close>

definition ssdp_init :: "u8 list \<Rightarrow> u8 list option \<Rightarrow> ssdp_ctx \<Rightarrow> ssdp_ctx" where
  "ssdp_init mac stored c =
     (let c = c\<lparr>sd_ip := 0, sd_gw := 0, uuid_end := [mac ! 3, mac ! 4, mac ! 5]\<rparr> in
      case stored of Some nam \<Rightarrow> c\<lparr>friendly_name := nam\<rparr>
      | None \<Rightarrow> ssdp_set_friendly_name SSDP_DEFAULT_FRIENDLY_NAME c)"

definition ssdp_set_ip_gw :: "(u32 \<Rightarrow> u8 list) \<Rightarrow> u32 \<Rightarrow> u32 \<Rightarrow> mem \<Rightarrow> ssdp_ctx \<Rightarrow> (ssdp_fault + (u8 list \<times> mem)) \<times> ssdp_ctx" where
  "ssdp_set_ip_gw ntoa ip gw m c =
     (let c = c\<lparr>sd_ip := ip, sd_gw := gw\<rparr> in (ssdp_send_notify ntoa c BUFFER_SZ m, c))"

text \<open>The description page: the answer says whether it was complete.\<close>

definition ssdp_get_schema_str :: "(u32 \<Rightarrow> u8 list) \<Rightarrow> ssdp_ctx \<Rightarrow> nat \<Rightarrow> mem \<Rightarrow> ssdp_fault + (bool \<times> mem)" where
  "ssdp_get_schema_str ntoa c buf_len m =
     (let (write_size, m) = snprintf (buf_len - 1) (schema_text ntoa c) m in
      if BUFFER_SZ \<le> write_size then Inl Past_Buffer
      else Inr (write_size < buf_len - 1, m(write_size := 0)))"

section \<open>Messages fit\<close>

lemma length_crlf [simp]: "length crlf = 2"
  by (simp add: crlf_def)

lemma length_quoted [simp]: "length (quoted t) = length t + 2"
  by (simp add: quoted_def)

lemma length_uuid_text [simp]: "length (uuid_text c) = 36"
  by (simp add: uuid_text_def SSDP_UUID_BASE_def)

lemma response_fits: "length (ntoa (sd_ip c)) \<le> 15 \<Longrightarrow> length (response_text ntoa c) < BUFFER_SZ"
  by (simp add: response_text_def BUFFER_SZ_def)

lemma notify_fits: "length (ntoa (sd_ip c)) \<le> 15 \<Longrightarrow> length (notify_text ntoa c) < BUFFER_SZ"
  by (simp add: notify_text_def BUFFER_SZ_def)

lemma schema_fits:
  "length (ntoa (sd_ip c)) \<le> 15 \<Longrightarrow> length (friendly_name c) \<le> 31 \<Longrightarrow> length (schema_text ntoa c) < BUFFER_SZ - 2"
  by (simp add: schema_text_def BUFFER_SZ_def SSDP_DEVICE_TYPE_def SSDP_MODEL_NAME_def SSDP_MODEL_URL_def SSDP_MANUFACTURER_def)

lemma get_sent:
  assumes "length txt < n"
  shows "get_bytes 0 (length txt) ((put_bytes 0 (take (n - 1) txt @ [0]) m)(length txt := 0)) = txt"
  using assms by (intro nth_equalityI) (auto simp: put_bytes_def nth_append)

lemma send_text_fits: "length txt < BUFFER_SZ \<Longrightarrow> \<exists>m'. send_text txt BUFFER_SZ m = Inr (txt, m')"
  using get_sent [of _ BUFFER_SZ m] by (simp add: send_text_def snprintf_def BUFFER_SZ_def)

section \<open>Searches are answered\<close>

text \<open>What the comparison decides does not depend on what the buffer held before.\<close>

lemma search_seen:
  assumes "bytes \<noteq> []"
  shows "get_bytes 0 (length HEADER_SEARCH) ((put_bytes 0 bytes m)(length bytes := 0)) = HEADER_SEARCH \<longleftrightarrow>
    take (length HEADER_SEARCH) bytes = HEADER_SEARCH"
proof (cases "length HEADER_SEARCH \<le> length bytes")
  case True
  have "get_bytes 0 (length HEADER_SEARCH) ((put_bytes 0 bytes m)(length bytes := 0)) = take (length HEADER_SEARCH) bytes"
    using True by (intro nth_equalityI) (auto simp: put_bytes_def)
  then show ?thesis by simp
next
  case False
  have "0 \<notin> set HEADER_SEARCH" by (simp add: HEADER_SEARCH_def ascii_def)
  then have "get_bytes 0 (length HEADER_SEARCH) ((put_bytes 0 bytes m)(length bytes := 0)) \<noteq> HEADER_SEARCH"
    using False nth_mem [of "length bytes" HEADER_SEARCH]
    by (metis fun_upd_same add_0 linorder_not_le nth_get_bytes)
  moreover have "take (length HEADER_SEARCH) bytes \<noteq> HEADER_SEARCH"
    using False by (metis length_take min.cobounded1 min.commute order_refl)
  ultimately show ?thesis by simp
qed

text \<open>C30: The discovery service answers exactly the datagrams that begin with \<open>M-SEARCH\<close>, each to its
  sender, in order and with the complete response, whatever else arrives on the socket and whatever
  earlier datagrams left in the buffer.\<close>

theorem searches_answered:
  assumes "\<forall>d \<in> set ds. length (snd d) < BUFFER_SZ" "\<And>ip. length (ntoa ip) \<le> 15"
  shows "ssdp_service_handle_socket ntoa c ds m =
    Inr (map (\<lambda>d. (fst d, response_text ntoa c)) (filter (\<lambda>d. take (length HEADER_SEARCH) (snd d) = HEADER_SEARCH) ds))"
  using assms(1)
proof (induction ds arbitrary: m)
  case (Cons d ds)
  have s: "take BUFFER_SZ (snd d) = snd d" "\<not> BUFFER_SZ \<le> length (snd d)" using Cons.prems by simp_all
  have e: "HEADER_SEARCH \<noteq> []" by (simp add: HEADER_SEARCH_def ascii_def)
  obtain m' where "ssdp_send_response ntoa c BUFFER_SZ ((put_bytes 0 (snd d) m)(length (snd d) := 0)) = Inr (response_text ntoa c, m')"
    unfolding ssdp_send_response_def using send_text_fits response_fits assms(2) by metis
  then have h: "ssdp_handle_data ntoa c (fst d) BUFFER_SZ ((put_bytes 0 (snd d) m)(length (snd d) := 0)) =
      (if take (length HEADER_SEARCH) (snd d) = HEADER_SEARCH then Inr ([(fst d, response_text ntoa c)], m')
       else Inr ([], (put_bytes 0 (snd d) m)(length (snd d) := 0)))" if "snd d \<noteq> []"
    using search_seen [OF that, of m] by (simp add: ssdp_handle_data_def)
  have rest: "\<And>m. ssdp_service_handle_socket ntoa c ds m =
      Inr (map (\<lambda>d. (fst d, response_text ntoa c)) (filter (\<lambda>d. take (length HEADER_SEARCH) (snd d) = HEADER_SEARCH) ds))"
    using Cons by simp
  show ?case
  proof (cases "snd d = []")
    case True
    then show ?thesis using e by (simp add: rest)
  next
    case False
    then show ?thesis using h [OF False] by (simp add: s rest)
  qed
qed simp

definition search :: "u8 list" where "search = ascii ''M-SEARCH * HTTP/1.1''"

theorem searches_answered_witness:
  "ssdp_service_handle_socket (\<lambda>_. []) \<lparr>sd_ip = 0, sd_gw = 0, uuid_end = [1, 2, 3], friendly_name = []\<rparr>
     [((1, 1900), search), ((2, 1900), [0x4D])] (\<lambda>_. 0) =
   Inr [((1, 1900), response_text (\<lambda>_. []) \<lparr>sd_ip = 0, sd_gw = 0, uuid_end = [1, 2, 3], friendly_name = []\<rparr>)]"
  using searches_answered [of "[((1, 1900), search), ((2, 1900), [0x4D])]" "\<lambda>_. []"]
  by (simp add: search_def HEADER_SEARCH_def BUFFER_SZ_def ascii_def)

end
