(* ===== verification/WebApi.thy ===== *)
theory WebApi
  imports Modules Ssdp "HOL-Library.Multiset"
begin

text \<open>
  The web server's request path: the pool of message buffers (memory\_pool.c), the two request
  queues and their tasks (request\_runner.c), the handlers of \<open>POST /api\<close> (uri\_api.c), of the
  WebSocket \<open>/ws\<close> (uri\_ws.c) and of the pages (uri\_html\_base.c).  The RTOS queues are the
  parameter \<open>queue_api\<close>, cJSON is \<open>json_api\<close>; what the network and the API modules answer comes
  from the environment of each step.  A buffer is named by its pointer, 1 to 7.
\<close>

section \<open>Libraries\<close>

record 'q queue_api =
  q_create :: "nat \<Rightarrow> 'q"
  q_send :: "nat \<Rightarrow> 'q \<Rightarrow> 'q option"
  q_recv :: "'q \<Rightarrow> (nat \<times> 'q) option"

text \<open>\<open>xQueueCreate\<close>, \<open>xQueueSend\<close> and \<open>xQueueReceive\<close>: a bounded first-in first-out queue, with its
  capacity and its content as the abstract value.\<close>

definition fifo_queue :: "'q queue_api \<Rightarrow> ('q \<Rightarrow> nat \<times> nat list) \<Rightarrow> bool" where
  "fifo_queue Q \<alpha> \<longleftrightarrow>
     (\<forall>n. \<alpha> (q_create Q n) = (n, [])) \<and>
     (\<forall>x q. case q_send Q x q of
         None \<Rightarrow> fst (\<alpha> q) \<le> length (snd (\<alpha> q))
       | Some q' \<Rightarrow> length (snd (\<alpha> q)) < fst (\<alpha> q) \<and> \<alpha> q' = (fst (\<alpha> q), snd (\<alpha> q) @ [x])) \<and>
     (\<forall>q. case q_recv Q q of
         None \<Rightarrow> snd (\<alpha> q) = []
       | Some (x, q') \<Rightarrow> snd (\<alpha> q) \<noteq> [] \<and> x = hd (snd (\<alpha> q)) \<and> \<alpha> q' = (fst (\<alpha> q), tl (snd (\<alpha> q))))"

lemma fifo_create: "fifo_queue Q \<alpha> \<Longrightarrow> \<alpha> (q_create Q n) = (n, [])"
  by (simp add: fifo_queue_def)

lemma fifo_send:
  assumes "fifo_queue Q \<alpha>"
  shows "q_send Q x q = None \<Longrightarrow> fst (\<alpha> q) \<le> length (snd (\<alpha> q))"
    "q_send Q x q = Some q' \<Longrightarrow> length (snd (\<alpha> q)) < fst (\<alpha> q) \<and> \<alpha> q' = (fst (\<alpha> q), snd (\<alpha> q) @ [x])"
proof -
  have "case q_send Q x q of None \<Rightarrow> fst (\<alpha> q) \<le> length (snd (\<alpha> q))
      | Some q' \<Rightarrow> length (snd (\<alpha> q)) < fst (\<alpha> q) \<and> \<alpha> q' = (fst (\<alpha> q), snd (\<alpha> q) @ [x])"
    using assms unfolding fifo_queue_def by blast
  then show "q_send Q x q = None \<Longrightarrow> fst (\<alpha> q) \<le> length (snd (\<alpha> q))"
    "q_send Q x q = Some q' \<Longrightarrow> length (snd (\<alpha> q)) < fst (\<alpha> q) \<and> \<alpha> q' = (fst (\<alpha> q), snd (\<alpha> q) @ [x])"
    by simp_all
qed

lemma fifo_recv:
  assumes "fifo_queue Q \<alpha>"
  shows "q_recv Q q = None \<Longrightarrow> snd (\<alpha> q) = []"
    "q_recv Q q = Some (x, q') \<Longrightarrow> snd (\<alpha> q) = x # snd (\<alpha> q') \<and> fst (\<alpha> q') = fst (\<alpha> q)"
proof -
  have "case q_recv Q q of None \<Rightarrow> snd (\<alpha> q) = []
      | Some (x, q') \<Rightarrow> snd (\<alpha> q) \<noteq> [] \<and> x = hd (snd (\<alpha> q)) \<and> \<alpha> q' = (fst (\<alpha> q), tl (snd (\<alpha> q)))"
    using assms unfolding fifo_queue_def by blast
  then show "q_recv Q q = None \<Longrightarrow> snd (\<alpha> q) = []"
    "q_recv Q q = Some (x, q') \<Longrightarrow> snd (\<alpha> q) = x # snd (\<alpha> q') \<and> fst (\<alpha> q') = fst (\<alpha> q)"
    by auto
qed

record 'j json_api =
  j_parse :: "u8 list \<Rightarrow> 'j option"
  j_print :: "'j \<Rightarrow> nat \<Rightarrow> u8 list option"

section \<open>State\<close>

datatype kind = Http | Ws

datatype page = Ws_Script | Ssdp_Schema | Index

text \<open>The fields of \<open>post_request_t\<close> and \<open>ws_msg_t\<close> that outlive the handler.\<close>

record 'j msg =
  m_in :: "'j option"
  m_out :: "'j option"
  m_status :: int
  m_kind :: kind
  m_fd :: nat
  m_text :: "u8 list"

datatype long_pc = Long_Wait | Long_Push nat

text \<open>What leaves the device or matters to the bookkeeping, oldest first: a response, a request
  handed to the long-running task, the end of one, a session closed.\<close>

datatype web_event =
  Http_Reply nat nat "u8 list option"
| Ws_Reply nat "u8 list option"
| Queued nat | Done nat | Closed nat | Page page

record ('j, 'q) web =
  pool :: 'q
  long_q :: 'q
  out_q :: 'q
  work :: "nat list"
  long_task :: long_pc
  msgs :: "nat \<Rightarrow> 'j msg"
  json_live :: int
  json_lost :: int
  valid_fd :: "nat list"
  lost :: "nat list"
  ssdp_buf :: "nat list"
  w_log :: "web_event list"

datatype web_fault = Pool_Empty | Pool_Full

definition say :: "web_event \<Rightarrow> ('j, 'q) web \<Rightarrow> ('j, 'q) web" where
  "say ev s = s\<lparr>w_log := w_log s @ [ev]\<rparr>"

definition upd :: "nat \<Rightarrow> ('j msg \<Rightarrow> 'j msg) \<Rightarrow> ('j, 'q) web \<Rightarrow> ('j, 'q) web" where
  "upd p f s = s\<lparr>msgs := (msgs s)(p := f (msgs s p))\<rparr>"

text \<open>How many documents are allocated is counted; \<open>forget\<close> counts those whose last pointer goes out
  of scope.\<close>

definition docs :: "'j option \<Rightarrow> int" where
  "docs j = (if j = None then 0 else 1)"

definition made :: "'j option \<Rightarrow> ('j, 'q) web \<Rightarrow> ('j, 'q) web" where
  "made j s = s\<lparr>json_live := json_live s + docs j\<rparr>"

definition cJSON_Delete :: "'j option \<Rightarrow> ('j, 'q) web \<Rightarrow> ('j, 'q) web" where
  "cJSON_Delete j s = s\<lparr>json_live := json_live s - docs j\<rparr>"

definition forget :: "'j option \<Rightarrow> ('j, 'q) web \<Rightarrow> ('j, 'q) web" where
  "forget j s = s\<lparr>json_lost := json_lost s + docs j\<rparr>"

section \<open>The buffer pool\<close>

definition BUFFER_NR :: nat where "BUFFER_NR = 7"

definition all_buffers :: "nat list" where "all_buffers = [1..<BUFFER_NR + 1]"

primrec pool_fill :: "'q queue_api \<Rightarrow> nat list \<Rightarrow> 'q \<Rightarrow> 'q option" where
  "pool_fill Q [] q = Some q"
| "pool_fill Q (p # ps) q = (case q_send Q p q of None \<Rightarrow> None | Some q \<Rightarrow> pool_fill Q ps q)"

definition memory_pool_init :: "'q queue_api \<Rightarrow> 'q option" where
  "memory_pool_init Q = pool_fill Q all_buffers (q_create Q BUFFER_NR)"

text \<open>A get that times out leaves the pointer null and fails the assertion.\<close>

definition memory_pool_get :: "'q queue_api \<Rightarrow> ('j, 'q) web \<Rightarrow> web_fault + (nat \<times> ('j, 'q) web)" where
  "memory_pool_get Q s = (case q_recv Q (pool s) of None \<Rightarrow> Inl Pool_Empty | Some (p, q) \<Rightarrow> Inr (p, s\<lparr>pool := q\<rparr>))"

definition memory_pool_put :: "'q queue_api \<Rightarrow> nat \<Rightarrow> ('j, 'q) web \<Rightarrow> web_fault + ('j, 'q) web" where
  "memory_pool_put Q p s = (case q_send Q p (pool s) of None \<Rightarrow> Inl Pool_Full | Some q \<Rightarrow> Inr (s\<lparr>pool := q\<rparr>))"

section \<open>Request queues\<close>

definition req_queue_push_long_run :: "'q queue_api \<Rightarrow> nat \<Rightarrow> ('j, 'q) web \<Rightarrow> ('j, 'q) web option" where
  "req_queue_push_long_run Q p s = map_option (\<lambda>q. s\<lparr>long_q := q\<rparr>) (q_send Q p (long_q s))"

definition req_queue_push_send_out :: "'q queue_api \<Rightarrow> nat \<Rightarrow> ('j, 'q) web \<Rightarrow> ('j, 'q) web option" where
  "req_queue_push_send_out Q p s = map_option (\<lambda>q. s\<lparr>out_q := q\<rparr>) (q_send Q p (out_q s))"

section \<open>POST /api\<close>

text \<open>\<open>sizeof (post_request_t)\<close> and \<open>sizeof (ws_msg_t)\<close> on the 32-bit targets.\<close>

definition sizeof_post_request :: nat where "sizeof_post_request = 44"
definition sizeof_ws_msg :: nat where "sizeof_ws_msg = 64"

text \<open>The request's length and body (\<open>None\<close> when the receive fails) and what the API answers to it:
  the status and the output document.\<close>

record 'j post_env =
  pe_len :: nat
  pe_recv :: "u8 list option"
  pe_call :: "'j \<Rightarrow> int \<times> 'j option"

text \<open>Without an output document and without an error, the body is the text still in the buffer: the
  request (\<open>None\<close> stands for it).\<close>

definition uri_api_send_out :: "'j json_api \<Rightarrow> nat \<Rightarrow> int \<Rightarrow> ('j, 'q) web \<Rightarrow> ('j, 'q) web" where
  "uri_api_send_out J p err s =
     (let s = cJSON_Delete (m_in (msgs s p)) s in
      case m_out (msgs s p) of
        Some out \<Rightarrow>
          (let s = cJSON_Delete (Some out) s in
           case j_print J out (BUFFER_SZ - sizeof_post_request - 5) of
             Some text \<Rightarrow> say (Http_Reply p 200 (Some text)) s
           | None \<Rightarrow> say (Http_Reply p 500 (Some [])) s)
      | None \<Rightarrow> say (if err \<noteq> 0 then Http_Reply p 500 (Some []) else Http_Reply p 200 None) s)"

definition api_end :: "'q queue_api \<Rightarrow> nat \<Rightarrow> nat \<Rightarrow> ('j, 'q) web \<Rightarrow> web_fault + ('j, 'q) web" where
  "api_end Q p code s =
     memory_pool_put Q p (say (Http_Reply p code (Some [])) (cJSON_Delete (m_in (msgs s p)) s))"

text \<open>What follows the call of the API, and the whole handler.\<close>

definition api_routed :: "'q queue_api \<Rightarrow> 'j json_api \<Rightarrow> int \<times> 'j option \<Rightarrow> nat \<Rightarrow> ('j, 'q) web \<Rightarrow> web_fault + ('j, 'q) web" where
  "api_routed Q J answer p s =
     (let (err, out) = answer; s = made out (upd p (\<lambda>m. m\<lparr>m_out := out\<rparr>) s) in
      if err = API_JSON_ASYNC then
        (case req_queue_push_long_run Q p s of
           None \<Rightarrow> api_end Q p 503 (forget out s)
         | Some s \<Rightarrow> Inr (say (Queued p) s))
      else if err \<noteq> API_JSON_OK then api_end Q p 400 (forget out s)
      else if out = None then api_end Q p 200 s
      else memory_pool_put Q p (uri_api_send_out J p 0 s))"

definition api_post_handler ::
  "'q queue_api \<Rightarrow> 'j json_api \<Rightarrow> 'j post_env \<Rightarrow> ('j, 'q) web \<Rightarrow> web_fault + ('j, 'q) web" where
  "api_post_handler Q J E s =
     (if BUFFER_SZ - sizeof_post_request < pe_len E then Inr s
      else case memory_pool_get Q s of Inl e \<Rightarrow> Inl e
      | Inr (p, s) \<Rightarrow>
          (case pe_recv E of None \<Rightarrow> memory_pool_put Q p s
           | Some text \<Rightarrow>
               (let req = j_parse J text; s = made req (upd p (\<lambda>m. m\<lparr>m_in := req, m_kind := Http\<rparr>) s) in
                case req of None \<Rightarrow> api_end Q p 400 s
                | Some j \<Rightarrow> api_routed Q J (pe_call E j) p s)))"

definition api_async_send_out_cb ::
  "'q queue_api \<Rightarrow> 'j json_api \<Rightarrow> nat \<Rightarrow> int \<Rightarrow> ('j, 'q) web \<Rightarrow> web_fault + ('j, 'q) web" where
  "api_async_send_out_cb Q J p status s =
     (let s = (if status \<noteq> API_JSON_OK then say (Closed p) s else s) in
      memory_pool_put Q p (say (Done p) (uri_api_send_out J p status s)))"

section \<open>WebSocket requests\<close>

definition error_msg :: "string \<Rightarrow> string \<Rightarrow> u8 list" where
  "error_msg err_msg err_code =
     (let q = [CHR 0x22] in
      ascii (''{'' @ q @ ''error'' @ q @ '':'' @ q @ err_msg @ q @ '', '' @ q @ ''code'' @ q @ '':'' @ err_code @ ''}''))"

definition MSG_JSON_ERROR :: "u8 list" where "MSG_JSON_ERROR = error_msg ''JSON parse error'' ''3''"
definition MSG_SEND_JSON_ERROR :: "u8 list" where "MSG_SEND_JSON_ERROR = error_msg ''JSON generation error'' ''3''"

definition ws_set_err_msg :: "int \<Rightarrow> u8 list" where
  "ws_set_err_msg ret =
     (if ret = API_JSON_BAD_REQUEST then error_msg ''Bad json request'' ''2''
      else if ret = API_JSON_BUSY then error_msg ''Resource busy'' ''6''
      else if ret = API_JSON_UNSUPPORTED_CMD then error_msg ''Unsupported cmd'' ''4''
      else if ret = API_JSON_PROPERTY_ERR then error_msg ''Property error'' ''5''
      else error_msg ''Internal error'' ''3'')"

text \<open>The client table: the first \<open>client_count\<close> entries of \<open>valid_fd\<close>.\<close>

definition CONFIG_LWIP_MAX_SOCKETS :: nat where "CONFIG_LWIP_MAX_SOCKETS = 16"

definition ws_add_fd :: "nat \<Rightarrow> nat list \<Rightarrow> nat \<times> nat list" where
  "ws_add_fd fd fds = (if CONFIG_LWIP_MAX_SOCKETS \<le> length fds then (1, fds) else (0, fds @ [fd]))"

text \<open>The entry is overwritten with the last one.\<close>

function ws_rm_from :: "nat \<Rightarrow> nat \<Rightarrow> nat list \<Rightarrow> nat list" where
  "ws_rm_from i fd fds =
     (if i < length fds then
        (if fds ! i \<noteq> fd then ws_rm_from (Suc i) fd fds else butlast (fds[i := last fds]))
      else fds)"
  by pat_completeness auto
termination by (relation "measure (\<lambda>(i, fd, fds). length fds - i)") simp_all

declare ws_rm_from.simps [simp del]

lemma ws_rm_length: "length (ws_rm_from i fd fds) \<le> length fds"
  by (induction i fd fds rule: ws_rm_from.induct) (subst ws_rm_from.simps, simp)

definition ws_rm_fd :: "nat \<Rightarrow> nat list \<Rightarrow> nat list" where
  "ws_rm_fd fd fds = ws_rm_from 0 fd fds"

text \<open>The heartbeat goes through the table by index while it removes entries.\<close>

function hb_from :: "(nat \<Rightarrow> bool) \<Rightarrow> nat \<Rightarrow> nat list \<Rightarrow> nat list \<times> nat list" where
  "hb_from alive i fds =
     (if i < length fds then
        (if alive (fds ! i) then hb_from alive (Suc i) fds
         else apfst (\<lambda>closed. fds ! i # closed) (hb_from alive (Suc i) (ws_rm_fd (fds ! i) fds)))
      else ([], fds))"
  by pat_completeness auto
termination
  by (relation "measure (\<lambda>(alive, i, fds). length fds - i)") (auto simp: ws_rm_fd_def intro!: le_less_trans [OF diff_le_mono [OF ws_rm_length]])

declare hb_from.simps [simp del]

definition ws_broadcast_heartbeat :: "(nat \<Rightarrow> bool) \<Rightarrow> nat list \<Rightarrow> nat list \<times> nat list" where
  "ws_broadcast_heartbeat alive fds = hb_from alive 0 fds"

definition ws_on_close :: "'q queue_api \<Rightarrow> nat \<Rightarrow> nat \<Rightarrow> ('j, 'q) web \<Rightarrow> web_fault + ('j, 'q) web" where
  "ws_on_close Q fd p s = memory_pool_put Q p (say (Closed fd) (s\<lparr>valid_fd := ws_rm_fd fd (valid_fd s)\<rparr>))"

text \<open>The text printed into the frame, or the message about a document that does not fit.  A
  missing document cannot be printed.\<close>

definition json_to_text :: "'j json_api \<Rightarrow> nat \<Rightarrow> ('j, 'q) web \<Rightarrow> u8 list \<times> ('j, 'q) web" where
  "json_to_text J p s =
     (let out = m_out (msgs s p); s = cJSON_Delete out s in
      case Option.bind out (\<lambda>j. j_print J j (BUFFER_SZ - sizeof_ws_msg - 5)) of
        Some text \<Rightarrow> (text, s)
      | None \<Rightarrow> (MSG_SEND_JSON_ERROR, s))"

datatype ws_frame = Ws_Continue | Ws_Text "u8 list option" | Ws_Binary | Ws_Close | Ws_Ping bool | Ws_Pong | Ws_Other

text \<open>A frame on socket \<open>we_fd\<close>: its length and type, \<open>None\<close> when receiving the header fails; a text
  that cannot be received is \<open>Ws_Text None\<close>, a ping carries whether receiving and answering it
  succeed.\<close>

record 'j ws_req =
  we_fd :: nat
  we_frame :: "(nat \<times> ws_frame) option"
  we_call :: "'j \<Rightarrow> int \<times> 'j option"

definition ws_end :: "'q queue_api \<Rightarrow> nat \<Rightarrow> nat \<Rightarrow> u8 list option \<Rightarrow> ('j, 'q) web \<Rightarrow> web_fault + ('j, 'q) web" where
  "ws_end Q fd p body s = memory_pool_put Q p (say (Ws_Reply fd body) (cJSON_Delete (m_in (msgs s p)) s))"

definition ws_routed :: "'q queue_api \<Rightarrow> 'j json_api \<Rightarrow> nat \<Rightarrow> int \<times> 'j option \<Rightarrow> nat \<Rightarrow> ('j, 'q) web \<Rightarrow> web_fault + ('j, 'q) web" where
  "ws_routed Q J fd answer p s =
     (let (ret, out) = answer; s = made out (upd p (\<lambda>m. m\<lparr>m_out := out\<rparr>) s) in
      if ret = API_JSON_ASYNC then
        (case req_queue_push_long_run Q p s of
           None \<Rightarrow> ws_end Q fd p None (forget out s)
         | Some s \<Rightarrow> Inr (say (Queued p) s))
      else if ret \<noteq> API_JSON_OK then ws_end Q fd p (Some (ws_set_err_msg ret)) (forget out s)
      else if out = None then ws_end Q fd p None s
      else (let (text, s) = json_to_text J p s in ws_end Q fd p (Some text) s))"

definition ws_on_text_data ::
  "'q queue_api \<Rightarrow> 'j json_api \<Rightarrow> 'j ws_req \<Rightarrow> u8 list \<Rightarrow> nat \<Rightarrow> ('j, 'q) web \<Rightarrow> web_fault + ('j, 'q) web" where
  "ws_on_text_data Q J E text p s =
     (let req = j_parse J text;
          s = made req (upd p (\<lambda>m. m\<lparr>m_in := req, m_kind := Ws, m_fd := we_fd E\<rparr>) s)
      in case req of None \<Rightarrow> memory_pool_put Q p (say (Ws_Reply (we_fd E) (Some MSG_JSON_ERROR)) s)
         | Some j \<Rightarrow> ws_routed Q J (we_fd E) (we_call E j) p s)"

definition ws_req_handler ::
  "'q queue_api \<Rightarrow> 'j json_api \<Rightarrow> 'j ws_req \<Rightarrow> ('j, 'q) web \<Rightarrow> web_fault + ('j, 'q) web" where
  "ws_req_handler Q J E s =
     (case memory_pool_get Q s of Inl e \<Rightarrow> Inl e
      | Inr (p, s) \<Rightarrow>
          (case we_frame E of None \<Rightarrow> ws_on_close Q (we_fd E) p s
           | Some (len, frame) \<Rightarrow>
               if BUFFER_SZ - sizeof_ws_msg < len then ws_on_close Q (we_fd E) p s
               else (case frame of
                   Ws_Text None \<Rightarrow> ws_on_close Q (we_fd E) p s
                 | Ws_Text (Some text) \<Rightarrow> ws_on_text_data Q J E text p s
                 | Ws_Close \<Rightarrow> ws_on_close Q (we_fd E) p s
                 | Ws_Ping ok \<Rightarrow> if ok then memory_pool_put Q p s else ws_on_close Q (we_fd E) p s
                 | _ \<Rightarrow> memory_pool_put Q p s)))"

text \<open>The flag says whether \<open>httpd_queue_work\<close> accepts the message.\<close>

definition ws_async_send_out_cb ::
  "'q queue_api \<Rightarrow> 'j json_api \<Rightarrow> bool \<Rightarrow> nat \<Rightarrow> int \<Rightarrow> ('j, 'q) web \<Rightarrow> web_fault + ('j, 'q) web" where
  "ws_async_send_out_cb Q J queued p status s =
     (let s = say (Done p) (cJSON_Delete (m_in (msgs s p)) s) in
      if status \<noteq> API_JSON_OK then
        memory_pool_put Q p (say (Ws_Reply (m_fd (msgs s p)) (Some (ws_set_err_msg status))) (forget (m_out (msgs s p)) s))
      else
        (let (text, s) = json_to_text J p s; s = upd p (\<lambda>m. m\<lparr>m_text := text\<rparr>) s in
         if queued then Inr (s\<lparr>work := work s @ [p]\<rparr>) else memory_pool_put Q p s))"

text \<open>The web server's task runs a queued message.\<close>

definition ws_async_resp :: "'q queue_api \<Rightarrow> ('j, 'q) web \<Rightarrow> (web_fault + ('j, 'q) web) option" where
  "ws_async_resp Q s = (case work s of [] \<Rightarrow> None
     | p # ps \<Rightarrow> Some (memory_pool_put Q p
         (say (Ws_Reply (m_fd (msgs s p)) (Some (m_text (msgs s p)))) (s\<lparr>work := ps\<rparr>))))"

section \<open>Pages\<close>

text \<open>The first four characters of the URI choose the page.\<close>

definition URI_WS_DOT :: u32 where "URI_WS_DOT = le32 0x2F 0x77 0x73 0x2E"
definition URI_SSDP :: u32 where "URI_SSDP = le32 0x2F 0x53 0x53 0x44"

definition html_page :: "mem \<Rightarrow> page" where
  "html_page uri =
     (if le32_at uri 0 = URI_WS_DOT then Ws_Script
      else if le32_at uri 0 = URI_SSDP then Ssdp_Schema
      else Index)"

text \<open>The SSDP description is built in a buffer of the pool; the wait for one is unbounded, so the
  page may block (\<open>None\<close>).  The pointer is a local that goes out of scope: \<open>lost\<close> records it.\<close>

definition html_base_get_handler :: "'q queue_api \<Rightarrow> mem \<Rightarrow> ('j, 'q) web \<Rightarrow> ('j, 'q) web option" where
  "html_base_get_handler Q uri s =
     (if html_page uri = Ssdp_Schema then
        map_option (\<lambda>(p, q). say (Page Ssdp_Schema) (s\<lparr>pool := q, lost := p # lost s\<rparr>)) (q_recv Q (pool s))
      else Some (say (Page (html_page uri)) s))"

text \<open>The discovery service (ssdp.c) takes a buffer when it starts to listen, waiting for it without
  bound, and gives it back when receiving fails.\<close>

definition ssdp_take_buffer :: "'q queue_api \<Rightarrow> ('j, 'q) web \<Rightarrow> ('j, 'q) web option" where
  "ssdp_take_buffer Q s =
     (if ssdp_buf s \<noteq> [] then None
      else map_option (\<lambda>(p, q). s\<lparr>pool := q, ssdp_buf := [p]\<rparr>) (q_recv Q (pool s)))"

definition ssdp_give_buffer :: "'q queue_api \<Rightarrow> ('j, 'q) web \<Rightarrow> (web_fault + ('j, 'q) web) option" where
  "ssdp_give_buffer Q s =
     (case ssdp_buf s of [] \<Rightarrow> None | p # ps \<Rightarrow> Some (memory_pool_put Q p (s\<lparr>ssdp_buf := ps\<rparr>)))"

section \<open>The request tasks\<close>

definition async_send_out_cb ::
  "'q queue_api \<Rightarrow> 'j json_api \<Rightarrow> bool \<Rightarrow> nat \<Rightarrow> int \<Rightarrow> ('j, 'q) web \<Rightarrow> web_fault + ('j, 'q) web" where
  "async_send_out_cb Q J queued p status s =
     (case m_kind (msgs s p) of
        Http \<Rightarrow> api_async_send_out_cb Q J p status s
      | Ws \<Rightarrow> ws_async_send_out_cb Q J queued p status s)"

text \<open>\<open>req_long_task\<close>: it runs a request, whose module function answers with a status and perhaps a
  document, then hands it to the send-out queue; when that stays full it calls back itself.\<close>

definition set_answer :: "nat \<Rightarrow> int \<times> 'j option \<Rightarrow> ('j, 'q) web \<Rightarrow> ('j, 'q) web" where
  "set_answer p answer s =
     (case snd answer of
        None \<Rightarrow> upd p (\<lambda>m. m\<lparr>m_status := fst answer\<rparr>) s
      | Some j \<Rightarrow> upd p (\<lambda>m. m\<lparr>m_status := fst answer, m_out := Some j\<rparr>) (made (Some j) (forget (m_out (msgs s p)) s)))"

definition req_long_task ::
  "'q queue_api \<Rightarrow> 'j json_api \<Rightarrow> int \<times> 'j option \<Rightarrow> bool \<Rightarrow> ('j, 'q) web \<Rightarrow> (web_fault + ('j, 'q) web) option" where
  "req_long_task Q J answer queued s =
     (case long_task s of
        Long_Wait \<Rightarrow>
          map_option (\<lambda>(p, q). Inr (set_answer p answer (s\<lparr>long_q := q, long_task := Long_Push p\<rparr>)))
            (q_recv Q (long_q s))
      | Long_Push p \<Rightarrow>
          Some (let s = s\<lparr>long_task := Long_Wait\<rparr> in
            case req_queue_push_send_out Q p s of
              Some s \<Rightarrow> Inr s
            | None \<Rightarrow> async_send_out_cb Q J queued p (- 1) (upd p (\<lambda>m. m\<lparr>m_status := - 1\<rparr>) s)))"

definition req_send_out_task ::
  "'q queue_api \<Rightarrow> 'j json_api \<Rightarrow> bool \<Rightarrow> ('j, 'q) web \<Rightarrow> (web_fault + ('j, 'q) web) option" where
  "req_send_out_task Q J queued s =
     map_option (\<lambda>(p, q). async_send_out_cb Q J queued p (m_status (msgs s p)) (s\<lparr>out_q := q\<rparr>)) (q_recv Q (out_q s))"

section \<open>The system\<close>

text \<open>The tasks interleave.  Steps of the two request tasks and of queued messages are internal; the
  others are requests of clients, the heartbeat and the discovery service.  A request for the SSDP description is counted.\<close>

inductive internal :: "'q queue_api \<Rightarrow> 'j json_api \<Rightarrow> ('j, 'q) web \<Rightarrow> ('j, 'q) web \<Rightarrow> bool" for Q J where
  run: "req_long_task Q J answer ok s = Some (Inr s') \<Longrightarrow> internal Q J s s'"
| send_out: "req_send_out_task Q J ok s = Some (Inr s') \<Longrightarrow> internal Q J s s'"
| message: "ws_async_resp Q s = Some (Inr s') \<Longrightarrow> internal Q J s s'"

inductive request :: "'q queue_api \<Rightarrow> 'j json_api \<Rightarrow> nat \<Rightarrow> ('j, 'q) web \<Rightarrow> ('j, 'q) web \<Rightarrow> bool" for Q J where
  post: "api_post_handler Q J E s = Inr s' \<Longrightarrow> request Q J 0 s s'"
| ws: "ws_req_handler Q J W s = Inr s' \<Longrightarrow> request Q J 0 s s'"
| ws_open: "request Q J 0 s (s\<lparr>valid_fd := snd (ws_add_fd fd (valid_fd s))\<rparr>)"
| heartbeat: "request Q J 0 s (s\<lparr>valid_fd := snd (ws_broadcast_heartbeat alive (valid_fd s))\<rparr>)"
| page: "html_base_get_handler Q uri s = Some s' \<Longrightarrow> request Q J (of_bool (html_page uri = Ssdp_Schema)) s s'"
| ssdp_listen: "ssdp_take_buffer Q s = Some s' \<Longrightarrow> request Q J 0 s s'"
| ssdp_stop: "ssdp_give_buffer Q s = Some (Inr s') \<Longrightarrow> request Q J 0 s s'"

inductive_cases internalE: "internal Q J s s'"
inductive_cases requestE: "request Q J n s s'"

inductive reach :: "'q queue_api \<Rightarrow> 'j json_api \<Rightarrow> ('j, 'q) web \<Rightarrow> nat \<Rightarrow> ('j, 'q) web \<Rightarrow> bool" for Q J s where
  start: "reach Q J s 0 s"
| internal: "reach Q J s n t \<Longrightarrow> internal Q J t u \<Longrightarrow> reach Q J s n u"
| request: "reach Q J s n t \<Longrightarrow> request Q J k t u \<Longrightarrow> reach Q J s (n + k) u"

definition web_start :: "'q queue_api \<Rightarrow> (nat \<Rightarrow> 'j msg) \<Rightarrow> 'q \<Rightarrow> ('j, 'q) web" where
  "web_start Q ms q =
     \<lparr>pool = q, long_q = q_create Q 2, out_q = q_create Q 4, work = [], long_task = Long_Wait, msgs = ms,
      json_live = 0, json_lost = 0, valid_fd = [], lost = [], ssdp_buf = [], w_log = []\<rparr>"

section \<open>Who holds a buffer\<close>

definition running :: "long_pc \<Rightarrow> nat list" where
  "running pc = (case pc of Long_Wait \<Rightarrow> [] | Long_Push p \<Rightarrow> [p])"

definition pending :: "('q \<Rightarrow> nat \<times> nat list) \<Rightarrow> ('j, 'q) web \<Rightarrow> nat list" where
  "pending \<alpha> s = snd (\<alpha> (long_q s)) @ running (long_task s) @ snd (\<alpha> (out_q s))"

definition held :: "('q \<Rightarrow> nat \<times> nat list) \<Rightarrow> ('j, 'q) web \<Rightarrow> nat list" where
  "held \<alpha> s = pending \<alpha> s @ work s @ ssdp_buf s @ lost s"

text \<open>The requests handed to the long-running task, and those that were called back.\<close>

definition queued :: "web_event list \<Rightarrow> nat list" where
  "queued es = List.map_filter (\<lambda>e. case e of Queued p \<Rightarrow> Some p | _ \<Rightarrow> None) es"

definition dones :: "web_event list \<Rightarrow> nat list" where
  "dones es = List.map_filter (\<lambda>e. case e of Done p \<Rightarrow> Some p | _ \<Rightarrow> None) es"

lemma queued_append [simp]: "queued (es @ [e]) = queued es @ (case e of Queued p \<Rightarrow> [p] | _ \<Rightarrow> [])"
  by (simp add: queued_def List.map_filter_def split: web_event.splits)

lemma dones_append [simp]: "dones (es @ [e]) = dones es @ (case e of Done p \<Rightarrow> [p] | _ \<Rightarrow> [])"
  by (simp add: dones_def List.map_filter_def split: web_event.splits)

text \<open>The documents a request owns, and the invariant.  \<open>H\<close> are the buffers the current handler holds,
  \<open>D\<close> the requests it is calling back, \<open>x\<close> the documents it owns.\<close>

definition owned :: "('j, 'q) web \<Rightarrow> nat \<Rightarrow> int" where
  "owned s p = docs (m_in (msgs s p)) + docs (m_out (msgs s p))"

definition web_inv :: "('q \<Rightarrow> nat \<times> nat list) \<Rightarrow> nat multiset \<Rightarrow> nat multiset \<Rightarrow> int \<Rightarrow> ('j, 'q) web \<Rightarrow> bool" where
  "web_inv \<alpha> H D x s \<longleftrightarrow>
     mset (snd (\<alpha> (pool s))) + mset (held \<alpha> s) + H = mset all_buffers \<and>
     fst (\<alpha> (pool s)) = BUFFER_NR \<and> fst (\<alpha> (long_q s)) = 2 \<and> fst (\<alpha> (out_q s)) = 4 \<and>
     mset (queued (w_log s)) = mset (dones (w_log s)) + mset (pending \<alpha> s) + D \<and>
     json_live s = (\<Sum>p\<leftarrow>pending \<alpha> s. owned s p) + json_lost s + x"

lemma web_inv_say [simp]:
  "web_inv \<alpha> H D x (say (Http_Reply p c b) s) = web_inv \<alpha> H D x s"
  "web_inv \<alpha> H D x (say (Ws_Reply n b) s) = web_inv \<alpha> H D x s"
  "web_inv \<alpha> H D x (say (Closed n) s) = web_inv \<alpha> H D x s"
  "web_inv \<alpha> H D x (say (Page pg) s) = web_inv \<alpha> H D x s"
  by (simp_all add: web_inv_def say_def held_def pending_def owned_def)

lemma web_inv_done: "web_inv \<alpha> H (add_mset p D) x s \<Longrightarrow> web_inv \<alpha> H D x (say (Done p) s)"
  by (simp add: web_inv_def say_def held_def pending_def owned_def)

lemma web_inv_docs [simp]:
  "web_inv \<alpha> H D x (made j s) = web_inv \<alpha> H D (x - docs j) s"
  "web_inv \<alpha> H D x (cJSON_Delete j s) = web_inv \<alpha> H D (x + docs j) s"
  "web_inv \<alpha> H D x (forget j s) = web_inv \<alpha> H D (x + docs j) s"
  by (auto simp: web_inv_def made_def cJSON_Delete_def forget_def held_def pending_def owned_def)

lemma web_inv_fds [simp]: "web_inv \<alpha> H D x (s\<lparr>valid_fd := v\<rparr>) = web_inv \<alpha> H D x s"
  by (simp add: web_inv_def held_def pending_def owned_def)

lemma msgs_simps [simp]:
  "msgs (say ev s) = msgs s" "msgs (made j s) = msgs s" "msgs (cJSON_Delete j s) = msgs s" "msgs (forget j s) = msgs s"
  by (simp_all add: say_def made_def cJSON_Delete_def forget_def)

text \<open>A held buffer is nobody else's.\<close>

lemma distinct_all_buffers: "distinct all_buffers"
  by (simp add: all_buffers_def del: upt_Suc)

lemma all_buffers: "count (mset all_buffers) p \<le> 1" "length all_buffers = BUFFER_NR"
  using distinct_all_buffers by (simp add: distinct_count_atmost_1) (simp add: all_buffers_def del: upt_Suc)

lemma held_once:
  assumes "web_inv \<alpha> H D x s" "p \<in># H"
  shows "p \<notin> set (pending \<alpha> s)"
proof
  assume "p \<in> set (pending \<alpha> s)"
  then have "0 < count (mset (held \<alpha> s)) p" by (simp add: held_def)
  moreover have "0 < count H p" using assms(2) by simp
  moreover have "count (mset (snd (\<alpha> (pool s))) + mset (held \<alpha> s) + H) p \<le> 1"
    using assms(1) all_buffers(1) [of p] by (simp only: web_inv_def)
  ultimately show False by (simp only: count_union)
qed

lemma web_inv_upd:
  assumes "p \<in># H" "web_inv \<alpha> H D x s"
  shows "web_inv \<alpha> H D x (upd p f s)"
proof -
  have "(\<Sum>q\<leftarrow>pending \<alpha> s. owned (upd p f s) q) = (\<Sum>q\<leftarrow>pending \<alpha> s. owned s q)"
    using held_once [OF assms(2,1)] by (intro arg_cong [where f = sum_list] map_cong) (auto simp: owned_def upd_def)
  then show ?thesis using assms(2) by (simp add: web_inv_def upd_def held_def pending_def)
qed

lemma put_inv:
  assumes Q: "fifo_queue Q \<alpha>" and s: "web_inv \<alpha> (add_mset p H) D x s"
  shows "\<exists>q. memory_pool_put Q p s = Inr (s\<lparr>pool := q\<rparr>) \<and> web_inv \<alpha> H D x (s\<lparr>pool := q\<rparr>)"
proof -
  have "size (mset (snd (\<alpha> (pool s))) + mset (held \<alpha> s) + add_mset p H) = BUFFER_NR"
    using s all_buffers(2) by (simp only: web_inv_def size_mset)
  then have "length (snd (\<alpha> (pool s))) < BUFFER_NR" by simp
  then have "q_send Q p (pool s) \<noteq> None" using fifo_send(1) [OF Q, of p "pool s"] s by (auto simp: web_inv_def)
  then obtain q where "q_send Q p (pool s) = Some q" by auto
  moreover from fifo_send(2) [OF Q this] have "\<alpha> q = (fst (\<alpha> (pool s)), snd (\<alpha> (pool s)) @ [p])" by simp
  ultimately show ?thesis using s
    by (auto simp: memory_pool_put_def web_inv_def held_def pending_def owned_def)
qed

lemma get_inv:
  assumes Q: "fifo_queue Q \<alpha>" and s: "web_inv \<alpha> H D x s"
  shows "case memory_pool_get Q s of Inl e \<Rightarrow> e = Pool_Empty \<and> snd (\<alpha> (pool s)) = []
    | Inr (p, s') \<Rightarrow> web_inv \<alpha> (add_mset p H) D x s' \<and> msgs s' = msgs s"
proof (cases "q_recv Q (pool s)")
  case None
  then show ?thesis using fifo_recv(1) [OF Q] by (simp add: memory_pool_get_def)
next
  case (Some r)
  obtain p q where r: "r = (p, q)" by fastforce
  then have "snd (\<alpha> (pool s)) = p # snd (\<alpha> q)" "fst (\<alpha> q) = fst (\<alpha> (pool s))"
    using fifo_recv(2) [OF Q] Some by simp_all
  then show ?thesis using s Some r
    by (simp add: memory_pool_get_def web_inv_def held_def pending_def owned_def)
qed

lemma push_long_inv:
  assumes Q: "fifo_queue Q \<alpha>" and s: "web_inv \<alpha> (add_mset p H) D (y + owned s p) s"
  shows "case req_queue_push_long_run Q p s of None \<Rightarrow> True | Some s' \<Rightarrow> web_inv \<alpha> H D y (say (Queued p) s')"
proof (cases "q_send Q p (long_q s)")
  case (Some q)
  then have "\<alpha> q = (fst (\<alpha> (long_q s)), snd (\<alpha> (long_q s)) @ [p])"
    using fifo_send(2) [OF Q Some] by simp
  then show ?thesis using s Some
    by (simp add: req_queue_push_long_run_def web_inv_def held_def pending_def owned_def say_def)
qed (simp add: req_queue_push_long_run_def)

section \<open>Every handler gives its buffer back or passes it on\<close>

definition fine :: "('q \<Rightarrow> nat \<times> nat list) \<Rightarrow> web_fault + ('j, 'q) web \<Rightarrow> bool" where
  "fine \<alpha> r \<longleftrightarrow> (case r of Inl e \<Rightarrow> e = Pool_Empty | Inr s \<Rightarrow> web_inv \<alpha> {#} {#} 0 s)"

lemma put_fine: "fifo_queue Q \<alpha> \<Longrightarrow> web_inv \<alpha> {#p#} {#} 0 s \<Longrightarrow> fine \<alpha> (memory_pool_put Q p s)"
  using put_inv [of Q \<alpha> p "{#}" "{#}" 0 s] by (auto simp: fine_def)

lemma api_end_fine: "fifo_queue Q \<alpha> \<Longrightarrow> web_inv \<alpha> {#p#} {#} (docs (m_in (msgs s p))) s \<Longrightarrow> fine \<alpha> (api_end Q p c s)"
  by (simp add: api_end_def put_fine)

lemma docs_None [simp]: "docs None = 0"
  by (simp add: docs_def)

lemma send_out_inv: "web_inv \<alpha> H D x (uri_api_send_out J p err s) = web_inv \<alpha> H D (x + owned s p) s"
  by (auto simp: uri_api_send_out_def owned_def Let_def ac_simps split: option.splits)

lemma upd_msgs [simp]: "msgs (upd p f s) = (msgs s)(p := f (msgs s p))"
  by (simp add: upd_def)

lemma api_routed_fine:
  assumes Q: "fifo_queue Q \<alpha>" and s: "web_inv \<alpha> {#p#} {#} (docs (m_in (msgs s p))) s"
  shows "fine \<alpha> (api_routed Q J (err, out) p s)"
proof -
  define v where "v = made out (upd p (\<lambda>m. m\<lparr>m_out := out\<rparr>) s)"
  have v: "web_inv \<alpha> {#p#} {#} (docs (m_in (msgs v p)) + docs out) v" "m_out (msgs v p) = out"
    using web_inv_upd [OF _ s] by (simp_all add: v_def)
  then have o: "owned v p = docs (m_in (msgs v p)) + docs out" by (simp add: owned_def)
  have "fine \<alpha> (api_end Q p c (forget out v))" for c using v by (intro api_end_fine [OF Q]) simp
  moreover from this have "fine \<alpha> (case req_queue_push_long_run Q p v of None \<Rightarrow> api_end Q p 503 (forget out v)
      | Some w \<Rightarrow> Inr (say (Queued p) w))"
    using push_long_inv [OF Q, of p "{#}" "{#}" 0 v] v o by (auto simp: fine_def [of \<alpha> "Inr _"] split: option.splits)
  moreover have "out = None \<Longrightarrow> fine \<alpha> (api_end Q p 200 v)" using v by (intro api_end_fine [OF Q]) simp
  moreover have "fine \<alpha> (memory_pool_put Q p (uri_api_send_out J p 0 v))"
    using v o by (intro put_fine [OF Q]) (simp add: send_out_inv)
  ultimately show ?thesis unfolding api_routed_def v_def [symmetric] by (simp add: v_def [symmetric])
qed

lemma post_fine:
  assumes Q: "fifo_queue Q \<alpha>" and s: "web_inv \<alpha> {#} {#} 0 s"
  shows "fine \<alpha> (api_post_handler Q J E s)"
proof (cases "memory_pool_get Q s")
  case (Inl e)
  then show ?thesis using get_inv [OF Q s] s by (simp add: api_post_handler_def fine_def)
next
  case (Inr r)
  obtain p t where r: "r = (p, t)" by fastforce
  have t: "web_inv \<alpha> {#p#} {#} 0 t" using get_inv [OF Q s] Inr r by simp
  have u: "web_inv \<alpha> {#p#} {#} (docs req) (made req (upd p (\<lambda>m. m\<lparr>m_in := req, m_kind := Http\<rparr>) t))" for req
    using web_inv_upd [OF _ t] by simp
  have "fine \<alpha> (api_end Q p 400 (made None (upd p (\<lambda>m. m\<lparr>m_in := None, m_kind := Http\<rparr>) t)))"
    using u [of None] by (intro api_end_fine [OF Q]) simp
  moreover have "fine \<alpha> (api_routed Q J (pe_call E j) p (made (Some j) (upd p (\<lambda>m. m\<lparr>m_in := Some j, m_kind := Http\<rparr>) t)))" for j
    using api_routed_fine [OF Q, where err = "fst (pe_call E j)" and out = "snd (pe_call E j)"] u [of "Some j"] by simp
  ultimately show ?thesis using Inr r put_fine [OF Q t] s
    by (simp add: api_post_handler_def Let_def fine_def [of \<alpha> "Inr s"] split: option.split)
qed

lemma close_fine: "fifo_queue Q \<alpha> \<Longrightarrow> web_inv \<alpha> {#p#} {#} 0 s \<Longrightarrow> fine \<alpha> (ws_on_close Q fd p s)"
  by (simp add: ws_on_close_def put_fine)

lemma json_to_text_inv:
  "json_to_text J p s = (body, t) \<Longrightarrow> web_inv \<alpha> H D (x + docs (m_out (msgs s p))) s \<Longrightarrow> web_inv \<alpha> H D x t \<and> msgs t = msgs s"
  by (auto simp: json_to_text_def Let_def split: option.splits)

lemma ws_routed_fine:
  assumes Q: "fifo_queue Q \<alpha>" and s: "web_inv \<alpha> {#p#} {#} (docs (m_in (msgs s p))) s"
  shows "fine \<alpha> (ws_routed Q J fd (ret, out) p s)"
proof -
  define v where "v = made out (upd p (\<lambda>m. m\<lparr>m_out := out\<rparr>) s)"
  have v: "web_inv \<alpha> {#p#} {#} (docs (m_in (msgs v p)) + docs out) v" "m_out (msgs v p) = out"
    using web_inv_upd [OF _ s] by (simp_all add: v_def)
  then have o: "owned v p = docs (m_in (msgs v p)) + docs out" by (simp add: owned_def)
  have fin: "web_inv \<alpha> {#p#} {#} (docs (m_in (msgs t p))) t \<Longrightarrow> fine \<alpha> (ws_end Q fd p b t)" for b t
    by (simp add: ws_end_def put_fine [OF Q])
  have "fine \<alpha> (ws_end Q fd p b (forget out v))" for b using v by (intro fin) simp
  moreover from this have "fine \<alpha> (case req_queue_push_long_run Q p v of None \<Rightarrow> ws_end Q fd p None (forget out v)
      | Some w \<Rightarrow> Inr (say (Queued p) w))"
    using push_long_inv [OF Q, of p "{#}" "{#}" 0 v] v o by (auto simp: fine_def [of \<alpha> "Inr _"] split: option.splits)
  moreover have "out = None \<Longrightarrow> fine \<alpha> (ws_end Q fd p None v)" using v by (intro fin) simp
  moreover have "fine \<alpha> (case json_to_text J p v of (b, t) \<Rightarrow> ws_end Q fd p (Some b) t)"
    using json_to_text_inv [of J p v] v by (auto intro!: fin split: prod.splits)
  ultimately show ?thesis unfolding ws_routed_def by (simp add: v_def [symmetric])
qed

lemma text_fine:
  assumes Q: "fifo_queue Q \<alpha>" and s: "web_inv \<alpha> {#p#} {#} 0 s"
  shows "fine \<alpha> (ws_on_text_data Q J W body p s)"
proof -
  have u: "web_inv \<alpha> {#p#} {#} (docs req) (made req (upd p (\<lambda>m. m\<lparr>m_in := req, m_kind := Ws, m_fd := we_fd W\<rparr>) s))" for req
    using web_inv_upd [OF _ s] by simp
  have "fine \<alpha> (memory_pool_put Q p (say (Ws_Reply (we_fd W) (Some MSG_JSON_ERROR))
      (made None (upd p (\<lambda>m. m\<lparr>m_in := None, m_kind := Ws, m_fd := we_fd W\<rparr>) s))))"
    using u [of None] by (intro put_fine [OF Q]) simp
  moreover have "fine \<alpha> (ws_routed Q J (we_fd W) (we_call W j) p
      (made (Some j) (upd p (\<lambda>m. m\<lparr>m_in := Some j, m_kind := Ws, m_fd := we_fd W\<rparr>) s)))" for j
    using ws_routed_fine [OF Q, where ret = "fst (we_call W j)" and out = "snd (we_call W j)"] u [of "Some j"] by simp
  ultimately show ?thesis by (simp add: ws_on_text_data_def Let_def split: option.split)
qed

lemma ws_fine:
  assumes Q: "fifo_queue Q \<alpha>" and s: "web_inv \<alpha> {#} {#} 0 s"
  shows "fine \<alpha> (ws_req_handler Q J W s)"
proof (cases "memory_pool_get Q s")
  case (Inl e)
  then show ?thesis using get_inv [OF Q s] by (simp add: ws_req_handler_def fine_def)
next
  case (Inr r)
  obtain p t where r: "r = (p, t)" by fastforce
  have t: "web_inv \<alpha> {#p#} {#} 0 t" using get_inv [OF Q s] Inr r by simp
  note rules = put_fine [OF Q t] close_fine [OF Q t] text_fine [OF Q t]
  show ?thesis
  proof (cases "we_frame W")
    case None
    then show ?thesis using Inr r rules by (simp add: ws_req_handler_def)
  next
    case (Some f)
    obtain len fr where f: "f = (len, fr)" by fastforce
    have "fine \<alpha> (case fr of Ws_Text None \<Rightarrow> ws_on_close Q (we_fd W) p t
                 | Ws_Text (Some body) \<Rightarrow> ws_on_text_data Q J W body p t
                 | Ws_Close \<Rightarrow> ws_on_close Q (we_fd W) p t
                 | Ws_Ping ok \<Rightarrow> if ok then memory_pool_put Q p t else ws_on_close Q (we_fd W) p t
                 | _ \<Rightarrow> memory_pool_put Q p t)"
      using rules by (simp split: ws_frame.splits option.splits)
    then show ?thesis using Inr r Some f rules by (simp add: ws_req_handler_def)
  qed
qed

section \<open>The tasks keep the invariant\<close>

lemma api_cb_fine:
  assumes Q: "fifo_queue Q \<alpha>" and s: "web_inv \<alpha> {#p#} {#p#} (owned s p) s"
  shows "fine \<alpha> (api_async_send_out_cb Q J p st s)"
proof -
  have "web_inv \<alpha> {#p#} {#p#} 0 (uri_api_send_out J p st t)" if "t = s \<or> t = say (Closed p) s" for t
    using that s by (auto simp: send_out_inv owned_def)
  then have "fine \<alpha> (memory_pool_put Q p (say (Done p) (uri_api_send_out J p st t)))" if "t = s \<or> t = say (Closed p) s" for t
    using that by (intro put_fine [OF Q] web_inv_done) auto
  then show ?thesis by (simp add: api_async_send_out_cb_def Let_def)
qed

lemma ws_cb_fine:
  assumes Q: "fifo_queue Q \<alpha>" and s: "web_inv \<alpha> {#p#} {#p#} (owned s p) s"
  shows "fine \<alpha> (ws_async_send_out_cb Q J ok p st s)"
proof -
  define u where "u = say (Done p) (cJSON_Delete (m_in (msgs s p)) s)"
  have u: "web_inv \<alpha> {#p#} {#} (docs (m_out (msgs u p))) u"
    unfolding u_def by (rule web_inv_done) (use s in \<open>simp add: owned_def add.commute\<close>)
  obtain b t where t: "json_to_text J p u = (b, t)" by fastforce
  have t': "web_inv \<alpha> {#p#} {#} 0 t" using json_to_text_inv [OF t, of \<alpha> "{#p#}" "{#}" 0] u by simp
  define v where "v = upd p (\<lambda>m. m\<lparr>m_text := b\<rparr>) t"
  have v: "web_inv \<alpha> {#p#} {#} 0 v" unfolding v_def by (rule web_inv_upd [OF _ t']) simp
  have "p \<notin> set (pending \<alpha> v)" using held_once [OF v] by simp
  then have w: "web_inv \<alpha> {#} {#} 0 (v\<lparr>work := work v @ [p]\<rparr>)"
    using v by (simp add: web_inv_def held_def pending_def owned_def)
  have "fine \<alpha> (memory_pool_put Q p (say (Ws_Reply n c) (forget (m_out (msgs u p)) u)))" for n c
    using u by (intro put_fine [OF Q]) simp
  then show ?thesis using put_fine [OF Q v] w
    by (simp add: ws_async_send_out_cb_def u_def [symmetric] t v_def fine_def [of \<alpha> "Inr _"] Let_def)
qed

lemma cb_fine:
  "fifo_queue Q \<alpha> \<Longrightarrow> web_inv \<alpha> {#p#} {#p#} (owned s p) s \<Longrightarrow> fine \<alpha> (async_send_out_cb Q J ok p st s)"
  by (simp add: async_send_out_cb_def api_cb_fine ws_cb_fine split: kind.split)

lemma send_out_fine:
  assumes Q: "fifo_queue Q \<alpha>" and s: "web_inv \<alpha> {#} {#} 0 s" and r: "req_send_out_task Q J ok s = Some r"
  shows "fine \<alpha> r"
proof -
  obtain p q where q: "q_recv Q (out_q s) = Some (p, q)"
    "r = async_send_out_cb Q J ok p (m_status (msgs s p)) (s\<lparr>out_q := q\<rparr>)"
    using r by (auto simp: req_send_out_task_def)
  have "web_inv \<alpha> {#p#} {#p#} (owned (s\<lparr>out_q := q\<rparr>) p) (s\<lparr>out_q := q\<rparr>)"
    using s fifo_recv(2) [OF Q q(1)] by (simp add: web_inv_def held_def pending_def owned_def)
  then show ?thesis using cb_fine [OF Q] q(2) by simp
qed

lemma message_fine:
  assumes Q: "fifo_queue Q \<alpha>" and s: "web_inv \<alpha> {#} {#} 0 s" and r: "ws_async_resp Q s = Some r"
  shows "fine \<alpha> r"
proof -
  obtain p ps where w: "work s = p # ps"
    "r = memory_pool_put Q p (say (Ws_Reply (m_fd (msgs s p)) (Some (m_text (msgs s p)))) (s\<lparr>work := ps\<rparr>))"
    using r by (auto simp: ws_async_resp_def split: list.splits)
  have "web_inv \<alpha> {#p#} {#} 0 (s\<lparr>work := ps\<rparr>)"
    using s w(1) by (simp add: web_inv_def held_def pending_def owned_def)
  then show ?thesis using w(2) by (auto intro: put_fine [OF Q])
qed

lemma set_answer_inv:
  assumes s: "web_inv \<alpha> {#} {#} 0 s" and p: "q_recv Q (long_q s) = Some (p, q)" "long_task s = Long_Wait" and Q: "fifo_queue Q \<alpha>"
  shows "web_inv \<alpha> {#} {#} 0 (set_answer p answer (s\<lparr>long_q := q, long_task := Long_Push p\<rparr>))"
proof -
  let ?t = "s\<lparr>long_q := q, long_task := Long_Push p\<rparr>"
  have l: "snd (\<alpha> (long_q s)) = p # snd (\<alpha> q)" "fst (\<alpha> q) = fst (\<alpha> (long_q s))" using fifo_recv(2) [OF Q p(1)] by simp_all
  have t: "web_inv \<alpha> {#} {#} 0 ?t"
    using s l p(2) by (simp add: web_inv_def held_def pending_def owned_def running_def)
  have c: "count (mset (held \<alpha> ?t)) p \<le> 1"
  proof -
    have "count (mset (snd (\<alpha> (pool ?t))) + mset (held \<alpha> ?t)) p \<le> 1"
      using t all_buffers(1) [of p] by (simp add: web_inv_def)
    then show ?thesis by simp
  qed
  have out: "p \<notin> set (snd (\<alpha> q)) \<union> set (snd (\<alpha> (out_q s)))"
  proof -
    have "count (mset (snd (\<alpha> q))) p + count (mset (snd (\<alpha> (out_q s)))) p = 0"
      using c by (simp add: held_def pending_def running_def)
    then have "p \<notin># mset (snd (\<alpha> q)) + mset (snd (\<alpha> (out_q s)))" by (simp add: not_in_iff)
    then show ?thesis by simp
  qed
  have sum: "(\<Sum>r\<leftarrow>pending \<alpha> ?t. owned (upd p f ?t) r) =
      (\<Sum>r\<leftarrow>pending \<alpha> ?t. owned ?t r) - owned ?t p + owned (upd p f ?t) p" for f
  proof -
    have "(\<Sum>r\<leftarrow>rs. owned (upd p f ?t) r) = (\<Sum>r\<leftarrow>rs. owned ?t r)" if "p \<notin> set rs" for rs
      using that by (intro arg_cong [where f = sum_list] map_cong) (auto simp: owned_def upd_def)
    from this [of "snd (\<alpha> q)"] this [of "snd (\<alpha> (out_q s))"] show ?thesis
      using out by (simp add: pending_def running_def)
  qed
  show ?thesis
  proof (cases "snd answer")
    case None
    have "web_inv \<alpha> {#} {#} 0 (upd p (\<lambda>m. m\<lparr>m_status := fst answer\<rparr>) ?t)"
      using t sum [of "\<lambda>m. m\<lparr>m_status := fst answer\<rparr>"]
      by (simp add: web_inv_def held_def pending_def owned_def upd_def)
    then show ?thesis using None by (simp add: set_answer_def)
  next
    case (Some j)
    have "web_inv \<alpha> {#} {#} 0 (upd p (\<lambda>m. m\<lparr>m_status := fst answer, m_out := Some j\<rparr>) (made (Some j) (forget (m_out (msgs ?t p)) ?t)))"
      using t sum [of "\<lambda>m. m\<lparr>m_status := fst answer, m_out := Some j\<rparr>"]
      by (simp add: web_inv_def held_def pending_def owned_def upd_def made_def forget_def docs_def)
    then show ?thesis using Some by (simp add: set_answer_def)
  qed
qed

lemma long_fine:
  assumes Q: "fifo_queue Q \<alpha>" and s: "web_inv \<alpha> {#} {#} 0 s" and r: "req_long_task Q J answer ok s = Some r"
  shows "fine \<alpha> r"
proof (cases "long_task s")
  case Long_Wait
  then obtain p q where "q_recv Q (long_q s) = Some (p, q)"
    "r = Inr (set_answer p answer (s\<lparr>long_q := q, long_task := Long_Push p\<rparr>))"
    using r by (auto simp: req_long_task_def)
  then show ?thesis using set_answer_inv [OF s _ Long_Wait Q] by (simp add: fine_def)
next
  case (Long_Push p)
  define t where "t = s\<lparr>long_task := Long_Wait\<rparr>"
  have r': "r = (case req_queue_push_send_out Q p t of Some u \<Rightarrow> Inr u
      | None \<Rightarrow> async_send_out_cb Q J ok p (- 1) (upd p (\<lambda>m. m\<lparr>m_status := - 1\<rparr>) t))"
    using r Long_Push by (simp add: req_long_task_def Let_def t_def [symmetric])
  show ?thesis
  proof (cases "q_send Q p (out_q t)")
    case None
    have t: "web_inv \<alpha> {#p#} {#p#} (owned t p) t"
      using s Long_Push by (simp add: web_inv_def held_def pending_def owned_def running_def t_def)
    define u where "u = upd p (\<lambda>m. m\<lparr>m_status := - 1\<rparr>) t"
    have "web_inv \<alpha> {#p#} {#p#} (owned u p) u"
      using web_inv_upd [OF _ t, of p "\<lambda>m. m\<lparr>m_status := - 1\<rparr>"] by (simp add: owned_def u_def)
    then show ?thesis using cb_fine [OF Q] r' None by (simp add: req_queue_push_send_out_def u_def)
  next
    case (Some q)
    then have "\<alpha> q = (fst (\<alpha> (out_q s)), snd (\<alpha> (out_q s)) @ [p])" using fifo_send(2) [OF Q Some] by (simp add: t_def)
    then have "web_inv \<alpha> {#} {#} 0 (t\<lparr>out_q := q\<rparr>)"
      using s Long_Push by (simp add: web_inv_def held_def pending_def owned_def running_def t_def)
    then show ?thesis using r' Some by (simp add: req_queue_push_send_out_def fine_def)
  qed
qed

lemma schema_inv:
  assumes "fifo_queue Q \<alpha>" "web_inv \<alpha> {#} {#} 0 s" "html_base_get_handler Q uri s = Some t"
  shows "web_inv \<alpha> {#} {#} 0 t" "length (lost t) = length (lost s) + of_bool (html_page uri = Ssdp_Schema)"
  using assms fifo_recv(2) [OF assms(1), of "pool s"]
  by (auto simp: html_base_get_handler_def web_inv_def held_def pending_def owned_def say_def split: if_splits)

lemma listen_inv:
  assumes "fifo_queue Q \<alpha>" "web_inv \<alpha> {#} {#} 0 s" "ssdp_take_buffer Q s = Some t"
  shows "web_inv \<alpha> {#} {#} 0 t \<and> lost t = lost s"
  using assms fifo_recv(2) [OF assms(1), of "pool s"]
  by (auto simp: ssdp_take_buffer_def web_inv_def held_def pending_def owned_def split: if_splits)

lemma stop_fine:
  assumes Q: "fifo_queue Q \<alpha>" and s: "web_inv \<alpha> {#} {#} 0 s" and r: "ssdp_give_buffer Q s = Some r"
  shows "fine \<alpha> r"
proof -
  obtain p ps where b: "ssdp_buf s = p # ps" "r = memory_pool_put Q p (s\<lparr>ssdp_buf := ps\<rparr>)"
    using r by (auto simp: ssdp_give_buffer_def split: list.splits)
  have "web_inv \<alpha> {#p#} {#} 0 (s\<lparr>ssdp_buf := ps\<rparr>)"
    using s b(1) by (simp add: web_inv_def held_def pending_def owned_def)
  then show ?thesis using put_fine [OF Q] b(2) by simp
qed

subsection \<open>Reachable states\<close>

text \<open>Only the page takes a buffer away for good.\<close>

lemma lost_simps [simp]:
  "lost (say ev s) = lost s" "lost (made j s) = lost s" "lost (cJSON_Delete j s) = lost s" "lost (forget j s) = lost s"
  "lost (upd p f s) = lost s" "lost (uri_api_send_out J p err s) = lost s"
  by (simp_all add: say_def made_def cJSON_Delete_def forget_def upd_def uri_api_send_out_def Let_def split: option.split)

lemma lost_put: "memory_pool_put Q p s = Inr t \<Longrightarrow> lost t = lost s"
  by (auto simp: memory_pool_put_def split: option.splits)

lemma lost_text: "json_to_text J p s = (b, t) \<Longrightarrow> lost t = lost s"
  by (auto simp: json_to_text_def Let_def split: option.splits)

lemma lost_push: "req_queue_push_long_run Q p s = Some t \<Longrightarrow> lost t = lost s"
  by (auto simp: req_queue_push_long_run_def)

lemma lost_routed: "api_routed Q J answer p s = Inr t \<Longrightarrow> lost t = lost s"
  by (auto simp: api_routed_def api_end_def Let_def dest!: lost_put lost_push split: prod.splits option.splits if_splits)

lemma lost_ws_routed: "ws_routed Q J fd answer p s = Inr t \<Longrightarrow> lost t = lost s"
  by (auto simp: ws_routed_def ws_end_def Let_def dest!: lost_put lost_push lost_text split: prod.splits option.splits if_splits)

lemma lost_get: "memory_pool_get Q s = Inr (p, t) \<Longrightarrow> lost t = lost s"
  by (auto simp: memory_pool_get_def split: option.splits)

lemma lost_post: "api_post_handler Q J E s = Inr t \<Longrightarrow> lost t = lost s"
  by (auto simp: api_post_handler_def api_end_def Let_def dest!: lost_put lost_get lost_routed
      split: sum.splits option.splits if_splits)

lemma lost_close: "ws_on_close Q fd p s = Inr t \<Longrightarrow> lost t = lost s"
  by (auto simp: ws_on_close_def dest!: lost_put)

lemma lost_ws_text: "ws_on_text_data Q J W b p s = Inr t \<Longrightarrow> lost t = lost s"
  by (auto simp: ws_on_text_data_def Let_def dest!: lost_put lost_ws_routed split: option.splits)

lemma lost_ws: "ws_req_handler Q J W s = Inr t \<Longrightarrow> lost t = lost s"
  by (auto simp: ws_req_handler_def dest!: lost_put lost_get lost_close lost_ws_text
      split: sum.splits option.splits prod.splits if_splits ws_frame.splits)

lemma lost_stop: "ssdp_give_buffer Q s = Some (Inr t) \<Longrightarrow> lost t = lost s"
  by (auto simp: ssdp_give_buffer_def dest!: lost_put split: list.splits)

lemma lost_cb: "async_send_out_cb Q J ok p st s = Inr t \<Longrightarrow> lost t = lost s"
  by (auto simp: async_send_out_cb_def api_async_send_out_cb_def ws_async_send_out_cb_def Let_def
      dest!: lost_put lost_text split: kind.splits if_splits prod.splits)

lemma lost_internal: "internal Q J s t \<Longrightarrow> lost t = lost s"
  by (erule internalE)
    (auto simp: req_long_task_def req_send_out_task_def ws_async_resp_def set_answer_def req_queue_push_send_out_def Let_def
      dest!: lost_cb lost_put split: long_pc.splits option.splits list.splits)

definition web_ok :: "('q \<Rightarrow> nat \<times> nat list) \<Rightarrow> nat \<Rightarrow> ('j, 'q) web \<Rightarrow> bool" where
  "web_ok \<alpha> n s \<longleftrightarrow> web_inv \<alpha> {#} {#} 0 s \<and> length (lost s) = n"

lemma internal_fine: "fifo_queue Q \<alpha> \<Longrightarrow> web_inv \<alpha> {#} {#} 0 s \<Longrightarrow> internal Q J s t \<Longrightarrow> fine \<alpha> (Inr t)"
  by (erule internalE) (erule (2) long_fine send_out_fine message_fine)+

lemma internal_ok: "fifo_queue Q \<alpha> \<Longrightarrow> web_ok \<alpha> n s \<Longrightarrow> internal Q J s t \<Longrightarrow> web_ok \<alpha> n t"
  using internal_fine [of Q \<alpha> s J t] lost_internal [of Q J s t] by (simp add: web_ok_def fine_def)

lemma request_ok: "fifo_queue Q \<alpha> \<Longrightarrow> web_ok \<alpha> n s \<Longrightarrow> request Q J k s t \<Longrightarrow> web_ok \<alpha> (n + k) t"
proof (elim requestE)
  fix E assume "fifo_queue Q \<alpha>" "web_ok \<alpha> n s" "k = 0" "api_post_handler Q J E s = Inr t"
  then show ?thesis using post_fine [of Q \<alpha> s J E] lost_post [of Q J E s t] by (simp add: web_ok_def fine_def)
next
  fix W assume "fifo_queue Q \<alpha>" "web_ok \<alpha> n s" "k = 0" "ws_req_handler Q J W s = Inr t"
  then show ?thesis using ws_fine [of Q \<alpha> s J W] lost_ws [of Q J W s t] by (simp add: web_ok_def fine_def)
next
  assume "fifo_queue Q \<alpha>" "web_ok \<alpha> n s" "k = 0" "ssdp_take_buffer Q s = Some t"
  then show ?thesis using listen_inv [of Q \<alpha> s t] by (simp add: web_ok_def)
next
  assume "fifo_queue Q \<alpha>" "web_ok \<alpha> n s" "k = 0" "ssdp_give_buffer Q s = Some (Inr t)"
  then show ?thesis using stop_fine [of Q \<alpha> s "Inr t"] lost_stop [of Q s t] by (simp add: web_ok_def fine_def)
qed (use schema_inv [of Q \<alpha> s _ t] in \<open>auto simp: web_ok_def\<close>)

lemma reach_ok: "reach Q J s n t \<Longrightarrow> fifo_queue Q \<alpha> \<Longrightarrow> web_ok \<alpha> 0 s \<Longrightarrow> web_ok \<alpha> n t"
  by (induction rule: reach.induct) (auto intro: internal_ok request_ok)

lemma pool_fill_fifo:
  "fifo_queue Q \<alpha> \<Longrightarrow> length (snd (\<alpha> q)) + length ps \<le> fst (\<alpha> q) \<Longrightarrow>
   \<exists>q'. pool_fill Q ps q = Some q' \<and> \<alpha> q' = (fst (\<alpha> q), snd (\<alpha> q) @ ps)"
proof (induction ps arbitrary: q)
  case (Cons p ps)
  obtain r where r: "q_send Q p q = Some r" using fifo_send(1) [OF Cons.prems(1), of p q] Cons.prems(2) by (cases "q_send Q p q") auto
  then have "\<alpha> r = (fst (\<alpha> q), snd (\<alpha> q) @ [p])" using fifo_send(2) [OF Cons.prems(1) r] by simp
  then show ?case using Cons.IH [OF Cons.prems(1), of r] Cons.prems(2) r by auto
qed simp

lemma pool_init: "fifo_queue Q \<alpha> \<Longrightarrow> \<exists>q. memory_pool_init Q = Some q \<and> \<alpha> q = (BUFFER_NR, all_buffers)"
  using pool_fill_fifo [of Q \<alpha> "q_create Q BUFFER_NR" all_buffers] all_buffers(2)
  by (simp add: memory_pool_init_def fifo_create)

lemma start_ok:
  assumes "fifo_queue Q \<alpha>" "memory_pool_init Q = Some q"
  shows "web_ok \<alpha> 0 (web_start Q ms q)"
proof -
  have "\<alpha> q = (BUFFER_NR, all_buffers)" using pool_init [OF assms(1)] assms(2) by auto
  then show ?thesis
    using fifo_create [OF assms(1)]
    by (simp add: web_ok_def web_inv_def web_start_def held_def pending_def running_def queued_def dones_def List.map_filter_def)
qed

subsection \<open>The tasks come to rest\<close>

definition backlog :: "('q \<Rightarrow> nat \<times> nat list) \<Rightarrow> ('j, 'q) web \<Rightarrow> nat" where
  "backlog \<alpha> s = 4 * length (snd (\<alpha> (long_q s))) + 3 * length (running (long_task s)) +
     2 * length (snd (\<alpha> (out_q s))) + length (work s)"

lemma backlog_simps [simp]:
  "backlog \<alpha> (say ev s) = backlog \<alpha> s" "backlog \<alpha> (made j s) = backlog \<alpha> s" "backlog \<alpha> (cJSON_Delete j s) = backlog \<alpha> s"
  "backlog \<alpha> (forget j s) = backlog \<alpha> s" "backlog \<alpha> (upd p f s) = backlog \<alpha> s" "backlog \<alpha> (uri_api_send_out J p err s) = backlog \<alpha> s"
  by (simp_all add: backlog_def say_def made_def cJSON_Delete_def forget_def upd_def uri_api_send_out_def Let_def split: option.split)

lemma backlog_put: "memory_pool_put Q p s = Inr t \<Longrightarrow> backlog \<alpha> t = backlog \<alpha> s"
  by (auto simp: memory_pool_put_def backlog_def split: option.splits)

lemma backlog_text: "json_to_text J p s = (b, t) \<Longrightarrow> backlog \<alpha> t = backlog \<alpha> s"
  by (auto simp: json_to_text_def Let_def split: option.splits)

lemma backlog_work: "backlog \<alpha> (s\<lparr>work := work s @ [p]\<rparr>) = Suc (backlog \<alpha> s)"
  by (simp add: backlog_def)

lemma backlog_cb: "async_send_out_cb Q J ok p st s = Inr t \<Longrightarrow> backlog \<alpha> t \<le> Suc (backlog \<alpha> s)"
  by (auto simp: async_send_out_cb_def api_async_send_out_cb_def ws_async_send_out_cb_def Let_def backlog_work
      dest!: backlog_put [where \<alpha> = \<alpha>] backlog_text [where \<alpha> = \<alpha>] split: kind.splits if_splits prod.splits)

lemma backlog_long:
  assumes Q: "fifo_queue Q \<alpha>" and r: "req_long_task Q J answer ok s = Some (Inr t)"
  shows "backlog \<alpha> t < backlog \<alpha> s"
proof (cases "long_task s")
  case Long_Wait
  then obtain p q where q: "q_recv Q (long_q s) = Some (p, q)"
    and t: "t = set_answer p answer (s\<lparr>long_q := q, long_task := Long_Push p\<rparr>)"
    using r by (auto simp: req_long_task_def)
  have "backlog \<alpha> t = backlog \<alpha> (s\<lparr>long_q := q, long_task := Long_Push p\<rparr>)"
    by (simp add: t set_answer_def split: option.split)
  then show ?thesis using fifo_recv(2) [OF Q q] Long_Wait by (simp add: backlog_def running_def)
next
  case (Long_Push p)
  define u where "u = s\<lparr>long_task := Long_Wait\<rparr>"
  have u: "backlog \<alpha> s = backlog \<alpha> u + 3" using Long_Push by (simp add: backlog_def running_def u_def)
  show ?thesis
  proof (cases "q_send Q p (out_q u)")
    case None
    then have "async_send_out_cb Q J ok p (- 1) (upd p (\<lambda>m. m\<lparr>m_status := - 1\<rparr>) u) = Inr t"
      using r Long_Push by (simp add: req_long_task_def Let_def u_def [symmetric] req_queue_push_send_out_def)
    from backlog_cb [OF this, of \<alpha>] show ?thesis using u by simp
  next
    case (Some q)
    then have "t = u\<lparr>out_q := q\<rparr>"
      using r Long_Push by (simp add: req_long_task_def Let_def u_def [symmetric] req_queue_push_send_out_def)
    moreover have "length (snd (\<alpha> q)) = Suc (length (snd (\<alpha> (out_q u))))" using fifo_send(2) [OF Q Some] by simp
    ultimately show ?thesis using u by (simp add: backlog_def)
  qed
qed

lemma backlog_internal: "fifo_queue Q \<alpha> \<Longrightarrow> internal Q J s t \<Longrightarrow> backlog \<alpha> t < backlog \<alpha> s"
proof (elim internalE)
  fix ok assume Q: "fifo_queue Q \<alpha>" and r: "req_send_out_task Q J ok s = Some (Inr t)"
  then obtain p q where q: "q_recv Q (out_q s) = Some (p, q)" "async_send_out_cb Q J ok p (m_status (msgs s p)) (s\<lparr>out_q := q\<rparr>) = Inr t"
    by (auto simp: req_send_out_task_def)
  from backlog_cb [OF q(2), of \<alpha>] show ?thesis using fifo_recv(2) [OF Q q(1)] by (simp add: backlog_def)
next
  assume "ws_async_resp Q s = Some (Inr t)"
  then obtain p ps ev where w: "work s = p # ps" and t: "memory_pool_put Q p (say ev (s\<lparr>work := ps\<rparr>)) = Inr t"
    by (auto simp: ws_async_resp_def split: list.splits)
  have "backlog \<alpha> t = backlog \<alpha> (s\<lparr>work := ps\<rparr>)" using backlog_put [OF t, of \<alpha>] by simp
  then show ?thesis using w by (simp add: backlog_def)
qed (rule backlog_long)

lemma backlog_run: "(internal Q J ^^ n) s t \<Longrightarrow> fifo_queue Q \<alpha> \<Longrightarrow> n + backlog \<alpha> t \<le> backlog \<alpha> s"
proof (induction n arbitrary: t)
  case (Suc n)
  then obtain u where "(internal Q J ^^ n) s u" "internal Q J u t" by auto
  then show ?case using Suc.IH [of u] backlog_internal [OF Suc.prems(2)] Suc.prems(2) by fastforce
qed simp

lemma backlog_bound:
  assumes "web_inv \<alpha> {#} {#} 0 s"
  shows "backlog \<alpha> s \<le> 4 * BUFFER_NR"
proof -
  have "size (mset (snd (\<alpha> (pool s))) + mset (held \<alpha> s)) = BUFFER_NR"
    using assms all_buffers(2) by (simp only: web_inv_def size_mset) simp
  then show ?thesis by (simp add: backlog_def held_def pending_def)
qed

lemma fineI: "fine \<alpha> r \<Longrightarrow> r \<noteq> Inl Pool_Empty \<Longrightarrow> \<exists>t. r = Inr t"
  by (cases r) (auto simp: fine_def)

text \<open>When no task can move there is nothing left to do.\<close>

lemma rest_idle:
  assumes Q: "fifo_queue Q \<alpha>" and s: "web_inv \<alpha> {#} {#} 0 s" and stuck: "\<nexists>t. internal Q J s t"
  shows "pending \<alpha> s = [] \<and> work s = []"
proof -
  have w: "work s = []"
  proof (rule ccontr)
    assume "work s \<noteq> []"
    then obtain p ps where "work s = p # ps" by (cases "work s") auto
    then obtain r where r: "ws_async_resp Q s = Some r" "r \<noteq> Inl Pool_Empty"
      by (auto simp: ws_async_resp_def memory_pool_put_def split: option.splits)
    show False using fineI [OF message_fine [OF Q s r(1)] r(2)] r(1) stuck by (auto intro: internal.message)
  qed
  have cb: "async_send_out_cb Q J ok p st u \<noteq> Inl Pool_Empty" for ok p st u
    by (auto simp: async_send_out_cb_def api_async_send_out_cb_def ws_async_send_out_cb_def Let_def memory_pool_put_def
        split: kind.splits option.splits prod.splits)
  have l: "long_task s = Long_Wait"
  proof (cases "long_task s")
    case (Long_Push p)
    then obtain r where r: "req_long_task Q J (0, None) True s = Some r" "r \<noteq> Inl Pool_Empty"
      using cb by (auto simp: req_long_task_def Let_def split: option.splits)
    show ?thesis using fineI [OF long_fine [OF Q s r(1)] r(2)] r(1) stuck by (auto intro: internal.run)
  qed
  have "snd (\<alpha> (long_q s)) = []"
    using stuck fifo_recv(1) [OF Q] l internal.run [of Q J "(0, None)" True s]
    by (cases "q_recv Q (long_q s)") (auto simp: req_long_task_def)
  moreover have "snd (\<alpha> (out_q s)) = []"
  proof (rule ccontr)
    assume "snd (\<alpha> (out_q s)) \<noteq> []"
    then obtain p q where "q_recv Q (out_q s) = Some (p, q)" using fifo_recv(1) [OF Q] by (cases "q_recv Q (out_q s)") auto
    then obtain r where r: "req_send_out_task Q J True s = Some r" "r \<noteq> Inl Pool_Empty"
      using cb by (simp add: req_send_out_task_def)
    show False using fineI [OF send_out_fine [OF Q s r(1)] r(2)] r(1) stuck by (auto intro: internal.send_out)
  qed
  ultimately show ?thesis using w l by (simp add: pending_def running_def)
qed

section \<open>Properties\<close>


text \<open>A queue for the examples, and a JSON library with one document.\<close>

definition list_queue :: "(nat \<times> nat list) queue_api" where
  "list_queue = \<lparr>q_create = \<lambda>n. (n, []),
     q_send = \<lambda>x q. if length (snd q) < fst q then Some (fst q, snd q @ [x]) else None,
     q_recv = \<lambda>q. case snd q of [] \<Rightarrow> None | x # xs \<Rightarrow> Some (x, (fst q, xs))\<rparr>"

definition unit_json :: "unit json_api" where
  "unit_json = \<lparr>j_parse = \<lambda>_. Some (), j_print = \<lambda>_ _. Some []\<rparr>"

lemma list_queue: "fifo_queue list_queue (\<lambda>q. q)"
  by (auto simp: fifo_queue_def list_queue_def split: list.split)

definition list_pool :: "nat \<times> nat list" where "list_pool = (BUFFER_NR, all_buffers)"

lemma list_pool: "memory_pool_init list_queue = Some list_pool"
  using pool_init [OF list_queue] by (simp add: list_pool_def)

definition no_msg :: "nat \<Rightarrow> unit msg" where
  "no_msg p = \<lparr>m_in = None, m_out = None, m_status = 0, m_kind = Http, m_fd = 0, m_text = []\<rparr>"

text \<open>A request that the API answers later, queued.\<close>

definition async_post :: "unit post_env" where
  "async_post = \<lparr>pe_len = 1, pe_recv = Some [0x31], pe_call = \<lambda>_. (API_JSON_ASYNC, None)\<rparr>"

definition one_queued :: "(unit, nat \<times> nat list) web" where
  "one_queued = (web_start list_queue no_msg list_pool)\<lparr>pool := (7, [2, 3, 4, 5, 6, 7]), long_q := (2, [1]),
     msgs := no_msg(1 := \<lparr>m_in = Some (), m_out = None, m_status = 0, m_kind = Http, m_fd = 0, m_text = []\<rparr>),
     json_live := 1, w_log := [Queued 1]\<rparr>"

lemma one_queued: "api_post_handler list_queue unit_json async_post (web_start list_queue no_msg list_pool) = Inr one_queued"
  by (simp add: api_post_handler_def async_post_def BUFFER_SZ_def sizeof_post_request_def memory_pool_get_def web_start_def
      list_queue_def list_pool_def all_buffers_def BUFFER_NR_def upt_rec unit_json_def api_routed_def made_def upd_def
      req_queue_push_long_run_def say_def one_queued_def no_msg_def docs_def API_JSON_ASYNC_def)

lemma reach_one_queued: "reach list_queue unit_json (web_start list_queue no_msg list_pool) 0 one_queued"
  using reach.request [OF reach.start request.post [OF one_queued]] by simp


text \<open>C19: From every reachable state the request tasks come to rest after at most 28 steps, whatever the
  API modules answer and whether or not the web server accepts messages; at rest every request that
  was queued has been called back exactly once, and all buffers but the ones lost to pages and the one
  of the discovery service are back in the pool.\<close>

theorem queued_requests_complete:
  assumes "fifo_queue Q \<alpha>" "memory_pool_init Q = Some q" "reach Q J (web_start Q ms q) n s"
    and "(internal Q J ^^ k) s t"
  shows "k \<le> 28 \<and> ((\<nexists>u. internal Q J t u) \<longrightarrow>
    mset (queued (w_log t)) = mset (dones (w_log t)) \<and>
    mset (snd (\<alpha> (pool t))) + mset (ssdp_buf t) + mset (lost t) = mset all_buffers \<and> length (lost t) = n \<and> json_live t = json_lost t)"
proof -
  have s: "web_ok \<alpha> n s" using reach_ok [OF assms(3,1) start_ok [OF assms(1,2)]] .
  have "backlog \<alpha> s \<le> 28" using backlog_bound [of \<alpha> s] s by (simp add: web_ok_def BUFFER_NR_def)
  then have k: "k \<le> 28" using backlog_run [OF assms(4,1)] by simp
  have "(internal Q J ^^ i) s v \<Longrightarrow> web_ok \<alpha> n v" for i v
    by (induction i arbitrary: v) (auto intro: s internal_ok [OF assms(1)])
  then have t: "web_ok \<alpha> n t" using assms(4) by blast
  then have "\<nexists>u. internal Q J t u \<Longrightarrow> pending \<alpha> t = [] \<and> work t = []"
    using rest_idle [OF assms(1), of t J] by (simp add: web_ok_def)
  then show ?thesis using k t by (auto simp: web_ok_def web_inv_def held_def add.assoc)
qed

definition one_running :: "long_pc \<Rightarrow> nat list \<Rightarrow> (unit, nat \<times> nat list) web" where
  "one_running pc out = one_queued\<lparr>long_q := (2, []), long_task := pc, out_q := (4, out)\<rparr>"

definition one_done :: "(unit, nat \<times> nat list) web" where
  "one_done = (one_running Long_Wait [])\<lparr>pool := (7, [2, 3, 4, 5, 6, 7, 1]), json_live := 0,
     w_log := [Queued 1, Http_Reply 1 200 None, Done 1]\<rparr>"

lemma one_run: "(internal list_queue unit_json ^^ 3) one_queued one_done"
proof -
  have "internal list_queue unit_json one_queued (one_running (Long_Push 1) [])"
    by (rule internal.run [where answer = "(0, None)" and ok = True])
      (simp add: req_long_task_def one_queued_def one_running_def list_queue_def set_answer_def upd_def web_start_def)
  moreover have "internal list_queue unit_json (one_running (Long_Push 1) []) (one_running Long_Wait [1])"
    by (rule internal.run [where answer = "(0, None)" and ok = True])
      (simp add: req_long_task_def one_queued_def one_running_def list_queue_def req_queue_push_send_out_def web_start_def)
  moreover have "internal list_queue unit_json (one_running Long_Wait [1]) one_done"
    by (rule internal.send_out [where ok = True])
      (simp add: req_send_out_task_def one_queued_def one_running_def one_done_def list_queue_def async_send_out_cb_def
        api_async_send_out_cb_def uri_api_send_out_def memory_pool_put_def say_def cJSON_Delete_def docs_def API_JSON_OK_def)
  ultimately show ?thesis by (auto simp: numeral_3_eq_3)
qed

lemma one_done_rests: "\<nexists>u. internal list_queue unit_json one_done u"
  by (auto elim!: internalE simp: req_long_task_def req_send_out_task_def ws_async_resp_def one_done_def one_running_def
      one_queued_def web_start_def list_queue_def)

theorem queued_requests_complete_witness:
  "mset (queued (w_log one_done)) = mset (dones (w_log one_done)) \<and>
   mset (snd (pool one_done)) + mset (ssdp_buf one_done) + mset (lost one_done) = mset all_buffers"
  using queued_requests_complete [OF list_queue list_pool reach_one_queued one_run] one_done_rests by blast

definition ssdp_uri :: mem where "ssdp_uri = mem_of (ascii ''/SSDP/DDS.xml'')"

lemma ssdp_uri: "html_page ssdp_uri = Ssdp_Schema"
  by code_simp

text \<open>Each request for the SSDP description costs one buffer for ever: at most seven are served, six
  while the discovery service listens, and after the last of them every API request and every
  WebSocket frame fails the assertion in \<open>memory_pool_get\<close> (which restarts the device) while a
  further request for the page blocks.\<close>

theorem pages_exhaust_pool:
  assumes "fifo_queue Q \<alpha>" "memory_pool_init Q = Some q" "reach Q J (web_start Q ms q) n s"
  shows "n + length (ssdp_buf s) \<le> BUFFER_NR \<and> (n + length (ssdp_buf s) = BUFFER_NR \<longrightarrow>
    (pe_len E \<le> BUFFER_SZ - sizeof_post_request \<longrightarrow> api_post_handler Q J E s = Inl Pool_Empty) \<and>
    ws_req_handler Q J W s = Inl Pool_Empty \<and> html_base_get_handler Q ssdp_uri s = None)"
proof -
  have s: "web_inv \<alpha> {#} {#} 0 s" "length (lost s) = n"
    using reach_ok [OF assms(3,1) start_ok [OF assms(1,2)]] by (simp_all add: web_ok_def)
  have "size (mset (snd (\<alpha> (pool s))) + mset (held \<alpha> s)) = BUFFER_NR"
    using s(1) all_buffers(2) by (simp only: web_inv_def size_mset) simp
  then have l: "length (snd (\<alpha> (pool s))) + (n + length (ssdp_buf s)) \<le> BUFFER_NR" using s(2) by (simp add: held_def)
  show ?thesis
  proof (cases "n + length (ssdp_buf s) = BUFFER_NR")
    case True
    then have e: "snd (\<alpha> (pool s)) = []" using l by simp
    then have "q_recv Q (pool s) = None" using fifo_recv(2) [OF assms(1), of "pool s"] by (cases "q_recv Q (pool s)") auto
    then show ?thesis using True
      by (simp add: api_post_handler_def ws_req_handler_def html_base_get_handler_def memory_pool_get_def ssdp_uri)
  qed (use l in simp)
qed

text \<open>While the discovery service holds the first buffer, six pages take the others.\<close>

definition after_pages :: "nat \<Rightarrow> (unit, nat \<times> nat list) web" where
  "after_pages n = (web_start list_queue no_msg list_pool)\<lparr>pool := (7, drop (Suc n) all_buffers), ssdp_buf := [1],
     lost := rev (take n (tl all_buffers)), w_log := replicate n (Page Ssdp_Schema)\<rparr>"

lemma reach_pages: "n < BUFFER_NR \<Longrightarrow> reach list_queue unit_json (web_start list_queue no_msg list_pool) n (after_pages n)"
proof (induction n)
  case 0
  have "ssdp_take_buffer list_queue (web_start list_queue no_msg list_pool) = Some (after_pages 0)"
    by (simp add: after_pages_def web_start_def list_pool_def BUFFER_NR_def ssdp_take_buffer_def list_queue_def
        all_buffers_def upt_rec)
  from reach.request [OF reach.start request.ssdp_listen [OF this]] show ?case by simp
next
  case (Suc n)
  then have n: "Suc n < length all_buffers" by (simp add: all_buffers(2))
  have "html_base_get_handler list_queue ssdp_uri (after_pages n) = Some (after_pages (Suc n))"
    using n by (simp add: html_base_get_handler_def ssdp_uri after_pages_def list_queue_def say_def Cons_nth_drop_Suc [symmetric]
        take_Suc_conv_app_nth replicate_append_same nth_tl)
  then have "reach list_queue unit_json (web_start list_queue no_msg list_pool) (n + 1) (after_pages (Suc n))"
    using Suc request.page [of list_queue ssdp_uri "after_pages n" "after_pages (Suc n)" unit_json]
    by (intro reach.request) (simp_all add: ssdp_uri)
  then show ?case by simp
qed

theorem pages_exhaust_pool_witness:
  "api_post_handler list_queue unit_json async_post (after_pages 6) = Inl Pool_Empty"
  using pages_exhaust_pool [OF list_queue list_pool reach_pages [of 6], of async_post]
  by (simp add: BUFFER_NR_def async_post_def BUFFER_SZ_def sizeof_post_request_def after_pages_def)

section \<open>The client table\<close>

lemma ws_rm_from_mset: "mset (ws_rm_from i fd fds) = mset fds - (if fd \<in> set (drop i fds) then {#fd#} else {#})"
proof (induction i fd fds rule: ws_rm_from.induct)
  case (1 i fd fds)
  show ?case
  proof (cases "i < length fds \<and> fds ! i = fd")
    case True
    define a where "a = take i fds"
    define b where "b = drop (Suc i) fds"
    have f: "fds = a @ fd # b" "length a = i" using True id_take_nth_drop [of i fds] by (auto simp: a_def b_def)
    have "mset (butlast (fds[i := last fds])) = mset (a @ b)"
      by (cases b rule: rev_cases) (simp_all add: f butlast_append flip: f(2))
    then show ?thesis using True by (subst ws_rm_from.simps) (simp add: f(1) flip: f(2))
  next
    case False
    then show ?thesis using 1
      by (subst ws_rm_from.simps) (auto simp: Cons_nth_drop_Suc [symmetric])
  qed
qed

lemma ws_rm_mset: "mset (ws_rm_fd fd fds) = mset fds - {#fd#}"
  by (auto simp: ws_rm_fd_def ws_rm_from_mset diff_single_trivial)

lemma hb_from_eqs:
  "length fds \<le> i \<Longrightarrow> hb_from alive i fds = ([], fds)"
  "i < length fds \<Longrightarrow> alive (fds ! i) \<Longrightarrow> hb_from alive i fds = hb_from alive (Suc i) fds"
  "i < length fds \<Longrightarrow> \<not> alive (fds ! i) \<Longrightarrow>
    hb_from alive i fds = apfst (\<lambda>closed. fds ! i # closed) (hb_from alive (Suc i) (ws_rm_fd (fds ! i) fds))"
  by (simp_all add: hb_from.simps [of alive i fds])

lemma hb_from_result:
  "mset fds = mset (fst (hb_from alive i fds)) + mset (snd (hb_from alive i fds)) \<and>
   (\<forall>fd \<in> set (fst (hb_from alive i fds)). \<not> alive fd) \<and>
   (fst (hb_from alive i fds) = [] \<longrightarrow> (\<forall>fd \<in> set (drop i fds). alive fd))"
proof (induction alive i fds rule: hb_from.induct)
  case (1 alive i fds)
  consider "length fds \<le> i" | "i < length fds" "alive (fds ! i)" | "i < length fds" "\<not> alive (fds ! i)" by linarith
  then show ?case
  proof cases
    case 1
    then show ?thesis by (simp add: hb_from_eqs(1))
  next
    case 2
    have d: "drop i fds = fds ! i # drop (Suc i) fds" using 2(1) by (rule Cons_nth_drop_Suc [symmetric])
    from "1.IH"(1) [OF 2] show ?thesis unfolding hb_from_eqs(2) [where alive = alive, OF 2] d using 2(2) by (metis set_ConsD)
  next
    case 3
    let ?r = "hb_from alive (Suc i) (ws_rm_fd (fds ! i) fds)"
    have m: "mset fds = add_mset (fds ! i) (mset (ws_rm_fd (fds ! i) fds))" using 3 by (simp add: ws_rm_mset)
    have IH: "mset (ws_rm_fd (fds ! i) fds) = mset (fst ?r) + mset (snd ?r)" "\<forall>fd \<in> set (fst ?r). \<not> alive fd"
      using "1.IH"(2) [OF 3] by blast+
    show ?thesis unfolding hb_from_eqs(3) [where alive = alive, OF 3] m IH(1) using IH(2) 3(2) by simp
  qed
qed

text \<open>A heartbeat loses and duplicates no client, drops only clients whose socket failed, and drops at
  least one of them when there is any: as many heartbeats as there are dead clients clean the table,
  although one heartbeat may pass over the client moved into a gap.\<close>

theorem heartbeat_drops_dead:
  "mset fds = mset (fst (ws_broadcast_heartbeat alive fds)) + mset (snd (ws_broadcast_heartbeat alive fds)) \<and>
   (\<forall>fd \<in> set (fst (ws_broadcast_heartbeat alive fds)). \<not> alive fd) \<and>
   (fst (ws_broadcast_heartbeat alive fds) = [] \<longrightarrow> (\<forall>fd \<in> set fds. alive fd))"
  using hb_from_result [of fds alive 0] by (simp add: ws_broadcast_heartbeat_def)

text \<open>Two dead clients, of which one heartbeat drops the first only.\<close>

theorem heartbeat_drops_dead_witness: "ws_broadcast_heartbeat (\<lambda>_. False) [64, 65] = ([64], [65])"
  using heartbeat_drops_dead [of "[64, 65]" "\<lambda>_. False"]
  by (simp add: ws_broadcast_heartbeat_def hb_from.simps [of _ 0] hb_from.simps [of _ "Suc 0"] ws_rm_fd_def ws_rm_from.simps [of 0])

end
