(* ===== verification/WifiStorage.thy ===== *)
theory WifiStorage
  imports Modules
begin

text \<open>
  What survives a restart: the wrapper around the flash library (wt\_nvs.c) and the Wi-Fi settings
  kept through it (wifi\_storage.c).  ESP-IDF's non-volatile storage is the parameter \<open>nvs_api\<close>; its
  documented behaviour, a map from key names to typed values, is the law \<open>nvs_store\<close>.
\<close>

section \<open>The flash library\<close>

datatype nvs_type = U8 | U16 | U32 | U64 | Blob

text \<open>A value is named by its namespace, which the open handle stands for, and its key.\<close>

type_synonym nvs_name = "string \<times> u8 list"
type_synonym nvs_map = "nvs_name \<rightharpoonup> nvs_type \<times> u8 list"

record 'n nvs_api =
  nv_open :: "string \<Rightarrow> 'n \<Rightarrow> int"
  nv_get :: "nvs_type \<Rightarrow> nvs_name \<Rightarrow> nat \<Rightarrow> 'n \<Rightarrow> int \<times> u8 list"
  nv_set :: "nvs_type \<Rightarrow> nvs_name \<Rightarrow> u8 list \<Rightarrow> 'n \<Rightarrow> int \<times> 'n"
  nv_commit :: "'n \<Rightarrow> int \<times> 'n"

definition ESP_ERR_NVS_NOT_FOUND :: int where "ESP_ERR_NVS_NOT_FOUND = 0x1102"
definition ESP_ERR_NVS_INVALID_LENGTH :: int where "ESP_ERR_NVS_INVALID_LENGTH = 0x110c"

text \<open>A value is found under its name and type only.  Which error a wrong type gives is left open
  (\<open>mm\<close>); writing may fail and then changes nothing, as does committing.\<close>

definition nvs_store :: "'n nvs_api \<Rightarrow> ('n \<Rightarrow> nvs_map) \<Rightarrow> int \<Rightarrow> bool" where
  "nvs_store N \<alpha> mm \<longleftrightarrow> mm \<noteq> 0 \<and>
     (\<forall>ty k n st. nv_get N ty k n st = (case \<alpha> st k of
          None \<Rightarrow> (ESP_ERR_NVS_NOT_FOUND, [])
        | Some (ty', bs) \<Rightarrow>
            if ty' \<noteq> ty then (mm, [])
            else if ty = Blob \<and> n < length bs then (ESP_ERR_NVS_INVALID_LENGTH, [])
            else (0, bs))) \<and>
     (\<forall>ty k bs st. \<alpha> (snd (nv_set N ty k bs st)) =
        (if fst (nv_set N ty k bs st) = 0 then (\<alpha> st)(k \<mapsto> (ty, bs)) else \<alpha> st)) \<and>
     (\<forall>st. \<alpha> (snd (nv_commit N st)) = \<alpha> st)"

lemma nvs_get:
  "nvs_store N \<alpha> mm \<Longrightarrow> nv_get N ty k n st = (case \<alpha> st k of
     None \<Rightarrow> (ESP_ERR_NVS_NOT_FOUND, [])
   | Some (ty', bs) \<Rightarrow> if ty' \<noteq> ty then (mm, []) else if ty = Blob \<and> n < length bs then (ESP_ERR_NVS_INVALID_LENGTH, []) else (0, bs))"
  unfolding nvs_store_def by blast

lemma nvs_set: "nvs_store N \<alpha> mm \<Longrightarrow> nv_set N ty k bs st = (err, st') \<Longrightarrow> \<alpha> st' = (if err = 0 then (\<alpha> st)(k \<mapsto> (ty, bs)) else \<alpha> st)"
  unfolding nvs_store_def by (metis fst_conv snd_conv)

lemma nvs_commit: "nvs_store N \<alpha> mm \<Longrightarrow> nv_commit N st = (err, st') \<Longrightarrow> \<alpha> st' = \<alpha> st"
  unfolding nvs_store_def by (metis snd_conv)

section \<open>wt\_nvs.c\<close>

text \<open>The storage and the number of open handles.\<close>

record 'n flash =
  store :: 'n
  handles :: nat

definition wt_nvs_open :: "'n nvs_api \<Rightarrow> string \<Rightarrow> 'n flash \<Rightarrow> int \<times> 'n flash" where
  "wt_nvs_open N ns s = (let err = nv_open N ns (store s) in (err, if err = 0 then s\<lparr>handles := handles s + 1\<rparr> else s))"

text \<open>A failing commit aborts the program (\<open>None\<close>).\<close>

definition wt_nvs_close :: "'n nvs_api \<Rightarrow> 'n flash \<Rightarrow> 'n flash option" where
  "wt_nvs_close N s =
     (let (err, st) = nv_commit N (store s) in
      if err \<noteq> 0 then None else Some (s\<lparr>store := st, handles := handles s - 1\<rparr>))"

text \<open>A key is a number whose bytes, up to the first zero, are the name.\<close>

definition key_name :: "u32 \<Rightarrow> u8 list" where
  "key_name key = takeWhile (\<lambda>b. b \<noteq> 0) (le32_bytes key)"

definition type_of_size :: "nat \<Rightarrow> nvs_type" where
  "type_of_size n = (if n = 0 \<or> n = 1 then U8 else if n = 2 then U16 else if n = 4 then U32 else if n = 8 then U64 else Blob)"

text \<open>An object is its bytes; a get overwrites the front of it, or nothing of an object of size 0.\<close>

definition wt_nvs_get :: "'n nvs_api \<Rightarrow> string \<Rightarrow> u32 \<Rightarrow> u8 list \<Rightarrow> nat \<Rightarrow> 'n flash \<Rightarrow> int \<times> u8 list" where
  "wt_nvs_get N ns key obj data_size s =
     (let (err, bs) = nv_get N (type_of_size data_size) (ns, key_name key) data_size (store s) in
      (err, if err = 0 \<and> data_size \<noteq> 0 then bs @ drop (length bs) obj else obj))"

definition wt_nvs_set :: "'n nvs_api \<Rightarrow> string \<Rightarrow> u32 \<Rightarrow> u8 list \<Rightarrow> nat \<Rightarrow> 'n flash \<Rightarrow> int \<times> 'n flash" where
  "wt_nvs_set N ns key obj data_size s =
     (let (err, st) = nv_set N (type_of_size data_size) (ns, key_name key)
            (if data_size = 0 then [0xFF] else take data_size obj) (store s) in
      (err, s\<lparr>store := st\<rparr>))"

text \<open>The one-shot operations return without closing the handle when the access fails.\<close>

definition wt_nvs_get_once :: "'n nvs_api \<Rightarrow> string \<Rightarrow> u32 \<Rightarrow> u8 list \<Rightarrow> nat \<Rightarrow> 'n flash \<Rightarrow> (int \<times> u8 list \<times> 'n flash) option" where
  "wt_nvs_get_once N ns key obj data_size s =
     (let (err, s) = wt_nvs_open N ns s in
      if err \<noteq> 0 then Some (err, obj, s)
      else let (err, obj) = wt_nvs_get N ns key obj data_size s in
        if err \<noteq> 0 then Some (err, obj, s)
        else map_option (\<lambda>s. (0, obj, s)) (wt_nvs_close N s))"

definition wt_nvs_set_once :: "'n nvs_api \<Rightarrow> string \<Rightarrow> u32 \<Rightarrow> u8 list \<Rightarrow> nat \<Rightarrow> 'n flash \<Rightarrow> (int \<times> 'n flash) option" where
  "wt_nvs_set_once N ns key obj data_size s =
     (let (err, s) = wt_nvs_open N ns s in
      if err \<noteq> 0 then Some (err, s)
      else let (err, s) = wt_nvs_set N ns key obj data_size s in
        if err \<noteq> 0 then Some (err, s)
        else map_option (\<lambda>s. (0, s)) (wt_nvs_close N s))"

section \<open>wifi\_storage.c\<close>

definition WIFI_NVS_NAMESPACE :: string where "WIFI_NVS_NAMESPACE = ''wt_wifi''"

definition KEY_WIFI_AP_CRED :: u32 where "KEY_WIFI_AP_CRED = 0x1"
definition KEY_WIFI_STA_LAST_AP_CRED :: u32 where "KEY_WIFI_STA_LAST_AP_CRED = 0x08"
definition KEY_WIFI_STA_AP_BITMAP :: u32 where "KEY_WIFI_STA_AP_BITMAP = 0x09"
definition KEY_WIFI_STA_STATIC_BASE :: u32 where "KEY_WIFI_STA_STATIC_BASE = 0x10"
definition KEY_WIFI_APSTA_MODE :: u32 where "KEY_WIFI_APSTA_MODE = 0xFF"
definition WT_NVS_ERR_NOT_FOUND :: int where "WT_NVS_ERR_NOT_FOUND = 3"

text \<open>\<open>wifi_credential_t\<close>: 32 bytes of name and 64 of password; \<open>wifi_api_sta_ap_static_info_t\<close>: five
  addresses, two flags and two bytes of padding.\<close>

definition sizeof_credential :: nat where "sizeof_credential = 96"
definition sizeof_static_info :: nat where "sizeof_static_info = 24"

definition cred_ssid :: "u8 list \<Rightarrow> u8 list" where "cred_ssid c = take 32 c"
definition cred_password :: "u8 list \<Rightarrow> u8 list" where "cred_password c = take 64 (drop 32 c)"
definition static_ip_en :: "u8 list \<Rightarrow> u8" where "static_ip_en i = i ! 20"
definition static_dns_en :: "u8 list \<Rightarrow> u8" where "static_dns_en i = i ! 21"

definition closing :: "'n nvs_api \<Rightarrow> 'a \<Rightarrow> 'n flash \<Rightarrow> ('a \<times> 'n flash) option" where
  "closing N r s = map_option (\<lambda>s. (r, s)) (wt_nvs_close N s)"

definition wifi_data_get_sta_last_conn_cred ::
  "'n nvs_api \<Rightarrow> u8 list \<Rightarrow> 'n flash \<Rightarrow> ((int \<times> u8 list) \<times> 'n flash) option" where
  "wifi_data_get_sta_last_conn_cred N cred s =
     (let (err, s) = wt_nvs_open N WIFI_NVS_NAMESPACE s in
      if err \<noteq> 0 then Some ((err, cred), s)
      else let (err, bitmap) = wt_nvs_get N WIFI_NVS_NAMESPACE KEY_WIFI_STA_AP_BITMAP [0, 0, 0, 0] 4 s in
        if err \<noteq> 0 then closing N (err, cred) s
        else if bitmap = [0, 0, 0, 0] then closing N (WT_NVS_ERR_NOT_FOUND, cred) s
        else closing N (wt_nvs_get N WIFI_NVS_NAMESPACE KEY_WIFI_STA_LAST_AP_CRED cred sizeof_credential s) s)"

text \<open>\<open>junk\<close> is the content of the uninitialised local \<open>credential\<close>, read with the size of the bitmap.\<close>

definition save_last_cred :: "'n nvs_api \<Rightarrow> u8 list \<Rightarrow> u8 list \<Rightarrow> 'n flash \<Rightarrow> (int \<times> 'n flash) option" where
  "save_last_cred N junk cred s =
     (let (err, credential) = wt_nvs_get N WIFI_NVS_NAMESPACE KEY_WIFI_STA_LAST_AP_CRED junk 4 s in
      if err \<noteq> 0 \<and> err \<noteq> ESP_ERR_NVS_NOT_FOUND then closing N err s
      else let (err, s) = wt_nvs_set N WIFI_NVS_NAMESPACE KEY_WIFI_STA_LAST_AP_CRED cred sizeof_credential s in closing N err s)"

definition wifi_data_save_sta_ap_credential ::
  "'n nvs_api \<Rightarrow> u8 list \<Rightarrow> u8 list \<Rightarrow> 'n flash \<Rightarrow> (int \<times> 'n flash) option" where
  "wifi_data_save_sta_ap_credential N junk cred s =
     (let (err, s) = wt_nvs_open N WIFI_NVS_NAMESPACE s in
      if err \<noteq> 0 then Some (err, s)
      else let (err, bitmap) = wt_nvs_get N WIFI_NVS_NAMESPACE KEY_WIFI_STA_AP_BITMAP (take 4 junk) 4 s in
        if err \<noteq> 0 \<and> err \<noteq> ESP_ERR_NVS_NOT_FOUND then closing N err s
        else let bitmap = (if err \<noteq> 0 then [0, 0, 0, 0] else bitmap) in
          save_last_cred N junk cred
            (if bitmap = [0, 0, 0, 0] then snd (wt_nvs_set N WIFI_NVS_NAMESPACE KEY_WIFI_STA_AP_BITMAP [1, 0, 0, 0] 4 s) else s))"

definition wifi_data_save_wifi_mode :: "'n nvs_api \<Rightarrow> u8 \<Rightarrow> 'n flash \<Rightarrow> (int \<times> 'n flash) option" where
  "wifi_data_save_wifi_mode N mode s =
     (let (err, s) = wt_nvs_open N WIFI_NVS_NAMESPACE s in
      if err \<noteq> 0 then Some (err, s)
      else let (err, s) = wt_nvs_set N WIFI_NVS_NAMESPACE KEY_WIFI_APSTA_MODE [mode] 1 s in closing N err s)"

text \<open>The mode is assigned whether or not it was read; \<open>junk\<close> is the uninitialised local.\<close>

definition wifi_data_get_wifi_mode :: "'n nvs_api \<Rightarrow> u8 \<Rightarrow> u8 \<Rightarrow> 'n flash \<Rightarrow> ((int \<times> u8) \<times> 'n flash) option" where
  "wifi_data_get_wifi_mode N junk mode s =
     (let (err, s) = wt_nvs_open N WIFI_NVS_NAMESPACE s in
      if err \<noteq> 0 then Some ((err, mode), s)
      else let (err, mode_u8) = wt_nvs_get N WIFI_NVS_NAMESPACE KEY_WIFI_APSTA_MODE [junk] 1 s in closing N (err, hd mode_u8) s)"

definition wifi_data_save_ap_credential :: "'n nvs_api \<Rightarrow> u8 list \<Rightarrow> 'n flash \<Rightarrow> (int \<times> 'n flash) option" where
  "wifi_data_save_ap_credential N cred s =
     (let (err, s) = wt_nvs_open N WIFI_NVS_NAMESPACE s in
      if err \<noteq> 0 then Some (err, s)
      else let (err, s) = wt_nvs_set N WIFI_NVS_NAMESPACE KEY_WIFI_AP_CRED cred sizeof_credential s in closing N err s)"

definition wifi_data_get_ap_credential :: "'n nvs_api \<Rightarrow> u8 list \<Rightarrow> 'n flash \<Rightarrow> ((int \<times> u8 list) \<times> 'n flash) option" where
  "wifi_data_get_ap_credential N cred s =
     (let (err, s) = wt_nvs_open N WIFI_NVS_NAMESPACE s in
      if err \<noteq> 0 then Some ((err, cred), s)
      else closing N (wt_nvs_get N WIFI_NVS_NAMESPACE KEY_WIFI_AP_CRED cred sizeof_credential s) s)"

definition clear_big_flags :: "u8 list \<Rightarrow> u8 list" where
  "clear_big_flags i =
     (let i = (if 1 < static_ip_en i then i[20 := 0] else i) in
      if 1 < static_dns_en i then i[21 := 0] else i)"

definition wifi_data_get_static :: "'n nvs_api \<Rightarrow> u8 list \<Rightarrow> 'n flash \<Rightarrow> ((int \<times> u8 list) \<times> 'n flash) option" where
  "wifi_data_get_static N static_info s =
     (let (err, s) = wt_nvs_open N WIFI_NVS_NAMESPACE s in
      if err \<noteq> 0 then Some ((err, static_info), s)
      else let (err, i) = wt_nvs_get N WIFI_NVS_NAMESPACE KEY_WIFI_STA_STATIC_BASE static_info sizeof_static_info s in
        if err = ESP_ERR_NVS_NOT_FOUND then closing N (0, clear_big_flags (i[20 := 0, 21 := 0])) s
        else if err \<noteq> 0 then closing N (err, i) s
        else closing N (0, clear_big_flags i) s)"

definition wifi_data_save_static :: "'n nvs_api \<Rightarrow> u8 list \<Rightarrow> 'n flash \<Rightarrow> (int \<times> 'n flash) option" where
  "wifi_data_save_static N static_info s =
     (let (err, s) = wt_nvs_open N WIFI_NVS_NAMESPACE s in
      if err \<noteq> 0 then Some (err, s)
      else let (err, s) = wt_nvs_set N WIFI_NVS_NAMESPACE KEY_WIFI_STA_STATIC_BASE static_info sizeof_static_info s in closing N err s)"

section \<open>The wrapper over the law\<close>

lemma wt_get:
  assumes "nvs_store N \<alpha> mm"
  shows "wt_nvs_get N ns key obj n s = (case \<alpha> (store s) (ns, key_name key) of
     None \<Rightarrow> (ESP_ERR_NVS_NOT_FOUND, obj)
   | Some (ty, bs) \<Rightarrow> if ty \<noteq> type_of_size n then (mm, obj)
       else if ty = Blob \<and> n < length bs then (ESP_ERR_NVS_INVALID_LENGTH, obj)
       else (0, if n = 0 then obj else bs @ drop (length bs) obj))"
proof -
  have "mm \<noteq> 0" using assms by (simp add: nvs_store_def)
  then show ?thesis unfolding wt_nvs_get_def nvs_get [OF assms]
    by (simp add: ESP_ERR_NVS_NOT_FOUND_def ESP_ERR_NVS_INVALID_LENGTH_def Let_def split: option.split)
qed

lemma wt_set:
  assumes "nvs_store N \<alpha> mm" "wt_nvs_set N ns key obj n s = (err, t)"
  shows "handles t = handles s" "\<alpha> (store t) = (if err = 0
    then (\<alpha> (store s))((ns, key_name key) \<mapsto> (type_of_size n, if n = 0 then [0xFF] else take n obj)) else \<alpha> (store s))"
  using assms(2) nvs_set [OF assms(1)] by (auto simp: wt_nvs_set_def Let_def split: prod.splits)

lemma closing_Some:
  assumes "nvs_store N \<alpha> mm" "closing N r s = Some (r', t)"
  shows "r' = r" "handles t = handles s - 1" "\<alpha> (store t) = \<alpha> (store s)"
  using assms(2) nvs_commit [OF assms(1)] by (auto simp: closing_def wt_nvs_close_def Let_def split: prod.splits if_splits)

lemma wt_open: "wt_nvs_open N ns s = (nv_open N ns (store s), if nv_open N ns (store s) = 0 then s\<lparr>handles := handles s + 1\<rparr> else s)"
  by (simp add: wt_nvs_open_def Let_def)

lemma key_names:
  "key_name KEY_WIFI_AP_CRED = [0x1]" "key_name KEY_WIFI_STA_LAST_AP_CRED = [0x8]" "key_name KEY_WIFI_STA_AP_BITMAP = [0x9]"
  "key_name KEY_WIFI_STA_STATIC_BASE = [0x10]" "key_name KEY_WIFI_APSTA_MODE = [0xFF]"
  by code_simp+

lemma sizes [simp]:
  "type_of_size 1 = U8" "type_of_size (Suc 0) = U8" "type_of_size 4 = U32"
  "type_of_size sizeof_credential = Blob" "type_of_size sizeof_static_info = Blob"
  by (simp_all add: type_of_size_def sizeof_credential_def sizeof_static_info_def)

section \<open>Settings\<close>

text \<open>The settings and their values, the operations on them, and what the flash holds of each.\<close>

datatype setting = Mode | Ap | Static | Sta

definition setting_key :: "setting \<Rightarrow> u32" where
  "setting_key k = (case k of Mode \<Rightarrow> KEY_WIFI_APSTA_MODE | Ap \<Rightarrow> KEY_WIFI_AP_CRED | Static \<Rightarrow> KEY_WIFI_STA_STATIC_BASE
     | Sta \<Rightarrow> KEY_WIFI_STA_LAST_AP_CRED)"

definition setting_size :: "setting \<Rightarrow> nat" where
  "setting_size k = (case k of Mode \<Rightarrow> 1 | Ap \<Rightarrow> sizeof_credential | Static \<Rightarrow> sizeof_static_info | Sta \<Rightarrow> sizeof_credential)"

definition save_setting :: "'n nvs_api \<Rightarrow> u8 list \<Rightarrow> setting \<Rightarrow> u8 list \<Rightarrow> 'n flash \<Rightarrow> (int \<times> 'n flash) option" where
  "save_setting N junk k v s =
     (case k of Mode \<Rightarrow> wifi_data_save_wifi_mode N (hd v) s
      | Ap \<Rightarrow> wifi_data_save_ap_credential N v s
      | Static \<Rightarrow> wifi_data_save_static N v s
      | Sta \<Rightarrow> wifi_data_save_sta_ap_credential N junk v s)"

definition load_setting :: "'n nvs_api \<Rightarrow> u8 list \<Rightarrow> setting \<Rightarrow> u8 list \<Rightarrow> 'n flash \<Rightarrow> ((int \<times> u8 list) \<times> 'n flash) option" where
  "load_setting N junk k v s =
     (case k of Mode \<Rightarrow> map_option (\<lambda>((err, mode), s). ((err, [mode]), s)) (wifi_data_get_wifi_mode N (hd junk) (hd v) s)
      | Ap \<Rightarrow> wifi_data_get_ap_credential N v s
      | Static \<Rightarrow> wifi_data_get_static N v s
      | Sta \<Rightarrow> wifi_data_get_sta_last_conn_cred N v s)"

definition held_settings :: "('n \<Rightarrow> nvs_map) \<Rightarrow> 'n flash \<Rightarrow> setting \<Rightarrow> u8 list option" where
  "held_settings \<alpha> s k = map_option snd (\<alpha> (store s) (WIFI_NVS_NAMESPACE, key_name (setting_key k)))"

text \<open>Well-formed flash: the values have the types and sizes of their settings, and a bitmap is a word
  that is not zero.\<close>

definition saved_bitmap :: "('n \<Rightarrow> nvs_map) \<Rightarrow> 'n flash \<Rightarrow> (nvs_type \<times> u8 list) option" where
  "saved_bitmap \<alpha> s = \<alpha> (store s) (WIFI_NVS_NAMESPACE, key_name KEY_WIFI_STA_AP_BITMAP)"

definition flash_ok :: "('n \<Rightarrow> nvs_map) \<Rightarrow> 'n flash \<Rightarrow> bool" where
  "flash_ok \<alpha> s \<longleftrightarrow>
     (\<forall>k ty v. \<alpha> (store s) (WIFI_NVS_NAMESPACE, key_name (setting_key k)) = Some (ty, v) \<longrightarrow>
        ty = type_of_size (setting_size k) \<and> length v = setting_size k) \<and>
     (\<forall>ty v. saved_bitmap \<alpha> s = Some (ty, v) \<longrightarrow> ty = U32 \<and> length v = 4 \<and> v \<noteq> [0, 0, 0, 0])"

lemma flash_ok_same:
  assumes "\<alpha> (store t) = \<alpha> (store s)"
  shows "flash_ok \<alpha> t = flash_ok \<alpha> s" "held_settings \<alpha> t = held_settings \<alpha> s" "saved_bitmap \<alpha> t = saved_bitmap \<alpha> s"
  by (auto simp: flash_ok_def held_settings_def saved_bitmap_def fun_eq_iff assms)

lemma setting_key_inj: "key_name (setting_key k) = key_name (setting_key k') \<longleftrightarrow> k = k'"
  "key_name (setting_key k) \<noteq> key_name KEY_WIFI_STA_AP_BITMAP"
  by (cases k; cases k'; simp add: setting_key_def key_names) (cases k; simp add: setting_key_def key_names)

lemma flash_ok_upd:
  assumes "flash_ok \<alpha> s" "length v = setting_size k"
    and a: "\<alpha> (store t) = (\<alpha> (store s))((WIFI_NVS_NAMESPACE, key_name (setting_key k)) \<mapsto> (type_of_size (setting_size k), v))"
  shows "flash_ok \<alpha> t" "held_settings \<alpha> t = (held_settings \<alpha> s)(k \<mapsto> v)" "saved_bitmap \<alpha> t = saved_bitmap \<alpha> s"
proof -
  show "held_settings \<alpha> t = (held_settings \<alpha> s)(k \<mapsto> v)"
    by (auto simp: held_settings_def a fun_eq_iff setting_key_inj)
  show b: "saved_bitmap \<alpha> t = saved_bitmap \<alpha> s"
    using setting_key_inj(2) [of k] by (simp add: a saved_bitmap_def)
  have "ty = type_of_size (setting_size j) \<and> length w = setting_size j"
    if "\<alpha> (store t) (WIFI_NVS_NAMESPACE, key_name (setting_key j)) = Some (ty, w)" for j ty w
    using that assms(1,2) by (cases "j = k") (auto simp: a setting_key_inj flash_ok_def)
  then show "flash_ok \<alpha> t" using assms(1) unfolding flash_ok_def b by blast
qed

lemma save_other:
  assumes "nvs_store N \<alpha> mm" "flash_ok \<alpha> s" "length v = setting_size k" "k \<noteq> Sta" "save_setting N junk k v s = Some (err, t)"
  shows "flash_ok \<alpha> t \<and> handles t = handles s \<and>
    held_settings \<alpha> t = (if err = 0 then (held_settings \<alpha> s)(k \<mapsto> v) else held_settings \<alpha> s) \<and>
    saved_bitmap \<alpha> t = saved_bitmap \<alpha> s"
proof -
  obtain e u where u: "wt_nvs_set N WIFI_NVS_NAMESPACE (setting_key k) v (setting_size k) (s\<lparr>handles := handles s + 1\<rparr>) = (e, u)"
    by fastforce
  have v: "[hd v] = v" if "k = Mode" using assms(3) that by (cases v) (auto simp: setting_size_def)
  have t: "(if nv_open N WIFI_NVS_NAMESPACE (store s) \<noteq> 0 then Some (nv_open N WIFI_NVS_NAMESPACE (store s), s)
      else closing N e u) = Some (err, t)"
    using assms(4,5) u v
    by (auto simp: save_setting_def setting_key_def setting_size_def wifi_data_save_wifi_mode_def wifi_data_save_ap_credential_def
        wifi_data_save_static_def wt_open Let_def split: setting.splits)
  show ?thesis
  proof (cases "nv_open N WIFI_NVS_NAMESPACE (store s) = 0")
    case False
    then show ?thesis using t assms(2) by auto
  next
    case True
    then have c: "closing N e u = Some (err, t)" using t by simp
    note c = closing_Some [OF assms(1) c]
    have a: "\<alpha> (store t) = (if err = 0 then (\<alpha> (store s))((WIFI_NVS_NAMESPACE, key_name (setting_key k)) \<mapsto>
        (type_of_size (setting_size k), v)) else \<alpha> (store s))"
      using wt_set(2) [OF assms(1) u] c assms(3) by (cases k) (auto simp: setting_size_def sizeof_credential_def sizeof_static_info_def)
    have h: "handles t = handles s" using wt_set(1) [OF assms(1) u] c by simp
    show ?thesis
    proof (cases "err = 0")
      case True
      then show ?thesis using flash_ok_upd [OF assms(2,3), of t] a h by simp
    next
      case False
      then have "\<alpha> (store t) = \<alpha> (store s)" using a by simp
      then show ?thesis using False h assms(2) flash_ok_same by metis
    qed
  qed
qed

text \<open>Saving the credential of a network: the first time, and any later time.\<close>

lemma get_bitmap:
  assumes "nvs_store N \<alpha> mm" "flash_ok \<alpha> s" "length obj = 4"
  shows "wt_nvs_get N WIFI_NVS_NAMESPACE KEY_WIFI_STA_AP_BITMAP obj 4 s =
    (case saved_bitmap \<alpha> s of None \<Rightarrow> (ESP_ERR_NVS_NOT_FOUND, obj) | Some (ty, v) \<Rightarrow> (0, v))"
  using assms(2,3) unfolding wt_get [OF assms(1)] by (auto simp: flash_ok_def saved_bitmap_def split: option.splits)

lemma held_type:
  assumes "flash_ok \<alpha> s"
  shows "\<alpha> (store s) (WIFI_NVS_NAMESPACE, key_name (setting_key k)) =
    map_option (\<lambda>v. (type_of_size (setting_size k), v)) (held_settings \<alpha> s k)"
  using assms by (cases "\<alpha> (store s) (WIFI_NVS_NAMESPACE, key_name (setting_key k))") (auto simp: flash_ok_def held_settings_def)

lemma sta_key: "KEY_WIFI_STA_LAST_AP_CRED = setting_key Sta" "sizeof_credential = setting_size Sta"
  by (simp_all add: setting_key_def setting_size_def)

lemma get_cred_as_word:
  assumes "nvs_store N \<alpha> mm" "flash_ok \<alpha> s"
  shows "wt_nvs_get N WIFI_NVS_NAMESPACE KEY_WIFI_STA_LAST_AP_CRED obj 4 s =
    (if held_settings \<alpha> s Sta = None then ESP_ERR_NVS_NOT_FOUND else mm, obj)"
  unfolding wt_get [OF assms(1)] sta_key held_type [OF assms(2)]
  by (auto simp: sta_key(2) [symmetric] split: option.splits)

text \<open>The save after the handle is open, and after the bitmap is there.\<close>

lemma save_cred_after_bitmap:
  assumes N: "nvs_store N \<alpha> mm" and s: "flash_ok \<alpha> s" and v: "length v = sizeof_credential"
    and r: "save_last_cred N junk v s = Some (err, t)"
  shows "flash_ok \<alpha> t \<and> handles t = handles s - 1 \<and> saved_bitmap \<alpha> t = saved_bitmap \<alpha> s \<and>
    held_settings \<alpha> t = (if err = 0 then (held_settings \<alpha> s)(Sta \<mapsto> v) else held_settings \<alpha> s) \<and>
    (held_settings \<alpha> s Sta \<noteq> None \<and> mm \<noteq> ESP_ERR_NVS_NOT_FOUND \<longrightarrow> err = mm)"
proof (cases "held_settings \<alpha> s Sta \<noteq> None \<and> mm \<noteq> ESP_ERR_NVS_NOT_FOUND")
  case True
  have "mm \<noteq> 0" using N by (simp add: nvs_store_def)
  then have c: "closing N mm s = Some (err, t)" using r True by (simp add: save_last_cred_def get_cred_as_word [OF N s])
  show ?thesis using closing_Some [OF N c] flash_ok_same [of \<alpha> t s] s \<open>mm \<noteq> 0\<close> by auto
next
  case False
  obtain e u where u: "wt_nvs_set N WIFI_NVS_NAMESPACE KEY_WIFI_STA_LAST_AP_CRED v sizeof_credential s = (e, u)" by fastforce
  have c: "closing N e u = Some (err, t)"
    using r False u by (auto simp: save_last_cred_def get_cred_as_word [OF N s] split: if_splits)
  note c = closing_Some [OF N c]
  have a: "\<alpha> (store t) = (if e = 0 then (\<alpha> (store s))((WIFI_NVS_NAMESPACE, key_name (setting_key Sta)) \<mapsto>
      (type_of_size (setting_size Sta), v)) else \<alpha> (store s))"
    using wt_set(2) [OF N u] c(3) v by (simp add: sta_key [symmetric]) (simp add: sizeof_credential_def)
  have h: "handles t = handles s - 1" "err = e" using wt_set(1) [OF N u] c(1,2) by simp_all
  show ?thesis
  proof (cases "e = 0")
    case True
    then show ?thesis using flash_ok_upd [of \<alpha> s v Sta t] a h s v False by (auto simp: sta_key)
  next
    case e: False
    then show ?thesis using flash_ok_same [of \<alpha> t s] a h s False by auto
  qed
qed

lemma save_sta:
  assumes N: "nvs_store N \<alpha> mm" and s: "flash_ok \<alpha> s" and v: "length v = sizeof_credential" and junk: "4 \<le> length junk"
    and r: "wifi_data_save_sta_ap_credential N junk v s = Some (err, t)"
  shows "flash_ok \<alpha> t \<and> handles t = handles s \<and>
    held_settings \<alpha> t = (if err = 0 then (held_settings \<alpha> s)(Sta \<mapsto> v) else held_settings \<alpha> s) \<and>
    (saved_bitmap \<alpha> s \<noteq> None \<longrightarrow> saved_bitmap \<alpha> t = saved_bitmap \<alpha> s) \<and>
    (held_settings \<alpha> s Sta \<noteq> None \<and> mm \<noteq> ESP_ERR_NVS_NOT_FOUND \<longrightarrow> err \<noteq> 0)"
proof (cases "nv_open N WIFI_NVS_NAMESPACE (store s) = 0")
  case False
  then show ?thesis using r s by (auto simp: wifi_data_save_sta_ap_credential_def wt_open)
next
  case True
  define o1 where "o1 = s\<lparr>handles := handles s + 1\<rparr>"
  have s1: "flash_ok \<alpha> o1" "held_settings \<alpha> o1 = held_settings \<alpha> s" "saved_bitmap \<alpha> o1 = saved_bitmap \<alpha> s" "store o1 = store s"
    using flash_ok_same [of \<alpha> o1 s] s by (simp_all add: o1_def)
  define u where "u = (if saved_bitmap \<alpha> s = None then snd (wt_nvs_set N WIFI_NVS_NAMESPACE KEY_WIFI_STA_AP_BITMAP [1, 0, 0, 0] 4 o1) else o1)"
  have mm: "mm \<noteq> 0" using N by (simp add: nvs_store_def)
  have bm: "wt_nvs_get N WIFI_NVS_NAMESPACE KEY_WIFI_STA_AP_BITMAP (take 4 junk) 4 o1 =
      (case saved_bitmap \<alpha> s of None \<Rightarrow> (ESP_ERR_NVS_NOT_FOUND, take 4 junk) | Some (ty, v) \<Rightarrow> (0, v))"
    using get_bitmap [OF N s1(1)] junk s1(3) by simp
  have nz: "saved_bitmap \<alpha> s = Some (ty, b) \<Longrightarrow> b \<noteq> [0, 0, 0, 0]" for ty b using s by (simp add: flash_ok_def)
  have o: "wt_nvs_open N WIFI_NVS_NAMESPACE s = (0, o1)" using True by (simp add: wt_open o1_def)
  have "save_last_cred N junk v u = Some (err, t)"
    using r nz unfolding wifi_data_save_sta_ap_credential_def o
    by (cases "saved_bitmap \<alpha> s") (auto simp: bm u_def ESP_ERR_NVS_NOT_FOUND_def)
  moreover have u: "flash_ok \<alpha> u \<and> handles u = handles s + 1 \<and> held_settings \<alpha> u = held_settings \<alpha> s \<and>
      (saved_bitmap \<alpha> s \<noteq> None \<longrightarrow> saved_bitmap \<alpha> u = saved_bitmap \<alpha> s)"
  proof (cases "saved_bitmap \<alpha> s")
    case None
    obtain e w where w: "wt_nvs_set N WIFI_NVS_NAMESPACE KEY_WIFI_STA_AP_BITMAP [1, 0, 0, 0] 4 o1 = (e, w)" by fastforce
    have a: "\<alpha> (store w) = (if e = 0 then (\<alpha> (store s))((WIFI_NVS_NAMESPACE, key_name KEY_WIFI_STA_AP_BITMAP) \<mapsto> (U32, [1, 0, 0, 0]))
        else \<alpha> (store s))" "handles w = handles s + 1" using wt_set [OF N w] s1(4) by (simp_all add: o1_def)
    have "u = w" using None w by (simp add: u_def)
    moreover have "held_settings \<alpha> w = held_settings \<alpha> s"
      using a(1) setting_key_inj(2) by (auto simp: held_settings_def fun_eq_iff)
    moreover have "flash_ok \<alpha> w"
      using s a(1) setting_key_inj(2) by (auto simp: flash_ok_def saved_bitmap_def)
    ultimately show ?thesis using a(2) None by simp
  qed (simp add: u_def s1, simp add: o1_def)
  ultimately show ?thesis using save_cred_after_bitmap [OF N _ v, of u junk err t] mm by auto
qed

lemma save_setting_ok:
  assumes "nvs_store N \<alpha> mm" "flash_ok \<alpha> s" "length v = setting_size k" "4 \<le> length junk" "save_setting N junk k v s = Some (err, t)"
  shows "flash_ok \<alpha> t \<and> handles t = handles s \<and>
    held_settings \<alpha> t = (if err = 0 then (held_settings \<alpha> s)(k \<mapsto> v) else held_settings \<alpha> s) \<and>
    (saved_bitmap \<alpha> s \<noteq> None \<longrightarrow> saved_bitmap \<alpha> t = saved_bitmap \<alpha> s)"
proof (cases "k = Sta")
  case True
  then have "wifi_data_save_sta_ap_credential N junk v s = Some (err, t)" "length v = sizeof_credential"
    using assms(3,5) by (simp_all add: save_setting_def setting_size_def)
  then show ?thesis using save_sta [OF assms(1,2) _ assms(4)] True by blast
next
  case False
  then show ?thesis using save_other [OF assms(1-3) False assms(5)] by simp
qed

text \<open>What a load makes of a stored value.\<close>

definition loaded :: "setting \<Rightarrow> u8 list \<Rightarrow> u8 list" where
  "loaded k v = (if k = Static then clear_big_flags v else v)"

lemma load_setting_ok:
  assumes N: "nvs_store N \<alpha> mm" and s: "flash_ok \<alpha> s" and o: "nv_open N WIFI_NVS_NAMESPACE (store s) = 0"
    and h: "held_settings \<alpha> s k = Some w" and b: "k = Sta \<Longrightarrow> saved_bitmap \<alpha> s \<noteq> None"
    and obj: "length obj = setting_size k" and r: "load_setting N junk k obj s = Some ((err, v), t)"
  shows "err = 0 \<and> v = loaded k w \<and> handles t = handles s \<and> \<alpha> (store t) = \<alpha> (store s)"
proof -
  define o1 where "o1 = s\<lparr>handles := handles s + 1\<rparr>"
  have o1: "wt_nvs_open N WIFI_NVS_NAMESPACE s = (0, o1)" using o by (simp add: wt_open o1_def)
  have s1: "flash_ok \<alpha> o1" "held_settings \<alpha> o1 = held_settings \<alpha> s" "saved_bitmap \<alpha> o1 = saved_bitmap \<alpha> s"
    using flash_ok_same [of \<alpha> o1 s] s by (simp_all add: o1_def)
  have w: "length w = setting_size k"
    using s held_type [OF s, of k] h by (auto simp: flash_ok_def)
  have g: "wt_nvs_get N WIFI_NVS_NAMESPACE (setting_key k) x (setting_size k) o1 = (0, w)" if "length x = setting_size k" for x
    unfolding wt_get [OF N] held_type [OF s1(1)] using w h s1(2) that
    by (auto simp: setting_size_def sizeof_credential_def sizeof_static_info_def split: setting.splits)
  have "closing N (0, loaded k w) o1 = Some ((err, v), t)"
  proof (cases k)
    case Mode
    have "wt_nvs_get N WIFI_NVS_NAMESPACE KEY_WIFI_APSTA_MODE [hd junk] 1 o1 = (0, w)"
      using g [of "[hd junk]"] Mode by (simp add: setting_key_def setting_size_def)
    moreover have "[hd w] = w" using w Mode by (cases w) (simp_all add: setting_size_def)
    ultimately show ?thesis using r Mode
      by (auto simp: load_setting_def wifi_data_get_wifi_mode_def o1 loaded_def closing_def)
  next
    case Ap
    then show ?thesis using r g [OF obj]
      by (simp add: load_setting_def wifi_data_get_ap_credential_def o1 loaded_def setting_key_def setting_size_def)
  next
    case Static
    then show ?thesis using r g [OF obj]
      by (simp add: load_setting_def wifi_data_get_static_def o1 loaded_def setting_key_def setting_size_def ESP_ERR_NVS_NOT_FOUND_def)
  next
    case Sta
    then obtain ty bm where bm: "saved_bitmap \<alpha> s = Some (ty, bm)" using b by auto
    then have "bm \<noteq> [0, 0, 0, 0]" using s by (simp add: flash_ok_def)
    then show ?thesis using r g [OF obj] Sta get_bitmap [OF N s1(1), of "[0, 0, 0, 0]"] bm s1(3)
      by (simp add: load_setting_def wifi_data_get_sta_last_conn_cred_def o1 loaded_def setting_key_def setting_size_def)
  qed
  from closing_Some [OF N this] show ?thesis by (simp add: o1_def)
qed

primrec run_saves :: "'n nvs_api \<Rightarrow> u8 list \<Rightarrow> (setting \<times> u8 list) list \<Rightarrow> 'n flash \<Rightarrow> (int list \<times> 'n flash) option" where
  "run_saves N junk [] s = Some ([], s)"
| "run_saves N junk (op # ops) s =
     (case save_setting N junk (fst op) (snd op) s of None \<Rightarrow> None
      | Some (err, s) \<Rightarrow> map_option (apfst ((#) err)) (run_saves N junk ops s))"

text \<open>The abstract store: the last value whose save answered 0.\<close>

definition accepted :: "(setting \<times> u8 list) list \<Rightarrow> int list \<Rightarrow> (setting \<rightharpoonup> u8 list) \<Rightarrow> setting \<rightharpoonup> u8 list" where
  "accepted ops errs m = fold (\<lambda>((k, v), err) m. if err = 0 then m(k \<mapsto> v) else m) (zip ops errs) m"

lemma run_saves_ok:
  assumes "nvs_store N \<alpha> mm" "4 \<le> length junk"
  shows "flash_ok \<alpha> s \<Longrightarrow> \<forall>(k, v) \<in> set ops. length v = setting_size k \<Longrightarrow> run_saves N junk ops s = Some (errs, t) \<Longrightarrow>
    flash_ok \<alpha> t \<and> handles t = handles s \<and> held_settings \<alpha> t = accepted ops errs (held_settings \<alpha> s) \<and>
    (saved_bitmap \<alpha> s \<noteq> None \<longrightarrow> saved_bitmap \<alpha> t \<noteq> None)"
proof (induction ops arbitrary: s errs)
  case Nil
  then show ?case by (simp add: accepted_def)
next
  case (Cons op ops)
  obtain e u es where u: "save_setting N junk (fst op) (snd op) s = Some (e, u)" "run_saves N junk ops u = Some (es, t)" "errs = e # es"
    using Cons.prems(3) by (auto split: option.splits)
  have u1: "flash_ok \<alpha> u \<and> handles u = handles s \<and>
      held_settings \<alpha> u = (if e = 0 then (held_settings \<alpha> s)(fst op \<mapsto> snd op) else held_settings \<alpha> s) \<and>
      (saved_bitmap \<alpha> s \<noteq> None \<longrightarrow> saved_bitmap \<alpha> u = saved_bitmap \<alpha> s)"
    using save_setting_ok [OF assms(1) Cons.prems(1) _ assms(2) u(1)] Cons.prems(2) by auto
  have "accepted (op # ops) (e # es) m = accepted ops es (if e = 0 then m(fst op \<mapsto> snd op) else m)" for m
    by (simp add: accepted_def case_prod_beta)
  then show ?case using Cons.IH [of u es] u1 Cons.prems(2) u(2,3) by simp
qed


text \<open>A flash for the examples: the map itself.\<close>

definition map_nvs :: "int \<Rightarrow> nvs_map nvs_api" where
  "map_nvs mm = \<lparr>nv_open = \<lambda>ns m. 0,
     nv_get = \<lambda>ty k n m. (case m k of None \<Rightarrow> (ESP_ERR_NVS_NOT_FOUND, [])
       | Some (ty', bs) \<Rightarrow> if ty' \<noteq> ty then (mm, [])
           else if ty = Blob \<and> n < length bs then (ESP_ERR_NVS_INVALID_LENGTH, []) else (0, bs)),
     nv_set = \<lambda>ty k bs m. (0, m(k \<mapsto> (ty, bs))), nv_commit = \<lambda>m. (0, m)\<rparr>"

lemma map_nvs: "mm \<noteq> 0 \<Longrightarrow> nvs_store (map_nvs mm) (\<lambda>m. m) mm"
  by (simp add: nvs_store_def map_nvs_def)

definition ESP_ERR_NVS_TYPE_MISMATCH :: int where "ESP_ERR_NVS_TYPE_MISMATCH = 0x1103"

definition new_flash :: "nvs_map flash" where "new_flash = \<lparr>store = (\<lambda>_. None), handles = 0\<rparr>"

lemma new_flash_ok: "flash_ok (\<lambda>m. m) new_flash"
  by (simp add: flash_ok_def new_flash_def saved_bitmap_def)


text \<open>A device that has connected to one network never remembers another: with a library that
  reports a value read with the wrong type by its own error, saving a second credential fails and
  the first one is what the next start connects to, because the old credential is read with the
  size of the bitmap.\<close>

theorem second_network_not_saved:
  assumes N: "nvs_store N \<alpha> mm" "mm \<noteq> ESP_ERR_NVS_NOT_FOUND" and s: "flash_ok \<alpha> s" "held_settings \<alpha> s Sta = Some w"
    and v: "length v = sizeof_credential" "4 \<le> length junk"
    and r: "wifi_data_save_sta_ap_credential N junk v s = Some (err, t)"
  shows "err \<noteq> 0 \<and> held_settings \<alpha> t Sta = Some w"
  using save_sta [OF N(1) s(1) v r] N(2) s(2) by auto

definition net_1 :: "u8 list" where "net_1 = replicate 96 0x41"
definition net_2 :: "u8 list" where "net_2 = replicate 96 0x42"

definition one_network :: "nvs_map flash" where
  "one_network = \<lparr>store = [(WIFI_NVS_NAMESPACE, [0x9]) \<mapsto> (U32, [1, 0, 0, 0]), (WIFI_NVS_NAMESPACE, [0x8]) \<mapsto> (Blob, net_1)], handles = 0\<rparr>"

lemma one_network_saved:
  "wifi_data_save_sta_ap_credential (map_nvs ESP_ERR_NVS_TYPE_MISMATCH) [0, 0, 0, 0] net_1 new_flash = Some (0, one_network)"
  by (simp add: wifi_data_save_sta_ap_credential_def save_last_cred_def wt_nvs_open_def wt_nvs_set_def wt_nvs_get_def closing_def
      wt_nvs_close_def map_nvs_def new_flash_def one_network_def key_names type_of_size_def sizeof_credential_def net_1_def)

theorem second_network_not_saved_witness:
  "\<exists>err t. wifi_data_save_sta_ap_credential (map_nvs ESP_ERR_NVS_TYPE_MISMATCH) [0, 0, 0, 0] net_2 one_network = Some (err, t) \<and>
     err \<noteq> 0 \<and> held_settings (\<lambda>m. m) t Sta = Some net_1"
proof -
  let ?N = "map_nvs ESP_ERR_NVS_TYPE_MISMATCH"
  have N: "nvs_store ?N (\<lambda>m. m) ESP_ERR_NVS_TYPE_MISMATCH" by (rule map_nvs) (simp add: ESP_ERR_NVS_TYPE_MISMATCH_def)
  have s: "flash_ok (\<lambda>m. m) one_network" "held_settings (\<lambda>m. m) one_network Sta = Some net_1"
    using save_sta [OF N new_flash_ok _ _ one_network_saved] by (simp_all add: net_1_def sizeof_credential_def)
  have r: "wifi_data_save_sta_ap_credential ?N [0, 0, 0, 0] net_2 one_network = Some (ESP_ERR_NVS_TYPE_MISMATCH, one_network)"
    by (simp add: wifi_data_save_sta_ap_credential_def save_last_cred_def wt_nvs_open_def wt_nvs_set_def wt_nvs_get_def closing_def
      wt_nvs_close_def map_nvs_def one_network_def key_names type_of_size_def sizeof_credential_def net_1_def
      ESP_ERR_NVS_TYPE_MISMATCH_def ESP_ERR_NVS_NOT_FOUND_def)
  then show ?thesis using second_network_not_saved [OF N _ s _ _ r]
    by (simp add: ESP_ERR_NVS_TYPE_MISMATCH_def ESP_ERR_NVS_NOT_FOUND_def net_2_def sizeof_credential_def)
qed

end
