(* ===== verification/Wifi.thy ===== *)
theory Wifi
  imports Prelude
begin

unbundle bit_operations_syntax

text \<open>
  Wi-Fi management: the event handler (wifi\_event\_handler.c) and the manager (wifi\_manager.c).  The
  ESP-IDF driver is the parameter \<open>D\<close>, which answers each call from the log of the calls so far.
  Threads interleave; a blocking call ends a step, and a thread is the point at which it waits.
  Thread 1 is the long-running request task, 2 the task of the web server; the tasks the manager
  creates are numbered from 3.
\<close>

section \<open>State\<close>

definition WIFI_AP_AUTO_STA_ON :: u32 where "WIFI_AP_AUTO_STA_ON = 0"
definition WIFI_AP_STA_OFF :: u32 where "WIFI_AP_STA_OFF = 4"
definition WIFI_AP_OFF_STA_ON :: u32 where "WIFI_AP_OFF_STA_ON = 5"
definition WIFI_AP_ON_STA_OFF :: u32 where "WIFI_AP_ON_STA_OFF = 6"
definition WIFI_AP_STA_ON :: u32 where "WIFI_AP_STA_ON = 7"
definition WIFI_AP_STOP :: u32 where "WIFI_AP_STOP = 8"
definition WIFI_AP_START :: u32 where "WIFI_AP_START = 9"
definition WIFI_STA_STOP :: u32 where "WIFI_STA_STOP = 10"
definition WIFI_STA_START :: u32 where "WIFI_STA_START = 11"

text \<open>\<open>wifi_mode_t\<close> of the driver: a bit for the station and a bit for the access point.\<close>

definition WIFI_MODE_NULL :: u32 where "WIFI_MODE_NULL = 0"
definition WIFI_MODE_STA :: u32 where "WIFI_MODE_STA = 1"
definition WIFI_MODE_AP :: u32 where "WIFI_MODE_AP = 2"
definition WIFI_MODE_APSTA :: u32 where "WIFI_MODE_APSTA = 3"

datatype wifi_call =
  Esp_connect | Esp_disconnect | Esp_set_mode u32 | Esp_set_config_sta | Esp_scan_start nat
| Get_last_cred | Save_cred | Save_mode u32 | Returned nat int

text \<open>Where a thread waits.  \<open>Conn_Wait\<close>: \<open>wifi_manager_connect\<close> for the outcome; \<open>Scan_Wait\<close>: the scan of a
  channel, with whether it broke an endless connect; \<open>Mode_Wait\<close>: \<open>wifi_manager_change_mode\<close> for the
  lock; the rest are the manager's tasks.\<close>

datatype wifi_pc =
  Idle | Conn_Wait | Scan_Wait nat bool | Mode_Wait u32
| Reco_Start | Reco_Wait | Reco_Sleep
| Stop_Wait | Stop_Lock bool
| Start_Begin | Start_Wait | Start_Lock bool

text \<open>\<open>ctx.scan.ap\<close> and \<open>ctx.conn.event\<close> are the same word of a union.\<close>

datatype wifi_ptr = Null | Records | Event

record wifi =
  lock :: bool
  task :: "nat option"
  u_ptr :: wifi_ptr
  need_unlock :: bool
  total_aps :: u16
  max_ap :: u8
  is_endless_connect :: bool
  auto_reconnect :: bool
  do_fast_connect :: bool
  is_sta_connected :: bool
  delayed_stopAP_task :: "nat option"
  delayed_startAP_task :: "nat option"
  try_connect_count :: u32
  permanent_mode :: u32
  mode :: u32
  ap_on_delay_tick :: int
  ap_off_delay_tick :: int
  conn_cb :: bool
  disconn_set :: bool
  attempt :: u8
  ev_connected :: bool
  scan_cb :: bool
  scan_ap :: "wifi_ptr \<times> nat"
  scan_number :: u16
  threads :: "nat \<Rightarrow> wifi_pc option"
  notified :: "nat \<Rightarrow> bool"
  next_id :: nat
  w_calls :: "wifi_call list"

type_synonym driver = "wifi_call list \<Rightarrow> int"

definition drive :: "driver \<Rightarrow> wifi_call \<Rightarrow> wifi \<Rightarrow> int \<times> wifi" where
  "drive D a s = (D (w_calls s @ [a]), s\<lparr>w_calls := w_calls s @ [a]\<rparr>)"

definition notify :: "nat option \<Rightarrow> wifi \<Rightarrow> wifi" where
  "notify t s = (case t of None \<Rightarrow> s | Some t \<Rightarrow> s\<lparr>notified := (notified s)(t := True)\<rparr>)"

definition wait_at :: "nat \<Rightarrow> wifi_pc \<Rightarrow> wifi \<Rightarrow> wifi" where
  "wait_at t pc s = s\<lparr>threads := (threads s)(t \<mapsto> pc)\<rparr>"

definition delete :: "nat option \<Rightarrow> wifi \<Rightarrow> wifi" where
  "delete t s = (case t of None \<Rightarrow> s | Some t \<Rightarrow> s\<lparr>threads := (threads s)(t := None)\<rparr>)"

definition create :: "wifi_pc \<Rightarrow> wifi \<Rightarrow> wifi" where
  "create pc s = s\<lparr>threads := (threads s)(next_id s \<mapsto> pc), notified := (notified s)(next_id s := False), next_id := next_id s + 1\<rparr>"

definition give :: "wifi \<Rightarrow> wifi" where
  "give s = s\<lparr>lock := True\<rparr>"

text \<open>A call of the web interface returns.\<close>

definition return :: "nat \<Rightarrow> int \<Rightarrow> wifi \<Rightarrow> wifi" where
  "return t err s = wait_at t Idle (s\<lparr>w_calls := w_calls s @ [Returned t err]\<rparr>)"

section \<open>Connection and disconnection\<close>

definition handle_wifi_connected :: "wifi \<Rightarrow> wifi" where
  "handle_wifi_connected s =
     (let s = notify (delayed_startAP_task s) (s\<lparr>is_sta_connected := True\<rparr>) in
      if permanent_mode s \<noteq> WIFI_AP_AUTO_STA_ON then s
      else (create Stop_Wait s)\<lparr>delayed_stopAP_task := Some (next_id s)\<rparr>)"

definition handle_wifi_disconnected :: "wifi \<Rightarrow> wifi" where
  "handle_wifi_disconnected s =
     (let s = notify (delayed_stopAP_task s) (s\<lparr>is_sta_connected := False\<rparr>) in
      if permanent_mode s \<noteq> WIFI_AP_AUTO_STA_ON then s
      else let s = s\<lparr>try_connect_count := try_connect_count s + 1\<rparr> in
        (create Start_Begin s)\<lparr>delayed_startAP_task := Some (next_id s)\<rparr>)"

definition disconn_handler :: "wifi \<Rightarrow> wifi" where
  "disconn_handler s =
     (let s = handle_wifi_disconnected s in
      if \<not> auto_reconnect s then s
      else if \<not> lock s then s
      else create Reco_Start (s\<lparr>lock := False, do_fast_connect := True\<rparr>))"

definition try_connect_done :: "wifi_ptr \<Rightarrow> wifi \<Rightarrow> wifi" where
  "try_connect_done event s =
     (let s = notify (task s) (s\<lparr>u_ptr := event\<rparr>) in
      if need_unlock s then give (s\<lparr>need_unlock := False\<rparr>) else s)"

section \<open>The event handler\<close>

definition wifi_event_trigger_connect :: "driver \<Rightarrow> u8 \<Rightarrow> wifi \<Rightarrow> int \<times> wifi" where
  "wifi_event_trigger_connect D n s =
     (let s = s\<lparr>attempt := n, conn_cb := True\<rparr> in
      if ev_connected s then drive D Esp_disconnect s else drive D Esp_connect s)"

definition event_on_connected :: "wifi \<Rightarrow> wifi" where
  "event_on_connected s =
     (let s = (if conn_cb s then try_connect_done Event s else s) in s\<lparr>attempt := 0, conn_cb := False\<rparr>)"

definition connect_over :: "wifi \<Rightarrow> wifi" where
  "connect_over s =
     (let s = (if conn_cb s then try_connect_done Null s
               else if disconn_set s then disconn_handler s else s)
      in s\<lparr>conn_cb := False\<rparr>)"

definition reconnect_after_disco :: "driver \<Rightarrow> wifi \<Rightarrow> wifi" where
  "reconnect_after_disco D s =
     (if attempt s = 0 then connect_over s
      else let (err, s) = drive D Esp_connect s in
        if err \<noteq> 0 then connect_over (s\<lparr>attempt := 0\<rparr>)
        else s\<lparr>attempt := attempt s - 1\<rparr>)"

text \<open>The strengths of the access points the driver found, strongest first: the handler keeps the
  leading ones that are not below -80 dBm.\<close>

definition wifi_event_trigger_scan :: "driver \<Rightarrow> nat \<Rightarrow> u16 \<Rightarrow> wifi_ptr \<times> nat \<Rightarrow> wifi \<Rightarrow> int \<times> wifi" where
  "wifi_event_trigger_scan D channel number aps s =
     (if aps = (Null, 0) then (1, s)
      else let (err, s) = drive D (Esp_scan_start channel) s in
        if err \<noteq> 0 then (err, s)
        else (0, s\<lparr>scan_cb := True, scan_number := number, scan_ap := aps\<rparr>))"

definition strong :: "u16 \<Rightarrow> int list \<Rightarrow> u16" where
  "strong number rssis = of_nat (length (takeWhile (\<lambda>r. - 80 \<le> r) (take (unat number) rssis)))"

definition wifi_event_scan_channel_done :: "u16 \<Rightarrow> wifi \<Rightarrow> wifi" where
  "wifi_event_scan_channel_done number s = notify (task s) (s\<lparr>total_aps := total_aps s + number\<rparr>)"

text \<open>Without a callback the null pointer is called (\<open>None\<close>).\<close>

definition wifi_on_scan_done :: "bool \<Rightarrow> int list \<Rightarrow> wifi \<Rightarrow> wifi option" where
  "wifi_on_scan_done failed rssis s =
     (let number = (if \<not> scan_cb s \<or> scan_ap s = (Null, 0) then 0 else if failed then 0 else if rssis = [] then 0 else scan_number s) in
      if scan_cb s then Some (wifi_event_scan_channel_done (strong number rssis) s) else None)"

datatype wifi_event = Scan_done bool "int list" | Sta_connected | Sta_disconnected | Got_ip | Other_event

definition wifi_event_handler :: "driver \<Rightarrow> wifi_event \<Rightarrow> wifi \<Rightarrow> wifi option" where
  "wifi_event_handler D ev s =
     (case ev of
        Scan_done failed rssis \<Rightarrow>
          map_option (\<lambda>s. s\<lparr>scan_ap := (Null, 0), scan_cb := False\<rparr>) (wifi_on_scan_done failed rssis s)
      | Sta_connected \<Rightarrow> Some (s\<lparr>ev_connected := True\<rparr>)
      | Sta_disconnected \<Rightarrow> Some (reconnect_after_disco D (s\<lparr>ev_connected := False\<rparr>))
      | Got_ip \<Rightarrow> Some (event_on_connected s)
      | Other_event \<Rightarrow> Some s)"

section \<open>The manager\<close>

definition set_default_sta_cred :: "driver \<Rightarrow> wifi \<Rightarrow> int \<times> wifi" where
  "set_default_sta_cred D s =
     (let (err, s) = drive D Get_last_cred s in
      if err \<noteq> 0 then (err, s) else (0, snd (drive D Esp_set_config_sta s)))"

text \<open>\<open>wifi_manager_connect\<close> up to its wait and after it; \<open>ok\<close> says whether the notification came in time.
  A thread that deletes itself does nothing any more.\<close>

definition wifi_manager_connect :: "driver \<Rightarrow> nat \<Rightarrow> wifi \<Rightarrow> wifi" where
  "wifi_manager_connect D t s =
     (if \<not> lock s \<and> \<not> is_endless_connect s then return t 1 s
      else if \<not> lock s \<and> task s = Some t then delete (Some t) s
      else
        let s = (if lock s then s\<lparr>lock := False\<rparr> else (delete (task s) s)\<lparr>is_endless_connect := False\<rparr>);
            s = snd (drive D Esp_set_config_sta s);
            s = snd (wifi_event_trigger_connect D 2 (s\<lparr>task := Some t, auto_reconnect := True\<rparr>))
        in wait_at t Conn_Wait s)"

definition connect_done :: "driver \<Rightarrow> nat \<Rightarrow> bool \<Rightarrow> wifi \<Rightarrow> wifi" where
  "connect_done D t ok s =
     (let s = give s in
      if \<not> ok \<or> u_ptr s = Null then
        let (err, s) = set_default_sta_cred D s in
        return t 1 (if err = 0 then disconn_handler s else s)
      else return t 0 (snd (drive D Save_cred (handle_wifi_connected s))))"

definition wifi_manager_disconnect :: "driver \<Rightarrow> nat \<Rightarrow> wifi \<Rightarrow> wifi" where
  "wifi_manager_disconnect D t s =
     (let (err, s) = drive D Esp_disconnect (s\<lparr>auto_reconnect := False\<rparr>) in return t err s)"

definition new_wifi_mode :: "u32 \<Rightarrow> bool \<Rightarrow> u32 \<Rightarrow> u32 option" where
  "new_wifi_mode m connected old =
     (if m = WIFI_AP_AUTO_STA_ON then Some (if connected then WIFI_MODE_STA else WIFI_MODE_APSTA)
      else if m = WIFI_AP_STA_OFF \<or> m = WIFI_AP_ON_STA_OFF \<or> m = WIFI_AP_OFF_STA_ON \<or> m = WIFI_AP_STA_ON
      then Some (m AND NOT WIFI_AP_STA_OFF)
      else if m = WIFI_AP_STOP then Some (old AND NOT WIFI_MODE_AP)
      else if m = WIFI_AP_START then Some (old OR WIFI_MODE_AP)
      else if m = WIFI_STA_STOP then Some (old AND NOT WIFI_MODE_STA)
      else if m = WIFI_STA_START then Some (old OR WIFI_MODE_STA)
      else None)"

definition set_wifi_mode :: "driver \<Rightarrow> u32 \<Rightarrow> wifi \<Rightarrow> int \<times> wifi" where
  "set_wifi_mode D m s =
     (case new_wifi_mode m (is_sta_connected s) (mode s) of
        None \<Rightarrow> (1, s)
      | Some new \<Rightarrow>
          (let s = (if m < WIFI_AP_STOP then s\<lparr>permanent_mode := m\<rparr> else s) in
           if new = mode s then (0, s)
           else let (err, s) = drive D (Esp_set_mode new) s in
             if err \<noteq> 0 then (err, s)
             else
               let s = (if mode s AND WIFI_MODE_STA = 0 \<and> new AND WIFI_MODE_STA \<noteq> 0
                        then disconn_handler (give s) else s)
               in (0, s\<lparr>mode := new\<rparr>)))"

definition wifi_manager_change_mode :: "nat \<Rightarrow> u32 \<Rightarrow> wifi \<Rightarrow> wifi" where
  "wifi_manager_change_mode t m s = (if permanent_mode s = m then return t 0 s else wait_at t (Mode_Wait m) s)"

text \<open>\<open>ok\<close> says whether the lock could be taken within two seconds.\<close>

definition change_mode_locked :: "driver \<Rightarrow> nat \<Rightarrow> u32 \<Rightarrow> bool \<Rightarrow> wifi \<Rightarrow> wifi" where
  "change_mode_locked D t m ok s =
     (if \<not> ok then return t 1 s
      else
        let s = notify (delayed_startAP_task s) (notify (delayed_stopAP_task s) (s\<lparr>lock := False\<rparr>));
            (err, s) = set_wifi_mode D m s;
            s = give s
        in if err \<noteq> 0 then return t err s
           else if WIFI_AP_STOP \<le> m then return t 0 s
           else (let (err, s) = drive D (Save_mode m) s in return t err s))"

text \<open>The delays of the automatic access point; \<open>ticks\<close> and \<open>ms\<close> convert between milliseconds and ticks.
  Both assignments of the setter go to the same field.\<close>

definition wifi_manager_get_ap_auto_delay :: "(int \<Rightarrow> int) \<Rightarrow> wifi \<Rightarrow> int \<times> int" where
  "wifi_manager_get_ap_auto_delay ms s = (ms (ap_on_delay_tick s), ms (ap_off_delay_tick s))"

definition wifi_manager_set_ap_auto_delay :: "(int \<Rightarrow> int) \<Rightarrow> (int \<Rightarrow> int) \<Rightarrow> int \<Rightarrow> int \<Rightarrow> wifi \<Rightarrow> (int \<times> int) \<times> wifi" where
  "wifi_manager_set_ap_auto_delay ticks ms on_delay off_delay s =
     (let s = s\<lparr>ap_on_delay_tick := ticks on_delay\<rparr>; s = s\<lparr>ap_on_delay_tick := ticks off_delay\<rparr> in
      (wifi_manager_get_ap_auto_delay ms s, s))"

definition wifi_manager_get_mode :: "wifi \<Rightarrow> u32 \<times> u32" where
  "wifi_manager_get_mode s = (permanent_mode s, mode s)"

section \<open>Scanning\<close>

definition scan_channel :: "driver \<Rightarrow> nat \<Rightarrow> wifi \<Rightarrow> int \<times> wifi" where
  "scan_channel D channel s =
     wifi_event_trigger_scan D channel (ucast (max_ap s) - total_aps s) (u_ptr s, unat (total_aps s)) s"

text \<open>After the loop.\<close>

definition scan_end :: "driver \<Rightarrow> nat \<Rightarrow> bool \<Rightarrow> int \<Rightarrow> wifi \<Rightarrow> wifi" where
  "scan_end D t broke err s =
     (let s = give s in
      if broke then
        let (e, s) = set_default_sta_cred D s in return t err (if e = 0 then disconn_handler s else s)
      else return t err s)"

definition scan_from :: "driver \<Rightarrow> nat \<Rightarrow> nat \<Rightarrow> bool \<Rightarrow> wifi \<Rightarrow> wifi" where
  "scan_from D t channel broke s =
     (if 13 < channel then scan_end D t broke 0 s
      else let (err, s) = scan_channel D channel s in
        if err \<noteq> 0 then scan_end D t broke 1 s
        else wait_at t (Scan_Wait channel broke) s)"

text \<open>\<open>number\<close> is the size of the caller's array, 20 for the only caller.\<close>

definition wifi_manager_get_scan_list :: "driver \<Rightarrow> nat \<Rightarrow> u16 \<Rightarrow> wifi \<Rightarrow> wifi" where
  "wifi_manager_get_scan_list D t number s =
     (if \<not> lock s \<and> \<not> is_endless_connect s then return t 1 s
      else
        let broke = is_endless_connect s; was_locked = \<not> lock s;
            s = s\<lparr>lock := False\<rparr>;
            s = (if broke then delete (task s) s else s) in
        if broke \<and> task s = Some t then s
        else
          let s = (if was_locked then snd (drive D Esp_disconnect s) else s);
              s = (if broke then s\<lparr>is_endless_connect := False\<rparr> else s);
              s = s\<lparr>u_ptr := Records, max_ap := ucast number, need_unlock := False, task := Some t, total_aps := 0\<rparr>
          in scan_from D t 1 broke s)"

definition scan_notified :: "driver \<Rightarrow> nat \<Rightarrow> nat \<Rightarrow> bool \<Rightarrow> bool \<Rightarrow> wifi \<Rightarrow> wifi" where
  "scan_notified D t channel broke ok s =
     (if \<not> ok then scan_end D t broke 1 s else scan_from D t (channel + 1) broke s)"

section \<open>Tasks\<close>

definition reco_end :: "nat \<Rightarrow> wifi \<Rightarrow> wifi" where
  "reco_end t s = delete (Some t) (give (s\<lparr>is_endless_connect := False\<rparr>))"

definition reco_try :: "driver \<Rightarrow> nat \<Rightarrow> wifi \<Rightarrow> wifi" where
  "reco_try D t s =
     (let (err, s) = (if do_fast_connect s then wifi_event_trigger_connect D 3 (s\<lparr>do_fast_connect := False\<rparr>)
                      else wifi_event_trigger_connect D 0 s)
      in if err \<noteq> 0 then reco_end t s else wait_at t Reco_Wait s)"

definition reconnection_task :: "driver \<Rightarrow> nat \<Rightarrow> wifi \<Rightarrow> wifi" where
  "reconnection_task D t s = reco_try D t (s\<lparr>is_endless_connect := True, task := Some t\<rparr>)"

definition reco_outcome :: "nat \<Rightarrow> wifi \<Rightarrow> wifi" where
  "reco_outcome t s =
     (if u_ptr s \<noteq> Null \<or> \<not> auto_reconnect s
      then reco_end t (if u_ptr s \<noteq> Null then handle_wifi_connected s else s)
      else wait_at t Reco_Sleep (give s))"

definition reco_wake :: "driver \<Rightarrow> nat \<Rightarrow> wifi \<Rightarrow> wifi" where
  "reco_wake D t s = (if lock s then reco_try D t (s\<lparr>lock := False\<rparr>) else reco_end t s)"

text \<open>The tasks that stop and start the access point, after their wait for the lock, whose outcome
  they ignore.\<close>

definition delayed_set_ap_stop :: "driver \<Rightarrow> nat \<Rightarrow> bool \<Rightarrow> wifi \<Rightarrow> wifi" where
  "delayed_set_ap_stop D t told s =
     (let s = s\<lparr>lock := False\<rparr>;
          s = (if told then s else (snd (set_wifi_mode D WIFI_AP_STOP s))\<lparr>try_connect_count := 0\<rparr>)
      in delete (Some t) (give (s\<lparr>delayed_stopAP_task := None\<rparr>)))"

definition start_begin :: "nat \<Rightarrow> wifi \<Rightarrow> wifi" where
  "start_begin t s = wait_at t (if try_connect_count s \<le> 5 then Start_Wait else Start_Lock False) s"

definition delayed_set_ap_start :: "driver \<Rightarrow> nat \<Rightarrow> bool \<Rightarrow> wifi \<Rightarrow> wifi" where
  "delayed_set_ap_start D t told s =
     (let s = s\<lparr>lock := False\<rparr>;
          s = (if \<not> told \<and> permanent_mode s = WIFI_AP_AUTO_STA_ON
               then (snd (set_wifi_mode D WIFI_AP_START s))\<lparr>try_connect_count := 0\<rparr> else s)
      in delete (Some t) (give (s\<lparr>delayed_startAP_task := None\<rparr>)))"

section \<open>Steps\<close>

definition take_note :: "nat \<Rightarrow> wifi \<Rightarrow> wifi" where
  "take_note t s = s\<lparr>notified := (notified s)(t := False)\<rparr>"

text \<open>A thread at a wait goes on when it is notified or when the wait times out; a wait for the lock ends
  when the lock is free or with a timeout.  A timeout may come at any time, but not when what the
  thread waits for is there.\<close>

definition max_count :: u16 where "max_count = 20"

inductive wifi_step :: "driver \<Rightarrow> wifi \<Rightarrow> wifi \<Rightarrow> bool" for D where
  event: "wifi_event_handler D ev s = Some s' \<Longrightarrow> wifi_step D s s'"
| connect: "threads s 1 = Some Idle \<Longrightarrow> wifi_step D s (wifi_manager_connect D 1 s)"
| scan: "threads s 1 = Some Idle \<Longrightarrow> wifi_step D s (wifi_manager_get_scan_list D 1 max_count s)"
| disconnect: "threads s 2 = Some Idle \<Longrightarrow> wifi_step D s (wifi_manager_disconnect D 2 s)"
| change_mode: "threads s 2 = Some Idle \<Longrightarrow> wifi_step D s (wifi_manager_change_mode 2 m s)"
| connected: "threads s t = Some Conn_Wait \<Longrightarrow> wifi_step D s (connect_done D t (notified s t) (take_note t s))"
| scanned: "threads s t = Some (Scan_Wait channel broke) \<Longrightarrow>
    wifi_step D s (scan_notified D t channel broke (notified s t) (take_note t s))"
| mode: "threads s t = Some (Mode_Wait m) \<Longrightarrow> wifi_step D s (change_mode_locked D t m (lock s) s)"
| reco_start: "threads s t = Some Reco_Start \<Longrightarrow> wifi_step D s (reconnection_task D t s)"
| reco_wait: "threads s t = Some Reco_Wait \<Longrightarrow> wifi_step D s (reco_outcome t (take_note t s))"
| reco_sleep: "threads s t = Some Reco_Sleep \<Longrightarrow> wifi_step D s (reco_wake D t s)"
| stop_wait: "threads s t = Some Stop_Wait \<Longrightarrow> wifi_step D s (wait_at t (Stop_Lock (notified s t)) (take_note t s))"
| stop_lock: "threads s t = Some (Stop_Lock told) \<Longrightarrow> wifi_step D s (delayed_set_ap_stop D t told s)"
| start_begin: "threads s t = Some Start_Begin \<Longrightarrow> wifi_step D s (start_begin t s)"
| start_wait: "threads s t = Some Start_Wait \<Longrightarrow> wifi_step D s (wait_at t (Start_Lock (notified s t)) (take_note t s))"
| start_lock: "threads s t = Some (Start_Lock told) \<Longrightarrow> wifi_step D s (delayed_set_ap_start D t told s)"

inductive_cases wifi_stepE: "wifi_step D s s'"

text \<open>After \<open>wifi_manager_init\<close>; \<open>ticks\<close> converts milliseconds.  The mode is the saved one, but with the access point on; \<open>saved\<close> is
  \<open>None\<close> when none could be read, \<open>cred\<close> says whether a network is known.\<close>

definition boot_mode :: "u32 option \<Rightarrow> u32 \<times> u32" where
  "boot_mode saved =
     (case saved of None \<Rightarrow> (WIFI_AP_AUTO_STA_ON, WIFI_MODE_APSTA)
      | Some m \<Rightarrow>
          (m, let md = m AND 3 in if md = WIFI_MODE_STA \<or> md = WIFI_MODE_NULL then WIFI_MODE_APSTA else md))"

definition wifi_manager_init :: "(int \<Rightarrow> int) \<Rightarrow> u32 option \<Rightarrow> bool \<Rightarrow> wifi" where
  "wifi_manager_init ticks saved cred =
     (let s = \<lparr>lock = True, task = None, u_ptr = Null, need_unlock = False, total_aps = 0, max_ap = 0,
            is_endless_connect = False, auto_reconnect = True, do_fast_connect = cred, is_sta_connected = False,
            delayed_stopAP_task = None, delayed_startAP_task = None, try_connect_count = 0,
            permanent_mode = fst (boot_mode saved), mode = snd (boot_mode saved),
            ap_on_delay_tick = ticks 5000, ap_off_delay_tick = ticks 10000,
            conn_cb = False, disconn_set = True, attempt = 0, ev_connected = False, scan_cb = False,
            scan_ap = (Null, 0), scan_number = 0,
            threads = [1 \<mapsto> Idle, 2 \<mapsto> Idle], notified = (\<lambda>_. False), next_id = 3,
            w_calls = [Esp_set_mode (snd (boot_mode saved))]\<rparr>
      in if cred then disconn_handler s else s)"

inductive wifi_reach :: "driver \<Rightarrow> wifi \<Rightarrow> wifi \<Rightarrow> bool" for D s where
  start: "wifi_reach D s s"
| next_step: "wifi_reach D s t \<Longrightarrow> wifi_step D t u \<Longrightarrow> wifi_reach D s u"

section \<open>The manager's mode is the driver's\<close>

text \<open>The last mode the driver accepted, over the log from its end.\<close>

primrec accepted_mode :: "driver \<Rightarrow> wifi_call list \<Rightarrow> u32" where
  "accepted_mode D [] = WIFI_MODE_NULL"
| "accepted_mode D (c # cs) =
     (case c of Esp_set_mode m \<Rightarrow> if D (rev (c # cs)) = 0 then m else accepted_mode D cs | _ \<Rightarrow> accepted_mode D cs)"

definition driver_mode :: "driver \<Rightarrow> wifi_call list \<Rightarrow> u32" where
  "driver_mode D calls = accepted_mode D (rev calls)"

lemma driver_mode_append [simp]:
  "driver_mode D (cs @ [c]) = (case c of Esp_set_mode m \<Rightarrow> if D (cs @ [c]) = 0 then m else driver_mode D cs | _ \<Rightarrow> driver_mode D cs)"
  by (simp add: driver_mode_def split: wifi_call.split)

definition mode_ok :: "driver \<Rightarrow> wifi \<Rightarrow> bool" where
  "mode_ok D s \<longleftrightarrow> mode s = driver_mode D (w_calls s)"

lemma mode_ok_upd [simp]:
  "mode_ok D (s\<lparr>lock := a\<rparr>) = mode_ok D s" "mode_ok D (s\<lparr>task := b\<rparr>) = mode_ok D s" "mode_ok D (s\<lparr>u_ptr := c\<rparr>) = mode_ok D s"
  "mode_ok D (s\<lparr>need_unlock := a\<rparr>) = mode_ok D s" "mode_ok D (s\<lparr>total_aps := d\<rparr>) = mode_ok D s" "mode_ok D (s\<lparr>max_ap := e\<rparr>) = mode_ok D s"
  "mode_ok D (s\<lparr>is_endless_connect := a\<rparr>) = mode_ok D s" "mode_ok D (s\<lparr>auto_reconnect := a\<rparr>) = mode_ok D s"
  "mode_ok D (s\<lparr>do_fast_connect := a\<rparr>) = mode_ok D s" "mode_ok D (s\<lparr>is_sta_connected := a\<rparr>) = mode_ok D s"
  "mode_ok D (s\<lparr>delayed_stopAP_task := b\<rparr>) = mode_ok D s" "mode_ok D (s\<lparr>delayed_startAP_task := b\<rparr>) = mode_ok D s"
  "mode_ok D (s\<lparr>try_connect_count := f\<rparr>) = mode_ok D s" "mode_ok D (s\<lparr>permanent_mode := f\<rparr>) = mode_ok D s"
  "mode_ok D (s\<lparr>conn_cb := a\<rparr>) = mode_ok D s" "mode_ok D (s\<lparr>attempt := e\<rparr>) = mode_ok D s" "mode_ok D (s\<lparr>ev_connected := a\<rparr>) = mode_ok D s"
  "mode_ok D (s\<lparr>scan_cb := a\<rparr>) = mode_ok D s" "mode_ok D (s\<lparr>scan_ap := g\<rparr>) = mode_ok D s" "mode_ok D (s\<lparr>scan_number := d\<rparr>) = mode_ok D s"
  "mode_ok D (s\<lparr>threads := h\<rparr>) = mode_ok D s" "mode_ok D (s\<lparr>notified := i\<rparr>) = mode_ok D s" "mode_ok D (s\<lparr>next_id := k\<rparr>) = mode_ok D s"
  by (simp_all add: mode_ok_def)

lemma mode_ok_basic [simp]:
  "mode_ok D (notify t s) = mode_ok D s" "mode_ok D (wait_at n pc s) = mode_ok D s" "mode_ok D (delete t s) = mode_ok D s"
  "mode_ok D (create pc s) = mode_ok D s" "mode_ok D (give s) = mode_ok D s" "mode_ok D (take_note n s) = mode_ok D s"
  "mode_ok D (return n err s) = mode_ok D s" "mode_ok D (handle_wifi_connected s) = mode_ok D s"
  "mode_ok D (handle_wifi_disconnected s) = mode_ok D s"
  by (simp_all add: notify_def wait_at_def delete_def create_def give_def take_note_def return_def handle_wifi_connected_def
      handle_wifi_disconnected_def Let_def mode_ok_def split: option.split)

lemma mode_ok_disconn [simp]: "mode_ok D (disconn_handler s) = mode_ok D s"
  by (simp add: disconn_handler_def Let_def)

lemma mode_ok_done [simp]: "mode_ok D (try_connect_done e s) = mode_ok D s" "mode_ok D (event_on_connected s) = mode_ok D s"
  "mode_ok D (connect_over s) = mode_ok D s"
  by (simp_all add: try_connect_done_def event_on_connected_def connect_over_def Let_def)

text \<open>Only a change of mode touches the mode of the driver.\<close>

lemma mode_ok_drive [simp]: "\<forall>m. c \<noteq> Esp_set_mode m \<Longrightarrow> mode_ok D (snd (drive D c s)) = mode_ok D s"
  by (cases c) (simp_all add: drive_def mode_ok_def)

lemma mode_ok_trigger [simp]:
  "mode_ok D (snd (wifi_event_trigger_connect D n s)) = mode_ok D s" "mode_ok D (reconnect_after_disco D s) = mode_ok D s"
  "mode_ok D (snd (wifi_event_trigger_scan D ch no ap s)) = mode_ok D s" "mode_ok D (snd (set_default_sta_cred D s)) = mode_ok D s"
  "mode_ok D (snd (scan_channel D ch s)) = mode_ok D s"
  by (simp_all add: wifi_event_trigger_connect_def reconnect_after_disco_def wifi_event_trigger_scan_def set_default_sta_cred_def
      scan_channel_def Let_def case_prod_beta)

lemma mode_ok_set_mode [simp]: "mode_ok D s \<Longrightarrow> mode_ok D (snd (set_wifi_mode D m s))"
proof -
  have "mode_ok D (f s'\<lparr>mode := new\<rparr>)"
    if "mode_ok D s'" "D (w_calls s' @ [Esp_set_mode new]) = 0" "\<And>x. w_calls (f x) = w_calls s' @ [Esp_set_mode new]" for f s' new
    using that by (simp add: mode_ok_def)
  moreover have w: "w_calls (disconn_handler x) = w_calls x" "w_calls (give x) = w_calls x" for x
    by (simp_all add: disconn_handler_def handle_wifi_disconnected_def notify_def create_def give_def Let_def split: option.split)
  ultimately show "mode_ok D s \<Longrightarrow> mode_ok D (snd (set_wifi_mode D m s))"
    by (auto simp: set_wifi_mode_def drive_def Let_def mode_ok_def w split: option.split)
qed

lemma mode_ok_scan [simp]: "mode_ok D (scan_end D t broke err s) = mode_ok D s" "mode_ok D (scan_from D t ch broke s) = mode_ok D s"
  by (simp_all add: scan_end_def scan_from_def Let_def case_prod_beta)

lemma mode_ok_event: "wifi_event_handler D ev s = Some s' \<Longrightarrow> mode_ok D s' = mode_ok D s"
  by (auto simp: wifi_event_handler_def wifi_on_scan_done_def wifi_event_scan_channel_done_def Let_def split: wifi_event.splits if_splits)

lemma mode_ok_reco [simp]: "mode_ok D (reco_try D t s) = mode_ok D s"
  by (simp add: reco_try_def reco_end_def Let_def case_prod_beta)

lemma mode_ok_step: "wifi_step D s s' \<Longrightarrow> mode_ok D s \<Longrightarrow> mode_ok D s'"
proof (induction rule: wifi_step.induct)
  case (event ev s s')
  then show ?case using mode_ok_event by blast
qed (simp_all add: wifi_manager_connect_def wifi_manager_get_scan_list_def wifi_manager_disconnect_def wifi_manager_change_mode_def
    connect_done_def scan_notified_def change_mode_locked_def reconnection_task_def reco_outcome_def reco_wake_def reco_end_def
    delayed_set_ap_stop_def start_begin_def delayed_set_ap_start_def Let_def case_prod_beta)

lemma mode_ok_init: "D [Esp_set_mode (snd (boot_mode saved))] = 0 \<Longrightarrow> mode_ok D (wifi_manager_init ticks saved cred)"
  by (simp add: wifi_manager_init_def Let_def mode_ok_def driver_mode_def) (simp add: disconn_handler_def handle_wifi_disconnected_def
    notify_def create_def Let_def driver_mode_def)


section \<open>A connection request is answered once\<close>

definition disconnected :: "driver \<Rightarrow> wifi \<Rightarrow> wifi" where
  "disconnected D s = reconnect_after_disco D (s\<lparr>ev_connected := False\<rparr>)"

lemma disconnected_last: "attempt s = 0 \<Longrightarrow> disconnected D s = connect_over (s\<lparr>ev_connected := False\<rparr>)"
  by (simp add: disconnected_def reconnect_after_disco_def)

lemma disconnected_again:
  "attempt s \<noteq> 0 \<Longrightarrow> D (w_calls s @ [Esp_connect]) = 0 \<Longrightarrow>
   disconnected D s = s\<lparr>ev_connected := False, attempt := attempt s - 1, w_calls := w_calls s @ [Esp_connect]\<rparr>"
  by (simp add: disconnected_def reconnect_after_disco_def drive_def)

lemma disconnected_retries:
  assumes D: "\<And>calls. D (calls @ [Esp_connect]) = 0" and s: "attempt s = n" and k: "k \<le> unat n"
  shows "(disconnected D ^^ k) s = (if k = 0 then s else s\<lparr>ev_connected := False, attempt := n - of_nat k, w_calls := w_calls s @ replicate k Esp_connect\<rparr>)"
  using k
proof (induction k)
  case (Suc k)
  then have IH: "(disconnected D ^^ k) s = (if k = 0 then s else
      s\<lparr>ev_connected := False, attempt := n - of_nat k, w_calls := w_calls s @ replicate k Esp_connect\<rparr>)" by simp
  have "unat (of_nat k :: u8) \<le> k" by (simp add: unsigned_of_nat take_bit_nat_less_eq_self)
  then have "n \<noteq> of_nat k" using Suc.prems by auto
  then have "n - of_nat k \<noteq> 0" by simp
  then have "disconnected D ((disconnected D ^^ k) s) =
      s\<lparr>ev_connected := False, attempt := n - of_nat k - 1, w_calls := w_calls s @ replicate k Esp_connect @ [Esp_connect]\<rparr>"
    using s disconnected_again [of "(disconnected D ^^ k) s" D] D [of "w_calls s"] D [of "w_calls s @ replicate k Esp_connect"]
    by (cases "k = 0") (simp_all add: IH)
  then show ?case by (simp add: replicate_append_same diff_diff_eq add.commute)
qed (use s in simp)


section \<open>A scan stays inside the caller's array\<close>

definition scan_ok :: "wifi \<Rightarrow> bool" where
  "scan_ok s \<longleftrightarrow> unat (total_aps s) \<le> unat (max_ap s) \<and> unat (max_ap s) \<le> unat max_count \<and>
     (scan_cb s \<longrightarrow> unat (total_aps s) + unat (scan_number s) \<le> unat (max_ap s) \<and>
        snd (scan_ap s) + unat (scan_number s) \<le> unat max_count)"

lemma scan_ok_upd [simp]:
  "scan_ok (s\<lparr>lock := a\<rparr>) = scan_ok s" "scan_ok (s\<lparr>task := b\<rparr>) = scan_ok s" "scan_ok (s\<lparr>u_ptr := c\<rparr>) = scan_ok s"
  "scan_ok (s\<lparr>need_unlock := a\<rparr>) = scan_ok s" "scan_ok (s\<lparr>mode := f\<rparr>) = scan_ok s" "scan_ok (s\<lparr>w_calls := l\<rparr>) = scan_ok s"
  "scan_ok (s\<lparr>is_endless_connect := a\<rparr>) = scan_ok s" "scan_ok (s\<lparr>auto_reconnect := a\<rparr>) = scan_ok s"
  "scan_ok (s\<lparr>do_fast_connect := a\<rparr>) = scan_ok s" "scan_ok (s\<lparr>is_sta_connected := a\<rparr>) = scan_ok s"
  "scan_ok (s\<lparr>delayed_stopAP_task := b\<rparr>) = scan_ok s" "scan_ok (s\<lparr>delayed_startAP_task := b\<rparr>) = scan_ok s"
  "scan_ok (s\<lparr>try_connect_count := f\<rparr>) = scan_ok s" "scan_ok (s\<lparr>permanent_mode := f\<rparr>) = scan_ok s"
  "scan_ok (s\<lparr>conn_cb := a\<rparr>) = scan_ok s" "scan_ok (s\<lparr>attempt := e\<rparr>) = scan_ok s" "scan_ok (s\<lparr>ev_connected := a\<rparr>) = scan_ok s"
  "scan_ok (s\<lparr>threads := h\<rparr>) = scan_ok s" "scan_ok (s\<lparr>notified := i\<rparr>) = scan_ok s" "scan_ok (s\<lparr>next_id := k\<rparr>) = scan_ok s"
  by (simp_all add: scan_ok_def)

lemma scan_ok_basic [simp]:
  "scan_ok (notify t s) = scan_ok s" "scan_ok (wait_at n pc s) = scan_ok s" "scan_ok (delete t s) = scan_ok s"
  "scan_ok (create pc s) = scan_ok s" "scan_ok (give s) = scan_ok s" "scan_ok (take_note n s) = scan_ok s"
  "scan_ok (return n err s) = scan_ok s" "scan_ok (snd (drive D call s)) = scan_ok s"
  by (simp_all add: notify_def wait_at_def delete_def create_def give_def take_note_def return_def drive_def split: option.split)

lemma scan_ok_handle [simp]:
  "scan_ok (handle_wifi_connected s) = scan_ok s" "scan_ok (handle_wifi_disconnected s) = scan_ok s"
  "scan_ok (disconn_handler s) = scan_ok s"
  by (simp_all add: handle_wifi_connected_def handle_wifi_disconnected_def disconn_handler_def Let_def)

lemma scan_ok_conn [simp]:
  "scan_ok (try_connect_done e s) = scan_ok s" "scan_ok (event_on_connected s) = scan_ok s" "scan_ok (connect_over s) = scan_ok s"
  "scan_ok (snd (wifi_event_trigger_connect D n s)) = scan_ok s" "scan_ok (reconnect_after_disco D s) = scan_ok s"
  "scan_ok (snd (set_default_sta_cred D s)) = scan_ok s" "scan_ok (snd (set_wifi_mode D m s)) = scan_ok s"
  by (simp_all add: try_connect_done_def event_on_connected_def connect_over_def wifi_event_trigger_connect_def
      reconnect_after_disco_def set_default_sta_cred_def set_wifi_mode_def Let_def case_prod_beta split: option.split)

lemma scan_ok_end [simp]: "scan_ok (scan_end D t broke err s) = scan_ok s"
  by (simp add: scan_end_def Let_def case_prod_beta)

lemma scan_ok_channel: "scan_ok s \<Longrightarrow> scan_ok (snd (scan_channel D ch s))"
proof -
  assume s: "scan_ok s"
  have u: "unat (ucast (max_ap s) :: u16) = unat (max_ap s)" by (simp add: unsigned_ucast_eq)
  then have "total_aps s \<le> ucast (max_ap s)" using s by (simp add: scan_ok_def word_le_nat_alt)
  then have d: "unat (ucast (max_ap s) - total_aps s) = unat (max_ap s) - unat (total_aps s)"
    using u by (simp add: unat_sub)
  show ?thesis
    using s d by (auto simp: scan_channel_def wifi_event_trigger_scan_def drive_def Let_def scan_ok_def)
qed

lemma scan_ok_from: "scan_ok s \<Longrightarrow> scan_ok (scan_from D t ch broke s)"
  using scan_ok_channel [of s D ch] by (simp add: scan_from_def Let_def case_prod_beta)

lemma strong_le: "unat (strong n rssis) \<le> unat n"
proof -
  have k: "unat (of_nat k :: u16) \<le> k" for k by (simp add: unsigned_of_nat take_bit_nat_less_eq_self)
  have "unat (strong n rssis) \<le> length (takeWhile (\<lambda>r. - 80 \<le> r) (take (unat n) rssis))"
    unfolding strong_def by (rule k)
  also have "\<dots> \<le> length (take (unat n) rssis)" by (rule length_takeWhile_le)
  also have "\<dots> \<le> unat n" by simp
  finally show ?thesis .
qed

lemma scan_ok_done: "scan_ok s \<Longrightarrow> wifi_on_scan_done failed rssis s = Some s' \<Longrightarrow> scan_ok (s'\<lparr>scan_ap := ap, scan_cb := False\<rparr>)"
proof -
  assume s: "scan_ok s" and "wifi_on_scan_done failed rssis s = Some s'"
  then obtain n where n: "s' = wifi_event_scan_channel_done (strong n rssis) s" "n = 0 \<or> n = scan_number s" "scan_cb s"
    by (auto simp: wifi_on_scan_done_def Let_def split: if_splits)
  have m: "unat (max_ap s) < 256" using unsigned_less [of "max_ap s"] by simp
  have "unat (strong n rssis) \<le> unat (scan_number s)" using strong_le [of n rssis] n(2) by auto
  then have "unat (total_aps s) + unat (strong n rssis) \<le> unat (max_ap s)" using s n(3) by (simp add: scan_ok_def)
  moreover from this have "unat (total_aps s + strong n rssis) = unat (total_aps s) + unat (strong n rssis)"
    using m by (intro unat_add_lem [THEN iffD1]) simp
  ultimately show ?thesis using s
    by (simp add: n(1) wifi_event_scan_channel_done_def scan_ok_def notify_def split: option.split)
qed

lemma scan_ok_event: "scan_ok s \<Longrightarrow> wifi_event_handler D ev s = Some s' \<Longrightarrow> scan_ok s'"
  by (auto simp: wifi_event_handler_def scan_ok_done split: wifi_event.splits)

lemma scan_ok_scan: "scan_ok s \<Longrightarrow> scan_ok (wifi_manager_get_scan_list D t max_count s)"
proof -
  assume s: "scan_ok s"
  have "scan_ok (u\<lparr>u_ptr := Records, max_ap := ucast max_count, need_unlock := False, task := Some t, total_aps := 0\<rparr>)" if "scan_ok u" for u
    using that by (auto simp: scan_ok_def max_count_def)
  then show ?thesis using s by (simp add: wifi_manager_get_scan_list_def Let_def scan_ok_from)
qed

lemma scan_ok_step: "wifi_step D s s' \<Longrightarrow> scan_ok s \<Longrightarrow> scan_ok s'"
proof (induction rule: wifi_step.induct)
  case (event ev s s')
  then show ?case using scan_ok_event by blast
next
  case (scan s)
  then show ?case by (intro scan_ok_scan)
qed (simp_all add: wifi_manager_connect_def wifi_manager_disconnect_def wifi_manager_change_mode_def
    connect_done_def scan_notified_def change_mode_locked_def reconnection_task_def reco_try_def reco_outcome_def reco_wake_def reco_end_def
    delayed_set_ap_stop_def start_begin_def delayed_set_ap_start_def Let_def case_prod_beta scan_ok_from)


section \<open>What goes wrong\<close>

text \<open>A driver that accepts everything, and the start with a known network.\<close>

definition good_driver :: driver where "good_driver calls = 0"

definition boot :: "u32 option \<Rightarrow> bool \<Rightarrow> wifi" where "boot saved cred = wifi_manager_init (\<lambda>ms. ms) saved cred"

primrec events :: "wifi_event list \<Rightarrow> wifi \<Rightarrow> wifi" where
  "events [] s = s"
| "events (ev # evs) s = events evs (the (wifi_event_handler good_driver ev s))"

lemma reach_events:
  "wifi_reach good_driver s t \<Longrightarrow> list_all (\<lambda>ev. \<exists>x. ev = Got_ip \<or> ev = Sta_connected \<or> ev = Sta_disconnected) evs \<Longrightarrow>
   wifi_reach good_driver s (events evs t)"
proof (induction evs arbitrary: t)
  case (Cons ev evs)
  have "wifi_event_handler good_driver ev t = Some (the (wifi_event_handler good_driver ev t))"
    using Cons.prems(2) by (auto simp: wifi_event_handler_def)
  then have "wifi_reach good_driver s (the (wifi_event_handler good_driver ev t))"
    using Cons.prems(1) by (metis wifi_reach.next_step wifi_step.event)
  then show ?case using Cons by simp
qed simp

text \<open>The run: the reconnection task fails and sleeps, a connect request succeeds, a scan request follows.\<close>

definition sleeping :: wifi where
  "sleeping = reco_outcome 4 (take_note 4 (events (replicate 4 Sta_disconnected) (reconnection_task good_driver 4 (boot None True))))"

definition reconnected :: wifi where
  "reconnected =
     (let s = events [Sta_connected, Got_ip] (wifi_manager_connect good_driver 1 sleeping)
      in connect_done good_driver 1 (notified s 1) (take_note 1 s))"

lemma reach_reconnected: "wifi_reach good_driver (boot None True) reconnected"
proof -
  note step = wifi_reach.next_step
  have "wifi_reach good_driver (boot None True) (reconnection_task good_driver 4 (boot None True))"
    by (rule step [OF wifi_reach.start wifi_step.reco_start]) code_simp
  then have "wifi_reach good_driver (boot None True) (events (replicate 4 Sta_disconnected) (reconnection_task good_driver 4 (boot None True)))"
    by (rule reach_events) (simp add: numeral_eq_Suc)
  then have "wifi_reach good_driver (boot None True) sleeping"
    unfolding sleeping_def by (rule step [OF _ wifi_step.reco_wait]) code_simp
  then have "wifi_reach good_driver (boot None True) (wifi_manager_connect good_driver 1 sleeping)"
    by (rule step [OF _ wifi_step.connect]) code_simp
  then have "wifi_reach good_driver (boot None True) (events [Sta_connected, Got_ip] (wifi_manager_connect good_driver 1 sleeping))"
    by (rule reach_events) simp
  then show ?thesis unfolding reconnected_def Let_def by (rule step [OF _ wifi_step.connected]) code_simp
qed

text \<open>A thread that is gone stays gone.\<close>

definition gone :: "nat \<Rightarrow> wifi \<Rightarrow> bool" where
  "gone n s \<longleftrightarrow> threads s n = None \<and> n < next_id s"

lemma gone_upd [simp]:
  "gone n (s\<lparr>lock := a\<rparr>) = gone n s" "gone n (s\<lparr>task := b\<rparr>) = gone n s" "gone n (s\<lparr>u_ptr := c\<rparr>) = gone n s"
  "gone n (s\<lparr>need_unlock := a\<rparr>) = gone n s" "gone n (s\<lparr>mode := f\<rparr>) = gone n s" "gone n (s\<lparr>w_calls := l\<rparr>) = gone n s"
  "gone n (s\<lparr>total_aps := d\<rparr>) = gone n s" "gone n (s\<lparr>max_ap := e\<rparr>) = gone n s"
  "gone n (s\<lparr>is_endless_connect := a\<rparr>) = gone n s" "gone n (s\<lparr>auto_reconnect := a\<rparr>) = gone n s"
  "gone n (s\<lparr>do_fast_connect := a\<rparr>) = gone n s" "gone n (s\<lparr>is_sta_connected := a\<rparr>) = gone n s"
  "gone n (s\<lparr>delayed_stopAP_task := b\<rparr>) = gone n s" "gone n (s\<lparr>delayed_startAP_task := b\<rparr>) = gone n s"
  "gone n (s\<lparr>try_connect_count := f\<rparr>) = gone n s" "gone n (s\<lparr>permanent_mode := f\<rparr>) = gone n s"
  "gone n (s\<lparr>conn_cb := a\<rparr>) = gone n s" "gone n (s\<lparr>attempt := e\<rparr>) = gone n s" "gone n (s\<lparr>ev_connected := a\<rparr>) = gone n s"
  "gone n (s\<lparr>scan_cb := a\<rparr>) = gone n s" "gone n (s\<lparr>scan_ap := g\<rparr>) = gone n s" "gone n (s\<lparr>scan_number := d\<rparr>) = gone n s"
  "gone n (s\<lparr>notified := i\<rparr>) = gone n s"
  by (simp_all add: gone_def)

lemma gone_basic:
  "gone n (notify t s) = gone n s" "gone n (give s) = gone n s" "gone n (take_note k s) = gone n s" "gone n (snd (drive D call s)) = gone n s"
  "m \<noteq> n \<Longrightarrow> gone n (wait_at m pc s) = gone n s" "gone n s \<Longrightarrow> gone n (delete t s)" "gone n s \<Longrightarrow> gone n (create pc s)"
  "m \<noteq> n \<Longrightarrow> gone n (return m err s) = gone n s"
  by (simp_all add: notify_def wait_at_def delete_def create_def give_def take_note_def return_def drive_def gone_def split: option.split)

lemma gone_handle: "gone n s \<Longrightarrow> gone n (handle_wifi_connected s)" "gone n s \<Longrightarrow> gone n (handle_wifi_disconnected s)"
  by (simp_all add: handle_wifi_connected_def handle_wifi_disconnected_def Let_def gone_basic)

lemma gone_disconn: "gone n s \<Longrightarrow> gone n (disconn_handler s)"
  using gone_handle(2) [of n s] by (simp add: disconn_handler_def Let_def gone_basic)

lemma gone_conn:
  "gone n (try_connect_done e s) = gone n s" "gone n (event_on_connected s) = gone n s" "gone n s \<Longrightarrow> gone n (connect_over s)"
  "gone n (snd (wifi_event_trigger_connect D k s)) = gone n s" "gone n (snd (set_default_sta_cred D s)) = gone n s"
  by (simp_all add: try_connect_done_def event_on_connected_def connect_over_def wifi_event_trigger_connect_def
      set_default_sta_cred_def Let_def case_prod_beta gone_basic gone_disconn)

lemma gone_retry: "gone n s \<Longrightarrow> gone n (reconnect_after_disco D s)"
  by (simp add: reconnect_after_disco_def Let_def case_prod_beta gone_basic gone_conn)

lemma gone_set_mode: "gone n s \<Longrightarrow> gone n (snd (set_wifi_mode D m s))"
  by (auto simp: set_wifi_mode_def Let_def case_prod_beta gone_basic intro!: gone_disconn split: option.split)

lemma gone_event: "gone n s \<Longrightarrow> wifi_event_handler D ev s = Some s' \<Longrightarrow> gone n s'"
  by (auto simp: wifi_event_handler_def wifi_on_scan_done_def wifi_event_scan_channel_done_def Let_def gone_basic gone_conn gone_retry
      split: wifi_event.splits if_splits)

lemma gone_scan: "t \<noteq> n \<Longrightarrow> gone n s \<Longrightarrow> gone n (scan_end D t broke err s)" "t \<noteq> n \<Longrightarrow> gone n s \<Longrightarrow> gone n (scan_from D t ch broke s)"
proof -
  have e: "gone n (scan_end D t broke err s)" if "gone n s" "t \<noteq> n" for err s
    using that by (simp add: scan_end_def Let_def case_prod_beta gone_basic gone_conn gone_disconn)
  then show "t \<noteq> n \<Longrightarrow> gone n s \<Longrightarrow> gone n (scan_end D t broke err s)" by simp
  have "gone n (snd (scan_channel D ch s))" if "gone n s"
    using that by (simp add: scan_channel_def wifi_event_trigger_scan_def Let_def case_prod_beta gone_basic)
  then show "t \<noteq> n \<Longrightarrow> gone n s \<Longrightarrow> gone n (scan_from D t ch broke s)"
    using e by (simp add: scan_from_def Let_def case_prod_beta gone_basic)
qed

lemma gone_get_scan: "t \<noteq> n \<Longrightarrow> gone n s \<Longrightarrow> gone n (wifi_manager_get_scan_list D t number s)"
  by (auto simp: wifi_manager_get_scan_list_def Let_def gone_basic intro!: gone_scan)

lemma gone_connect: "t \<noteq> n \<Longrightarrow> gone n s \<Longrightarrow> gone n (wifi_manager_connect D t s)"
  by (auto simp: wifi_manager_connect_def Let_def gone_basic gone_conn)

lemma gone_reco: "t \<noteq> n \<Longrightarrow> gone n s \<Longrightarrow> gone n (reco_end t s)" "t \<noteq> n \<Longrightarrow> gone n s \<Longrightarrow> gone n (reco_try D t s)"
  by (simp_all add: reco_end_def reco_try_def Let_def case_prod_beta gone_basic gone_conn)

lemma gone_step: "wifi_step D s s' \<Longrightarrow> gone n s \<Longrightarrow> gone n s'"
proof (induction rule: wifi_step.induct)
  case (event ev s s')
  then show ?case using gone_event by blast
next
  case (connect s)
  then show ?case by (intro gone_connect) (auto simp: gone_def)
next
  case (scan s)
  then show ?case by (intro gone_get_scan) (auto simp: gone_def)
next
  case (disconnect s)
  then have "2 \<noteq> n" by (auto simp: gone_def)
  then show ?case using disconnect by (simp add: wifi_manager_disconnect_def Let_def case_prod_beta gone_basic)
next
  case (change_mode s m)
  then have "2 \<noteq> n" by (auto simp: gone_def)
  then show ?case using change_mode by (simp add: wifi_manager_change_mode_def gone_basic)
next
  case (connected s t)
  then have "t \<noteq> n" by (auto simp: gone_def)
  then show ?case using connected
    by (simp add: connect_done_def Let_def case_prod_beta gone_basic gone_conn gone_disconn gone_handle)
next
  case (scanned s t channel broke)
  then have "t \<noteq> n" by (auto simp: gone_def)
  then show ?case using scanned by (simp add: scan_notified_def gone_basic gone_scan)
next
  case (mode s t m)
  then have "t \<noteq> n" by (auto simp: gone_def)
  then show ?case using mode
    by (simp add: change_mode_locked_def Let_def case_prod_beta gone_basic gone_set_mode)
next
  case (reco_start s t)
  then show ?case unfolding reconnection_task_def by (intro gone_reco) (auto simp: gone_def)
next
  case (reco_wait s t)
  then have "t \<noteq> n" by (auto simp: gone_def)
  then show ?case using reco_wait by (simp add: reco_outcome_def gone_reco gone_handle gone_basic)
next
  case (reco_sleep s t)
  then have "t \<noteq> n" by (auto simp: gone_def)
  then show ?case using reco_sleep by (simp add: reco_wake_def gone_reco)
next
  case (stop_wait s t)
  then show ?case by (auto simp: gone_def wait_at_def take_note_def)
next
  case (stop_lock s t told)
  then show ?case by (simp add: delayed_set_ap_stop_def Let_def gone_basic gone_set_mode)
next
  case (start_begin s t)
  then show ?case by (auto simp: gone_def start_begin_def wait_at_def)
next
  case (start_wait s t)
  then show ?case by (auto simp: gone_def wait_at_def take_note_def)
next
  case (start_lock s t told)
  then show ?case by (simp add: delayed_set_ap_start_def Let_def gone_basic gone_set_mode)
qed

lemma gone_reach: "wifi_reach D s t \<Longrightarrow> gone n s \<Longrightarrow> gone n t"
  by (induction rule: wifi_reach.induct) (simp_all add: gone_step)

text \<open>When a connect request succeeds while the reconnection task sleeps between two attempts, the next
  scan request deletes the task that serves the requests instead of the reconnection task, and no
  connect or scan request is ever served again.\<close>

theorem scan_deletes_request_task:
  "wifi_reach good_driver (boot None True) reconnected \<and>
   wifi_step good_driver reconnected (wifi_manager_get_scan_list good_driver 1 max_count reconnected) \<and>
   (wifi_reach good_driver (wifi_manager_get_scan_list good_driver 1 max_count reconnected) s \<longrightarrow> threads s 1 = None)"
proof (intro conjI impI)
  show "wifi_reach good_driver (boot None True) reconnected" by (rule reach_reconnected)
  show "wifi_step good_driver reconnected (wifi_manager_get_scan_list good_driver 1 max_count reconnected)"
    by (rule wifi_step.scan) code_simp
  have "gone 1 (wifi_manager_get_scan_list good_driver 1 max_count reconnected)" by code_simp
  then show "threads s 1 = None"
    if "wifi_reach good_driver (wifi_manager_get_scan_list good_driver 1 max_count reconnected) s"
    using gone_reach [OF that] by (simp add: gone_def)
qed

theorem scan_deletes_request_task_witness: "threads (wifi_manager_get_scan_list good_driver 1 max_count reconnected) 1 = None"
  using scan_deletes_request_task wifi_reach.start by blast

text \<open>The run: the access point is on alone, the mode is changed to both, a connect request follows.\<close>

definition mode_changed :: wifi where
  "mode_changed = change_mode_locked good_driver 2 WIFI_AP_STA_ON True (wifi_manager_change_mode 2 WIFI_AP_STA_ON (boot (Some WIFI_AP_ON_STA_OFF) False))"

definition both_connecting :: wifi where
  "both_connecting = reconnection_task good_driver 3 (wifi_manager_connect good_driver 1 mode_changed)"

text \<open>A mode change that turns the station on gives the lock twice, once before it starts the
  reconnection task (which takes it) and once at its end, so that a connect request and the
  reconnection task drive the same connection; the outcome is told to one of them only, and the
  request is answered with a failure although the station is connected.\<close>

theorem lock_given_twice:
  "wifi_reach good_driver (boot (Some WIFI_AP_ON_STA_OFF) False) both_connecting \<and>
   threads both_connecting 1 = Some Conn_Wait \<and> threads both_connecting 3 = Some Reco_Wait \<and>
   \<not> notified (events [Sta_connected, Got_ip] both_connecting) 1 \<and>
   (let s = connect_done good_driver 1 False (take_note 1 (events [Sta_connected, Got_ip] both_connecting)) in
    ev_connected s \<and> Returned 1 1 \<in> set (w_calls s))"
proof (intro conjI)
  note step = wifi_reach.next_step
  let ?b = "boot (Some WIFI_AP_ON_STA_OFF) False"
  have r: "wifi_reach good_driver ?b (wifi_manager_change_mode 2 WIFI_AP_STA_ON ?b)"
    by (rule step [OF wifi_reach.start wifi_step.change_mode]) code_simp
  have t: "threads (wifi_manager_change_mode 2 WIFI_AP_STA_ON ?b) 2 = Some (Mode_Wait WIFI_AP_STA_ON)"
    and l: "lock (wifi_manager_change_mode 2 WIFI_AP_STA_ON ?b) = True" by code_simp+
  have "wifi_reach good_driver ?b mode_changed"
    using step [OF r wifi_step.mode [OF t]] unfolding l mode_changed_def .
  then have "wifi_reach good_driver ?b (wifi_manager_connect good_driver 1 mode_changed)"
    by (rule step [OF _ wifi_step.connect]) code_simp
  then show "wifi_reach good_driver ?b both_connecting"
    unfolding both_connecting_def by (rule step [OF _ wifi_step.reco_start]) code_simp
  show "threads both_connecting 1 = Some Conn_Wait" "threads both_connecting 3 = Some Reco_Wait"
    "\<not> notified (events [Sta_connected, Got_ip] both_connecting) 1"
    "let s = connect_done good_driver 1 False (take_note 1 (events [Sta_connected, Got_ip] both_connecting)) in
      ev_connected s \<and> Returned 1 1 \<in> set (w_calls s)" by code_simp+
qed




end
