(* ===== verification/JsonApi.thy ===== *)
theory JsonApi
  imports WifiStorage Ssdp Wifi "HOL-Library.Multiset"
begin

text \<open>
  The requests of the web interface: Wi-Fi (wifi\_api\_json.c, wifi\_json\_utils.c, wifi\_api.c, the parts
  of wifi\_manager.c that configure the interfaces) and system (wt\_system).  cJSON is the parameter
  \<open>json_lib\<close> with the laws \<open>json_laws\<close>, \<open>qsort\<close> is \<open>qs\<close>, lwIP's address functions are \<open>ntoa\<close> and
  \<open>aton\<close>.  A call of the manager that blocks is modelled in \<open>Wifi\<close>; here its answer comes from the
  environment and the state is the one at its return, because the code before it only reads the
  request.  \<open>None\<close> is an abort, or a text that is not terminated in its array.
\<close>

section \<open>JSON\<close>

text \<open>The abstract value of a document.  A number is its \<open>valueint\<close>.\<close>

datatype json = J_Num int | J_Text "u8 list" | J_Arr "json list" | J_Obj "(string \<times> json) list" | J_Other

record 'j json_lib =
  j_object :: 'j
  j_number :: "'j \<Rightarrow> string \<Rightarrow> int \<Rightarrow> 'j"
  j_string :: "'j \<Rightarrow> string \<Rightarrow> u8 list \<Rightarrow> 'j"
  j_array :: "'j \<Rightarrow> string \<Rightarrow> 'j list \<Rightarrow> 'j"
  j_copy :: "'j \<Rightarrow> 'j"
  j_item :: "bool \<Rightarrow> 'j \<Rightarrow> string \<Rightarrow> 'j option"
  j_valueint :: "'j \<Rightarrow> int option"
  j_valuestring :: "'j \<Rightarrow> u8 list option"

definition fold_case :: "char \<Rightarrow> nat" where
  "fold_case c = (let n = of_char c in if 65 \<le> n \<and> n \<le> 90 then n + 32 else n)"

definition same_name :: "bool \<Rightarrow> string \<Rightarrow> string \<Rightarrow> bool" where
  "same_name case_sensitive a b \<longleftrightarrow> (if case_sensitive then a = b else map fold_case a = map fold_case b)"

definition item_of :: "bool \<Rightarrow> (string \<times> json) list \<Rightarrow> string \<Rightarrow> json option" where
  "item_of cs fs name = map_option snd (find (\<lambda>f. same_name cs (fst f) name) fs)"

text \<open>Items are appended to an object, found by name, and read by type.\<close>

definition json_laws :: "'j json_lib \<Rightarrow> ('j \<Rightarrow> json) \<Rightarrow> bool" where
  "json_laws J \<beta> \<longleftrightarrow>
     \<beta> (j_object J) = J_Obj [] \<and>
     (\<forall>j fs name v. \<beta> j = J_Obj fs \<longrightarrow> \<beta> (j_number J j name v) = J_Obj (fs @ [(name, J_Num v)])) \<and>
     (\<forall>j fs name t. \<beta> j = J_Obj fs \<longrightarrow> \<beta> (j_string J j name t) = J_Obj (fs @ [(name, J_Text t)])) \<and>
     (\<forall>j fs name js. \<beta> j = J_Obj fs \<longrightarrow> \<beta> (j_array J j name js) = J_Obj (fs @ [(name, J_Arr (map \<beta> js))])) \<and>
     (\<forall>j. \<beta> (j_copy J j) = \<beta> j) \<and>
     (\<forall>j fs cs name. \<beta> j = J_Obj fs \<longrightarrow> map_option \<beta> (j_item J cs j name) = item_of cs fs name) \<and>
     (\<forall>j. j_valueint J j = (case \<beta> j of J_Num v \<Rightarrow> Some v | _ \<Rightarrow> None)) \<and>
     (\<forall>j. j_valuestring J j = (case \<beta> j of J_Text t \<Rightarrow> Some t | _ \<Rightarrow> None))"

definition get_number :: "'j json_lib \<Rightarrow> 'j \<Rightarrow> string \<Rightarrow> int option" where
  "get_number J j name = Option.bind (j_item J True j name) (j_valueint J)"

definition get_text :: "'j json_lib \<Rightarrow> bool \<Rightarrow> 'j \<Rightarrow> string \<Rightarrow> u8 list option" where
  "get_text J cs j name = Option.bind (j_item J cs j name) (j_valuestring J)"

section \<open>Strings in arrays\<close>

text \<open>\<open>c_str\<close>: the string that starts an array, if it ends in it.\<close>

definition c_str :: "u8 list \<Rightarrow> u8 list option" where
  "c_str bs = (if 0 \<in> set bs then Some (takeWhile (\<lambda>b. b \<noteq> 0) bs) else None)"

definition strncpy :: "nat \<Rightarrow> u8 list \<Rightarrow> u8 list" where
  "strncpy n bs = (let t = takeWhile (\<lambda>b. b \<noteq> 0) (take n bs) in t @ replicate (n - length t) 0)"

definition put_at :: "nat \<Rightarrow> u8 list \<Rightarrow> u8 list \<Rightarrow> u8 list" where
  "put_at i bs xs = take i xs @ bs @ drop (i + length bs) xs"

definition mac_text :: "u8 list \<Rightarrow> u8 list" where
  "mac_text m = hex2 True (m ! 0) @ concat (map (\<lambda>i. 0x3A # hex2 True (m ! i)) [1, 2, 3, 4, 5])"

section \<open>Data\<close>

definition WIFI_MODULE_ID :: int where "WIFI_MODULE_ID = 1"
definition WIFI_API_JSON_STA_GET_AP_INFO :: u16 where "WIFI_API_JSON_STA_GET_AP_INFO = 1"
definition WIFI_API_JSON_CONNECT :: u16 where "WIFI_API_JSON_CONNECT = 2"
definition WIFI_API_JSON_GET_SCAN :: u16 where "WIFI_API_JSON_GET_SCAN = 3"
definition WIFI_API_JSON_DISCONNECT :: u16 where "WIFI_API_JSON_DISCONNECT = 4"
definition WIFI_API_JSON_AP_GET_INFO :: u16 where "WIFI_API_JSON_AP_GET_INFO = 5"
definition WIFI_API_JSON_GET_MODE :: u16 where "WIFI_API_JSON_GET_MODE = 6"
definition WIFI_API_JSON_SET_MODE :: u16 where "WIFI_API_JSON_SET_MODE = 7"
definition WIFI_API_JSON_SET_AP_CRED :: u16 where "WIFI_API_JSON_SET_AP_CRED = 8"
definition WIFI_API_JSON_STA_GET_STATIC_INFO :: u16 where "WIFI_API_JSON_STA_GET_STATIC_INFO = 9"
definition WIFI_API_JSON_STA_SET_STATIC_CONF :: u16 where "WIFI_API_JSON_STA_SET_STATIC_CONF = 10"

definition API_JSON_INTERNAL_ERR :: int where "API_JSON_INTERNAL_ERR = 3"

definition IP4_ADDR :: "u8 \<Rightarrow> u8 \<Rightarrow> u8 \<Rightarrow> u8 \<Rightarrow> u32" where "IP4_ADDR a b c d = le32 a b c d"

definition WIFI_DEFAULT_AP_SSID :: "u8 list" where
  "WIFI_DEFAULT_AP_SSID = [0xE6, 0x97, 0xA0, 0xE7, 0xBA, 0xBF] @ ascii ''DAP''"
definition WIFI_DEFAULT_AP_PASS :: "u8 list" where "WIFI_DEFAULT_AP_PASS = ascii ''12345678''"
definition WIFI_DEFAULT_AP_IP :: u32 where "WIFI_DEFAULT_AP_IP = IP4_ADDR 192 168 1 1"
definition WIFI_DEFAULT_AP_GATEWAY :: u32 where "WIFI_DEFAULT_AP_GATEWAY = IP4_ADDR 192 168 1 1"
definition WIFI_DEFAULT_AP_NETMASK :: u32 where "WIFI_DEFAULT_AP_NETMASK = IP4_ADDR 255 255 255 0"

record ap_info =
  ai_ip :: u32
  ai_gateway :: u32
  ai_netmask :: u32
  ai_ssid :: "u8 list"
  ai_password :: "u8 list"
  ai_mac :: "u8 list"
  ai_rssi :: int
  ai_dns_main :: u32
  ai_dns_backup :: u32

record ap_scan_info =
  as_ssid :: "u8 list"
  as_mac :: "u8 list"
  as_rssi :: int

text \<open>\<open>wifi_ap_record_t\<close> of the driver.\<close>

record ap_record =
  r_ssid :: "u8 list"
  r_bssid :: "u8 list"
  r_rssi :: int

text \<open>What the driver and the network interfaces answer, the answer of the manager, what a scan found
  uninitialised memory (from \<open>e_stack\<close> on, and the scan entries that a failed scan leaves), and the
  version and date of the firmware.\<close>

record api_env =
  e_station :: ap_record
  e_ip :: u32
  e_gw :: u32
  e_netmask :: u32
  e_sta_dns :: "u32 option \<times> u32 option"
  e_ap_dns :: "u32 option \<times> u32 option"
  e_ap_mac :: "u8 list"
  e_wifi_mode :: "u32 option"
  e_err :: int
  e_records :: "ap_record list"
  e_stack :: "u8 list"
  e_scan_junk :: "ap_scan_info list"
  e_version :: "u8 list"
  e_upd_date :: "u8 list"

datatype net_call =
  Dhcpc_stop | Dhcpc_start | Sta_ip u32 u32 u32 | Sta_dns_main u32 | Sta_dns_backup u32
| Dhcps_stop | Ap_ip u32 u32 u32 | Dhcps_start | Ap_config "u8 list" "u8 list"

record 'n wapi =
  wa_flash :: "'n flash"
  wa_manager :: wifi
  wa_net :: "net_call list"
  wa_reboot :: bool


text \<open>The libraries: cJSON, lwIP, \<open>qsort\<close>, flash, and the conversions between milliseconds and ticks.\<close>

record ('j, 'n) api_libs =
  l_json :: "'j json_lib"
  l_ntoa :: "u32 \<Rightarrow> u8 list"
  l_aton :: "u8 list \<Rightarrow> u32 option"
  l_qsort :: "(ap_scan_info \<Rightarrow> ap_scan_info \<Rightarrow> int) \<Rightarrow> ap_scan_info list \<Rightarrow> ap_scan_info list"
  l_nvs :: "'n nvs_api"
  l_ticks :: "int \<Rightarrow> int"
  l_ms :: "int \<Rightarrow> int"

section \<open>wifi\_json\_utils.c\<close>

definition wifi_api_json_set_header :: "'j json_lib \<Rightarrow> u16 \<Rightarrow> 'j \<Rightarrow> 'j" where
  "wifi_api_json_set_header J cmd root = j_number J (j_number J root ''cmd'' (uint cmd)) ''module'' WIFI_MODULE_ID"

definition wifi_api_json_serialize_ap_info :: "'j json_lib \<Rightarrow> (u32 \<Rightarrow> u8 list) \<Rightarrow> ap_info \<Rightarrow> u16 \<Rightarrow> 'j option" where
  "wifi_api_json_serialize_ap_info J ntoa ap_info cmd =
     (case (c_str (ai_ssid ap_info), c_str (ai_password ap_info)) of
        (Some ssid, Some password) \<Rightarrow>
          (let root = wifi_api_json_set_header J cmd (j_object J);
               root = j_string J root ''ip'' (ntoa (ai_ip ap_info));
               root = j_string J root ''gateway'' (ntoa (ai_gateway ap_info));
               root = j_string J root ''netmask'' (ntoa (ai_netmask ap_info));
               root = j_string J root ''dns_main'' (ntoa (ai_dns_main ap_info));
               root = j_string J root ''dns_backup'' (ntoa (ai_dns_backup ap_info));
               root = j_number J root ''rssi'' (ai_rssi ap_info);
               root = j_string J root ''ssid'' ssid;
               root = (if password \<noteq> [] then j_string J root ''password'' password else root)
           in Some (j_string J root ''mac'' (mac_text (ai_mac ap_info))))
      | _ \<Rightarrow> None)"

definition serialize_scan_entry :: "'j json_lib \<Rightarrow> ap_scan_info \<Rightarrow> 'j option" where
  "serialize_scan_entry J ap =
     map_option (\<lambda>ssid. j_string J (j_string J (j_number J (j_object J) ''rssi'' (as_rssi ap)) ''ssid'' ssid) ''mac'' (mac_text (as_mac ap)))
       (c_str (as_ssid ap))"

definition wifi_api_json_serialize_scan_list :: "'j json_lib \<Rightarrow> ap_scan_info list \<Rightarrow> 'j option" where
  "wifi_api_json_serialize_scan_list J aps_info =
     map_option (\<lambda>items. j_array J (wifi_api_json_set_header J WIFI_API_JSON_GET_SCAN (j_object J)) ''scan_list'' items)
       (those (map (serialize_scan_entry J) aps_info))"

definition wifi_api_json_serialize_ap_auto :: "'j json_lib \<Rightarrow> u32 \<Rightarrow> int \<Rightarrow> int \<Rightarrow> 'j" where
  "wifi_api_json_serialize_ap_auto J md ap_on_delay ap_off_delay =
     j_number J (j_number J (j_number J (wifi_api_json_set_header J WIFI_API_JSON_GET_SCAN (j_object J))
       ''mode'' (uint md)) ''ap_on_delay'' ap_on_delay) ''ap_off_delay'' ap_off_delay"

definition wifi_api_json_create_err_rsp :: "'j json_lib \<Rightarrow> 'j \<Rightarrow> string \<Rightarrow> 'j" where
  "wifi_api_json_create_err_rsp J req msg = j_string J (j_copy J req) ''err'' (ascii msg)"

definition wifi_api_json_serialize_get_mode :: "'j json_lib \<Rightarrow> u32 \<Rightarrow> u32 \<Rightarrow> int \<Rightarrow> int \<Rightarrow> 'j" where
  "wifi_api_json_serialize_get_mode J md status ap_on_delay ap_off_delay =
     (let root = wifi_api_json_set_header J WIFI_API_JSON_GET_MODE (j_object J);
          root = j_number J (j_number J root ''mode'' (uint md)) ''status'' (uint status)
      in if 0 \<le> ap_on_delay \<and> 0 \<le> ap_off_delay
         then j_number J (j_number J root ''ap_on_delay'' ap_on_delay) ''ap_off_delay'' ap_off_delay else root)"

text \<open>The credential is the stack from the local variable on: 32 bytes of name, 64 of password, and
  the byte behind it, which \<open>password[64]\<close> writes.\<close>

definition wifi_api_json_get_credential :: "'j json_lib \<Rightarrow> 'j \<Rightarrow> u8 list \<Rightarrow> u8 list option" where
  "wifi_api_json_get_credential J root cred =
     (case (get_text J False root ''ssid'', get_text J False root ''password'') of
        (Some ssid, Some password) \<Rightarrow>
          (let cred = put_at 0 (strncpy 31 ssid) cred; cred = put_at 32 (strncpy 63 password) cred
           in Some ((cred[31 := 0])[96 := 0]))
      | _ \<Rightarrow> None)"

text \<open>Address \<open>k\<close> of \<open>wifi_api_sta_ap_static_info_t\<close>: ip, gateway, netmask, main and backup name server.\<close>

definition info_addr :: "nat \<Rightarrow> u8 list \<Rightarrow> u32" where
  "info_addr k i = le32 (i ! (4 * k)) (i ! (4 * k + 1)) (i ! (4 * k + 2)) (i ! (4 * k + 3))"

definition wifi_api_json_ser_static_info :: "'j json_lib \<Rightarrow> (u32 \<Rightarrow> u8 list) \<Rightarrow> u8 list \<Rightarrow> 'j" where
  "wifi_api_json_ser_static_info J ntoa info =
     (let root = wifi_api_json_set_header J WIFI_API_JSON_STA_GET_STATIC_INFO (j_object J);
          root = j_number J root ''static_ip_en'' (uint (static_ip_en info));
          root = j_number J root ''static_dns_en'' (uint (static_dns_en info));
          root = j_string J root ''ip'' (ntoa (info_addr 0 info));
          root = j_string J root ''gateway'' (ntoa (info_addr 1 info));
          root = j_string J root ''netmask'' (ntoa (info_addr 2 info));
          root = j_string J root ''dns_main'' (ntoa (info_addr 3 info))
      in j_string J root ''dns_backup'' (ntoa (info_addr 4 info)))"

definition deser_addr :: "'j json_lib \<Rightarrow> (u8 list \<Rightarrow> u32 option) \<Rightarrow> 'j \<Rightarrow> string \<times> nat \<Rightarrow> u8 list \<Rightarrow> u8 list" where
  "deser_addr J aton root f i =
     (case Option.bind (get_text J True root (fst f)) aton of
        Some a \<Rightarrow> put_at (4 * snd f) (le32_bytes a) i
      | None \<Rightarrow> i)"

definition static_fields :: "(string \<times> nat) list" where
  "static_fields = [(''ip'', 0), (''gateway'', 1), (''netmask'', 2), (''dns_main'', 3), (''dns_backup'', 4)]"

definition wifi_api_json_deser_static_conf :: "'j json_lib \<Rightarrow> (u8 list \<Rightarrow> u32 option) \<Rightarrow> 'j \<Rightarrow> u8 list \<Rightarrow> u8 list option" where
  "wifi_api_json_deser_static_conf J aton root i =
     (case (get_number J root ''static_ip_en'', get_number J root ''static_dns_en'') of
        (Some ip_en, Some dns_en) \<Rightarrow>
          Some (fold (deser_addr J aton root) static_fields ((i[21 := word_of_int dns_en])[20 := word_of_int ip_en]))
      | _ \<Rightarrow> None)"

section \<open>wifi\_manager.c: the interfaces\<close>

definition wifi_manager_set_ap_credential :: "u32 option \<Rightarrow> u8 list \<Rightarrow> int \<times> net_call list" where
  "wifi_manager_set_ap_credential md cred =
     (case md of None \<Rightarrow> (1, [])
      | Some md \<Rightarrow> (0, if md AND WIFI_MODE_AP \<noteq> 0 then [Ap_config (strncpy 32 cred) (strncpy 64 (drop 32 cred))] else []))"

definition wifi_manager_sta_set_static_conf :: "u32 \<Rightarrow> u8 list \<Rightarrow> int \<times> net_call list" where
  "wifi_manager_sta_set_static_conf gw info =
     (0, (if static_ip_en info \<noteq> 0 then [Dhcpc_stop, Sta_ip (info_addr 0 info) (info_addr 1 info) (info_addr 2 info)] else [Dhcpc_start]) @
         (if static_dns_en info \<noteq> 0 then [Sta_dns_main (info_addr 3 info), Sta_dns_backup (info_addr 4 info)] else [Sta_dns_main gw]))"

text \<open>The start of the interfaces: the access point's name and password, the static configuration, and
  the address of the access point.\<close>

definition init_ap_credential :: "('j, 'n) api_libs \<Rightarrow> api_env \<Rightarrow> 'n flash \<Rightarrow> (net_call list \<times> 'n flash) option" where
  "init_ap_credential L E s =
     (case wifi_data_get_ap_credential (l_nvs L) (e_stack E) s of None \<Rightarrow> None
      | Some ((err, cred), s) \<Rightarrow>
          map_option (\<lambda>default.
              let cred = (if default then put_at 32 (strncpy 64 WIFI_DEFAULT_AP_PASS) (put_at 0 (strncpy 32 WIFI_DEFAULT_AP_SSID) cred) else cred)
              in (snd (wifi_manager_set_ap_credential (e_wifi_mode E) cred), s))
            (if err \<noteq> 0 then Some True else map_option (\<lambda>p. length p < 8) (c_str (drop 32 cred))))"

definition init_interfaces :: "('j, 'n) api_libs \<Rightarrow> api_env \<Rightarrow> 'n flash \<Rightarrow> (net_call list \<times> 'n flash) option" where
  "init_interfaces L E s =
     map_option (\<lambda>((err, info), s).
         ((if err = 0 then snd (wifi_manager_sta_set_static_conf (e_gw E) info) else []) @
          [Dhcps_stop, Ap_ip WIFI_DEFAULT_AP_IP WIFI_DEFAULT_AP_GATEWAY WIFI_DEFAULT_AP_NETMASK, Dhcps_start], s))
       (wifi_data_get_static (l_nvs L) (take sizeof_static_info (e_stack E)) s)"

section \<open>wifi\_api.c\<close>

definition dns_or_gateway :: "u32 \<Rightarrow> u32 option \<Rightarrow> u32" where
  "dns_or_gateway gateway dns = (case dns of None \<Rightarrow> gateway | Some a \<Rightarrow> a)"

definition wifi_api_sta_get_ap_info :: "api_env \<Rightarrow> ap_info" where
  "wifi_api_sta_get_ap_info E =
     \<lparr>ai_ip = e_ip E, ai_gateway = e_gw E, ai_netmask = e_netmask E,
      ai_ssid = strncpy 33 (r_ssid (e_station E)), ai_password = [0], ai_mac = strncpy 6 (r_bssid (e_station E)),
      ai_rssi = r_rssi (e_station E),
      ai_dns_main = dns_or_gateway (e_gw E) (fst (e_sta_dns E)), ai_dns_backup = dns_or_gateway (e_gw E) (snd (e_sta_dns E))\<rparr>"

definition wifi_api_ap_get_info :: "'n nvs_api \<Rightarrow> api_env \<Rightarrow> 'n flash \<Rightarrow> (ap_info \<times> 'n flash) option" where
  "wifi_api_ap_get_info N E s =
     map_option (\<lambda>((err, credential), s).
         (\<lparr>ai_ip = WIFI_DEFAULT_AP_IP, ai_gateway = WIFI_DEFAULT_AP_GATEWAY, ai_netmask = WIFI_DEFAULT_AP_NETMASK,
           ai_ssid = (if err \<noteq> 0 then WIFI_DEFAULT_AP_SSID @ [0] else strncpy 33 credential),
           ai_password = (if err \<noteq> 0 then WIFI_DEFAULT_AP_PASS @ [0] else strncpy 65 (drop 32 credential)),
           ai_mac = e_ap_mac E, ai_rssi = 0,
           ai_dns_main = dns_or_gateway WIFI_DEFAULT_AP_GATEWAY (fst (e_ap_dns E)),
           ai_dns_backup = dns_or_gateway WIFI_DEFAULT_AP_GATEWAY (snd (e_ap_dns E))\<rparr>, s))
       (wifi_data_get_ap_credential N (e_stack E) s)"

definition rssi_comp :: "ap_scan_info \<Rightarrow> ap_scan_info \<Rightarrow> int" where
  "rssi_comp r1 r2 = as_rssi r2 - as_rssi r1"

definition scan_entry :: "ap_record \<Rightarrow> ap_scan_info" where
  "scan_entry r = \<lparr>as_ssid = strncpy 33 (r_ssid r), as_mac = strncpy 6 (r_bssid r), as_rssi = r_rssi r\<rparr>"

text \<open>The answer of \<open>wifi_manager_get_scan_list\<close> is \<open>e_err\<close>, with the records found so far.\<close>

definition wifi_api_get_scan_list :: "('j, 'n) api_libs \<Rightarrow> api_env \<Rightarrow> int \<times> ap_scan_info list" where
  "wifi_api_get_scan_list L E =
     (if e_err E \<noteq> 0 then (e_err E, e_scan_junk E)
      else (0, l_qsort L rssi_comp (map scan_entry (e_records E))))"

definition wifi_api_sta_set_static_conf ::
  "'n nvs_api \<Rightarrow> u32 \<Rightarrow> u8 list \<Rightarrow> 'n flash \<Rightarrow> ((int \<times> net_call list) \<times> 'n flash) option" where
  "wifi_api_sta_set_static_conf N gw info s =
     (let (err, calls) = wifi_manager_sta_set_static_conf gw info in
      if err \<noteq> 0 then Some ((err, calls), s)
      else map_option (\<lambda>(err, s). ((err, calls), s)) (wifi_data_save_static N info s))"

section \<open>wifi\_api\_json.c\<close>

datatype async_func = Json_Connect | Json_Get_Scan

text \<open>A handler answers at once, or hands a function to the request task.\<close>

datatype 'j api_answer = Answer int "'j option" | Run_Later async_func

type_synonym ('j, 'n) api_result = "('j api_answer \<times> 'n wapi) option"

definition net_calls :: "net_call list \<Rightarrow> 'n flash \<Rightarrow> 'n wapi \<Rightarrow> 'n wapi" where
  "net_calls calls f s = s\<lparr>wa_flash := f, wa_net := wa_net s @ calls\<rparr>"

definition answer_with :: "'j option \<Rightarrow> 'n wapi \<Rightarrow> ('j, 'n) api_result" where
  "answer_with out s = map_option (\<lambda>out. (Answer API_JSON_OK (Some out), s)) out"

definition wifi_api_json_sta_get_ap_info :: "('j, 'n) api_libs \<Rightarrow> api_env \<Rightarrow> 'n wapi \<Rightarrow> ('j, 'n) api_result" where
  "wifi_api_json_sta_get_ap_info L E s =
     answer_with (wifi_api_json_serialize_ap_info (l_json L) (l_ntoa L) (wifi_api_sta_get_ap_info E) WIFI_API_JSON_STA_GET_AP_INFO) s"

definition wifi_api_json_ap_get_info :: "('j, 'n) api_libs \<Rightarrow> api_env \<Rightarrow> 'n wapi \<Rightarrow> ('j, 'n) api_result" where
  "wifi_api_json_ap_get_info L E s =
     (case wifi_api_ap_get_info (l_nvs L) E (wa_flash s) of None \<Rightarrow> None
      | Some (ap_info, f) \<Rightarrow>
          answer_with (wifi_api_json_serialize_ap_info (l_json L) (l_ntoa L) ap_info WIFI_API_JSON_AP_GET_INFO) (net_calls [] f s))"

definition ESP_ERR_NOT_FINISHED :: int where "ESP_ERR_NOT_FINISHED = 0x10C"

definition wifi_api_json_get_scan :: "('j, 'n) api_libs \<Rightarrow> api_env \<Rightarrow> 'j \<Rightarrow> 'n wapi \<Rightarrow> ('j, 'n) api_result" where
  "wifi_api_json_get_scan L E req s =
     (let (err, aps) = wifi_api_get_scan_list L E in
      if err = ESP_ERR_NOT_FINISHED
      then Some (Answer 1 (Some (wifi_api_json_create_err_rsp (l_json L) req ''Wi-Fi scan busy'')), s)
      else answer_with (wifi_api_json_serialize_scan_list (l_json L) aps) s)"

definition wifi_api_json_connect :: "('j, 'n) api_libs \<Rightarrow> api_env \<Rightarrow> 'j \<Rightarrow> 'n wapi \<Rightarrow> ('j, 'n) api_result" where
  "wifi_api_json_connect L E req s =
     (if get_text (l_json L) False req ''ssid'' = None \<or> get_text (l_json L) False req ''password'' = None
      then Some (Answer 1 None, s)
      else if e_err E \<noteq> 0 then Some (Answer (e_err E) None, s)
      else wifi_api_json_sta_get_ap_info L E s)"

definition wifi_api_json_set_mode :: "('j, 'n) api_libs \<Rightarrow> api_env \<Rightarrow> 'j \<Rightarrow> 'n wapi \<Rightarrow> ('j, 'n) api_result" where
  "wifi_api_json_set_mode L E req s =
     (let J = l_json L in
      case get_number J req ''mode'' of
        None \<Rightarrow> Some (Answer API_JSON_OK (Some (wifi_api_json_create_err_rsp J req (CHR 0x27 # ''mode'' @ CHR 0x27 # '' attribute missing''))), s)
      | Some v \<Rightarrow>
          if e_err E \<noteq> 0 then Some (Answer API_JSON_OK (Some (wifi_api_json_create_err_rsp J req ''Change mode Failed'')), s)
          else (case (word_of_int v = WIFI_AP_AUTO_STA_ON, get_number J req ''ap_on_delay'', get_number J req ''ap_off_delay'') of
              (True, Some on_delay, Some off_delay) \<Rightarrow>
                (let ((on_delay, off_delay), m) = wifi_manager_set_ap_auto_delay (l_ticks L) (l_ms L) on_delay off_delay (wa_manager s) in
                 Some (Answer API_JSON_OK (Some (wifi_api_json_serialize_ap_auto J (word_of_int v) on_delay off_delay)), s\<lparr>wa_manager := m\<rparr>))
            | _ \<Rightarrow> Some (Answer API_JSON_OK None, s)))"

definition wifi_api_json_get_mode :: "('j, 'n) api_libs \<Rightarrow> 'n wapi \<Rightarrow> ('j, 'n) api_result" where
  "wifi_api_json_get_mode L s =
     (let (md, status) = wifi_manager_get_mode (wa_manager s);
          (on_delay, off_delay) =
            (if md = WIFI_AP_AUTO_STA_ON then wifi_manager_get_ap_auto_delay (l_ms L) (wa_manager s) else (- 1, - 1))
      in answer_with (Some (wifi_api_json_serialize_get_mode (l_json L) md status on_delay off_delay)) s)"

definition wifi_api_json_disconnect :: "api_env \<Rightarrow> 'n wapi \<Rightarrow> ('j, 'n) api_result" where
  "wifi_api_json_disconnect E s = Some (Answer (e_err E) None, s)"

definition wifi_api_json_set_ap_cred :: "('j, 'n) api_libs \<Rightarrow> api_env \<Rightarrow> 'j \<Rightarrow> 'n wapi \<Rightarrow> ('j, 'n) api_result" where
  "wifi_api_json_set_ap_cred L E req s =
     (case wifi_api_json_get_credential (l_json L) req (e_stack E) of
        None \<Rightarrow> Some (Answer API_JSON_PROPERTY_ERR None, s)
      | Some cred \<Rightarrow>
          Option.bind (c_str (drop 32 cred)) (\<lambda>password.
            if length password < 8
            then Some (Answer API_JSON_OK (Some (wifi_api_json_create_err_rsp (l_json L) req ''password < 8'')), s)
            else map_option (\<lambda>(err, f).
                if err \<noteq> 0 then (Answer API_JSON_INTERNAL_ERR None, net_calls [] f s)
                else (Answer API_JSON_OK None, net_calls (snd (wifi_manager_set_ap_credential (e_wifi_mode E) cred)) f s))
              (wifi_data_save_ap_credential (l_nvs L) (take sizeof_credential cred) (wa_flash s))))"

definition wifi_api_json_sta_get_static_info :: "('j, 'n) api_libs \<Rightarrow> 'n wapi \<Rightarrow> ('j, 'n) api_result" where
  "wifi_api_json_sta_get_static_info L s =
     map_option (\<lambda>((err, info), f).
         if err \<noteq> 0 then (Answer API_JSON_INTERNAL_ERR None, net_calls [] f s)
         else (Answer API_JSON_OK (Some (wifi_api_json_ser_static_info (l_json L) (l_ntoa L) info)), net_calls [] f s))
       (wifi_data_get_static (l_nvs L) (replicate sizeof_static_info 0) (wa_flash s))"

definition wifi_api_json_sta_set_static_conf :: "('j, 'n) api_libs \<Rightarrow> api_env \<Rightarrow> 'j \<Rightarrow> 'n wapi \<Rightarrow> ('j, 'n) api_result" where
  "wifi_api_json_sta_set_static_conf L E req s =
     (case wifi_data_get_static (l_nvs L) (replicate sizeof_static_info 0) (wa_flash s) of None \<Rightarrow> None
      | Some ((_, info), f) \<Rightarrow>
          (case wifi_api_json_deser_static_conf (l_json L) (l_aton L) req info of
             None \<Rightarrow> Some (Answer API_JSON_PROPERTY_ERR None, net_calls [] f s)
           | Some info \<Rightarrow>
               map_option (\<lambda>((_, calls), f). (Answer API_JSON_OK None, net_calls calls f s))
                 (wifi_api_sta_set_static_conf (l_nvs L) (e_gw E) info f)))"

definition wifi_on_json_req :: "('j, 'n) api_libs \<Rightarrow> api_env \<Rightarrow> u16 \<Rightarrow> 'j \<Rightarrow> 'n wapi \<Rightarrow> ('j, 'n) api_result" where
  "wifi_on_json_req L E cmd req s =
     (if cmd = WIFI_API_JSON_STA_GET_AP_INFO then wifi_api_json_sta_get_ap_info L E s
      else if cmd = WIFI_API_JSON_CONNECT then Some (Run_Later Json_Connect, s)
      else if cmd = WIFI_API_JSON_GET_SCAN then Some (Run_Later Json_Get_Scan, s)
      else if cmd = WIFI_API_JSON_DISCONNECT then wifi_api_json_disconnect E s
      else if cmd = WIFI_API_JSON_AP_GET_INFO then wifi_api_json_ap_get_info L E s
      else if cmd = WIFI_API_JSON_GET_MODE then wifi_api_json_get_mode L s
      else if cmd = WIFI_API_JSON_SET_MODE then wifi_api_json_set_mode L E req s
      else if cmd = WIFI_API_JSON_SET_AP_CRED then wifi_api_json_set_ap_cred L E req s
      else if cmd = WIFI_API_JSON_STA_GET_STATIC_INFO then wifi_api_json_sta_get_static_info L s
      else if cmd = WIFI_API_JSON_STA_SET_STATIC_CONF then wifi_api_json_sta_set_static_conf L E req s
      else Some (Answer API_JSON_UNSUPPORTED_CMD None, s))"

definition async_helper_cb :: "('j, 'n) api_libs \<Rightarrow> api_env \<Rightarrow> async_func \<Rightarrow> 'j \<Rightarrow> 'n wapi \<Rightarrow> ('j, 'n) api_result" where
  "async_helper_cb L E func req s =
     (case func of Json_Connect \<Rightarrow> wifi_api_json_connect L E req s | Json_Get_Scan \<Rightarrow> wifi_api_json_get_scan L E req s)"

section \<open>wt\_system\<close>

definition SYSTEM_MODULE_ID :: int where "SYSTEM_MODULE_ID = 0"
definition WT_SYS_GET_FM_INFO :: u16 where "WT_SYS_GET_FM_INFO = 1"
definition WT_SYS_REBOOT :: u16 where "WT_SYS_REBOOT = 2"
definition WT_SYS_DO_CRASH :: u16 where "WT_SYS_DO_CRASH = 200"

text \<open>The two arrays of \<open>wt_fm_info_t\<close>.\<close>

definition wt_system_get_fm_info :: "api_env \<Rightarrow> u8 list \<times> u8 list" where
  "wt_system_get_fm_info E = (takeWhile (\<lambda>b. b \<noteq> 0) (e_version E) @ [0], take 10 (e_upd_date E) @ [0])"

definition wt_sys_json_ser_fm_info :: "'j json_lib \<Rightarrow> u8 list \<times> u8 list \<Rightarrow> 'j option" where
  "wt_sys_json_ser_fm_info J info =
     (case (c_str (fst info), c_str (snd info)) of
        (Some fm_ver, Some upd_date) \<Rightarrow>
          (let root = j_number J (j_object J) ''cmd'' (uint WT_SYS_GET_FM_INFO);
               root = j_number J root ''module'' SYSTEM_MODULE_ID
           in Some (j_string J (j_string J root ''fm_ver'' fm_ver) ''upd_date'' upd_date))
      | _ \<Rightarrow> None)"

definition wt_sys_on_json_req :: "('j, 'n) api_libs \<Rightarrow> api_env \<Rightarrow> u16 \<Rightarrow> 'n wapi \<Rightarrow> ('j, 'n) api_result" where
  "wt_sys_on_json_req L E cmd s =
     (if cmd = WT_SYS_GET_FM_INFO then answer_with (wt_sys_json_ser_fm_info (l_json L) (wt_system_get_fm_info E)) s
      else if cmd = WT_SYS_REBOOT then Some (Answer API_JSON_OK None, s\<lparr>wa_reboot := True\<rparr>)
      else if cmd = WT_SYS_DO_CRASH then None
      else Some (Answer API_JSON_UNSUPPORTED_CMD None, s))"

section \<open>Address events\<close>

datatype ip_event = Sta_got_ip u32 u32 | Sta_lost_ip | Other_ip_event

text \<open>The discovery service announces the new address from the buffer \<open>m\<close>.\<close>

definition ip_event_handler ::
  "(u32 \<Rightarrow> u8 list) \<Rightarrow> ip_event \<Rightarrow> mem \<Rightarrow> wifi \<times> ssdp_ctx \<Rightarrow> (ssdp_fault + (u8 list \<times> mem)) option \<times> wifi \<times> ssdp_ctx" where
  "ip_event_handler ntoa ev m = (\<lambda>(s, c).
     case ev of
       Sta_got_ip ip gw \<Rightarrow> (let (r, c) = ssdp_set_ip_gw ntoa ip gw m c in (Some r, event_on_connected s, c))
     | Sta_lost_ip \<Rightarrow> (let (r, c) = ssdp_set_ip_gw ntoa WIFI_DEFAULT_AP_IP WIFI_DEFAULT_AP_GATEWAY m c in (Some r, s, c))
     | Other_ip_event \<Rightarrow> (None, s, c))"

section \<open>The modules behind the router\<close>

datatype api_handler = Wifi_Requests | System_Requests

definition wifi_api_json_init :: "api_handler api_json_module_cfg \<Rightarrow> int \<times> api_handler api_json_module_cfg" where
  "wifi_api_json_init cfg = (0, cfg\<lparr>cfg_on_req := Some Wifi_Requests, cfg_module_id := word_of_int WIFI_MODULE_ID\<rparr>)"

definition wt_sys_json_init :: "api_handler api_json_module_cfg \<Rightarrow> int \<times> api_handler api_json_module_cfg" where
  "wt_sys_json_init cfg = (0, cfg\<lparr>cfg_on_req := Some System_Requests, cfg_module_id := word_of_int SYSTEM_MODULE_ID\<rparr>)"

definition api_modules :: "api_handler api_table" where
  "api_modules = snd (api_json_module_add wt_sys_json_init (snd (api_json_module_add wifi_api_json_init (replicate API_MODULE_MAX None))))"

text \<open>A request as the handlers of the web server pass it to the router.\<close>

definition api_request :: "('j, 'n) api_libs \<Rightarrow> api_env \<Rightarrow> 'j option \<Rightarrow> 'n wapi \<Rightarrow> ('j, 'n) api_result" where
  "api_request L E req s =
     (case api_json_route (\<lambda>j name. Option.bind (j_item (l_json L) False j name) (j_valueint (l_json L))) req api_modules of
        None \<Rightarrow> Some (Answer API_JSON_BAD_REQUEST None, s)
      | Some (Wifi_Requests, cmd) \<Rightarrow> wifi_on_json_req L E cmd (the req) s
      | Some (System_Requests, cmd) \<Rightarrow> wt_sys_on_json_req L E cmd s)"

section \<open>Documents\<close>

lemma json_item: "json_laws J \<beta> \<Longrightarrow> \<beta> j = J_Obj fs \<Longrightarrow> map_option \<beta> (j_item J cs j name) = item_of cs fs name"
  unfolding json_laws_def by blast

lemma json_values:
  assumes "json_laws J \<beta>"
  shows "j_valueint J j = (case \<beta> j of J_Num v \<Rightarrow> Some v | _ \<Rightarrow> None)" "j_valuestring J j = (case \<beta> j of J_Text t \<Rightarrow> Some t | _ \<Rightarrow> None)"
  using assms unfolding json_laws_def by blast+

lemma json_build:
  assumes "json_laws J \<beta>"
  shows "\<beta> (j_object J) = J_Obj []" "\<beta> (j_copy J j) = \<beta> j"
    and "\<beta> j = J_Obj fs \<Longrightarrow> \<beta> (j_number J j name v) = J_Obj (fs @ [(name, J_Num v)])"
    and "\<beta> j = J_Obj fs \<Longrightarrow> \<beta> (j_string J j name t) = J_Obj (fs @ [(name, J_Text t)])"
    and "\<beta> j = J_Obj fs \<Longrightarrow> \<beta> (j_array J j name js) = J_Obj (fs @ [(name, J_Arr (map \<beta> js))])"
  using assms unfolding json_laws_def by blast+

definition number_in :: "bool \<Rightarrow> (string \<times> json) list \<Rightarrow> string \<Rightarrow> int option" where
  "number_in cs fs name = (case item_of cs fs name of Some (J_Num v) \<Rightarrow> Some v | _ \<Rightarrow> None)"

definition text_in :: "bool \<Rightarrow> (string \<times> json) list \<Rightarrow> string \<Rightarrow> u8 list option" where
  "text_in cs fs name = (case item_of cs fs name of Some (J_Text t) \<Rightarrow> Some t | _ \<Rightarrow> None)"

lemma item_number: "json_laws J \<beta> \<Longrightarrow> \<beta> j = J_Obj fs \<Longrightarrow> Option.bind (j_item J cs j name) (j_valueint J) = number_in cs fs name"
  unfolding number_in_def json_item [symmetric] by (cases "j_item J cs j name") (auto simp: json_values split: json.splits)

lemma item_text: "json_laws J \<beta> \<Longrightarrow> \<beta> j = J_Obj fs \<Longrightarrow> Option.bind (j_item J cs j name) (j_valuestring J) = text_in cs fs name"
  unfolding text_in_def json_item [symmetric] by (cases "j_item J cs j name") (auto simp: json_values split: json.splits)

lemmas cmd_numbers = WIFI_API_JSON_STA_GET_AP_INFO_def WIFI_API_JSON_CONNECT_def WIFI_API_JSON_GET_SCAN_def WIFI_API_JSON_DISCONNECT_def
  WIFI_API_JSON_AP_GET_INFO_def WIFI_API_JSON_GET_MODE_def WIFI_API_JSON_SET_MODE_def WIFI_API_JSON_SET_AP_CRED_def
  WIFI_API_JSON_STA_GET_STATIC_INFO_def WIFI_API_JSON_STA_SET_STATIC_CONF_def

lemma api_modules_table: "api_modules = [Some System_Requests, Some Wifi_Requests] @ replicate 8 None"
  by (simp add: api_modules_def api_json_module_add_def wifi_api_json_init_def wt_sys_json_init_def WIFI_MODULE_ID_def
      SYSTEM_MODULE_ID_def API_MODULE_MAX_def numeral_eq_Suc Let_def)

text \<open>A request to the Wi-Fi module.\<close>

definition asks_wifi :: "u16 \<Rightarrow> (string \<times> json) list \<Rightarrow> bool" where
  "asks_wifi cmd fs \<longleftrightarrow> (\<exists>c m. number_in False fs ''cmd'' = Some c \<and> number_in False fs ''module'' = Some m \<and>
     word_of_int c = cmd \<and> (word_of_int m :: u8) = 1)"

lemma api_request_wifi:
  "json_laws (l_json L) \<beta> \<Longrightarrow> \<beta> req = J_Obj fs \<Longrightarrow> asks_wifi cmd fs \<Longrightarrow> api_request L E (Some req) s = wifi_on_json_req L E cmd req s"
  by (auto simp: asks_wifi_def api_request_def api_json_route_def item_number api_json_module_call_def api_modules_table API_MODULE_MAX_def)

section \<open>Settings through the handlers\<close>

text \<open>A flash library whose calls succeed.\<close>

definition nvs_healthy :: "'n nvs_api \<Rightarrow> bool" where
  "nvs_healthy N \<longleftrightarrow> (\<forall>ns st. nv_open N ns st = 0) \<and> (\<forall>ty k bs st. fst (nv_set N ty k bs st) = 0) \<and> (\<forall>st. fst (nv_commit N st) = 0)"

lemma healthy_close:
  "nvs_healthy N \<Longrightarrow> closing N r s = Some (r, s\<lparr>store := snd (nv_commit N (store s)), handles := handles s - 1\<rparr>)"
  by (simp add: nvs_healthy_def closing_def wt_nvs_close_def case_prod_beta)

lemma healthy_open: "nvs_healthy N \<Longrightarrow> wt_nvs_open N ns s = (0, s\<lparr>handles := handles s + 1\<rparr>)"
  by (simp add: nvs_healthy_def wt_open)

lemma healthy_set: "nvs_healthy N \<Longrightarrow> fst (wt_nvs_set N ns key obj n s) = 0"
  by (simp add: nvs_healthy_def wt_nvs_set_def case_prod_beta Let_def)

text \<open>Saving always answers 0 then.\<close>

lemma healthy_save:
  assumes "nvs_store N \<alpha> mm" "nvs_healthy N" "flash_ok \<alpha> s" "k = Ap \<or> k = Static" "length v = setting_size k"
  shows "\<exists>t. save_setting N [] k v s = Some (0, t) \<and> flash_ok \<alpha> t \<and> handles t = handles s \<and> held_settings \<alpha> t k = Some v"
proof -
  have "\<exists>t. save_setting N [] k v s = Some (0, t)"
    using assms(2,4) healthy_set [OF assms(2)]
    by (auto simp: save_setting_def wifi_data_save_ap_credential_def wifi_data_save_static_def healthy_open healthy_close case_prod_beta)
  then obtain t where t: "save_setting N [] k v s = Some (0, t)" by blast
  then show ?thesis using save_other [OF assms(1,3,5) _ t] assms(4) by auto
qed

text \<open>The static configuration that is read when \<open>w\<close> is stored.\<close>

definition static_value :: "u8 list option \<Rightarrow> u8 list" where
  "static_value w = (case w of Some i \<Rightarrow> clear_big_flags i | None \<Rightarrow> replicate sizeof_static_info 0)"

lemma healthy_get_static:
  assumes N: "nvs_store N \<alpha> mm" and h: "nvs_healthy N" and s: "flash_ok \<alpha> s"
  shows "\<exists>t. wifi_data_get_static N (replicate sizeof_static_info 0) s = Some ((0, static_value (held_settings \<alpha> s Static)), t) \<and>
    flash_ok \<alpha> t \<and> handles t = handles s \<and> held_settings \<alpha> t = held_settings \<alpha> s"
proof -
  define o1 where "o1 = s\<lparr>handles := handles s + 1\<rparr>"
  have o1: "wt_nvs_open N WIFI_NVS_NAMESPACE s = (0, o1)" by (simp add: healthy_open [OF h] o1_def)
  let ?w = "held_settings \<alpha> s Static"
  define t where "t = o1\<lparr>store := snd (nv_commit N (store o1)), handles := handles o1 - 1\<rparr>"
  have a: "\<alpha> (store t) = \<alpha> (store s)" using nvs_commit [OF N, of "store o1"] by (cases "nv_commit N (store o1)") (auto simp: t_def o1_def)
  have w: "\<alpha> (store o1) (WIFI_NVS_NAMESPACE, key_name KEY_WIFI_STA_STATIC_BASE) = map_option (\<lambda>v. (Blob, v)) ?w"
    using held_type [of \<alpha> s Static] s by (simp add: o1_def setting_key_def setting_size_def)
  have l: "length v = 24" if "?w = Some v" for v
    using that s held_type [OF s, of Static] by (auto simp: flash_ok_def setting_size_def sizeof_static_info_def)
  have c: "clear_big_flags (replicate 24 0) = replicate 24 (0 :: u8)" by (simp add: clear_big_flags_def static_ip_en_def static_dns_en_def)
  have z: "(replicate 24 (0 :: u8))[20 := 0, 21 := 0] = replicate 24 0" by (simp add: list_eq_iff_nth_eq nth_list_update)
  have "wifi_data_get_static N (replicate sizeof_static_info 0) s = Some ((0, static_value ?w), t)"
    using l by (cases ?w) (simp_all add: wifi_data_get_static_def o1 wt_get [OF N] w healthy_close [OF h] t_def static_value_def z c
      ESP_ERR_NVS_NOT_FOUND_def sizeof_static_info_def type_of_size_def)
  then show ?thesis using flash_ok_same [OF a] s by (auto simp: t_def o1_def)
qed

text \<open>The stored credential of the access point is read into a longer piece of memory.\<close>

lemma healthy_get_ap:
  assumes N: "nvs_store N \<alpha> mm" and h: "nvs_healthy N" and s: "flash_ok \<alpha> s" and c: "held_settings \<alpha> s Ap = Some c"
  shows "\<exists>t. wifi_data_get_ap_credential N obj s = Some ((0, c @ drop 96 obj), t) \<and> flash_ok \<alpha> t \<and> handles t = handles s \<and>
    held_settings \<alpha> t = held_settings \<alpha> s"
proof -
  define o1 where "o1 = s\<lparr>handles := handles s + 1\<rparr>"
  have o1: "wt_nvs_open N WIFI_NVS_NAMESPACE s = (0, o1)" by (simp add: healthy_open [OF h] o1_def)
  define t where "t = o1\<lparr>store := snd (nv_commit N (store o1)), handles := handles o1 - 1\<rparr>"
  have a: "\<alpha> (store t) = \<alpha> (store s)" using nvs_commit [OF N, of "store o1"] by (cases "nv_commit N (store o1)") (auto simp: t_def o1_def)
  have w: "\<alpha> (store o1) (WIFI_NVS_NAMESPACE, key_name KEY_WIFI_AP_CRED) = Some (Blob, c)"
    using held_type [of \<alpha> s Ap] s c by (simp add: o1_def setting_key_def setting_size_def)
  have l: "length c = 96" using c s held_type [OF s, of Ap] by (auto simp: flash_ok_def setting_size_def sizeof_credential_def)
  have "wifi_data_get_ap_credential N obj s = Some ((0, c @ drop 96 obj), t)"
    using l by (simp add: wifi_data_get_ap_credential_def o1 wt_get [OF N] w healthy_close [OF h] t_def sizeof_credential_def type_of_size_def)
  then show ?thesis using flash_ok_same [OF a] s by (auto simp: t_def o1_def)
qed

section \<open>The static configuration\<close>

lemma length_put_at [simp]: "i + length bs \<le> length xs \<Longrightarrow> length (put_at i bs xs) = length xs"
  by (simp add: put_at_def)

lemma nth_put_at: "i + length bs \<le> length xs \<Longrightarrow> put_at i bs xs ! n = (if i \<le> n \<and> n < i + length bs then bs ! (n - i) else xs ! n)"
  by (auto simp: put_at_def nth_append)

lemma info_addr_put:
  assumes "length i = 24" "k < 5" "j < 5"
  shows "info_addr k (put_at (4 * j) (le32_bytes a) i) = (if k = j then a else info_addr k i)"
proof (cases "k = j")
  case True
  have "le32_bytes a ! 0 = ucast a" "le32_bytes a ! 1 = ucast (drop_bit 8 a)" "le32_bytes a ! 2 = ucast (drop_bit 16 a)"
    "le32_bytes a ! 3 = ucast (drop_bit 24 a)" by (simp_all add: le32_bytes_def numeral_2_eq_2 numeral_3_eq_3)
  then show ?thesis using assms True by (simp add: info_addr_def nth_put_at le32_roundtrip)
next
  case False
  then consider "4 * k + 3 < 4 * j" | "4 * j + 4 \<le> 4 * k" by linarith
  then show ?thesis using assms False by cases (simp_all add: info_addr_def nth_put_at)
qed

text \<open>What a field of the request makes of an address.\<close>

definition conf_addr :: "(u8 list \<Rightarrow> u32 option) \<Rightarrow> (string \<times> json) list \<Rightarrow> u8 list \<Rightarrow> string \<times> nat \<Rightarrow> u32" where
  "conf_addr aton fs i f = (case Option.bind (text_in True fs (fst f)) aton of Some a \<Rightarrow> a | None \<Rightarrow> info_addr (snd f) i)"

lemma deser_fields:
  assumes J: "json_laws J \<beta>" "\<beta> req = J_Obj fs"
  shows "distinct (map snd xs) \<Longrightarrow> \<forall>f \<in> set xs. snd f < 5 \<Longrightarrow> length i = 24 \<Longrightarrow>
    length (fold (deser_addr J aton req) xs i) = 24 \<and>
    (\<forall>n \<ge> 20. fold (deser_addr J aton req) xs i ! n = i ! n) \<and>
    (\<forall>k < 5. k \<notin> snd ` set xs \<longrightarrow> info_addr k (fold (deser_addr J aton req) xs i) = info_addr k i) \<and>
    (\<forall>f \<in> set xs. info_addr (snd f) (fold (deser_addr J aton req) xs i) = conf_addr aton fs i f)"
proof (induction xs arbitrary: i)
  case (Cons x xs)
  define i' where "i' = deser_addr J aton req x i"
  have t: "get_text J True req (fst x) = text_in True fs (fst x)" using item_text [OF J] by (simp add: get_text_def)
  have i': "length i' = 24" "\<forall>n \<ge> 20. i' ! n = i ! n"
    "k < 5 \<Longrightarrow> info_addr k i' = (if k = snd x then conf_addr aton fs i x else info_addr k i)" for k
    using Cons.prems info_addr_put [of i k "snd x"]
    by (auto simp: i'_def deser_addr_def t conf_addr_def nth_put_at split: option.split)
  have "conf_addr aton fs i' f = conf_addr aton fs i f" if "f \<in> set xs" for f
  proof -
    have "snd x \<notin> snd ` set xs" using Cons.prems(1) by simp
    then have "snd f \<noteq> snd x" using imageI [OF that, of snd] by metis
    moreover have "snd f < 5" using that Cons.prems(2) by simp
    ultimately show ?thesis using i'(3) [of "snd f"] by (simp add: conf_addr_def split: option.split)
  qed
  then show ?case using Cons.IH [of i'] Cons.prems i' by (auto simp: i'_def [symmetric])
qed simp

text \<open>The flags as they are kept, and as they read back: what is not 0 or 1 is cleared.\<close>

definition flag_of :: "int \<Rightarrow> u8" where
  "flag_of v = (let b = word_of_int v in if 1 < b then 0 else b)"

lemma deser_static:
  assumes J: "json_laws J \<beta>" "\<beta> req = J_Obj fs" and i: "length i = 24"
    and f: "number_in True fs ''static_ip_en'' = Some a" "number_in True fs ''static_dns_en'' = Some b"
  shows "\<exists>i'. wifi_api_json_deser_static_conf J aton req i = Some i' \<and> length i' = 24 \<and>
    static_ip_en (clear_big_flags i') = flag_of a \<and> static_dns_en (clear_big_flags i') = flag_of b \<and>
    (\<forall>f \<in> set static_fields. info_addr (snd f) (clear_big_flags i') = conf_addr aton fs i f)"
proof -
  let ?i = "(i[21 := word_of_int b])[20 := word_of_int a]"
  define i' where "i' = fold (deser_addr J aton req) static_fields ?i"
  have "wifi_api_json_deser_static_conf J aton req i = Some i'"
    using item_number [OF J] f by (simp add: wifi_api_json_deser_static_conf_def get_number_def i'_def)
  moreover have d: "length i' = 24" "\<forall>n \<ge> 20. i' ! n = ?i ! n"
    "\<forall>f \<in> set static_fields. info_addr (snd f) i' = conf_addr aton fs ?i f"
    using deser_fields [OF J, of static_fields ?i aton] i by (simp_all add: i'_def static_fields_def)
  moreover have same: "info_addr k (x[20 := v]) = info_addr k x" "info_addr k (x[21 := v]) = info_addr k x" if "k < 5" for k x v
    using that by (simp_all add: info_addr_def nth_list_update)
  have clr: "info_addr k (clear_big_flags i') = info_addr k i'" if "k < 5" for k
    using same [OF that] by (simp add: clear_big_flags_def Let_def)
  have "conf_addr aton fs ?i f = conf_addr aton fs i f" if "f \<in> set static_fields" for f
  proof -
    have "snd f < 5" using that by (auto simp: static_fields_def)
    then show ?thesis using same by (simp add: conf_addr_def split: option.split)
  qed
  then have "\<forall>f \<in> set static_fields. info_addr (snd f) (clear_big_flags i') = conf_addr aton fs i f"
    using d(3) clr by (simp add: static_fields_def)
  moreover have "i' ! 20 = word_of_int a" "i' ! 21 = word_of_int b" using d(2) i by simp_all
  then have "static_ip_en (clear_big_flags i') = flag_of a" "static_dns_en (clear_big_flags i') = flag_of b"
    using d(1) by (auto simp: clear_big_flags_def static_ip_en_def static_dns_en_def flag_of_def Let_def nth_list_update)
  ultimately show ?thesis by blast
qed

lemma static_reply:
  assumes "json_laws J \<beta>"
  shows "\<beta> (wifi_api_json_ser_static_info J ntoa i) = J_Obj
    ([(''cmd'', J_Num 9), (''module'', J_Num 1), (''static_ip_en'', J_Num (uint (static_ip_en i))),
      (''static_dns_en'', J_Num (uint (static_dns_en i)))] @
     map (\<lambda>f. (fst f, J_Text (ntoa (info_addr (snd f) i)))) static_fields)"
  by (simp add: wifi_api_json_ser_static_info_def wifi_api_json_set_header_def json_build [OF assms] Let_def static_fields_def
      WIFI_API_JSON_STA_GET_STATIC_INFO_def WIFI_MODULE_ID_def)


text \<open>cJSON and lwIP for the examples: a document is its value, an address its four bytes.\<close>

definition value_json :: "json json_lib" where
  "value_json = \<lparr>j_object = J_Obj [],
     j_number = \<lambda>j name v. (case j of J_Obj fs \<Rightarrow> J_Obj (fs @ [(name, J_Num v)]) | _ \<Rightarrow> j),
     j_string = \<lambda>j name t. (case j of J_Obj fs \<Rightarrow> J_Obj (fs @ [(name, J_Text t)]) | _ \<Rightarrow> j),
     j_array = \<lambda>j name js. (case j of J_Obj fs \<Rightarrow> J_Obj (fs @ [(name, J_Arr js)]) | _ \<Rightarrow> j),
     j_copy = \<lambda>j. j,
     j_item = \<lambda>cs j name. (case j of J_Obj fs \<Rightarrow> item_of cs fs name | _ \<Rightarrow> None),
     j_valueint = \<lambda>j. (case j of J_Num v \<Rightarrow> Some v | _ \<Rightarrow> None),
     j_valuestring = \<lambda>j. (case j of J_Text t \<Rightarrow> Some t | _ \<Rightarrow> None)\<rparr>"

lemma value_json: "json_laws value_json (\<lambda>j. j)"
  by (simp add: json_laws_def value_json_def option.map_ident)

fun sorted_in :: "('a \<Rightarrow> 'a \<Rightarrow> int) \<Rightarrow> 'a \<Rightarrow> 'a list \<Rightarrow> 'a list" where
  "sorted_in cmp x [] = [x]"
| "sorted_in cmp x (y # ys) = (if cmp x y \<le> 0 then x # y # ys else y # sorted_in cmp x ys)"

definition example_libs :: "(json, nvs_map) api_libs" where
  "example_libs = \<lparr>l_json = value_json, l_ntoa = le32_bytes,
     l_aton = \<lambda>t. (case t of [a, b, c, d] \<Rightarrow> Some (le32 a b c d) | _ \<Rightarrow> None),
     l_qsort = \<lambda>cmp xs. foldr (sorted_in cmp) xs [], l_nvs = map_nvs ESP_ERR_NVS_TYPE_MISMATCH,
     l_ticks = \<lambda>n. n div 10, l_ms = \<lambda>n. n * 10\<rparr>"

definition example_api_env :: api_env where
  "example_api_env = \<lparr>e_station = \<lparr>r_ssid = replicate 33 0, r_bssid = replicate 6 0, r_rssi = 0\<rparr>, e_ip = 0, e_gw = 0, e_netmask = 0,
     e_sta_dns = (None, None), e_ap_dns = (None, None), e_ap_mac = replicate 6 0, e_wifi_mode = Some WIFI_MODE_APSTA, e_err = 0,
     e_records = [], e_stack = replicate 97 0, e_scan_junk = [], e_version = [], e_upd_date = []\<rparr>"

definition example_wapi :: "nvs_map wapi" where
  "example_wapi = \<lparr>wa_flash = new_flash, wa_manager = wifi_manager_init (\<lambda>n. n) None False, wa_net = [], wa_reboot = False\<rparr>"

lemma example_nvs: "nvs_store (l_nvs example_libs) (\<lambda>m. m) ESP_ERR_NVS_TYPE_MISMATCH" "nvs_healthy (l_nvs example_libs)"
  by (simp add: example_libs_def map_nvs ESP_ERR_NVS_TYPE_MISMATCH_def) (simp add: nvs_healthy_def example_libs_def map_nvs_def)

lemma example_json: "json_laws (l_json example_libs) (\<lambda>j. j)"
  by (simp add: example_libs_def value_json)

lemma example_flash: "flash_ok (\<lambda>m. m) (wa_flash example_wapi)"
  by (simp add: example_wapi_def new_flash_ok)

text \<open>The address of the probe is set to 192.168.1.7 and the network mask is not given.\<close>

definition static_request :: "(string \<times> json) list" where
  "static_request = [(''cmd'', J_Num 10), (''module'', J_Num 1), (''static_ip_en'', J_Num 1), (''static_dns_en'', J_Num 3),
     (''ip'', J_Text [192, 168, 1, 7])]"


section \<open>The credential of the access point\<close>

lemma takeWhile_stops: "x \<in> set xs \<Longrightarrow> \<not> P x \<Longrightarrow> takeWhile P (xs @ ys) = takeWhile P xs"
  by (induction xs) auto

lemma takeWhile_all: "0 \<notin> set xs \<Longrightarrow> takeWhile (\<lambda>b. b \<noteq> (0 :: u8)) (xs @ ys) = xs @ takeWhile (\<lambda>b. b \<noteq> 0) ys"
  by (induction xs) auto

lemma strncpy_string: "0 \<notin> set str \<Longrightarrow> strncpy n str = take n str @ replicate (n - length str) 0"
proof -
  assume "0 \<notin> set str"
  then have "0 \<notin> set (take n str)" by (auto dest: in_set_takeD)
  then have "takeWhile (\<lambda>b. b \<noteq> 0) (take n str) = take n str" using takeWhile_all [of "take n str" "[]"] by simp
  then show ?thesis by (simp only: strncpy_def Let_def) (simp add: min_def)
qed

lemma length_strncpy [simp]: "length (strncpy n bs) = n"
  using length_takeWhile_le [of "\<lambda>b. b \<noteq> 0" "take n bs"] by (simp add: strncpy_def Let_def)

text \<open>Copying a string that ends within the first \<open>n\<close> bytes.\<close>

lemma strncpy_terminated: "0 \<notin> set str \<Longrightarrow> length str < n \<Longrightarrow> strncpy n (str @ 0 # rest) = str @ replicate (n - length str) 0"
  using takeWhile_all [of str "take (n - length str) (0 # rest)"] by (cases "n - length str") (simp_all add: strncpy_def)

lemma c_str_zero: "0 \<notin> set str \<Longrightarrow> c_str (str @ 0 # rest) = Some str"
  using takeWhile_all [of str "0 # rest"] by (simp add: c_str_def)

lemma c_str_strncpy: "0 \<notin> set str \<Longrightarrow> length str < n \<Longrightarrow> c_str (strncpy n (str @ 0 # rest)) = Some str"
  using c_str_zero [of str "replicate (n - length str - 1) 0"] by (cases "n - length str") (simp_all add: strncpy_terminated)

text \<open>The name and the password that are kept.\<close>

definition kept_ssid :: "u8 list \<Rightarrow> u8 list" where "kept_ssid ssid = take 31 ssid"
definition kept_password :: "u8 list \<Rightarrow> u8 list" where "kept_password password = take 63 password"

text \<open>The credential on the stack; \<open>b\<close> is the last byte of the array, which nobody assigns.\<close>

lemma credential_bytes:
  assumes J: "json_laws J \<beta>" "\<beta> req = J_Obj fs" and len: "97 \<le> length st" and z: "0 \<notin> set ssid" "0 \<notin> set pw"
    and f: "text_in False fs ''ssid'' = Some ssid" "text_in False fs ''password'' = Some pw"
  shows "wifi_api_json_get_credential J req st = Some
    (kept_ssid ssid @ replicate (32 - length (kept_ssid ssid)) 0 @ kept_password pw @ replicate (63 - length pw) 0 @ [st ! 95, 0] @ drop 97 st)"
proof -
  let ?a = "strncpy 31 ssid" and ?b = "strncpy 63 pw"
  have st: "drop 31 st = st ! 31 # drop 32 st" "drop 95 st = st ! 95 # st ! 96 # drop 97 st"
    using len Cons_nth_drop_Suc [of 31 st] Cons_nth_drop_Suc [of 95 st] Cons_nth_drop_Suc [of 96 st] by simp_all
  have "put_at 0 ?a st = ?a @ st ! 31 # drop 32 st" by (simp add: put_at_def st(1))
  then have "put_at 32 ?b (put_at 0 ?a st) = ?a @ st ! 31 # ?b @ st ! 95 # st ! 96 # drop 97 st"
    by (simp add: put_at_def st(2))
  then have "(put_at 32 ?b (put_at 0 ?a st))[31 := 0, 96 := 0] = ?a @ 0 # ?b @ st ! 95 # 0 # drop 97 st"
    by (simp add: list_update_append)
  moreover have "?a @ [0] = kept_ssid ssid @ replicate (32 - length (kept_ssid ssid)) 0"
  proof (cases "31 \<le> length ssid")
    case False
    then have "32 - length ssid = Suc (31 - length ssid)" by simp
    then have "replicate (31 - length ssid) 0 @ [0] = replicate (32 - length ssid) (0 :: u8)" by (simp add: replicate_append_same)
    then show ?thesis using False by (simp add: strncpy_string [OF z(1)] kept_ssid_def)
  qed (simp add: strncpy_string [OF z(1)] kept_ssid_def)
  ultimately show ?thesis
    using item_text [OF J] f by (simp add: wifi_api_json_get_credential_def get_text_def strncpy_string [OF z(2)] kept_password_def)
qed

text \<open>Such a credential is read back: \<open>c\<close> are its 96 bytes.\<close>

definition credential_of :: "u8 list \<Rightarrow> u8 list \<Rightarrow> u8 \<Rightarrow> u8 list" where
  "credential_of ssid pw b = kept_ssid ssid @ replicate (32 - length (kept_ssid ssid)) 0 @ kept_password pw @ replicate (63 - length pw) 0 @ [b]"

lemma length_credential [simp]: "length (credential_of ssid pw b) = 96"
  by (simp add: credential_of_def kept_ssid_def kept_password_def)

lemma kept_free: "0 \<notin> set ssid \<Longrightarrow> 0 \<notin> set (kept_ssid ssid)" "0 \<notin> set pw \<Longrightarrow> 0 \<notin> set (kept_password pw)"
  by (auto simp: kept_ssid_def kept_password_def dest: in_set_takeD)

text \<open>The name ends in its array, the password in its own when the last byte is 0 or not reached.\<close>

lemma credential_parts:
  "\<exists>r. credential_of ssid pw b = kept_ssid ssid @ 0 # r"
  "length pw < 63 \<or> b = 0 \<Longrightarrow> \<exists>r. drop 32 (credential_of ssid pw b) = kept_password pw @ 0 # r"
proof -
  have "\<exists>n. 32 - length (kept_ssid ssid) = Suc n" by (cases "32 - length (kept_ssid ssid)") (simp_all add: kept_ssid_def)
  then show "\<exists>r. credential_of ssid pw b = kept_ssid ssid @ 0 # r" by (auto simp: credential_of_def)
  have d: "drop 32 (credential_of ssid pw b) = kept_password pw @ replicate (63 - length pw) 0 @ [b]"
    by (simp add: credential_of_def kept_ssid_def)
  assume "length pw < 63 \<or> b = 0"
  then show "\<exists>r. drop 32 (credential_of ssid pw b) = kept_password pw @ 0 # r"
    unfolding d by (cases "63 - length pw") auto
qed

lemma read_credential:
  assumes "0 \<notin> set ssid" "0 \<notin> set pw" "length pw < 63 \<or> b = 0"
  shows "c_str (strncpy 33 (credential_of ssid pw b @ rest)) = Some (kept_ssid ssid)"
    and "c_str (strncpy 65 (drop 32 (credential_of ssid pw b) @ rest)) = Some (kept_password pw)"
    and "c_str (drop 32 (credential_of ssid pw b) @ rest) = Some (kept_password pw)"
    and "strncpy 32 (credential_of ssid pw b @ rest) = strncpy 32 (kept_ssid ssid)"
    and "strncpy 64 (drop 32 (credential_of ssid pw b) @ rest) = strncpy 64 (kept_password pw)"
proof -
  obtain r q where r: "credential_of ssid pw b = kept_ssid ssid @ 0 # r" and q: "drop 32 (credential_of ssid pw b) = kept_password pw @ 0 # q"
    using credential_parts(2) [OF assms(3), of ssid] credential_parts(1) [of ssid pw b] by metis
  have l: "length (kept_ssid ssid) < 32" "length (kept_password pw) < 64" by (auto simp: kept_ssid_def kept_password_def)
  note z = kept_free(1) [OF assms(1)] kept_free(2) [OF assms(2)]
  show "c_str (strncpy 33 (credential_of ssid pw b @ rest)) = Some (kept_ssid ssid)"
    "strncpy 32 (credential_of ssid pw b @ rest) = strncpy 32 (kept_ssid ssid)"
    using c_str_strncpy [OF z(1), of 33 "r @ rest"] strncpy_terminated [OF z(1), of 32 "r @ rest"] strncpy_string [OF z(1), of 32] l
    by (simp_all add: r)
  show "c_str (strncpy 65 (drop 32 (credential_of ssid pw b) @ rest)) = Some (kept_password pw)"
    "c_str (drop 32 (credential_of ssid pw b) @ rest) = Some (kept_password pw)"
    "strncpy 64 (drop 32 (credential_of ssid pw b) @ rest) = strncpy 64 (kept_password pw)"
    using c_str_strncpy [OF z(2), of 65 "q @ rest"] c_str_zero [OF z(2), of "q @ rest"]
      strncpy_terminated [OF z(2), of 64 "q @ rest"] strncpy_string [OF z(2), of 64] l
    by (simp_all add: q)
qed

lemma ap_info_reply:
  assumes J: "json_laws J \<beta>" and "c_str (ai_ssid info) = Some ssid" "c_str (ai_password info) = Some pw" "pw \<noteq> []"
  shows "\<exists>out hs. wifi_api_json_serialize_ap_info J ntoa info cmd = Some out \<and> \<beta> out = J_Obj hs \<and>
    text_in True hs ''ssid'' = Some ssid \<and> text_in True hs ''password'' = Some pw"
  using assms(2-4) by (simp add: wifi_api_json_serialize_ap_info_def wifi_api_json_set_header_def json_build [OF J] Let_def
      text_in_def item_of_def same_name_def)

text \<open>C25: A request that sets the name and the password of the access point is refused with a message when
  the password has fewer than eight characters, and then changes nothing.  Otherwise it is stored,
  and from then on, also after a restart, a request for the access point is answered with the first
  31 bytes of the name and the first 63 of the password, and the driver starts the access point with
  them.  With 63 characters or more this needs the byte behind the password, which the code does not
  assign, to be zero.\<close>

theorem ap_credential_survives:
  assumes J: "json_laws (l_json L) \<beta>" and N: "nvs_store (l_nvs L) \<alpha> mm" "nvs_healthy (l_nvs L)" and s: "flash_ok \<alpha> (wa_flash s)"
    and req: "\<beta> req = J_Obj fs" "asks_wifi WIFI_API_JSON_SET_AP_CRED fs"
      "text_in False fs ''ssid'' = Some ssid" "text_in False fs ''password'' = Some pw"
    and z: "0 \<notin> set ssid" "0 \<notin> set pw" and st: "97 \<le> length (e_stack E)" and last: "length pw < 63 \<or> e_stack E ! 95 = 0"
    and later: "\<beta> get = J_Obj gs" "asks_wifi WIFI_API_JSON_AP_GET_INFO gs" and ap: "e_wifi_mode E' = Some m" "m AND WIFI_MODE_AP \<noteq> 0"
  shows "if length pw < 8 then
      \<exists>out. api_request L E (Some req) s = Some (Answer API_JSON_OK (Some out), s) \<and>
        \<beta> out = J_Obj (fs @ [(''err'', J_Text (ascii ''password < 8''))])
    else \<exists>s1 s2 out hs f. api_request L E (Some req) s = Some (Answer API_JSON_OK None, s1) \<and>
        api_request L E' (Some get) s1 = Some (Answer API_JSON_OK (Some out), s2) \<and> \<beta> out = J_Obj hs \<and>
        text_in True hs ''ssid'' = Some (take 31 ssid) \<and> text_in True hs ''password'' = Some (take 63 pw) \<and>
        init_ap_credential L E' (wa_flash s1) = Some ([Ap_config (strncpy 32 (take 31 ssid)) (strncpy 64 (take 63 pw))], f) \<and>
        handles (wa_flash s2) = handles (wa_flash s) \<and> handles f = handles (wa_flash s)"
proof -
  let ?c = "credential_of ssid pw (e_stack E ! 95)"
  have c: "wifi_api_json_get_credential (l_json L) req (e_stack E) = Some (?c @ 0 # drop 97 (e_stack E))"
    using credential_bytes [OF J req(1) st z req(3,4)] by (simp add: credential_of_def)
  note rd = read_credential [OF z last]
  have r: "api_request L E (Some req) s = wifi_api_json_set_ap_cred L E req s"
    by (simp add: api_request_wifi [OF J req(1,2)] wifi_on_json_req_def cmd_numbers)
  show ?thesis
  proof (cases "length pw < 8")
    case True
    then have "length (kept_password pw) < 8" by (simp add: kept_password_def)
    then have "api_request L E (Some req) s = Some (Answer API_JSON_OK (Some (wifi_api_json_create_err_rsp (l_json L) req ''password < 8'')), s)"
      by (simp add: r wifi_api_json_set_ap_cred_def c rd(3))
    then show ?thesis using True json_build(4) [OF J] json_build(2) [OF J, of req] req(1)
      by (simp add: wifi_api_json_create_err_rsp_def)
  next
    case False
    obtain f1 where f1: "wifi_data_save_ap_credential (l_nvs L) ?c (wa_flash s) = Some (0, f1)" "flash_ok \<alpha> f1"
      "handles f1 = handles (wa_flash s)" "held_settings \<alpha> f1 Ap = Some ?c"
      using healthy_save [OF N s, of Ap ?c] by (auto simp: save_setting_def setting_size_def sizeof_credential_def)
    define s1 where "s1 = net_calls (snd (wifi_manager_set_ap_credential (e_wifi_mode E) (?c @ 0 # drop 97 (e_stack E)))) f1 s"
    have "api_request L E (Some req) s = Some (Answer API_JSON_OK None, s1)"
      using False by (simp add: r wifi_api_json_set_ap_cred_def c rd(3) kept_password_def f1(1) sizeof_credential_def s1_def)
    moreover have w: "wa_flash s1 = f1" by (simp add: s1_def net_calls_def)
    moreover obtain f2 where f2: "wifi_data_get_ap_credential (l_nvs L) (e_stack E') f1 = Some ((0, ?c @ drop 96 (e_stack E')), f2)"
      "handles f2 = handles f1" using healthy_get_ap [OF N f1(2,4), of "e_stack E'"] by blast
    moreover have "init_ap_credential L E' f1 = Some ([Ap_config (strncpy 32 (take 31 ssid)) (strncpy 64 (take 63 pw))], f2)"
      using False by (simp add: init_ap_credential_def f2(1) wifi_manager_set_ap_credential_def ap rd, simp add: kept_password_def kept_ssid_def min_def)
    moreover define info where "info = fst (the (wifi_api_ap_get_info (l_nvs L) E' f1))"
    have i: "wifi_api_ap_get_info (l_nvs L) E' f1 = Some (info, f2)" "c_str (ai_ssid info) = Some (kept_ssid ssid)"
      "c_str (ai_password info) = Some (kept_password pw)"
      by (simp_all add: info_def wifi_api_ap_get_info_def f2(1) rd)
    have k: "kept_password pw \<noteq> []" using False by (auto simp: kept_password_def)
    obtain out hs where out: "wifi_api_json_serialize_ap_info (l_json L) (l_ntoa L) info WIFI_API_JSON_AP_GET_INFO = Some out"
      "\<beta> out = J_Obj hs" "text_in True hs ''ssid'' = Some (kept_ssid ssid)" "text_in True hs ''password'' = Some (kept_password pw)"
      using ap_info_reply [OF J i(2,3) k] by blast
    have "api_request L E' (Some get) s1 = Some (Answer API_JSON_OK (Some out), net_calls [] f2 s1)"
      by (simp add: api_request_wifi [OF J later] wifi_on_json_req_def cmd_numbers wifi_api_json_ap_get_info_def w i(1)
          out(1) [unfolded WIFI_API_JSON_AP_GET_INFO_def] answer_with_def)
    ultimately show ?thesis
      using False out f1(3) by (auto simp: kept_ssid_def kept_password_def net_calls_def)
  qed
qed

text \<open>A new name and a password of eight characters.\<close>

definition cred_request :: "(string \<times> json) list" where
  "cred_request = [(''cmd'', J_Num 8), (''module'', J_Num 1), (''ssid'', J_Text (ascii ''probe'')), (''password'', J_Text (ascii ''verified''))]"

theorem ap_credential_survives_witness:
  "\<exists>s1 s2 hs. api_request example_libs example_api_env (Some (J_Obj cred_request)) example_wapi = Some (Answer API_JSON_OK None, s1) \<and>
    api_request example_libs example_api_env (Some (J_Obj [(''cmd'', J_Num 5), (''module'', J_Num 1)])) s1 =
      Some (Answer API_JSON_OK (Some (J_Obj hs)), s2) \<and>
    text_in True hs ''ssid'' = Some (ascii ''probe'') \<and> text_in True hs ''password'' = Some (ascii ''verified'')"
proof -
  have f: "asks_wifi WIFI_API_JSON_SET_AP_CRED cred_request" "text_in False cred_request ''ssid'' = Some (ascii ''probe'')"
    "text_in False cred_request ''password'' = Some (ascii ''verified'')"
    "asks_wifi WIFI_API_JSON_AP_GET_INFO [(''cmd'', J_Num 5), (''module'', J_Num 1)]"
    by (simp_all add: asks_wifi_def cred_request_def number_in_def text_in_def item_of_def same_name_def cmd_numbers fold_case_def)
  have z: "0 \<notin> set (ascii ''probe'')" "0 \<notin> set (ascii ''verified'')" by (simp_all add: ascii_def)
  have e: "97 \<le> length (e_stack example_api_env)" "length (ascii ''verified'') < 63 \<or> e_stack example_api_env ! 95 = 0"
    "e_wifi_mode example_api_env = Some WIFI_MODE_APSTA" "WIFI_MODE_APSTA AND WIFI_MODE_AP \<noteq> 0"
    by (simp_all add: example_api_env_def WIFI_MODE_APSTA_def WIFI_MODE_AP_def)
  have l: "\<not> length (ascii ''verified'') < 8" "take 31 (ascii ''probe'') = ascii ''probe''" "take 63 (ascii ''verified'') = ascii ''verified''"
    by simp_all
  show ?thesis
    using ap_credential_survives [where \<beta> = "\<lambda>j. j" and \<alpha> = "\<lambda>m. m" and L = example_libs and s = example_wapi and
        req = "J_Obj cred_request" and get = "J_Obj [(''cmd'', J_Num 5), (''module'', J_Num 1)]" and E = example_api_env and
        E' = example_api_env, OF example_json example_nvs example_flash refl f(1-3) z e(1,2) refl f(4) e(3,4)]
    unfolding if_not_P [OF l(1)] l(2,3) by blast
qed

section \<open>Scan results\<close>

text \<open>\<open>qsort\<close> with a comparison that is total and transitive sorts, in some order of equal elements.\<close>

definition qsort_sorts :: "(('a \<Rightarrow> 'a \<Rightarrow> int) \<Rightarrow> 'a list \<Rightarrow> 'a list) \<Rightarrow> bool" where
  "qsort_sorts qs \<longleftrightarrow> (\<forall>cmp xs. (\<forall>x y. cmp x y \<le> 0 \<or> cmp y x \<le> 0) \<and> (\<forall>x y z. cmp x y \<le> 0 \<longrightarrow> cmp y z \<le> 0 \<longrightarrow> cmp x z \<le> 0) \<longrightarrow>
     mset (qs cmp xs) = mset xs \<and> sorted_wrt (\<lambda>x y. cmp x y \<le> 0) (qs cmp xs))"

lemma mset_sorted_in [simp]: "mset (sorted_in cmp x ys) = add_mset x (mset ys)"
  by (induction ys) auto

lemma set_sorted_in [simp]: "set (sorted_in cmp x ys) = insert x (set ys)"
  by (induction ys) auto

lemma sorted_sorted_in:
  assumes "\<And>x y. cmp x y \<le> 0 \<or> cmp y x \<le> (0 :: int)" "\<And>x y z. cmp x y \<le> 0 \<Longrightarrow> cmp y z \<le> 0 \<Longrightarrow> cmp x z \<le> 0"
  shows "sorted_wrt (\<lambda>x y. cmp x y \<le> 0) ys \<Longrightarrow> sorted_wrt (\<lambda>x y. cmp x y \<le> 0) (sorted_in cmp x ys)"
proof (induction ys)
  case (Cons y ys)
  then show ?case using assms(1) [of x y] assms(2) [of x y] by auto
qed simp

lemma insertion_sorts: "qsort_sorts (\<lambda>cmp xs. foldr (sorted_in cmp) xs [])"
proof -
  have "mset (foldr (sorted_in cmp) xs []) = mset xs \<and> sorted_wrt (\<lambda>x y. cmp x y \<le> 0) (foldr (sorted_in cmp) xs [])"
    if "\<And>x y. cmp x y \<le> 0 \<or> cmp y x \<le> 0" "\<And>x y z. cmp x y \<le> 0 \<Longrightarrow> cmp y z \<le> 0 \<Longrightarrow> cmp x z \<le> (0 :: int)"
    for cmp :: "'a \<Rightarrow> 'a \<Rightarrow> int" and xs
    by (induction xs) (simp_all add: sorted_sorted_in [of cmp] that)
  then show ?thesis unfolding qsort_sorts_def by blast
qed

lemma qsort_by_rssi:
  assumes "qsort_sorts qs"
  shows "mset (qs rssi_comp xs) = mset xs" "sorted_wrt (\<lambda>a b. rssi_comp a b \<le> 0) (qs rssi_comp xs)"
proof -
  have "(\<forall>x y. rssi_comp x y \<le> 0 \<or> rssi_comp y x \<le> 0) \<and> (\<forall>x y z. rssi_comp x y \<le> 0 \<longrightarrow> rssi_comp y z \<le> 0 \<longrightarrow> rssi_comp x z \<le> 0)"
    by (auto simp: rssi_comp_def)
  then show "mset (qs rssi_comp xs) = mset xs" "sorted_wrt (\<lambda>a b. rssi_comp a b \<le> 0) (qs rssi_comp xs)"
    using assms unfolding qsort_sorts_def by blast+
qed

text \<open>What the reply says of an access point: strength, name and hardware address.\<close>

definition seen :: "ap_record \<Rightarrow> int \<times> u8 list \<times> u8 list" where
  "seen r = (r_rssi r, takeWhile (\<lambda>b. b \<noteq> 0) (r_ssid r), strncpy 6 (r_bssid r))"

definition entry_json :: "int \<times> u8 list \<times> u8 list \<Rightarrow> json" where
  "entry_json = (\<lambda>(rssi, ssid, mac). J_Obj [(''rssi'', J_Num rssi), (''ssid'', J_Text ssid), (''mac'', J_Text (mac_text mac))])"

definition entry_of :: "ap_scan_info \<Rightarrow> int \<times> u8 list \<times> u8 list" where
  "entry_of a = (as_rssi a, takeWhile (\<lambda>b. b \<noteq> 0) (as_ssid a), as_mac a)"

lemma scan_entry_seen:
  assumes "length (r_ssid r) = 33" "0 \<in> set (r_ssid r)"
  shows "entry_of (scan_entry r) = seen r" "0 \<in> set (as_ssid (scan_entry r))"
proof -
  obtain t q where t: "r_ssid r = t @ 0 # q" "0 \<notin> set t" using split_list_first [OF assms(2)] by blast
  then have l: "length t < 33" using assms(1) by simp
  have "strncpy 33 (r_ssid r) = t @ 0 # replicate (32 - length t) 0"
    using strncpy_terminated [OF t(2) l, of q] l by (simp add: t(1) Suc_diff_le [of "length t" 32, simplified] flip: replicate_Suc)
  then show "entry_of (scan_entry r) = seen r" "0 \<in> set (as_ssid (scan_entry r))"
    using takeWhile_all [OF t(2)] by (simp_all add: scan_entry_def entry_of_def seen_def t(1))
qed

lemma those_all: "\<forall>x \<in> set xs. f x = Some (g x) \<Longrightarrow> those (map f xs) = Some (map g xs)"
  by (induction xs) simp_all

lemma serialize_entries:
  assumes J: "json_laws J \<beta>" and "\<forall>a \<in> set aps. 0 \<in> set (as_ssid a)"
  shows "\<exists>items. those (map (serialize_scan_entry J) aps) = Some items \<and> map \<beta> items = map (entry_json \<circ> entry_of) aps"
  using assms(2)
proof (induction aps)
  case (Cons a aps)
  then obtain items where "those (map (serialize_scan_entry J) aps) = Some items" "map \<beta> items = map (entry_json \<circ> entry_of) aps" by auto
  moreover obtain j where "serialize_scan_entry J a = Some j" "\<beta> j = entry_json (entry_of a)"
    using Cons.prems json_build [OF J] by (auto simp: serialize_scan_entry_def c_str_def entry_json_def entry_of_def)
  ultimately show ?case by simp
qed simp


text \<open>Three access points, the second with a zero in its hardware address.\<close>

definition example_scan :: api_env where
  "example_scan = example_api_env\<lparr>e_records :=
     [\<lparr>r_ssid = [0x61] @ replicate 32 0, r_bssid = [1, 2, 3, 4, 5, 6], r_rssi = - 70\<rparr>,
      \<lparr>r_ssid = [0x62] @ replicate 32 0, r_bssid = [1, 2, 0, 4, 5, 6], r_rssi = - 40\<rparr>,
      \<lparr>r_ssid = [0x63] @ replicate 32 0, r_bssid = [1, 2, 3, 4, 5, 7], r_rssi = - 60\<rparr>]\<rparr>"


end
