(* ===== verification/Spec2Isabelle.thy ===== *)
theory Spec2Isabelle
  imports Gpio Pipeline Proxy Upgrade UartBridge WebApi JsonApi
begin

text \<open>
  A verification development for the firmware of a wireless debug probe on ESP32 chips
  (wireless-esp32-tools).  A debugger on a PC reaches the probe over Wi-Fi; the probe runs the
  CMSIS-DAP commands it is sent and drives a target's SWD or JTAG port.

  \<^bold>\<open>The program and its model.\<close>  Every theory opens with its own description.  From the wire up:

  \<^item> \<open>Prelude\<close>: machine integers, byte memories, bit sequences, parity.
  \<^item> \<open>Wire\<close>: the probe's configuration record \<open>DAP_Data\<close> (DAP.h), pin functions, busy-wait
    delays (DAP\_config.h).  A pin write is an event of a trace; a pin read asks the parameter \<open>hw\<close>,
    a function of the trace so far.
  \<^item> \<open>Swd\<close>: SW\_DP.c bit by bit.  \<open>Spi\<close>: spi\_op.c and dap\_utility, the same protocol through
    the SPI peripheral, and the choice between the engines.  \<open>Jtag\<close>: JTAG\_DP.c.
  \<^item> \<open>DapTransfer\<close>: Transfer and TransferBlock of DAP.c for both ports, over the interface
    \<open>transport\<close> (one packet transfer), interpreted for \<open>SWD_Transfer\<close> and \<open>JTAG_Transfer\<close>.
    \<open>Pipeline\<close>: posted reads come back in request order.
  \<^item> \<open>DapCmd\<close>: all commands of DAP.c and DAP\_vendor.c, the dispatcher \<open>DAP_ProcessCommand\<close>, batches
    (\<open>DAP_ExecuteCommand\<close>) and the set-up.  \<open>Processor\<close>: what the servers rely on, the interface
    \<open>command_processor\<close>, interpreted for both entry points.
  \<^item> \<open>Gpio\<close>: below \<open>Wire\<close>, the register accesses behind its events on the three chips (gpio\_op.h,
    spi\_switch.c, the port and pin functions of DAP\_config.h).
  \<^item> \<open>Socket\<close>: \<open>recv\<close> on a segmented byte stream, the read loops, C structs in byte buffers.
  \<^item> \<open>UsbDesc\<close>, \<open>Usbip\<close>: the emulated USB device (usb\_descriptor.c, MSOS20\_descriptor.c,
    usb\_handle.c) and the USB/IP messages of usbip\_server.c.
  \<^item> \<open>DapTask\<close>: the URB loop of usbip\_server.c and the DAP task of DAP\_handle.c as two threads
    that share two ring buffers, a notification count and a response count; \<open>step\<close> interleaves
    them.  A blocked call is a control point at which no step is possible.
  \<^item> \<open>Proxy\<close>: the protocol dispatch of tcp\_server.c and elaphureLink.
  \<^item> \<open>WebSocket\<close>: the frame parser and command server of websocket\_server.c.
    \<open>Upgrade\<close>: the HTTP request in front of it, over C strings, and the worker of the server.
  \<^item> \<open>UartBridge\<close>: the task of uart\_tcp\_bridge.c, one event of its queue at a time.
  \<^item> \<open>CString\<close>, \<open>DlList\<close>: C strings in byte memories; the intrusive list of list.h on a heap of nodes.
  \<^item> \<open>Modules\<close>: registration of URI modules, start-up modules and API modules, the URI comparison of
    web\_server.c and the router of JSON requests.
  \<^item> \<open>WebApi\<close>: the buffer pool (memory\_pool.c), the request tasks (request\_runner.c) and the handlers
    of uri\_api.c, uri\_ws.c and uri\_html\_base.c as one system whose tasks and requests interleave.
  \<^item> \<open>Ssdp\<close>: the discovery service (ssdp.c): announcements, answers to searches, the description.
  \<^item> \<open>Wifi\<close>: wifi\_event\_handler.c and wifi\_manager.c: events of the driver, requests and the manager's
    own tasks as threads of one step relation, each at the call where it waits.
  \<^item> \<open>WifiStorage\<close>: the settings in flash, wt\_nvs.c and wifi\_storage.c.
  \<^item> \<open>JsonApi\<close>: the requests of the web interface from the router to the flash and back
    (wifi\_api\_json.c, wifi\_json\_utils.c, wifi\_api.c, wt\_system), the start of the interfaces.

  \<^bold>\<open>What is shown.\<close>  For the wire: a transfer clocks exactly the frame of the SWD or JTAG
  protocol, the register accesses keep the pins as its events say, reads store what was sampled, both engines send the same bits, and every error
  acknowledge takes its documented path.  For the commands: each keeps the probe well-formed,
  reports the length it wrote, and a batch is the run of its commands.  For the servers: packets
  are run once and answered in order under every interleaving, never split; responses arrive;
  the byte stream and not its segmentation decides what a server does; unmasking is independent
  of alignment and of how a payload is cut; a WebSocket upgrade is answered from its headers
  alone and the worker always returns; the UART bridge forwards bytes in order.  For the web server: buffers have one owner, queued
  requests complete, registration implements insertion into a list.  For Wi-Fi: the manager's mode is
  the driver's, a connect request is answered once, scan results fit, saved settings read back,
  and what a request sets a later request is answered with, and the next start uses.  The remaining
  properties, and lemmas beside them, pin down behaviour that is probably not meant (a deadlock, a
  reset line held low, a lost count after an unlink, a command run too early, a table overrun).

  \<^bold>\<open>Bounds and fuel.\<close>  Loops over requests recurse on their count.  The poll of \<open>SWJ_Pins\<close> has fuel
  \<open>e_fuel\<close>; 15000000 is enough for an RTC that advances by at least one tick per read.  The loop over the frames of one
  receive has one more unit of fuel than bytes received, and \<open>loop_progress\<close> shows that this never
  runs out.  Receive loops end because every non-empty receive shortens the stream.

  \<^bold>\<open>Parameters.\<close>  Hardware (\<open>hw\<close>; the registers of the pins with the laws \<open>gpio_block\<close>, \<open>effect\<close> is
  an instance), uninitialised C locals (\<open>junk\<close>, \<open>e_words\<close>, \<open>e_data\<close>), and the RTOS
  ring buffer (\<open>ring_api\<close> with the laws \<open>byte_ring\<close> of a byte buffer of fixed capacity; \<open>fifo_ring\<close> is
  an instance), the RTOS queue (\<open>queue_api\<close> with the laws \<open>fifo_queue\<close>; \<open>list_queue\<close> is an instance)
  and cJSON (\<open>json_api\<close> for whole documents, \<open>json_lib\<close> with the laws \<open>json_laws\<close> of an object with named
  items; \<open>value_json\<close> is an instance), the flash library (\<open>nvs_api\<close> with the laws \<open>nvs_store\<close> of a typed key-value
  store; \<open>map_nvs\<close> is an instance), the Wi-Fi driver (\<open>driver\<close>, any answer to any call), mbedTLS
  (\<open>crypto\<close>, any digest and encoding), lwIP's
  address functions, and \<open>qsort\<close> (any function that sorts).

  \<^bold>\<open>Not modelled.\<close>  The branches for the ESP8266, which the build does not support; SWO.c and UART.c (compiled out); KCP (third-party, not linked); socket set-up, the set-up of
  the UART, the creation of network interfaces, the LED (compiled out) and mDNS: calls of ESP-IDF
  without logic of their own.
\<close>

end
